(* ===== verification/Apex_Prelude.thy ===== *)
theory Apex_Prelude
  imports Complex_Main
begin

text \<open>
  Shared vocabulary of the ApexScan verification library.

  \<^item> Time. A timezone-aware \<^verbatim>\<open>datetime\<close> is an instant: an \<open>int\<close> counting microseconds
    from 1970-01-01T00:00Z, which is Python's own resolution. A \<^verbatim>\<open>timedelta\<close> is an \<open>int\<close> of
    microseconds, a \<^verbatim>\<open>time\<close> the microseconds since midnight, a \<^verbatim>\<open>date\<close> the number of days since
    1970-01-01 (that is \<^verbatim>\<open>toordinal() - 719163\<close>). An exchange-local \<^verbatim>\<open>datetime\<close> is its wall-clock
    reading in microseconds: Python subtracts, adds and compares datetimes that carry the same
    \<^verbatim>\<open>ZoneInfo\<close> on their wall-clock readings, and so does the model.
  \<^item> Time zones. The contents of the tz database are not part of the repository. A
    \<^verbatim>\<open>ZoneInfo\<close> is a record of the two conversions the code performs.
  \<^item> Prices. \<^verbatim>\<open>Decimal\<close> values that pass the canonical models are finite, compare by numeric
    value and are only compared, never rounded, by the code modelled here: they are \<open>rat\<close>.
  \<^item> Errors. Everything Python raises is a value \<open>Inl\<close> of the sum type \<open>'a res\<close>.
\<close>

named_theorems engine_simps \<open>unfolding rules of the operations of the model\<close>
named_theorems wf_simps \<open>well-formedness predicates of the model's values\<close>

datatype py_error =
    ValueError string
  | ValidationError string
  | RuntimeError string
  | LookupError string
  | TypeError string
  | OSError string
  | Diverges

type_synonym 'a res = "py_error + 'a"
type_synonym instant = int
type_synonym timedelta = int
type_synonym date = int
type_synonym time = int
type_synonym wall = int
type_synonym decimal = rat

section \<open>Results\<close>

definition res_bind :: "'a res \<Rightarrow> ('a \<Rightarrow> 'b res) \<Rightarrow> 'b res" where
  "res_bind m f = (case m of Inl e \<Rightarrow> Inl e | Inr a \<Rightarrow> f a)"

definition is_ok :: "'a res \<Rightarrow> bool" where
  "is_ok r = (case r of Inl _ \<Rightarrow> False | Inr _ \<Rightarrow> True)"

lemma res_bind_simps [simp]:
  "res_bind (Inl e) f = Inl e"
  "res_bind (Inr a) f = f a"
  by (simp_all add: res_bind_def)

lemma is_ok_simps [simp]:
  "\<not> is_ok (Inl e)"
  "is_ok (Inr a)"
  by (simp_all add: is_ok_def)

lemma res_bind_eq_Inr [simp]: "res_bind m f = Inr b \<longleftrightarrow> (\<exists>a. m = Inr a \<and> f a = Inr b)"
  by (cases m) simp_all

lemma is_ok_iff: "is_ok r \<longleftrightarrow> (\<exists>a. r = Inr a)"
  by (cases r) simp_all

section \<open>Calendar arithmetic\<close>

abbreviation DAY :: int where
  "DAY \<equiv> 86400000000"

abbreviation MINUTE :: int where
  "MINUTE \<equiv> 60000000"

definition combine :: "date \<Rightarrow> time \<Rightarrow> wall" where
  "combine d t = d * DAY + t"

definition wall_date :: "wall \<Rightarrow> date" where
  "wall_date w = w div DAY"

definition wall_time :: "wall \<Rightarrow> time" where
  "wall_time w = w mod DAY"

text \<open>\<^verbatim>\<open>date.weekday()\<close>: Monday is 0; 1970-01-01 was a Thursday.\<close>

definition weekday :: "date \<Rightarrow> int" where
  "weekday d = (d + 3) mod 7"

definition is_time :: "time \<Rightarrow> bool" where
  "is_time t \<longleftrightarrow> 0 \<le> t \<and> t < DAY"

lemma wall_date_combine [simp]: "is_time t \<Longrightarrow> wall_date (combine d t) = d"
  by (simp add: wall_date_def combine_def is_time_def)

lemma wall_time_combine [simp]: "is_time t \<Longrightarrow> wall_time (combine d t) = t"
  by (simp add: wall_time_def combine_def is_time_def)

lemma combine_wall [simp]: "combine (wall_date w) (wall_time w) = w"
  by (simp add: combine_def wall_date_def wall_time_def)

lemma is_time_wall_time [simp]: "is_time (wall_time w)"
  by (simp add: is_time_def wall_time_def)

lemma combine_less_iff [simp]: "combine d s < combine d t \<longleftrightarrow> s < t"
  by (simp add: combine_def)

lemma combine_le_iff [simp]: "combine d s \<le> combine d t \<longleftrightarrow> s \<le> t"
  by (simp add: combine_def)

lemma combine_eq_iff [simp]: "combine d s = combine d t \<longleftrightarrow> s = t"
  by (simp add: combine_def)

lemma wall_date_between:
  assumes "is_time s" "is_time t" "combine d s \<le> w" "w \<le> combine d t"
  shows "wall_date w = d"
proof -
  from assms have "0 \<le> w - d * DAY" "w - d * DAY < DAY"
    by (simp_all add: combine_def is_time_def)
  then have "w div DAY = d"
    by (intro int_div_pos_eq [where r = "w - d * DAY"]) simp_all
  then show ?thesis by (simp add: wall_date_def)
qed

lemma le_div_iff_mult_le:
  assumes "0 < b"
  shows "q \<le> a div b \<longleftrightarrow> q * b \<le> (a::int)"
proof
  assume "q \<le> a div b"
  then have "q * b \<le> a div b * b" using assms by simp
  also have "\<dots> = a - a mod b" by (simp add: minus_mod_eq_div_mult)
  also have "\<dots> \<le> a" using assms by simp
  finally show "q * b \<le> a" .
next
  assume "q * b \<le> a"
  then have "q * b div b \<le> a div b" using assms by (intro zdiv_mono1)
  then show "q \<le> a div b" using assms by simp
qed

lemma eq_div_iff_range:
  assumes "0 < b"
  shows "k = a div b \<longleftrightarrow> k * b \<le> a \<and> a < (k + 1) * (b::int)"
proof -
  have "k = a div b \<longleftrightarrow> k \<le> a div b \<and> \<not> k + 1 \<le> a div b" by linarith
  then show ?thesis using le_div_iff_mult_le [OF assms] by (simp add: not_le)
qed

section \<open>Time zones\<close>

record zone =
  to_wall :: "instant \<Rightarrow> wall"
  to_utc :: "wall \<Rightarrow> instant"

text \<open>
  A zone whose offset does not change; \<^verbatim>\<open>Asia/Kolkata\<close>, the exchange timezone the settings
  default to, has been UTC+05:30 without transitions since 1945.
\<close>

definition fixed_zone :: "timedelta \<Rightarrow> zone" where
  "fixed_zone off = \<lparr>to_wall = (\<lambda>t. t + off), to_utc = (\<lambda>w. w - off)\<rparr>"

definition kolkata :: zone where
  "kolkata = fixed_zone 19800000000"

text \<open>
  What the session code relies on: on the trading date at hand the exchange clock runs at one
  offset from UTC (no transition falls on that date).
\<close>

locale steady_day =
  fixes z :: zone and d :: date and off :: timedelta
  assumes to_utc_day: "wall_date w = d \<Longrightarrow> to_utc z w = w - off"
    and to_wall_day: "wall_date (t + off) = d \<Longrightarrow> to_wall z t = t + off"
    and to_wall_only: "wall_date (to_wall z t) = d \<Longrightarrow> to_wall z t = t + off"
begin

lemma utc_wall: "wall_date (to_wall z t) = d \<Longrightarrow> to_utc z (to_wall z t) = t"
  using to_utc_day to_wall_only by fastforce

lemma wall_utc: "wall_date w = d \<Longrightarrow> to_wall z (to_utc z w) = w"
  using to_utc_day to_wall_day by fastforce

lemma to_utc_less:
  "wall_date v = d \<Longrightarrow> wall_date w = d \<Longrightarrow> to_utc z v < to_utc z w \<longleftrightarrow> v < w"
  by (simp add: to_utc_day)

lemma to_utc_le:
  "wall_date v = d \<Longrightarrow> wall_date w = d \<Longrightarrow> to_utc z v \<le> to_utc z w \<longleftrightarrow> v \<le> w"
  by (simp add: to_utc_day)

end

interpretation fixed: steady_day "fixed_zone off" d off for off d
  by unfold_locales (simp_all add: fixed_zone_def)

interpretation kolkata: steady_day kolkata d 19800000000 for d
  unfolding kolkata_def by (rule fixed.steady_day_axioms)

section \<open>Bounded sequences\<close>

text \<open>\<^verbatim>\<open>xs[-n:]\<close> for positive \<open>n\<close>, which is also what \<^verbatim>\<open>deque(xs, maxlen=n)\<close> keeps.\<close>

definition last_n :: "nat \<Rightarrow> 'a list \<Rightarrow> 'a list" where
  "last_n n xs = drop (length xs - n) xs"

text \<open>\<^verbatim>\<open>append\<close> on a \<^verbatim>\<open>deque(maxlen=n)\<close>.\<close>

definition push_bounded :: "nat \<Rightarrow> 'a \<Rightarrow> 'a list \<Rightarrow> 'a list" where
  "push_bounded n x xs = last_n n (xs @ [x])"

lemma length_last_n [simp]: "length (last_n n xs) = min n (length xs)"
  by (simp add: last_n_def min_def)

lemma last_n_all [simp]: "length xs \<le> n \<Longrightarrow> last_n n xs = xs"
  by (simp add: last_n_def)

lemma set_last_n_subset: "set (last_n n xs) \<subseteq> set xs"
  by (simp add: last_n_def set_drop_subset)

lemma set_last_nD: "x \<in> set (last_n n xs) \<Longrightarrow> x \<in> set xs"
  by (rule subsetD [OF set_last_n_subset])

lemma map_last_n: "map f (last_n n xs) = last_n n (map f xs)"
  by (simp add: last_n_def drop_map)

lemma sorted_last_n [simp]: "sorted xs \<Longrightarrow> sorted (last_n n xs)"
  by (simp add: last_n_def sorted_wrt_drop)

lemma last_n_append_one: "0 < n \<Longrightarrow> last_n n (xs @ [x]) = last_n (n - 1) xs @ [x]"
  unfolding last_n_def by (cases "length xs < n") simp_all

lemma length_push_bounded: "length (push_bounded n x xs) = min n (Suc (length xs))"
  by (simp add: push_bounded_def)

lemma length_push_bounded_le [simp]: "length (push_bounded n x xs) \<le> n"
  by (simp add: push_bounded_def)

lemma set_push_boundedD: "y \<in> set (push_bounded n x xs) \<Longrightarrow> y = x \<or> y \<in> set xs"
  unfolding push_bounded_def using set_last_nD by fastforce

lemma last_push_bounded: "0 < n \<Longrightarrow> last (push_bounded n x xs) = x"
  by (simp add: push_bounded_def last_n_append_one)

text \<open>Removing duplicates keeps the last occurrence of each element; the newest ones of the rest.\<close>

lemma remdups_snoc: "remdups (xs @ [x]) = removeAll x (remdups xs) @ [x]"
  by (induction xs) auto

lemma last_n_append: "length ys = n \<Longrightarrow> last_n n (xs @ ys) = ys"
  by (simp add: last_n_def)

lemma tl_last_n: "n \<le> length xs \<Longrightarrow> tl (last_n n xs) = last_n (n - 1) xs"
proof (cases n)
  case (Suc m)
  assume "n \<le> length xs"
  then have "length xs - m = Suc (length xs - n)" using Suc by simp
  then show ?thesis by (simp add: last_n_def Suc drop_Suc drop_tl)
qed (simp add: last_n_def)

lemma last_n_removeAll:
  assumes "n \<le> length xs" "x \<notin> set (last_n n xs)"
  shows "last_n n (removeAll x xs) = last_n n xs"
proof -
  define k where "k = length xs - n"
  have "removeAll x xs = removeAll x (take k xs) @ removeAll x (drop k xs)"
    by (metis append_take_drop_id removeAll_append)
  also have "removeAll x (drop k xs) = drop k xs" using assms(2) by (simp add: last_n_def k_def)
  finally show ?thesis using assms(1) by (simp add: last_n_append k_def) (simp add: last_n_def)
qed

lemma removeAll_last_n:
  assumes "distinct xs" "x \<in> set (last_n n xs)"
  shows "removeAll x (last_n n xs) = last_n (n - 1) (removeAll x xs)"
proof -
  define k where "k = length xs - n"
  have x: "x \<in> set (drop k xs)" using assms(2) by (simp add: last_n_def k_def)
  then have "x \<notin> set (take k xs)" using assms(1) by (metis append_take_drop_id distinct_append disjoint_iff)
  then have eq: "removeAll x xs = take k xs @ removeAll x (drop k xs)"
    by (metis append_take_drop_id removeAll_append removeAll_id)
  have len: "length (removeAll x (drop k xs)) = length (drop k xs) - 1"
    using assms(1) x by (simp add: distinct_remove1_removeAll [symmetric] length_remove1)
  show ?thesis
  proof (cases "n \<le> length xs")
    case True
    then have "length (removeAll x (drop k xs)) = n - 1" using len by (simp add: k_def)
    then show ?thesis by (simp add: eq last_n_append) (simp add: last_n_def k_def)
  next
    case False
    then have "k = 0" by (simp add: k_def)
    with len False show ?thesis by (simp add: last_n_def)
  qed
qed

section \<open>Folds of maxima and minima\<close>

text \<open>\<^verbatim>\<open>max(...)\<close> and \<^verbatim>\<open>min(...)\<close> over a non-empty generator, scanned from the left.\<close>

fun max_of :: "'a::linorder \<Rightarrow> 'a list \<Rightarrow> 'a" where
  "max_of m [] = m"
| "max_of m (x # xs) = max_of (max m x) xs"

fun min_of :: "'a::linorder \<Rightarrow> 'a list \<Rightarrow> 'a" where
  "min_of m [] = m"
| "min_of m (x # xs) = min_of (min m x) xs"

lemma max_of_eq: "max_of m xs = Max (set (m # xs))"
proof (induction xs arbitrary: m)
  case (Cons x xs)
  have "max_of m (x # xs) = Max (insert (max m x) (set xs))"
    using Cons.IH by simp
  also have "\<dots> = Max (insert m (insert x (set xs)))"
    by (cases "xs = []") (simp_all add: max.assoc)
  finally show ?case by simp
qed simp

lemma min_of_eq: "min_of m xs = Min (set (m # xs))"
proof (induction xs arbitrary: m)
  case (Cons x xs)
  have "min_of m (x # xs) = Min (insert (min m x) (set xs))"
    using Cons.IH by simp
  also have "\<dots> = Min (insert m (insert x (set xs)))"
    by (cases "xs = []") (simp_all add: min.assoc)
  finally show ?case by simp
qed simp

lemma max_of_ge: "x \<in> set (m # xs) \<Longrightarrow> x \<le> max_of m xs"
  unfolding max_of_eq by (rule Max_ge) simp_all

lemma min_of_le: "x \<in> set (m # xs) \<Longrightarrow> min_of m xs \<le> x"
  unfolding min_of_eq by (rule Min_le) simp_all

lemma max_of_in: "max_of m xs \<in> set (m # xs)"
  unfolding max_of_eq by (rule Max_in) simp_all

lemma min_of_in: "min_of m xs \<in> set (m # xs)"
  unfolding min_of_eq by (rule Min_in) simp_all

section \<open>Sorting\<close>

lemma sorted_map_sort_key [simp]: "sorted (map f (sort_key f xs))"
  by (rule sorted_sort_key)

lemma set_insort_filter: "set (filter P (sort_key f xs)) = set (filter P xs)"
  by simp

section \<open>Loops that may raise, and grouping\<close>

text \<open>A loop that collects one result per element and stops at the first exception.\<close>

fun map_res :: "('a \<Rightarrow> 'b res) \<Rightarrow> 'a list \<Rightarrow> 'b list res" where
  "map_res f [] = Inr []"
| "map_res f (x # xs) = res_bind (f x) (\<lambda>y. res_bind (map_res f xs) (\<lambda>ys. Inr (y # ys)))"

lemma map_res_Inr:
  "(\<And>x. x \<in> set xs \<Longrightarrow> f x = Inr (g x)) \<Longrightarrow> map_res f xs = Inr (map g xs)"
  by (induction xs) simp_all

lemma map_res_eq_Inr:
  "map_res f xs = Inr ys \<longleftrightarrow> length ys = length xs \<and> (\<forall>k < length xs. f (xs ! k) = Inr (ys ! k))"
proof (induction xs arbitrary: ys)
  case (Cons x xs)
  then show ?case by (cases ys) (auto simp: less_Suc_eq_0_disj)
qed auto

text \<open>
  A \<^verbatim>\<open>defaultdict(list)\<close> filled by one pass that appends each element to the list of its key.
\<close>

definition group_by :: "('a \<Rightarrow> 'k) \<Rightarrow> 'a list \<Rightarrow> 'k \<Rightarrow> 'a list option" where
  "group_by key xs =
     foldl (\<lambda>m x. m(key x \<mapsto> (case m (key x) of None \<Rightarrow> [] | Some ys \<Rightarrow> ys) @ [x])) Map.empty xs"

lemma group_by_eq:
  "group_by key xs k =
     (let ys = filter (\<lambda>x. key x = k) xs in if ys = [] then None else Some ys)"
proof -
  have "foldl (\<lambda>m x. m(key x \<mapsto> (case m (key x) of None \<Rightarrow> [] | Some ys \<Rightarrow> ys) @ [x])) m xs k =
      (let ys = filter (\<lambda>x. key x = k) xs
       in if ys = [] then m k else Some ((case m k of None \<Rightarrow> [] | Some zs \<Rightarrow> zs) @ ys))" for m
    by (induction xs arbitrary: m) (auto simp: Let_def split: option.splits)
  then show ?thesis by (simp add: group_by_def Let_def)
qed

section \<open>Text\<close>

text \<open>\<^verbatim>\<open>str.strip()\<close>, and the test that it leaves nothing.\<close>

definition is_space :: "char \<Rightarrow> bool" where
  "is_space c \<longleftrightarrow> (let n = of_char c :: nat in n = 32 \<or> (9 \<le> n \<and> n \<le> 13) \<or> (28 \<le> n \<and> n \<le> 31))"

definition blank :: "string \<Rightarrow> bool" where
  "blank s \<longleftrightarrow> list_all is_space s"

definition py_strip :: "string \<Rightarrow> string" where
  "py_strip s = rev (dropWhile is_space (rev (dropWhile is_space s)))"

end
