(* ===== verification/Market_Session.thy ===== *)
theory Market_Session
  imports Apex_Prelude
begin

text \<open>
  The deterministic session layer: \<^verbatim>\<open>market_engine/timeframe.py\<close>, \<^verbatim>\<open>market_engine/session.py\<close> and
  \<^verbatim>\<open>market_engine/historical/calendar_window.py\<close>. Timeframes, session schedules, per-date
  overrides, the trading calendar, the classification of an instant into a market phase, and the
  search for previous trading days inside the authoritative calendar coverage.
\<close>

section \<open>Timeframes\<close>

datatype timeframe_kind = INTRADAY | SESSION

datatype timeframe = Timeframe (tf_kind: timeframe_kind) (tf_duration: "timedelta option")

definition mk_timeframe :: "timeframe_kind \<Rightarrow> timedelta option \<Rightarrow> timeframe res" where
  "mk_timeframe k dur =
     (if k = INTRADAY
      then (case dur of
              None \<Rightarrow> Inl (ValueError ''an intraday timeframe requires a strictly positive duration'')
            | Some x \<Rightarrow> (if x \<le> 0
                then Inl (ValueError ''an intraday timeframe requires a strictly positive duration'')
                else Inr (Timeframe k dur)))
      else if dur \<noteq> None then Inl (ValueError ''a session timeframe must not carry a duration'')
      else Inr (Timeframe k dur))"

definition tf_minutes :: "int \<Rightarrow> timeframe res" where
  "tf_minutes count =
     (if count \<le> 0 then Inl (ValueError ''timeframe minutes must be a positive integer'')
      else mk_timeframe INTRADAY (Some (count * MINUTE)))"

definition tf_session :: timeframe where
  "tf_session = Timeframe SESSION None"

definition is_session :: "timeframe \<Rightarrow> bool" where
  "is_session tf \<longleftrightarrow> tf_kind tf = SESSION"

text \<open>\<^verbatim>\<open>str\<close> of a non-negative integer, most significant digit first.\<close>

fun digits_of :: "nat \<Rightarrow> string" where
  "digits_of n =
     (if n < 10 then [char_of (48 + n)] else digits_of (n div 10) @ [char_of (48 + n mod 10)])"

declare digits_of.simps [simp del]

text \<open>\<^verbatim>\<open>int(total_seconds())\<close> truncates; durations of constructed timeframes are positive.\<close>

definition tf_label :: "timeframe \<Rightarrow> string" where
  "tf_label tf =
     (case tf_duration tf of
        None \<Rightarrow> ''session''
      | Some x \<Rightarrow> digits_of (nat (x div 1000000)) @ ''s'')"

definition wf_timeframe :: "timeframe \<Rightarrow> bool" where
  [wf_simps]: "wf_timeframe tf \<longleftrightarrow>
     (case tf_duration tf of None \<Rightarrow> tf_kind tf = SESSION | Some x \<Rightarrow> tf_kind tf = INTRADAY \<and> 0 < x)"

lemma mk_timeframe_iff: "mk_timeframe k dur = Inr tf \<longleftrightarrow> tf = Timeframe k dur \<and> wf_timeframe tf"
  by (cases k; cases dur) (auto simp: mk_timeframe_def wf_simps)

lemma tf_minutes_wf: "tf_minutes n = Inr tf \<Longrightarrow> wf_timeframe tf \<and> tf_duration tf = Some (n * MINUTE)"
  by (auto simp: tf_minutes_def mk_timeframe_iff split: if_splits)

lemma wf_tf_session [simp]: "wf_timeframe tf_session"
  by (simp add: tf_session_def wf_simps)

text \<open>
  The order that \<^verbatim>\<open>@dataclass(order=True)\<close> generates: the kind's string value first
  (\<^verbatim>\<open>"intraday" < "session"\<close>), then the duration.
\<close>

instantiation timeframe_kind :: linorder
begin

definition less_eq_timeframe_kind :: "timeframe_kind \<Rightarrow> timeframe_kind \<Rightarrow> bool" where
  "less_eq_timeframe_kind a b \<longleftrightarrow> a = INTRADAY \<or> b = SESSION"

definition less_timeframe_kind :: "timeframe_kind \<Rightarrow> timeframe_kind \<Rightarrow> bool" where
  "less_timeframe_kind a b \<longleftrightarrow> a = INTRADAY \<and> b = SESSION"

instance
proof
  fix a b c :: timeframe_kind
  show "(a < b) = (a \<le> b \<and> \<not> b \<le> a)" "a \<le> a" "a \<le> b \<or> b \<le> a"
    by (cases a; cases b; simp add: less_eq_timeframe_kind_def less_timeframe_kind_def)+
  show "a \<le> b \<Longrightarrow> b \<le> c \<Longrightarrow> a \<le> c" "a \<le> b \<Longrightarrow> b \<le> a \<Longrightarrow> a = b"
    by (cases a; cases b; cases c; simp add: less_eq_timeframe_kind_def)+
qed

end

section \<open>Sessions\<close>

datatype market_state =
    PRE_OPEN | OPENING_AUCTION | LIVE_SESSION | CLOSING_SESSION | MARKET_CLOSED | HOLIDAY
  | EMERGENCY_HALT | CALENDAR_UNAVAILABLE

record trading_interval =
  iv_start :: time
  iv_end :: time

definition mk_trading_interval :: "time \<Rightarrow> time \<Rightarrow> trading_interval res" where
  "mk_trading_interval s e =
     (if s \<ge> e then Inl (ValueError ''trading interval requires start < end'')
      else Inr \<lparr>iv_start = s, iv_end = e\<rparr>)"

definition wf_interval :: "trading_interval \<Rightarrow> bool" where
  [wf_simps]: "wf_interval iv \<longleftrightarrow> is_time (iv_start iv) \<and> is_time (iv_end iv) \<and> iv_start iv < iv_end iv"

record session_schedule =
  pre_open_start :: time
  opening_auction_start :: time
  regular_open :: time
  regular_close :: time
  closing_end :: time

definition validate_strictly_increasing :: "session_schedule \<Rightarrow> session_schedule res" where
  "validate_strictly_increasing s =
     (let boundaries = [pre_open_start s, opening_auction_start s, regular_open s, regular_close s, closing_end s]
      in if \<not> list_all (\<lambda>(earlier, later). earlier < later) (zip boundaries (tl boundaries))
         then Inl (ValidationError ''session boundaries must be strictly increasing'')
         else Inr s)"

definition phase_for :: "session_schedule \<Rightarrow> time \<Rightarrow> market_state" where
  "phase_for s moment =
     (if moment < pre_open_start s then MARKET_CLOSED
      else if moment < opening_auction_start s then PRE_OPEN
      else if moment < regular_open s then OPENING_AUCTION
      else if moment < regular_close s then LIVE_SESSION
      else if moment < closing_end s then CLOSING_SESSION
      else MARKET_CLOSED)"

definition bounds :: "session_schedule \<Rightarrow> trading_interval" where
  "bounds s = \<lparr>iv_start = regular_open s, iv_end = regular_close s\<rparr>"

text \<open>
  \<open>bounds\<close> constructs a \<^verbatim>\<open>TradingInterval\<close>, whose check cannot fail on a validated schedule
  (lemma \<open>bounds_constructs\<close> below).
\<close>

definition wf_schedule :: "session_schedule \<Rightarrow> bool" where
  [wf_simps]: "wf_schedule s \<longleftrightarrow> is_time (pre_open_start s) \<and> is_time (closing_end s)
     \<and> pre_open_start s < opening_auction_start s \<and> opening_auction_start s < regular_open s
     \<and> regular_open s < regular_close s \<and> regular_close s < closing_end s"

lemma validate_schedule_iff:
  "is_time (pre_open_start s) \<Longrightarrow> is_time (closing_end s) \<Longrightarrow>
     validate_strictly_increasing s = Inr s' \<longleftrightarrow> s' = s \<and> wf_schedule s"
  by (auto simp: validate_strictly_increasing_def wf_simps Let_def)

lemma wf_bounds [simp]: "wf_schedule s \<Longrightarrow> wf_interval (bounds s)"
  by (auto simp: wf_simps bounds_def is_time_def)

lemma bounds_constructs:
  "wf_schedule s \<Longrightarrow> mk_trading_interval (regular_open s) (regular_close s) = Inr (bounds s)"
  by (simp add: mk_trading_interval_def bounds_def wf_simps)

lemma phase_live_iff:
  "wf_schedule s \<Longrightarrow>
     phase_for s m = LIVE_SESSION \<longleftrightarrow> iv_start (bounds s) \<le> m \<and> m < iv_end (bounds s)"
  by (auto simp: phase_for_def bounds_def wf_simps)

section \<open>Per-date overrides\<close>

record trading_session_override =
  ov_trading_date :: date
  ov_live_intervals :: "trading_interval list"

definition intervals_gapped :: "trading_interval list \<Rightarrow> bool" where
  "intervals_gapped ivs \<longleftrightarrow>
     list_all (\<lambda>(earlier, later). iv_end earlier < iv_start later) (zip ivs (tl ivs))"

definition mk_override :: "date \<Rightarrow> trading_interval list \<Rightarrow> trading_session_override res" where
  "mk_override d ivs =
     (if ivs = [] then Inl (ValueError ''session override requires at least one live interval'')
      else if \<not> intervals_gapped ivs
      then Inl (ValueError ''live_intervals must be chronologically ordered, non-overlapping, and separated by a strictly positive gap'')
      else Inr \<lparr>ov_trading_date = d, ov_live_intervals = ivs\<rparr>)"

definition override_continuous :: "date \<Rightarrow> time \<Rightarrow> time \<Rightarrow> trading_session_override res" where
  "override_continuous d s e = res_bind (mk_trading_interval s e) (\<lambda>iv. mk_override d [iv])"

record effective_schedule =
  eff_default :: session_schedule
  eff_overrides :: "date \<Rightarrow> trading_session_override option"

fun collect_overrides ::
  "(date \<Rightarrow> trading_session_override option) \<Rightarrow> trading_session_override list \<Rightarrow>
   (date \<Rightarrow> trading_session_override option) res" where
  "collect_overrides by_date [] = Inr by_date"
| "collect_overrides by_date (ov # ovs) =
     (if by_date (ov_trading_date ov) \<noteq> None
      then Inl (ValueError ''duplicate session override for trading date'')
      else collect_overrides (by_date(ov_trading_date ov \<mapsto> ov)) ovs)"

definition mk_effective_schedule ::
  "session_schedule \<Rightarrow> trading_session_override list \<Rightarrow> effective_schedule res" where
  "mk_effective_schedule dflt ovs =
     res_bind (collect_overrides Map.empty ovs) (\<lambda>m. Inr \<lparr>eff_default = dflt, eff_overrides = m\<rparr>)"

definition has_override :: "effective_schedule \<Rightarrow> date \<Rightarrow> bool" where
  "has_override e d \<longleftrightarrow> eff_overrides e d \<noteq> None"

definition intervals_for :: "effective_schedule \<Rightarrow> date \<Rightarrow> trading_interval list" where
  "intervals_for e d =
     (case eff_overrides e d of
        Some ov \<Rightarrow> ov_live_intervals ov
      | None \<Rightarrow> [bounds (eff_default e)])"

definition envelope_for :: "effective_schedule \<Rightarrow> date \<Rightarrow> trading_interval" where
  "envelope_for e d =
     (case eff_overrides e d of
        None \<Rightarrow> bounds (eff_default e)
      | Some ov \<Rightarrow> \<lparr>iv_start = iv_start (hd (ov_live_intervals ov)),
                   iv_end = iv_end (last (ov_live_intervals ov))\<rparr>)"

section \<open>The trading calendar\<close>

record trading_calendar =
  closed_dates :: "date set"
  open_sessions :: "date set"
  weekend_days :: "int set"

definition mk_trading_calendar ::
  "date set \<Rightarrow> date set \<Rightarrow> date set \<Rightarrow> int set \<Rightarrow> trading_calendar res" where
  "mk_trading_calendar holidays closures opens weekend =
     (if (holidays \<union> closures) \<inter> opens \<noteq> {}
      then Inl (ValueError ''dates cannot be both open and closed'')
      else Inr \<lparr>closed_dates = holidays \<union> closures, open_sessions = opens, weekend_days = weekend\<rparr>)"

definition is_trading_day :: "trading_calendar \<Rightarrow> date \<Rightarrow> bool" where
  "is_trading_day cal d =
     (if d \<in> open_sessions cal then True
      else if weekday d \<in> weekend_days cal then False
      else d \<notin> closed_dates cal)"

record calendar_coverage =
  cov_start :: date
  cov_end :: date

definition mk_calendar_coverage :: "date \<Rightarrow> date \<Rightarrow> calendar_coverage res" where
  "mk_calendar_coverage s e =
     (if e < s then Inl (ValueError ''calendar coverage end date must not precede its start date'')
      else Inr \<lparr>cov_start = s, cov_end = e\<rparr>)"

definition cov_contains :: "calendar_coverage \<Rightarrow> date \<Rightarrow> bool" where
  "cov_contains c d \<longleftrightarrow> cov_start c \<le> d \<and> d \<le> cov_end c"

text \<open>
  \<^verbatim>\<open>HistoricalCalendarWindow.previous_trading_day\<close>: the loop walks back one day at a time while the
  cursor is covered, and raises \<^verbatim>\<open>OutsideCalendarCoverageError\<close> when it leaves the coverage.
\<close>

function prev_day_loop :: "trading_calendar \<Rightarrow> calendar_coverage \<Rightarrow> date \<Rightarrow> date res" where
  "prev_day_loop cal cov cursor =
     (if cov_contains cov cursor
      then (if is_trading_day cal cursor then Inr cursor else prev_day_loop cal cov (cursor - 1))
      else Inl (LookupError ''OutsideCalendarCoverageError''))"
  by pat_completeness auto
termination
  by (relation "measure (\<lambda>(cal, cov, cursor). nat (cursor + 1 - cov_start cov))")
    (auto simp: cov_contains_def)

declare prev_day_loop.simps [simp del]

definition previous_trading_day :: "trading_calendar \<Rightarrow> calendar_coverage \<Rightarrow> date \<Rightarrow> date res" where
  "previous_trading_day cal cov reference = prev_day_loop cal cov (reference - 1)"

text \<open>The counted loop of \<^verbatim>\<open>previous_trading_days\<close>; \<open>collected\<close> grows newest first.\<close>

fun prev_days_loop ::
  "trading_calendar \<Rightarrow> calendar_coverage \<Rightarrow> nat \<Rightarrow> date \<Rightarrow> date list \<Rightarrow> date list res" where
  "prev_days_loop cal cov 0 cursor collected = Inr collected"
| "prev_days_loop cal cov (Suc n) cursor collected =
     res_bind (previous_trading_day cal cov cursor) (\<lambda>d.
       prev_days_loop cal cov n d (collected @ [d]))"

definition previous_trading_days ::
  "trading_calendar \<Rightarrow> calendar_coverage \<Rightarrow> date \<Rightarrow> int \<Rightarrow> date list res" where
  "previous_trading_days cal cov reference count =
     (if count < 1 then Inl (ValueError ''count must be a positive integer'')
      else res_bind (prev_days_loop cal cov (nat count) reference []) (\<lambda>collected. Inr (rev collected)))"

section \<open>Classification of an instant\<close>

record session_context =
  sc_trading_date :: date
  sc_market_state :: market_state
  sc_exchange_timezone :: string

record session_classifier =
  cl_schedule :: session_schedule
  cl_calendar :: trading_calendar
  cl_timezone_name :: string
  cl_timezone :: zone
  cl_coverage :: "calendar_coverage option"

definition state_for :: "session_classifier \<Rightarrow> date \<Rightarrow> time \<Rightarrow> bool \<Rightarrow> market_state" where
  "state_for cl d local_time halt_active =
     (if (\<exists>cov. cl_coverage cl = Some cov \<and> \<not> cov_contains cov d) then CALENDAR_UNAVAILABLE
      else if \<not> is_trading_day (cl_calendar cl) d then HOLIDAY
      else if halt_active then EMERGENCY_HALT
      else phase_for (cl_schedule cl) local_time)"

definition classify_session :: "session_classifier \<Rightarrow> instant \<Rightarrow> bool \<Rightarrow> session_context" where
  "classify_session cl t halt_active =
     (let local = to_wall (cl_timezone cl) t; trading_date = wall_date local
      in \<lparr>sc_trading_date = trading_date,
          sc_market_state = state_for cl trading_date (wall_time local) halt_active,
          sc_exchange_timezone = cl_timezone_name cl\<rparr>)"

section \<open>Previous trading days: correctness of the search\<close>

lemma prev_day_loop_Inr:
  "prev_day_loop cal cov c = Inr d \<longleftrightarrow>
     d \<le> c \<and> is_trading_day cal d \<and> cov_contains cov d \<and> cov_contains cov c
     \<and> (\<forall>x. d < x \<and> x \<le> c \<longrightarrow> \<not> is_trading_day cal x)"
proof (induction cal cov c rule: prev_day_loop.induct)
  case (1 cal cov c)
  show ?case
  proof (cases "cov_contains cov c \<and> \<not> is_trading_day cal c")
    case True
    then have step: "prev_day_loop cal cov c = prev_day_loop cal cov (c - 1)"
      by (subst prev_day_loop.simps) simp
    have IH: "prev_day_loop cal cov (c - 1) = Inr d \<longleftrightarrow>
        d \<le> c - 1 \<and> is_trading_day cal d \<and> cov_contains cov d \<and> cov_contains cov (c - 1)
        \<and> (\<forall>x. d < x \<and> x \<le> c - 1 \<longrightarrow> \<not> is_trading_day cal x)"
      using True "1.IH" by blast
    have ne: "x \<noteq> c" if "is_trading_day cal x" for x
      using True that by blast
    have split: "(\<forall>x. d < x \<and> x \<le> c \<longrightarrow> \<not> is_trading_day cal x) \<longleftrightarrow>
        (\<forall>x. d < x \<and> x \<le> c - 1 \<longrightarrow> \<not> is_trading_day cal x)"
      using ne by force
    have le: "d \<le> c \<and> is_trading_day cal d \<longleftrightarrow> d \<le> c - 1 \<and> is_trading_day cal d"
      using ne [of d] by force
    have "cov_contains cov (c - 1)" if "d \<le> c - 1" "cov_contains cov d"
      using True that by (simp add: cov_contains_def)
    with le True show ?thesis
      unfolding step IH split by blast
  next
    case False
    have "d = c" if "d \<le> c" "is_trading_day cal c" "\<forall>x. d < x \<and> x \<le> c \<longrightarrow> \<not> is_trading_day cal x"
      using that by (cases "d < c") auto
    with False show ?thesis
      by (subst prev_day_loop.simps) auto
  qed
qed

lemma previous_trading_day_iff:
  "previous_trading_day cal cov r = Inr d \<longleftrightarrow>
     d < r \<and> is_trading_day cal d \<and> cov_contains cov d \<and> cov_contains cov (r - 1)
     \<and> (\<forall>x. d < x \<and> x < r \<longrightarrow> \<not> is_trading_day cal x)"
  by (simp add: previous_trading_day_def prev_day_loop_Inr)

lemma prev_days_loop_spec:
  "prev_days_loop cal cov n r acc = Inr ds \<Longrightarrow>
     \<exists>new. ds = acc @ new \<and> length new = n \<and> sorted_wrt (>) (r # new)
       \<and> (\<forall>x \<in> set new. is_trading_day cal x \<and> cov_contains cov x)
       \<and> (\<forall>x y. y \<in> set new \<longrightarrow> y \<le> x \<longrightarrow> x < r \<longrightarrow> is_trading_day cal x \<longrightarrow> x \<in> set new)"
proof (induction n arbitrary: r acc)
  case 0
  then show ?case by simp
next
  case (Suc n)
  then obtain d where d: "previous_trading_day cal cov r = Inr d"
    and rest: "prev_days_loop cal cov n d (acc @ [d]) = Inr ds" by auto
  from Suc.IH [OF rest] obtain new where new: "ds = (acc @ [d]) @ new" "length new = n"
    "sorted_wrt (>) (d # new)" "\<forall>x \<in> set new. is_trading_day cal x \<and> cov_contains cov x"
    "\<And>x y. y \<in> set new \<Longrightarrow> y \<le> x \<Longrightarrow> x < d \<Longrightarrow> is_trading_day cal x \<Longrightarrow> x \<in> set new" by blast
  from d have dd: "d < r" "is_trading_day cal d" "cov_contains cov d"
    "\<And>x. d < x \<Longrightarrow> x < r \<Longrightarrow> \<not> is_trading_day cal x"
    by (auto simp: previous_trading_day_iff)
  have below: "y < d" if "y \<in> set new" for y using new(3) that by simp
  have "x \<in> set (d # new)" if "y \<in> set (d # new)" "y \<le> x" "x < r" "is_trading_day cal x" for x y
    using that new(5) [of y x] dd(4) [of x] by (cases x d rule: linorder_cases) auto
  moreover have "sorted_wrt (>) (r # d # new)" using new(3) dd(1) below by force
  ultimately show ?case
    using new(1,2,4) dd(2,3) by (intro exI [of _ "d # new"]) simp
qed

text \<open>
  The search ends with an error only when no covered trading day separates the reference from
  the start of the coverage, so a calendar that has one always yields a day.
\<close>

lemma previous_trading_day_total:
  assumes "cov_contains cov (r - 1)" "cov_start cov \<le> x" "x < r" "is_trading_day cal x"
  shows "\<exists>d. previous_trading_day cal cov r = Inr d \<and> x \<le> d"
proof -
  have "\<exists>d. prev_day_loop cal cov c = Inr d \<and> x \<le> d"
    if "cov_contains cov c" "x \<le> c" for c
    using that
  proof (induction "nat (c - x)" arbitrary: c)
    case 0
    then have "c = x" by simp
    with 0 assms(4) show ?case by (subst prev_day_loop.simps) simp
  next
    case (Suc n)
    show ?case
    proof (cases "is_trading_day cal c")
      case True
      with Suc.prems show ?thesis by (subst prev_day_loop.simps) simp
    next
      case False
      with assms(4) Suc.prems have "x < c" by (cases "x = c") simp_all
      with Suc.hyps(2) Suc.prems assms(2) have "n = nat (c - 1 - x)" "cov_contains cov (c - 1)" "x \<le> c - 1"
        by (simp_all add: cov_contains_def)
      from Suc.hyps(1) [OF this] False Suc.prems(1) show ?thesis
        by (subst prev_day_loop.simps) simp
    qed
  qed
  from this [of "r - 1"] assms show ?thesis by (simp add: previous_trading_day_def)
qed

section \<open>Previous trading days: the reference definition\<close>

text \<open>The covered trading days before a reference date, oldest first.\<close>

definition days_before :: "trading_calendar \<Rightarrow> calendar_coverage \<Rightarrow> date \<Rightarrow> date list" where
  "days_before cal cov r = filter (is_trading_day cal) [cov_start cov .. r - 1]"

lemma days_before_snoc:
  assumes "previous_trading_day cal cov r = Inr d"
  shows "days_before cal cov r = days_before cal cov d @ [d]"
proof -
  from assms have d: "d < r" "is_trading_day cal d" "cov_start cov \<le> d"
    and gap: "\<forall>x. d < x \<and> x < r \<longrightarrow> \<not> is_trading_day cal x"
    by (auto simp: previous_trading_day_iff cov_contains_def)
  have "[cov_start cov .. r - 1] = [cov_start cov .. d - 1] @ d # [d + 1 .. r - 1]"
    using d upto_split3 [of "cov_start cov" d "r - 1"] by simp
  moreover have "filter (is_trading_day cal) [d + 1 .. r - 1] = []"
    using gap by (auto simp: filter_empty_conv)
  ultimately show ?thesis using d(2) by (simp add: days_before_def)
qed

lemma previous_trading_day_error:
  "previous_trading_day cal cov r = Inl e \<Longrightarrow> e = LookupError ''OutsideCalendarCoverageError''"
proof -
  have "prev_day_loop cal cov c = Inl e \<Longrightarrow> e = LookupError ''OutsideCalendarCoverageError''" for c
  proof (induction cal cov c rule: prev_day_loop.induct)
    case (1 cal cov c)
    then show ?case by (subst (asm) (2) prev_day_loop.simps) (auto split: if_splits)
  qed
  then show "previous_trading_day cal cov r = Inl e \<Longrightarrow> ?thesis" by (simp add: previous_trading_day_def)
qed

lemma previous_trading_day_fails:
  assumes "cov_contains cov (r - 1)" "previous_trading_day cal cov r = Inl e"
  shows "days_before cal cov r = []"
  using previous_trading_day_total [OF assms(1), of _ cal] assms(2)
  by (force simp: days_before_def filter_empty_conv)

lemma prev_days_loop_exact:
  assumes "n = 0 \<or> cov_contains cov (r - 1)" "r - 1 \<le> cov_end cov"
  shows "prev_days_loop cal cov n r acc =
    (if n \<le> length (days_before cal cov r) then Inr (acc @ take n (rev (days_before cal cov r)))
     else Inl (LookupError ''OutsideCalendarCoverageError''))"
  using assms
proof (induction n arbitrary: r acc)
  case (Suc n)
  then have c: "cov_contains cov (r - 1)" by simp
  show ?case
  proof (cases "previous_trading_day cal cov r")
    case (Inl e)
    then show ?thesis
      using previous_trading_day_fails [OF c Inl] previous_trading_day_error [OF Inl] by simp
  next
    case (Inr d)
    then have d: "d < r" "cov_start cov \<le> d" by (auto simp: previous_trading_day_iff cov_contains_def)
    have snoc: "days_before cal cov r = days_before cal cov d @ [d]" using Inr by (rule days_before_snoc)
    have step: "prev_days_loop cal cov (Suc n) r acc = prev_days_loop cal cov n d (acc @ [d])" using Inr by simp
    show ?thesis
    proof (cases "n = 0 \<or> cov_start cov < d")
      case True
      with d Suc.prems have "n = 0 \<or> cov_contains cov (d - 1)" "d - 1 \<le> cov_end cov" by (auto simp: cov_contains_def)
      from Suc.IH [OF this] show ?thesis by (simp only: step snoc) simp
    next
      case False
      then have "days_before cal cov d = []" "\<not> cov_contains cov (d - 1)"
        using d by (auto simp: days_before_def cov_contains_def)
      moreover obtain m where "n = Suc m" using False by (cases n) simp_all
      moreover have "previous_trading_day cal cov d = Inl (LookupError ''OutsideCalendarCoverageError'')"
        using \<open>\<not> cov_contains cov (d - 1)\<close> by (simp add: previous_trading_day_def prev_day_loop.simps)
      ultimately show ?thesis using Inr by (simp add: snoc)
    qed
  qed
qed simp

text \<open>
  The backward search agrees with its reference definition in every case: a non-positive count
  is a ValueError; otherwise, when the day before the reference is covered and enough covered
  trading days precede the reference, the result is exactly the last \<open>count\<close> of them, oldest
  first, and in every other case the search leaves the calendar coverage and raises.
\<close>

lemma previous_trading_days_exact:
  "previous_trading_days cal cov r count =
    (if count < 1 then Inl (ValueError ''count must be a positive integer'')
     else if cov_contains cov (r - 1) \<and> nat count \<le> length (days_before cal cov r)
     then Inr (last_n (nat count) (days_before cal cov r))
     else Inl (LookupError ''OutsideCalendarCoverageError''))"
proof (cases "cov_contains cov (r - 1)")
  case True
  then have "r - 1 \<le> cov_end cov" by (simp add: cov_contains_def)
  from prev_days_loop_exact [OF _ this, of "nat count" cal "[]"] True show ?thesis
    by (simp add: previous_trading_days_def last_n_def take_rev)
next
  case False
  then have "previous_trading_day cal cov r = Inl (LookupError ''OutsideCalendarCoverageError'')"
    by (simp add: previous_trading_day_def prev_day_loop.simps)
  with False show ?thesis
    by (cases "nat count") (simp_all add: previous_trading_days_def)
qed

section \<open>The default exchange hours\<close>

definition nse_schedule :: session_schedule where
  "nse_schedule = \<lparr>pre_open_start = 540 * MINUTE, opening_auction_start = 548 * MINUTE,
     regular_open = 555 * MINUTE, regular_close = 930 * MINUTE, closing_end = 940 * MINUTE\<rparr>"

definition one_minute :: timeframe where
  "one_minute = Timeframe INTRADAY (Some MINUTE)"

definition five_minutes :: timeframe where
  "five_minutes = Timeframe INTRADAY (Some (5 * MINUTE))"

lemma wf_nse_schedule: "wf_schedule nse_schedule"
  by (simp add: nse_schedule_def wf_simps is_time_def)

text \<open>The regular calendar: closed on Saturdays and Sundays, no holidays.\<close>

definition weekday_calendar :: trading_calendar where
  "weekday_calendar = \<lparr>closed_dates = {}, open_sessions = {}, weekend_days = {5, 6}\<rparr>"

definition nse_classifier :: session_classifier where
  "nse_classifier = \<lparr>cl_schedule = nse_schedule, cl_calendar = weekday_calendar, cl_timezone_name = ''Asia/Kolkata'',
     cl_timezone = kolkata, cl_coverage = Some \<lparr>cov_start = 19900, cov_end = 20100\<rparr>\<rparr>"

section \<open>Classification: the live phase\<close>

text \<open>
  An instant is classified as the live session exactly when its exchange-local date is inside
  the authoritative coverage (if one is configured) and is a trading day, no emergency halt is
  reported, and the exchange clock reads a time from the regular open up to, but excluding, the
  regular close; the trading date is always the exchange-local date.
\<close>

lemma live_session_exact:
  assumes "wf_schedule (cl_schedule cl)"
  shows "sc_trading_date (classify_session cl t halt) = wall_date (to_wall (cl_timezone cl) t)
    \<and> (sc_market_state (classify_session cl t halt) = LIVE_SESSION \<longleftrightarrow>
         (\<forall>cov. cl_coverage cl = Some cov \<longrightarrow> cov_contains cov (wall_date (to_wall (cl_timezone cl) t)))
         \<and> is_trading_day (cl_calendar cl) (wall_date (to_wall (cl_timezone cl) t))
         \<and> \<not> halt
         \<and> iv_start (bounds (cl_schedule cl)) \<le> wall_time (to_wall (cl_timezone cl) t)
         \<and> wall_time (to_wall (cl_timezone cl) t) < iv_end (bounds (cl_schedule cl)))"
  using phase_live_iff [OF assms] by (auto simp: classify_session_def state_for_def Let_def)

lemma live_session_exact_example:
  "sc_market_state (classify_session nse_classifier 1728013500000000 False) = LIVE_SESSION"
proof -
  have "wf_schedule (cl_schedule nse_classifier)" by (simp add: nse_classifier_def wf_nse_schedule)
  from live_session_exact [OF this, of 1728013500000000 False] show ?thesis
    by (simp add: nse_classifier_def nse_schedule_def weekday_calendar_def bounds_def is_trading_day_def weekday_def
        wall_date_def wall_time_def kolkata_def fixed_zone_def cov_contains_def)
qed

end
