(* ===== verification/Buckets.thy ===== *)
theory Buckets
  imports Market_Session
begin

text \<open>
  The session-relative bucket algorithm of \<^verbatim>\<open>market_engine/buckets.py\<close>, shared by the live candle
  engine and the historical reconstruction: location of one instant, enumeration of the buckets
  of one live interval, enumeration over the disjoint intervals of a whole day. All wall-clock
  values of one call carry the same \<^verbatim>\<open>ZoneInfo\<close>, so differences and comparisons are on wall-clock
  readings and only the results are converted to UTC.
\<close>

type_synonym bucket_span = "int \<times> instant \<times> instant"

definition bucket_bounds ::
  "instant \<Rightarrow> date \<Rightarrow> timeframe \<Rightarrow> trading_interval \<Rightarrow> zone \<Rightarrow> bucket_span" where
  "bucket_bounds event_timestamp trading_date tf interval z =
     (let open_local = combine trading_date (iv_start interval);
          close_local = combine trading_date (iv_end interval)
      in case tf_duration tf of
           None \<Rightarrow> (0, to_utc z open_local, to_utc z close_local)
         | Some duration \<Rightarrow>
             (let local = to_wall z event_timestamp;
                  index = (local - open_local) div duration;
                  start_local = open_local + index * duration;
                  end_local = min (start_local + duration) close_local
              in (index, to_utc z start_local, to_utc z end_local)))"

text \<open>
  The enumeration loop. It returns \<open>None\<close> exactly where the Python loop would not return: the
  cursor is before the close and the duration is not positive, which the constructor of
  \<^verbatim>\<open>Timeframe\<close> excludes.
\<close>

function bucket_loop ::
  "timedelta \<Rightarrow> zone \<Rightarrow> wall \<Rightarrow> int \<Rightarrow> wall \<Rightarrow> bucket_span list option" where
  "bucket_loop duration z close_local index cursor =
     (if cursor < close_local
      then if duration \<le> 0 then None
           else map_option (\<lambda>rest.
             (index, to_utc z cursor, to_utc z (min (cursor + duration) close_local)) # rest)
             (bucket_loop duration z close_local (index + 1) (cursor + duration))
      else Some [])"
  by pat_completeness auto
termination
  by (relation "measure (\<lambda>(duration, z, close_local, index, cursor). nat (close_local - cursor))") auto

declare bucket_loop.simps [simp del]

definition session_buckets ::
  "date \<Rightarrow> timeframe \<Rightarrow> trading_interval \<Rightarrow> zone \<Rightarrow> bucket_span list option" where
  "session_buckets trading_date tf interval z =
     (let open_local = combine trading_date (iv_start interval);
          close_local = combine trading_date (iv_end interval)
      in case tf_duration tf of
           None \<Rightarrow> Some [(0, to_utc z open_local, to_utc z close_local)]
         | Some duration \<Rightarrow> bucket_loop duration z close_local 0 open_local)"

fun day_bucket_loop ::
  "date \<Rightarrow> timeframe \<Rightarrow> zone \<Rightarrow> int \<Rightarrow> trading_interval list \<Rightarrow> bucket_span list option" where
  "day_bucket_loop d tf z index [] = Some []"
| "day_bucket_loop d tf z index (iv # ivs) =
     Option.bind (session_buckets d tf iv z) (\<lambda>bs.
       map_option (append (map (\<lambda>(k, _, s, e). (index + int k, s, e)) (enumerate 0 bs)))
         (day_bucket_loop d tf z (index + int (length bs)) ivs))"

definition day_buckets ::
  "date \<Rightarrow> timeframe \<Rightarrow> trading_interval list \<Rightarrow> zone \<Rightarrow> bucket_span list option" where
  "day_buckets d tf ivs z = day_bucket_loop d tf z 0 ivs"

section \<open>The enumeration terminates and partitions the interval\<close>

definition bucket_at :: "timedelta \<Rightarrow> zone \<Rightarrow> wall \<Rightarrow> wall \<Rightarrow> int \<Rightarrow> bucket_span" where
  "bucket_at duration z open_local close_local k =
     (k, to_utc z (open_local + k * duration),
         to_utc z (min (open_local + (k + 1) * duration) close_local))"

definition bucket_count :: "timedelta \<Rightarrow> wall \<Rightarrow> wall \<Rightarrow> int" where
  "bucket_count duration open_local close_local = (close_local - open_local + duration - 1) div duration"

lemma bucket_count_pos:
  assumes "0 < duration" "o' < c"
  shows "0 < bucket_count duration o' c"
  using assms by (simp add: bucket_count_def pos_imp_zdiv_pos_iff)

lemma less_bucket_count_iff:
  assumes "0 < duration" "0 \<le> k"
  shows "k < bucket_count duration o' c \<longleftrightarrow> o' + k * duration < c"
proof -
  have "k < bucket_count duration o' c \<longleftrightarrow> k + 1 \<le> (c - o' + duration - 1) div duration"
    by (simp only: bucket_count_def add1_zle_eq)
  also have "\<dots> \<longleftrightarrow> (k + 1) * duration \<le> c - o' + duration - 1"
    using assms(1) by (rule le_div_iff_mult_le)
  also have "\<dots> \<longleftrightarrow> o' + k * duration < c"
    by (auto simp: algebra_simps)
  finally show ?thesis .
qed

lemma bucket_loop_eq:
  assumes "0 < duration" "0 \<le> index" "cursor = o' + index * duration"
  shows "bucket_loop duration z c index cursor =
    Some (map (bucket_at duration z o' c) [index .. bucket_count duration o' c - 1])"
  using assms
proof (induction duration z c index cursor rule: bucket_loop.induct)
  case (1 duration z c index cursor)
  show ?case
  proof (cases "cursor < c")
    case True
    then have le: "index \<le> bucket_count duration o' c - 1"
      using less_bucket_count_iff [OF "1.prems"(1,2), of o' c] "1.prems"(3) by simp
    have step: "bucket_loop duration z c (index + 1) (cursor + duration) =
        Some (map (bucket_at duration z o' c) [index + 1 .. bucket_count duration o' c - 1])"
      using True "1.prems" by (intro "1.IH") (simp_all add: algebra_simps)
    have head: "bucket_at duration z o' c index = (index, to_utc z cursor, to_utc z (min (cursor + duration) c))"
      by (simp add: bucket_at_def "1.prems"(3) algebra_simps)
    show ?thesis
      using True "1.prems"(1) step head upto_rec1 [OF le]
      by (subst bucket_loop.simps) simp
  next
    case False
    then have "bucket_count duration o' c \<le> index"
      using less_bucket_count_iff [OF "1.prems"(1,2), of o' c] "1.prems"(3) by simp
    with False show ?thesis
      by (subst bucket_loop.simps) simp
  qed
qed

lemma session_buckets_intraday:
  assumes "tf_duration tf = Some duration" "0 < duration"
  shows "session_buckets d tf iv z =
    (let o' = combine d (iv_start iv); c = combine d (iv_end iv)
     in Some (map (bucket_at duration z o' c) [0 .. bucket_count duration o' c - 1]))"
  using assms bucket_loop_eq [of duration 0 "combine d (iv_start iv)" "combine d (iv_start iv)"]
  by (simp add: session_buckets_def Let_def)

lemma session_buckets_member:
  assumes "tf_duration tf = Some duration" "0 < duration"
    and "bucket_at duration z (combine d (iv_start iv)) (combine d (iv_end iv)) k = b"
    and "0 \<le> k" "k < bucket_count duration (combine d (iv_start iv)) (combine d (iv_end iv))"
  shows "\<exists>bs. session_buckets d tf iv z = Some bs \<and> b \<in> set bs"
  using assms by (auto simp: session_buckets_intraday [OF assms(1,2)] Let_def)

lemma session_buckets_session:
  "tf_duration tf = None \<Longrightarrow> session_buckets d tf iv z =
     Some [(0, to_utc z (combine d (iv_start iv)), to_utc z (combine d (iv_end iv)))]"
  by (simp add: session_buckets_def)

text \<open>The enumeration returns for every timeframe the constructor accepts.\<close>

lemma session_buckets_returns: "wf_timeframe tf \<Longrightarrow> \<exists>bs. session_buckets d tf iv z = Some bs"
  by (cases "tf_duration tf") (auto simp: wf_simps session_buckets_session session_buckets_intraday Let_def)

lemma bucket_bounds_eq:
  assumes "tf_duration tf = Some duration"
  shows "bucket_bounds t d tf iv z =
    bucket_at duration z (combine d (iv_start iv)) (combine d (iv_end iv))
      ((to_wall z t - combine d (iv_start iv)) div duration)"
  using assms by (simp add: bucket_bounds_def bucket_at_def Let_def algebra_simps)

section \<open>Buckets on a day without clock transitions\<close>

definition spans :: "bucket_span \<Rightarrow> instant \<Rightarrow> bool" where
  "spans b t = (case b of (_, s, e) \<Rightarrow> s \<le> t \<and> t < e)"

definition in_interval :: "zone \<Rightarrow> date \<Rightarrow> trading_interval \<Rightarrow> instant \<Rightarrow> bool" where
  "in_interval z d iv t \<longleftrightarrow> wall_date (to_wall z t) = d
     \<and> iv_start iv \<le> wall_time (to_wall z t) \<and> wall_time (to_wall z t) < iv_end iv"

lemma in_interval_wall:
  "in_interval z d iv t \<Longrightarrow> combine d (iv_start iv) \<le> to_wall z t \<and> to_wall z t < combine d (iv_end iv)"
  unfolding in_interval_def by (metis combine_le_iff combine_less_iff combine_wall)

context steady_day
begin

lemma bucket_at_utc:
  assumes "wf_interval iv" "0 < duration" "0 \<le> k" "k < bucket_count duration o' c"
    "o' = combine d (iv_start iv)" "c = combine d (iv_end iv)"
  shows "bucket_at duration z o' c k = (k, o' + k * duration - off, min (o' + (k + 1) * duration) c - off)"
proof -
  have k: "o' + k * duration < c" using assms less_bucket_count_iff by blast
  have times: "is_time (iv_start iv)" "is_time (iv_end iv)" using assms(1) by (simp_all add: wf_simps)
  have ge: "o' \<le> o' + k * duration" "o' \<le> o' + (k + 1) * duration" using assms(2,3) by simp_all
  have "wall_date (o' + k * duration) = d"
    using ge(1) k times unfolding assms(5,6) by (intro wall_date_between [of "iv_start iv" "iv_end iv"]) simp_all
  moreover have "wall_date (min (o' + (k + 1) * duration) c) = d"
    using ge times assms(1) unfolding assms(5,6)
    by (intro wall_date_between [of "iv_start iv" "iv_end iv"]) (simp_all add: wf_simps)
  ultimately show ?thesis by (simp add: bucket_at_def to_utc_day)
qed

lemma bucket_at_spans_iff:
  assumes "wf_interval iv" "0 < duration" "0 \<le> k" "k < bucket_count duration o' c"
    "o' = combine d (iv_start iv)" "c = combine d (iv_end iv)" "in_interval z d iv t"
  shows "spans (bucket_at duration z o' c k) t \<longleftrightarrow> k = (to_wall z t - o') div duration"
proof -
  have t: "to_wall z t = t + off" using assms(7) to_wall_only by (simp add: in_interval_def)
  have w: "o' \<le> to_wall z t" "to_wall z t < c" using in_interval_wall [OF assms(7)] assms(5,6) by simp_all
  have "spans (bucket_at duration z o' c k) t \<longleftrightarrow>
      k * duration \<le> to_wall z t - o' \<and> to_wall z t - o' < (k + 1) * duration"
    using w unfolding bucket_at_utc [OF assms(1-6)] by (auto simp: spans_def t)
  also have "\<dots> \<longleftrightarrow> k = (to_wall z t - o') div duration"
    using assms(2) by (simp only: eq_div_iff_range)
  finally show ?thesis .
qed

lemma bucket_locates:
  assumes "wf_interval iv" "tf_duration tf = Some duration" "0 < duration" "in_interval z d iv t"
    "session_buckets d tf iv z = Some bs"
  shows "b \<in> set bs \<and> spans b t \<longleftrightarrow> b = bucket_bounds t d tf iv z"
proof -
  define o' where "o' = combine d (iv_start iv)"
  define c where "c = combine d (iv_end iv)"
  define i where "i = (to_wall z t - o') div duration"
  have w: "o' \<le> to_wall z t" "to_wall z t < c" using in_interval_wall [OF assms(4)] by (simp_all add: o'_def c_def)
  have i: "i * duration \<le> to_wall z t - o'" using eq_div_iff_range [OF assms(3), of i "to_wall z t - o'"] by (simp add: i_def)
  have i0: "0 \<le> i" using w(1) assms(3) by (simp add: i_def pos_imp_zdiv_nonneg_iff)
  have ic: "i < bucket_count duration o' c" using i w(2) less_bucket_count_iff [OF assms(3) i0] by simp
  have bs: "bs = map (bucket_at duration z o' c) [0 .. bucket_count duration o' c - 1]"
    using assms(5) session_buckets_intraday [OF assms(2,3)] by (simp add: o'_def c_def Let_def)
  have bb: "bucket_bounds t d tf iv z = bucket_at duration z o' c i"
    by (simp add: bucket_bounds_eq [OF assms(2)] o'_def c_def i_def)
  have sp: "spans (bucket_at duration z o' c k) t \<longleftrightarrow> k = i" if "0 \<le> k" "k < bucket_count duration o' c" for k
    using bucket_at_spans_iff [OF assms(1,3) that o'_def c_def assms(4)] by (simp add: i_def)
  show ?thesis
    unfolding bs bb using sp i0 ic by auto
qed

lemma bucket_at_chain:
  assumes "wf_interval iv" "0 < duration" "o' = combine d (iv_start iv)" "c = combine d (iv_end iv)"
    "n = bucket_count duration o' c"
  shows "fst (snd (bucket_at duration z o' c 0)) = to_utc z o'"
    and "snd (snd (bucket_at duration z o' c (n - 1))) = to_utc z c"
    and "0 \<le> k \<Longrightarrow> k < n \<Longrightarrow>
      fst (snd (bucket_at duration z o' c k)) < snd (snd (bucket_at duration z o' c k))"
    and "0 \<le> k \<Longrightarrow> k + 1 < n \<Longrightarrow>
      snd (snd (bucket_at duration z o' c k)) = fst (snd (bucket_at duration z o' c (k + 1)))"
proof -
  have pos: "0 < n" using assms by (simp add: bucket_count_pos wf_simps)
  have iff: "k < n \<longleftrightarrow> o' + k * duration < c" if "0 \<le> k" for k
    using assms(2,5) that less_bucket_count_iff by blast
  show "fst (snd (bucket_at duration z o' c 0)) = to_utc z o'" by (simp add: bucket_at_def)
  have "\<not> o' + n * duration < c" using iff [of n] pos by simp
  then show "snd (snd (bucket_at duration z o' c (n - 1))) = to_utc z c" by (simp add: bucket_at_def)
  show "fst (snd (bucket_at duration z o' c k)) < snd (snd (bucket_at duration z o' c k))"
    if k: "0 \<le> k" "k < n"
    using bucket_at_utc [OF assms(1,2) k(1) _ assms(3,4)] k iff [of k] assms(2,5) by (simp add: algebra_simps)
  show "snd (snd (bucket_at duration z o' c k)) = fst (snd (bucket_at duration z o' c (k + 1)))"
    if k: "0 \<le> k" "k + 1 < n"
    using k iff [of "k + 1"] by (simp add: bucket_at_def)
qed

lemma session_buckets_partition:
  assumes "wf_interval iv" "wf_timeframe tf"
  shows "\<exists>bs. session_buckets d tf iv z = Some bs \<and> bs \<noteq> []
    \<and> map fst bs = [0 .. int (length bs) - 1]
    \<and> fst (snd (hd bs)) = to_utc z (combine d (iv_start iv))
    \<and> snd (snd (last bs)) = to_utc z (combine d (iv_end iv))
    \<and> list_all (\<lambda>(_, s, e). s < e) bs
    \<and> (\<forall>k. Suc k < length bs \<longrightarrow> snd (snd (bs ! k)) = fst (snd (bs ! Suc k)))"
proof (cases "tf_duration tf")
  case None
  have "wall_date (combine d (iv_start iv)) = d" "wall_date (combine d (iv_end iv)) = d"
    using assms(1) by (simp_all add: wf_simps)
  with None assms(1) show ?thesis
    by (simp add: session_buckets_session to_utc_less wf_simps)
next
  case (Some duration)
  with assms(2) have pos: "0 < duration" by (simp add: wf_simps)
  define o' where "o' = combine d (iv_start iv)"
  define c where "c = combine d (iv_end iv)"
  define n where "n = bucket_count duration o' c"
  define bs where "bs = map (bucket_at duration z o' c) [0 .. n - 1]"
  have n: "0 < n" using assms(1) pos by (simp add: n_def o'_def c_def bucket_count_pos wf_simps)
  note chain = bucket_at_chain [OF assms(1) pos o'_def c_def n_def]
  have eq: "session_buckets d tf iv z = Some bs"
    by (simp add: session_buckets_intraday [OF Some pos] bs_def n_def o'_def c_def Let_def)
  have len: "length bs = nat n" by (simp add: bs_def)
  have nth: "bs ! k = bucket_at duration z o' c (int k)" if "k < length bs" for k
    using that by (simp add: bs_def)
  have ne: "bs \<noteq> []" using n len by auto
  have "map fst bs = [0 .. int (length bs) - 1]"
    using n by (simp add: bs_def bucket_at_def comp_def)
  moreover have "fst (snd (hd bs)) = to_utc z o'"
    using chain(1) nth [of 0] ne by (simp add: hd_conv_nth)
  moreover have "snd (snd (last bs)) = to_utc z c"
    using chain(2) nth [of "length bs - 1"] ne n len by (simp add: last_conv_nth of_nat_diff)
  moreover have "list_all (\<lambda>(_, s, e). s < e) bs"
    using chain(3) by (simp add: bs_def list_all_iff case_prod_unfold)
  moreover have "\<forall>k. Suc k < length bs \<longrightarrow> snd (snd (bs ! k)) = fst (snd (bs ! Suc k))"
    using chain(4) nth len by (auto simp: add.commute)
  ultimately show ?thesis using eq ne unfolding o'_def c_def by blast
qed

lemma session_buckets_ordered:
  assumes "wf_interval iv" "wf_timeframe tf" "session_buckets d tf iv z = Some bs"
  shows "sorted_wrt (\<lambda>(_, _, e) (_, s, _). e \<le> s) bs"
    and "b \<in> set bs \<Longrightarrow> to_utc z (combine d (iv_start iv)) \<le> fst (snd b)
      \<and> snd (snd b) \<le> to_utc z (combine d (iv_end iv))"
proof -
  have days: "wall_date (combine d (iv_start iv)) = d" "wall_date (combine d (iv_end iv)) = d"
    using assms(1) by (simp_all add: wf_simps)
  have "sorted_wrt (\<lambda>(_, _, e) (_, s, _). e \<le> s) bs \<and>
    (\<forall>b \<in> set bs. to_utc z (combine d (iv_start iv)) \<le> fst (snd b)
      \<and> snd (snd b) \<le> to_utc z (combine d (iv_end iv)))"
  proof (cases "tf_duration tf")
    case None
    then show ?thesis using assms(3) by (auto simp: session_buckets_session)
  next
    case (Some duration)
    with assms(2) have pos: "0 < duration" by (simp add: wf_simps)
    define o' where "o' = combine d (iv_start iv)"
    define c where "c = combine d (iv_end iv)"
    define n where "n = bucket_count duration o' c"
    have bs: "bs = map (bucket_at duration z o' c) [0 .. n - 1]"
      using assms(3) by (simp add: session_buckets_intraday [OF Some pos] n_def o'_def c_def Let_def)
    have at: "bucket_at duration z o' c k = (k, o' + k * duration - off, min (o' + (k + 1) * duration) c - off)"
      if "0 \<le> k" "k < n" for k
      using bucket_at_utc [OF assms(1) pos that(1) _ o'_def c_def] that(2) by (simp add: n_def)
    have step: "(k + 1) * duration \<le> k' * duration" if "k < k'" for k k'
      using that pos by (intro mult_right_mono) simp_all
    have "sorted_wrt (\<lambda>(_, _, e) (_, s, _). e \<le> s) bs"
      unfolding bs sorted_wrt_map
      by (rule sorted_wrt_mono_rel [OF _ sorted_wrt_upto]) (use at step in \<open>fastforce simp: min_le_iff_disj\<close>)
    moreover have "0 \<le> k * duration" if "0 \<le> k" for k using that pos by simp
    ultimately show ?thesis
      using days unfolding o'_def [symmetric] c_def [symmetric] by (auto simp: bs at to_utc_day)
  qed
  then show "sorted_wrt (\<lambda>(_, _, e) (_, s, _). e \<le> s) bs"
    and "b \<in> set bs \<Longrightarrow> to_utc z (combine d (iv_start iv)) \<le> fst (snd b)
      \<and> snd (snd b) \<le> to_utc z (combine d (iv_end iv))"
    by blast+
qed

end

section \<open>Whole days\<close>

lemma map_fst_renumber:
  "map fst (map (\<lambda>(k, _, s, e). (i + int k, s, e)) (enumerate m bs)) = [i + int m .. i + int m + int (length bs) - 1]"
proof (induction bs arbitrary: m)
  case (Cons b bs)
  have "[i + int m .. i + int m + int (length (b # bs)) - 1] =
      (i + int m) # [i + int (Suc m) .. i + int (Suc m) + int (length bs) - 1]"
    by (subst upto_rec1) (simp_all add: algebra_simps)
  with Cons [of "Suc m"] show ?case by (simp add: case_prod_unfold)
qed simp

lemma renumber_id:
  "map fst bs = [int m .. int m + int (length bs) - 1] \<Longrightarrow>
     map (\<lambda>(k, _, s, e). (int k, s, e)) (enumerate m bs) = bs"
proof (induction bs arbitrary: m)
  case (Cons b bs)
  have "[int m .. int m + int (length (b # bs)) - 1] = int m # [int (Suc m) .. int (Suc m) + int (length bs) - 1]"
    by (subst upto_rec1) (simp_all add: algebra_simps)
  with Cons.prems have "fst b = int m" "map fst bs = [int (Suc m) .. int (Suc m) + int (length bs) - 1]"
    by (simp_all del: of_nat_Suc)
  with Cons.IH [of "Suc m"] show ?case by (cases b) simp
qed simp

lemma upto_append:
  "0 \<le> m \<Longrightarrow> 0 \<le> n \<Longrightarrow> [i .. i + m - 1] @ [i + m .. i + m + n - 1] = [i .. i + (m + n) - 1]"
  by (cases "n = 0") (simp_all add: upto_split1 [of i "i + m" "i + (m + n) - 1"] add.assoc)

lemma day_bucket_loop_index:
  "day_bucket_loop d tf z i ivs = Some bs \<Longrightarrow> map fst bs = [i .. i + int (length bs) - 1]"
proof (induction ivs arbitrary: i bs)
  case (Cons iv ivs)
  then obtain xs ys where xs: "session_buckets d tf iv z = Some xs"
    and ys: "day_bucket_loop d tf z (i + int (length xs)) ivs = Some ys"
    and bs: "bs = map (\<lambda>(k, _, s, e). (i + int k, s, e)) (enumerate 0 xs) @ ys"
    by (auto simp: bind_eq_Some_conv)
  have "map fst bs = [i .. i + int (length xs) - 1] @ [i + int (length xs) .. i + int (length xs) + int (length ys) - 1]"
    using Cons.IH [OF ys] map_fst_renumber [of i 0 xs] by (simp add: bs del: map_map)
  also have "\<dots> = [i .. i + int (length bs) - 1]"
    by (subst upto_append) (simp_all add: bs)
  finally show ?case .
qed simp

lemma day_bucket_loop_returns:
  "wf_timeframe tf \<Longrightarrow> \<exists>bs. day_bucket_loop d tf z i ivs = Some bs"
proof (induction ivs arbitrary: i)
  case (Cons iv ivs)
  obtain xs where xs: "session_buckets d tf iv z = Some xs"
    using session_buckets_returns [OF Cons.prems] by blast
  obtain ys where "day_bucket_loop d tf z (i + int (length xs)) ivs = Some ys"
    using Cons.IH [OF Cons.prems] by blast
  with xs show ?case by simp
qed simp

lemma intervals_gapped_Cons:
  assumes "intervals_gapped (iv # ivs)" "list_all wf_interval (iv # ivs)"
  shows "intervals_gapped ivs"
    and "iv' \<in> set ivs \<Longrightarrow> iv_end iv < iv_start iv'"
proof -
  show "intervals_gapped ivs" using assms(1) by (cases ivs) (simp_all add: intervals_gapped_def)
  show "iv' \<in> set ivs \<Longrightarrow> iv_end iv < iv_start iv'"
    using assms
  proof (induction ivs arbitrary: iv)
    case (Cons a as)
    then have "iv_end iv < iv_start a" "iv_start a < iv_end a"
      "intervals_gapped (a # as)" "list_all wf_interval (a # as)"
      by (simp_all add: intervals_gapped_def wf_interval_def [of a])
    with Cons.IH [of a] Cons.prems(1) show ?case by force
  qed simp
qed

context steady_day
begin

lemma day_bucket_loop_ordered:
  assumes "list_all wf_interval ivs" "intervals_gapped ivs" "wf_timeframe tf"
    "day_bucket_loop d tf z i ivs = Some bs"
  shows "sorted_wrt (\<lambda>(_, _, e) (_, s, _). e \<le> s) bs
    \<and> (\<forall>b \<in> set bs. \<exists>iv \<in> set ivs. to_utc z (combine d (iv_start iv)) \<le> fst (snd b)
         \<and> snd (snd b) \<le> to_utc z (combine d (iv_end iv)))"
  using assms(1,2,4)
proof (induction ivs arbitrary: i bs)
  case Nil
  then show ?case by simp
next
  case (Cons iv ivs)
  from Cons.prems obtain xs ys where xs: "session_buckets d tf iv z = Some xs"
    and ys: "day_bucket_loop d tf z (i + int (length xs)) ivs = Some ys"
    and bs: "bs = map (\<lambda>(k, _, s, e). (i + int k, s, e)) (enumerate 0 xs) @ ys"
    by (auto simp: bind_eq_Some_conv)
  from Cons.prems have wf: "wf_interval iv" "list_all wf_interval ivs" by simp_all
  note gap = intervals_gapped_Cons [OF Cons.prems(2,1)]
  note IH = Cons.IH [OF wf(2) gap(1) ys]
  note here = session_buckets_ordered [OF wf(1) assms(3) xs]
  define zs where "zs = map (\<lambda>(k, _, s, e). (i + int k, s, e)) (enumerate 0 xs)"
  have zs: "map snd zs = map snd xs"
    by (rule nth_equalityI) (simp_all add: zs_def case_prod_unfold nth_enumerate_eq)
  have sorted_zs: "sorted_wrt (\<lambda>(_, _, e) (_, s, _). e \<le> s) zs"
    using here(1) zs sorted_wrt_map [of "\<lambda>p q. snd p \<le> fst q" snd zs]
      sorted_wrt_map [of "\<lambda>p q. snd p \<le> fst q" snd xs]
    by (simp add: case_prod_unfold)
  have within: "to_utc z (combine d (iv_start iv)) \<le> fst (snd b) \<and> snd (snd b) \<le> to_utc z (combine d (iv_end iv))"
    if "b \<in> set zs" for b
  proof -
    from that zs have "snd b \<in> snd ` set xs" by (metis image_eqI list.set_map)
    with here(2) show ?thesis by force
  qed
  have "snd (snd b) \<le> fst (snd b')" if b: "b \<in> set zs" and b': "b' \<in> set ys" for b b'
  proof -
    from IH b' obtain iv' where iv': "iv' \<in> set ivs" "to_utc z (combine d (iv_start iv')) \<le> fst (snd b')" by blast
    then have "wf_interval iv'" using wf(2) by (simp add: list_all_iff)
    with wf(1) have "to_utc z (combine d (iv_end iv)) \<le> to_utc z (combine d (iv_start iv'))"
      using gap(2) [OF iv'(1)] by (subst to_utc_le) (simp_all add: wf_simps)
    with within [OF b] iv'(2) show ?thesis by linarith
  qed
  then have "sorted_wrt (\<lambda>(_, _, e) (_, s, _). e \<le> s) (zs @ ys)"
    using sorted_zs IH by (fastforce simp: sorted_wrt_append case_prod_unfold)
  then show ?case unfolding bs zs_def [symmetric] using within IH by auto
qed

lemma day_bucket_loop_single:
  assumes "wf_interval iv" "wf_timeframe tf"
  shows "day_buckets d tf [iv] z = session_buckets d tf iv z"
proof -
  obtain bs where bs: "session_buckets d tf iv z = Some bs" "map fst bs = [0 .. int (length bs) - 1]"
    using session_buckets_partition [OF assms] by blast
  then show ?thesis using renumber_id [of bs 0] by (simp add: day_buckets_def)
qed

end

section \<open>Properties\<close>

text \<open>
  Every instant of a live interval lies in exactly one of the enumerated buckets, and that
  bucket is the one \<^verbatim>\<open>bucket_bounds\<close> computes: the live engine and the historical
  reconstruction place candles in identical buckets.
\<close>

lemma live_and_historical_buckets_agree:
  assumes "steady_day z d off" "wf_interval iv" "tf_duration tf = Some duration" "0 < duration"
    and "in_interval z d iv t"
  shows "\<exists>bs. session_buckets d tf iv z = Some bs
    \<and> (\<forall>b. (b \<in> set bs \<and> spans b t) = (b = bucket_bounds t d tf iv z))"
proof -
  obtain bs where bs: "session_buckets d tf iv z = Some bs"
    using session_buckets_intraday [OF assms(3,4)] by (simp add: Let_def)
  with steady_day.bucket_locates [OF assms(1-5)] show ?thesis by blast
qed

lemma live_and_historical_buckets_agree_example:
  "\<exists>bs. session_buckets 20000 (Timeframe INTRADAY (Some (7 * MINUTE)))
      \<lparr>iv_start = 555 * MINUTE, iv_end = 930 * MINUTE\<rparr> kolkata = Some bs
    \<and> (\<forall>b. (b \<in> set bs \<and> spans b 1728016000000000) =
        (b = bucket_bounds 1728016000000000 20000 (Timeframe INTRADAY (Some (7 * MINUTE)))
          \<lparr>iv_start = 555 * MINUTE, iv_end = 930 * MINUTE\<rparr> kolkata))"
proof (rule live_and_historical_buckets_agree [OF kolkata.steady_day_axioms, where duration = "7 * MINUTE"])
  show "in_interval kolkata 20000 \<lparr>iv_start = 555 * MINUTE, iv_end = 930 * MINUTE\<rparr> 1728016000000000"
    by (simp add: in_interval_def kolkata_def fixed_zone_def wall_date_def wall_time_def)
qed (simp_all add: wf_interval_def is_time_def)

text \<open>
  C38. The enumeration of one live interval ends for every valid timeframe and partitions the
  interval: bucket indices run from 0, the first bucket starts at the interval start, the last
  one is truncated at the interval end, and each bucket is non-empty and starts where its
  predecessor ends.
\<close>

theorem session_buckets_partition_interval:
  assumes "steady_day z d off" "wf_interval iv" "wf_timeframe tf"
  shows "\<exists>bs. session_buckets d tf iv z = Some bs \<and> bs \<noteq> []
    \<and> map fst bs = [0 .. int (length bs) - 1]
    \<and> fst (snd (hd bs)) = to_utc z (combine d (iv_start iv))
    \<and> snd (snd (last bs)) = to_utc z (combine d (iv_end iv))
    \<and> list_all (\<lambda>(_, s, e). s < e) bs
    \<and> (\<forall>k. Suc k < length bs \<longrightarrow> snd (snd (bs ! k)) = fst (snd (bs ! Suc k)))"
  using assms by (rule steady_day.session_buckets_partition)

theorem session_buckets_partition_interval_witness:
  "\<exists>bs. session_buckets 20000 (Timeframe INTRADAY (Some (7 * MINUTE)))
      \<lparr>iv_start = 555 * MINUTE, iv_end = 930 * MINUTE\<rparr> kolkata = Some bs \<and> bs \<noteq> []
    \<and> snd (snd (last bs)) = to_utc kolkata (combine 20000 (930 * MINUTE))"
proof -
  have iv: "wf_interval \<lparr>iv_start = 555 * MINUTE, iv_end = 930 * MINUTE\<rparr>"
    by (simp add: wf_interval_def is_time_def)
  have tf: "wf_timeframe (Timeframe INTRADAY (Some (7 * MINUTE)))"
    by (simp add: wf_timeframe_def)
  from session_buckets_partition_interval [OF kolkata.steady_day_axioms iv tf, of 20000]
  show ?thesis by auto
qed

text \<open>
  Over the disjoint live intervals of a whole day the buckets are chronological, carry one
  contiguous global index from 0, each lies inside one live interval (none spans the closed gap),
  and a single-interval day has exactly the buckets of its interval.
\<close>

lemma day_buckets_chronological:
  assumes "steady_day z d off" "list_all wf_interval ivs" "intervals_gapped ivs" "wf_timeframe tf"
  shows "\<exists>bs. day_buckets d tf ivs z = Some bs
    \<and> map fst bs = [0 .. int (length bs) - 1]
    \<and> sorted_wrt (\<lambda>(_, _, e) (_, s, _). e \<le> s) bs
    \<and> (\<forall>b \<in> set bs. \<exists>iv \<in> set ivs. to_utc z (combine d (iv_start iv)) \<le> fst (snd b)
         \<and> snd (snd b) \<le> to_utc z (combine d (iv_end iv)))
    \<and> (\<forall>iv. ivs = [iv] \<longrightarrow> session_buckets d tf iv z = Some bs)"
proof -
  obtain bs where bs: "day_buckets d tf ivs z = Some bs"
    using day_bucket_loop_returns [OF assms(4), of d z 0 ivs] by (auto simp: day_buckets_def)
  have "session_buckets d tf iv z = Some bs" if "ivs = [iv]" for iv
    using bs that assms steady_day.day_bucket_loop_single [OF assms(1), of iv tf] by simp
  with bs steady_day.day_bucket_loop_ordered [OF assms, of 0 bs] day_bucket_loop_index [of d tf z 0 ivs bs]
  show ?thesis by (simp add: day_buckets_def)
qed

lemma day_buckets_chronological_example:
  "\<exists>bs. day_buckets 20000 (Timeframe INTRADAY (Some (30 * MINUTE)))
      [\<lparr>iv_start = 555 * MINUTE, iv_end = 600 * MINUTE\<rparr>, \<lparr>iv_start = 690 * MINUTE, iv_end = 750 * MINUTE\<rparr>]
      kolkata = Some bs
    \<and> sorted_wrt (\<lambda>(_, _, e) (_, s, _). e \<le> s) bs"
proof -
  let ?ivs = "[\<lparr>iv_start = 555 * MINUTE, iv_end = 600 * MINUTE\<rparr>,
    \<lparr>iv_start = 690 * MINUTE, iv_end = 750 * MINUTE\<rparr>]"
  have ivs: "list_all wf_interval ?ivs" "intervals_gapped ?ivs"
    by (simp_all add: wf_interval_def is_time_def intervals_gapped_def)
  have tf: "wf_timeframe (Timeframe INTRADAY (Some (30 * MINUTE)))"
    by (simp add: wf_timeframe_def)
  from day_buckets_chronological [OF kolkata.steady_day_axioms ivs tf, of 20000]
  show ?thesis by blast
qed

end
