(* ===== verification/Market_Data.thy ===== *)
theory Market_Data
  imports Apex_Prelude
begin

text \<open>
  The broker-neutral market-data contracts of \<^verbatim>\<open>app/schemas/market_data.py\<close>. Each canonical model
  is a record; the validating constructor pydantic derives from the class body is a function
  \<open>mk_...\<close> that runs the field constraints and then the model validator of the class, and
  returns \<open>Inl (ValidationError m)\<close> with the first violated constraint. The whitespace
  stripping that \<^verbatim>\<open>str_strip_whitespace\<close> asks of pydantic is the parameter \<open>strip\<close>. Strings are
  ASCII strings.
\<close>

section \<open>Enumerations\<close>

datatype market_segment = EQUITY | DERIVATIVES | CURRENCY | COMMODITY | INDEX

datatype instrument_class = CASH | FUTURE | OPTION | OTHER

datatype option_type = CALL | PUT

datatype market_data_kind = KIND_TICK | KIND_QUOTE | KIND_DEPTH | KIND_CANDLE

datatype provider_status = STATUS_UNKNOWN | HEALTHY | DEGRADED | DOWN

datatype provider_capability = LIVE_MARKET_DATA | HISTORICAL_DATA | INSTRUMENTS | MARKET_QUOTE

datatype feed_continuity = CONNECTED | DISCONNECTED | RECONNECTED | CONTINUITY_LOST

section \<open>Timestamps\<close>

text \<open>
  A \<^verbatim>\<open>datetime\<close> as it arrives: naive (no \<^verbatim>\<open>tzinfo\<close>, or one that gives no offset) or aware, with
  its wall-clock reading and UTC offset.
\<close>

datatype py_datetime = Naive wall | Aware wall timedelta

definition require_aware_timestamp :: "py_datetime \<Rightarrow> instant res" where
  "require_aware_timestamp v =
     (case v of
        Naive _ \<Rightarrow> Inl (ValidationError ''timestamps must be timezone-aware'')
      | Aware w off \<Rightarrow> Inr (w - off))"

abbreviation utc :: "instant \<Rightarrow> py_datetime" where
  "utc t \<equiv> Aware t 0"

lemma require_aware_utc [simp]: "require_aware_timestamp (utc t) = Inr t"
  by (simp add: require_aware_timestamp_def)

section \<open>Instruments\<close>

definition upper_char :: "char \<Rightarrow> char" where
  "upper_char c =
     (if of_char (CHR ''a'') \<le> (of_char c :: nat) \<and> of_char c \<le> (of_char (CHR ''z'') :: nat)
      then char_of (of_char c - 32 :: nat) else c)"

definition py_upper :: "string \<Rightarrow> string" where
  "py_upper = map upper_char"

record underlying_instrument =
  underlying_exchange :: string
  underlying_symbol :: string

record instrument =
  exchange :: string
  market_segment :: market_segment
  symbol :: string
  instrument_class :: instrument_class
  underlying :: "underlying_instrument option"
  display_name :: "string option"
  listing_type :: "string option"
  series :: "string option"
  expiry :: "date option"
  strike_price :: "decimal option"
  option_type :: "option_type option"

definition normalize_identity_component :: "(string \<Rightarrow> string) \<Rightarrow> string \<Rightarrow> string res" where
  "normalize_identity_component strip value =
     (let stripped = strip value
      in if length stripped < 1 then Inl (ValidationError ''min_length'')
         else let normalized_value = py_upper stripped
              in if normalized_value = []
                 then Inl (ValidationError ''instrument identity components must not be empty'')
                 else Inr normalized_value)"

definition normalize_optional_contract_component ::
  "(string \<Rightarrow> string) \<Rightarrow> string option \<Rightarrow> string option res" where
  "normalize_optional_contract_component strip value =
     (case value of
        None \<Rightarrow> Inr None
      | Some v \<Rightarrow> (let stripped = strip v
                  in if length stripped < 1 then Inl (ValidationError ''min_length'')
                     else Inr (Some (py_upper stripped))))"

definition mk_underlying :: "(string \<Rightarrow> string) \<Rightarrow> string \<Rightarrow> string \<Rightarrow> underlying_instrument res" where
  "mk_underlying strip ex sy =
     res_bind (normalize_identity_component strip ex) (\<lambda>e.
     res_bind (normalize_identity_component strip sy) (\<lambda>s.
       Inr \<lparr>underlying_exchange = e, underlying_symbol = s\<rparr>))"

definition validate_contract_identity :: "instrument \<Rightarrow> instrument res" where
  "validate_contract_identity i =
     (case instrument_class i of
        FUTURE \<Rightarrow>
          (if underlying i = None \<or> expiry i = None
           then Inl (ValidationError ''future contracts require an underlying and expiry'')
           else if strike_price i \<noteq> None \<or> option_type i \<noteq> None
           then Inl (ValidationError ''future contracts must not define option identity fields'')
           else Inr i)
      | OPTION \<Rightarrow>
          (if underlying i = None \<or> expiry i = None \<or> strike_price i = None \<or> option_type i = None
           then Inl (ValidationError ''option contracts require an underlying, expiry, strike price, and option type'')
           else Inr i)
      | _ \<Rightarrow>
          (if underlying i \<noteq> None \<or> expiry i \<noteq> None \<or> strike_price i \<noteq> None \<or> option_type i \<noteq> None
           then Inl (ValidationError ''non-derivative instruments must not define derivative identity fields'')
           else Inr i))"

definition mk_instrument :: "(string \<Rightarrow> string) \<Rightarrow> instrument \<Rightarrow> instrument res" where
  "mk_instrument strip raw =
     res_bind (normalize_identity_component strip (exchange raw)) (\<lambda>e.
     res_bind (normalize_identity_component strip (symbol raw)) (\<lambda>s.
     res_bind (normalize_optional_contract_component strip (display_name raw)) (\<lambda>dn.
     res_bind (normalize_optional_contract_component strip (listing_type raw)) (\<lambda>lt.
     res_bind (normalize_optional_contract_component strip (series raw)) (\<lambda>se.
       if \<exists>p. strike_price raw = Some p \<and> p \<le> 0 then Inl (ValidationError ''strike_price gt 0'')
       else validate_contract_identity
         (raw\<lparr>exchange := e, symbol := s, display_name := dn, listing_type := lt, series := se\<rparr>))))))"

definition cash_equity :: "string \<Rightarrow> string \<Rightarrow> instrument" where
  "cash_equity ex sy =
     \<lparr>exchange = ex, market_segment = EQUITY, symbol = sy, instrument_class = CASH,
      underlying = None, display_name = None, listing_type = None, series = None,
      expiry = None, strike_price = None, option_type = None\<rparr>"

section \<open>Session aggregates and live events\<close>

record provider_session_ohlc =
  agg_open :: decimal
  agg_high :: decimal
  agg_low :: decimal
  agg_close :: decimal

definition mk_provider_session_ohlc ::
  "decimal \<Rightarrow> decimal \<Rightarrow> decimal \<Rightarrow> decimal \<Rightarrow> provider_session_ohlc res" where
  "mk_provider_session_ohlc op hi lo cl =
     (if op \<le> 0 \<or> hi \<le> 0 \<or> lo \<le> 0 \<or> cl \<le> 0 then Inl (ValidationError ''price gt 0'')
      else if hi < lo
      then Inl (ValidationError ''session high price must be greater than or equal to low price'')
      else if \<not> (lo \<le> op \<and> op \<le> hi)
      then Inl (ValidationError ''session open price must be within the high-low range'')
      else if \<not> (lo \<le> cl \<and> cl \<le> hi)
      then Inl (ValidationError ''session close price must be within the high-low range'')
      else Inr \<lparr>agg_open = op, agg_high = hi, agg_low = lo, agg_close = cl\<rparr>)"

record session_statistics_observation =
  obs_instrument :: instrument
  obs_trading_date :: date
  obs_observed_at :: instant
  obs_session_ohlc :: provider_session_ohlc

definition mk_observation ::
  "instrument \<Rightarrow> date \<Rightarrow> py_datetime \<Rightarrow> provider_session_ohlc \<Rightarrow> session_statistics_observation res" where
  "mk_observation i d ts ohlc =
     res_bind (require_aware_timestamp ts) (\<lambda>t.
       Inr \<lparr>obs_instrument = i, obs_trading_date = d, obs_observed_at = t, obs_session_ohlc = ohlc\<rparr>)"

record tick =
  tick_instrument :: instrument
  tick_event_timestamp :: instant
  last_price :: decimal
  tick_traded_quantity :: "int option"
  session_cumulative_volume :: "int option"
  tick_session_ohlc :: "provider_session_ohlc option"

definition mk_tick ::
  "instrument \<Rightarrow> py_datetime \<Rightarrow> decimal \<Rightarrow> int option \<Rightarrow> int option \<Rightarrow> provider_session_ohlc option \<Rightarrow> tick res" where
  "mk_tick i ts price qty cum ohlc =
     res_bind (require_aware_timestamp ts) (\<lambda>t.
       if price \<le> 0 then Inl (ValidationError ''last_price gt 0'')
       else if (\<exists>q. qty = Some q \<and> q < 0) then Inl (ValidationError ''traded_quantity ge 0'')
       else if (\<exists>q. cum = Some q \<and> q < 0) then Inl (ValidationError ''session_cumulative_volume ge 0'')
       else Inr \<lparr>tick_instrument = i, tick_event_timestamp = t, last_price = price,
                 tick_traded_quantity = qty, session_cumulative_volume = cum, tick_session_ohlc = ohlc\<rparr>)"

record quote =
  quote_instrument :: instrument
  quote_event_timestamp :: instant
  bid_price :: decimal
  ask_price :: decimal
  bid_quantity :: int
  ask_quantity :: int

definition mk_quote ::
  "instrument \<Rightarrow> py_datetime \<Rightarrow> decimal \<Rightarrow> decimal \<Rightarrow> int \<Rightarrow> int \<Rightarrow> quote res" where
  "mk_quote i ts bid ask bq aq =
     res_bind (require_aware_timestamp ts) (\<lambda>t.
       if bid \<le> 0 \<or> ask \<le> 0 then Inl (ValidationError ''price gt 0'')
       else if bq < 0 \<or> aq < 0 then Inl (ValidationError ''quantity ge 0'')
       else if ask < bid
       then Inl (ValidationError ''ask price must be greater than or equal to bid price'')
       else Inr \<lparr>quote_instrument = i, quote_event_timestamp = t, bid_price = bid, ask_price = ask,
                 bid_quantity = bq, ask_quantity = aq\<rparr>)"

record depth_level =
  level_price :: decimal
  level_quantity :: int

definition mk_depth_level :: "decimal \<Rightarrow> int \<Rightarrow> depth_level res" where
  "mk_depth_level p q =
     (if p \<le> 0 then Inl (ValidationError ''price gt 0'')
      else if q < 0 then Inl (ValidationError ''quantity ge 0'')
      else Inr \<lparr>level_price = p, level_quantity = q\<rparr>)"

record depth_snapshot =
  depth_instrument :: instrument
  depth_event_timestamp :: instant
  bids :: "depth_level list"
  asks :: "depth_level list"

definition mk_depth_snapshot ::
  "instrument \<Rightarrow> py_datetime \<Rightarrow> depth_level list \<Rightarrow> depth_level list \<Rightarrow> depth_snapshot res" where
  "mk_depth_snapshot i ts bs as =
     res_bind (require_aware_timestamp ts) (\<lambda>t.
       if bs = [] \<or> as = [] then Inl (ValidationError ''min_length'')
       else Inr \<lparr>depth_instrument = i, depth_event_timestamp = t, bids = bs, asks = as\<rparr>)"

section \<open>Candles and historical requests\<close>

record candle =
  candle_instrument :: instrument
  candle_start :: instant
  candle_end :: instant
  candle_open :: decimal
  candle_high :: decimal
  candle_low :: decimal
  candle_close :: decimal
  candle_quantity :: int

definition validate_candle_interval_and_prices :: "candle \<Rightarrow> candle res" where
  "validate_candle_interval_and_prices c =
     (if candle_end c \<le> candle_start c
      then Inl (ValidationError ''candle end timestamp must be after start timestamp'')
      else if candle_high c < candle_low c
      then Inl (ValidationError ''candle high price must be greater than or equal to low price'')
      else if \<not> (candle_low c \<le> candle_open c \<and> candle_open c \<le> candle_high c)
      then Inl (ValidationError ''candle open price must be within the high-low range'')
      else if \<not> (candle_low c \<le> candle_close c \<and> candle_close c \<le> candle_high c)
      then Inl (ValidationError ''candle close price must be within the high-low range'')
      else Inr c)"

definition mk_candle ::
  "instrument \<Rightarrow> py_datetime \<Rightarrow> py_datetime \<Rightarrow> decimal \<Rightarrow> decimal \<Rightarrow> decimal \<Rightarrow> decimal \<Rightarrow> int \<Rightarrow> candle res" where
  "mk_candle i st en op hi lo cl q =
     res_bind (require_aware_timestamp st) (\<lambda>s.
     res_bind (require_aware_timestamp en) (\<lambda>e.
       if op \<le> 0 \<or> hi \<le> 0 \<or> lo \<le> 0 \<or> cl \<le> 0 then Inl (ValidationError ''price gt 0'')
       else if q < 0 then Inl (ValidationError ''traded_quantity ge 0'')
       else validate_candle_interval_and_prices
         \<lparr>candle_instrument = i, candle_start = s, candle_end = e, candle_open = op,
          candle_high = hi, candle_low = lo, candle_close = cl, candle_quantity = q\<rparr>))"

record historical_request =
  req_instrument :: instrument
  req_start :: instant
  req_end :: instant
  req_interval :: timedelta

definition mk_historical_request ::
  "instrument \<Rightarrow> py_datetime \<Rightarrow> py_datetime \<Rightarrow> timedelta \<Rightarrow> historical_request res" where
  "mk_historical_request i st en iv =
     res_bind (require_aware_timestamp st) (\<lambda>s.
     res_bind (require_aware_timestamp en) (\<lambda>e.
       if e \<le> s then Inl (ValidationError ''historical end timestamp must be after start timestamp'')
       else if iv \<le> 0 then Inl (ValidationError ''historical interval must be positive'')
       else Inr \<lparr>req_instrument = i, req_start = s, req_end = e, req_interval = iv\<rparr>))"

record historical_result =
  result_request :: historical_request
  result_candles :: "candle list"

definition mk_historical_result :: "historical_request \<Rightarrow> candle list \<Rightarrow> historical_result res" where
  "mk_historical_result r cs =
     (if list_ex (\<lambda>c. candle_instrument c \<noteq> req_instrument r) cs
      then Inl (ValidationError ''historical candles must match the requested instrument'')
      else Inr \<lparr>result_request = r, result_candles = cs\<rparr>)"

section \<open>Subscriptions, health and feed facts\<close>

record subscription_request =
  sub_instruments :: "instrument list"
  sub_data_types :: "market_data_kind set"

definition mk_subscription_request ::
  "instrument list \<Rightarrow> market_data_kind set \<Rightarrow> subscription_request res" where
  "mk_subscription_request insts ks =
     (if insts = [] \<or> ks = {} then Inl (ValidationError ''min_length'')
      else if length insts \<noteq> card (set insts)
      then Inl (ValidationError ''subscription instruments must be unique'')
      else Inr \<lparr>sub_instruments = insts, sub_data_types = ks\<rparr>)"

record provider_health =
  health_status :: provider_status
  health_observed_at :: instant

definition mk_provider_health :: "provider_status \<Rightarrow> py_datetime \<Rightarrow> provider_health res" where
  "mk_provider_health s ts =
     res_bind (require_aware_timestamp ts) (\<lambda>t. Inr \<lparr>health_status = s, health_observed_at = t\<rparr>)"

record feed_continuity_event =
  continuity_status :: feed_continuity
  continuity_observed_at :: instant

definition mk_feed_continuity_event :: "feed_continuity \<Rightarrow> py_datetime \<Rightarrow> feed_continuity_event res" where
  "mk_feed_continuity_event s ts =
     res_bind (require_aware_timestamp ts) (\<lambda>t. Inr \<lparr>continuity_status = s, continuity_observed_at = t\<rparr>)"

record market_reference =
  ref_instrument :: instrument
  ref_previous_close :: decimal

definition mk_market_reference :: "instrument \<Rightarrow> decimal \<Rightarrow> market_reference res" where
  "mk_market_reference i p =
     (if p \<le> 0 then Inl (ValidationError ''previous_close gt 0'')
      else Inr \<lparr>ref_instrument = i, ref_previous_close = p\<rparr>)"

datatype market_data =
    TickData tick
  | QuoteData quote
  | DepthData depth_snapshot
  | CandleData candle
  | ReferenceData market_reference

section \<open>What the constructors guarantee\<close>

definition wf_ohlc :: "provider_session_ohlc \<Rightarrow> bool" where
  [wf_simps]: "wf_ohlc a \<longleftrightarrow> 0 < agg_low a \<and> agg_low a \<le> agg_open a \<and> agg_open a \<le> agg_high a
     \<and> agg_low a \<le> agg_close a \<and> agg_close a \<le> agg_high a"

definition wf_candle :: "candle \<Rightarrow> bool" where
  [wf_simps]: "wf_candle c \<longleftrightarrow> candle_start c < candle_end c \<and> 0 < candle_low c
     \<and> candle_low c \<le> candle_open c \<and> candle_open c \<le> candle_high c
     \<and> candle_low c \<le> candle_close c \<and> candle_close c \<le> candle_high c \<and> 0 \<le> candle_quantity c"

definition wf_tick :: "tick \<Rightarrow> bool" where
  [wf_simps]: "wf_tick t \<longleftrightarrow> 0 < last_price t
     \<and> (case session_cumulative_volume t of None \<Rightarrow> True | Some v \<Rightarrow> 0 \<le> v)
     \<and> (case tick_traded_quantity t of None \<Rightarrow> True | Some v \<Rightarrow> 0 \<le> v)"

lemma mk_ohlc_iff:
  "mk_provider_session_ohlc op hi lo cl = Inr a \<longleftrightarrow>
     a = \<lparr>agg_open = op, agg_high = hi, agg_low = lo, agg_close = cl\<rparr> \<and> wf_ohlc a"
  by (auto simp: mk_provider_session_ohlc_def wf_simps)

lemma mk_candle_iff:
  "mk_candle i (utc s) (utc e) op hi lo cl q = Inr c \<longleftrightarrow>
     c = \<lparr>candle_instrument = i, candle_start = s, candle_end = e, candle_open = op,
          candle_high = hi, candle_low = lo, candle_close = cl, candle_quantity = q\<rparr> \<and> wf_candle c"
  by (auto simp: mk_candle_def validate_candle_interval_and_prices_def wf_simps)

lemma mk_candle_wf: "mk_candle i st en op hi lo cl q = Inr c \<Longrightarrow> wf_candle c"
  by (auto simp: mk_candle_def validate_candle_interval_and_prices_def wf_simps split: if_splits)

lemma mk_tick_wf: "mk_tick i ts p q cum ohlc = Inr t \<Longrightarrow> wf_tick t"
  by (auto simp: mk_tick_def wf_simps split: if_splits option.splits)

lemma mk_subscription_distinct:
  "mk_subscription_request insts ks = Inr r \<Longrightarrow> distinct (sub_instruments r) \<and> sub_instruments r \<noteq> []"
  by (auto simp: mk_subscription_request_def split: if_splits intro: card_distinct)

subsection \<open>Normal form of instrument identities\<close>

lemma upper_char_idem [simp]: "upper_char (upper_char c) = upper_char c"
proof (cases "97 \<le> (of_char c :: nat) \<and> of_char c \<le> (122 :: nat)")
  case True
  then have "(of_char c - 32 :: nat) mod 256 = of_char c - 32" by (intro mod_less) linarith
  moreover from True have "\<not> 97 \<le> (of_char c - 32 :: nat)" by linarith
  ultimately show ?thesis using True by (simp add: upper_char_def)
next
  case False
  then have "upper_char c = c" by (auto simp: upper_char_def)
  then show ?thesis by simp
qed

lemma py_upper_idem [simp]: "py_upper (py_upper s) = py_upper s"
  by (simp add: py_upper_def)

lemma length_py_upper [simp]: "length (py_upper s) = length s"
  by (simp add: py_upper_def)

lemma py_upper_Nil_iff [simp]: "py_upper s = [] \<longleftrightarrow> s = []"
  by (simp add: py_upper_def)

lemma normalize_identity_idem:
  assumes "normalize_identity_component strip v = Inr n"
    and "\<And>s. strip (py_upper (strip s)) = py_upper (strip s)"
  shows "normalize_identity_component strip n = Inr n"
  using assms by (auto simp: normalize_identity_component_def Let_def split: if_splits)

lemma normalize_optional_idem:
  assumes "normalize_optional_contract_component strip v = Inr n"
    and "\<And>s. strip (py_upper (strip s)) = py_upper (strip s)"
  shows "normalize_optional_contract_component strip n = Inr n"
  using assms
  by (cases v) (auto simp: normalize_optional_contract_component_def Let_def split: if_splits)

end
