(* ===== verification/Market_Context.thy ===== *)
theory Market_Context
  imports Market_Data Market_Session
begin

text \<open>
  The value objects of \<^verbatim>\<open>market_engine/context.py\<close> and \<^verbatim>\<open>market_engine/historical/context.py\<close>: candle
  quality, session statistics, partial and incomplete candles, per-timeframe candle sets, the
  authoritative historical series and context, and the versioned \<^verbatim>\<open>MarketContext\<close> with its two
  builders \<^verbatim>\<open>initial\<close> and \<^verbatim>\<open>with_update\<close>.
\<close>

section \<open>Facts\<close>

datatype candle_quality = COMPLETE | INCOMPLETE_OHLC | INCOMPLETE_VOLUME | FEED_GAP

datatype fact_value = FactDecimal decimal | FactInt int | FactStr string | FactBool bool

record market_fact =
  fact_name :: string
  fact_value :: fact_value

definition mk_market_fact :: "(string \<Rightarrow> string) \<Rightarrow> string \<Rightarrow> fact_value \<Rightarrow> market_fact res" where
  "mk_market_fact strip n v =
     (if length (strip n) < 1 then Inl (ValidationError ''min_length'')
      else Inr \<lparr>fact_name = strip n, fact_value = v\<rparr>)"

section \<open>Session statistics\<close>

datatype session_statistics_quality = AUTHORITATIVE | UNAVAILABLE

record session_statistics =
  ss_trading_date :: date
  ss_open :: "decimal option"
  ss_high :: "decimal option"
  ss_low :: "decimal option"
  ss_quality :: session_statistics_quality
  ss_as_of :: instant

definition positive_if_some :: "decimal option \<Rightarrow> bool" where
  "positive_if_some p = (case p of None \<Rightarrow> True | Some x \<Rightarrow> 0 < x)"

definition validate_quality_consistency :: "session_statistics \<Rightarrow> session_statistics res" where
  "validate_quality_consistency s =
     (if ss_quality s = UNAVAILABLE
      then (if ss_open s \<noteq> None \<or> ss_high s \<noteq> None \<or> ss_low s \<noteq> None
            then Inl (ValidationError ''unavailable session statistics must carry no prices'')
            else Inr s)
      else (case (ss_open s, ss_high s, ss_low s) of
              (Some op, Some hi, Some lo) \<Rightarrow>
                (if hi < lo
                 then Inl (ValidationError ''session high price must be greater than or equal to low price'')
                 else if \<not> (lo \<le> op \<and> op \<le> hi)
                 then Inl (ValidationError ''session open price must be within the high-low range'')
                 else Inr s)
            | _ \<Rightarrow> Inl (ValidationError ''authoritative session statistics require open, high, and low prices'')))"

definition mk_session_statistics ::
  "date \<Rightarrow> decimal option \<Rightarrow> decimal option \<Rightarrow> decimal option \<Rightarrow> session_statistics_quality \<Rightarrow>
   py_datetime \<Rightarrow> session_statistics res" where
  "mk_session_statistics d op hi lo q as_of =
     res_bind (require_aware_timestamp as_of) (\<lambda>t.
       if \<not> (positive_if_some op \<and> positive_if_some hi \<and> positive_if_some lo)
       then Inl (ValidationError ''price gt 0'')
       else validate_quality_consistency
         \<lparr>ss_trading_date = d, ss_open = op, ss_high = hi, ss_low = lo, ss_quality = q, ss_as_of = t\<rparr>)"

definition wf_statistics :: "session_statistics \<Rightarrow> bool" where
  "wf_statistics s =
     (case (ss_quality s, ss_open s, ss_high s, ss_low s) of
        (UNAVAILABLE, None, None, None) \<Rightarrow> True
      | (AUTHORITATIVE, Some op, Some hi, Some lo) \<Rightarrow> 0 < lo \<and> lo \<le> op \<and> op \<le> hi
      | _ \<Rightarrow> False)"

lemma mk_session_statistics_wf: "mk_session_statistics d op hi lo q ts = Inr s \<Longrightarrow> wf_statistics s"
  by (cases q; cases op; cases hi; cases lo)
    (auto simp: mk_session_statistics_def validate_quality_consistency_def wf_statistics_def
      positive_if_some_def split: if_splits)

section \<open>Candle views\<close>

record partial_candle =
  pc_start :: instant
  pc_end :: instant
  pc_open :: decimal
  pc_high :: decimal
  pc_low :: decimal
  pc_close :: decimal
  pc_quantity :: "int option"
  pc_quality :: candle_quality

record incomplete_candle =
  ic_instrument :: instrument
  ic_timeframe :: timeframe
  ic_start :: instant
  ic_end :: instant
  ic_open :: decimal
  ic_high :: decimal
  ic_low :: decimal
  ic_close :: decimal
  ic_quantity :: "int option"
  ic_quality :: candle_quality

definition nonneg_if_some :: "int option \<Rightarrow> bool" where
  "nonneg_if_some q = (case q of None \<Rightarrow> True | Some x \<Rightarrow> 0 \<le> x)"

definition validate_partial_candle :: "partial_candle \<Rightarrow> partial_candle res" where
  "validate_partial_candle c =
     (if pc_open c \<le> 0 \<or> pc_high c \<le> 0 \<or> pc_low c \<le> 0 \<or> pc_close c \<le> 0
      then Inl (ValidationError ''price gt 0'')
      else if \<not> nonneg_if_some (pc_quantity c) then Inl (ValidationError ''traded_quantity ge 0'')
      else Inr c)"

definition validate_incomplete_candle :: "incomplete_candle \<Rightarrow> incomplete_candle res" where
  "validate_incomplete_candle c =
     (if ic_open c \<le> 0 \<or> ic_high c \<le> 0 \<or> ic_low c \<le> 0 \<or> ic_close c \<le> 0
      then Inl (ValidationError ''price gt 0'')
      else if \<not> nonneg_if_some (ic_quantity c) then Inl (ValidationError ''traded_quantity ge 0'')
      else Inr c)"

record timeframe_candles =
  tc_timeframe :: timeframe
  tc_partial :: "partial_candle option"
  tc_finalized :: "candle list"
  tc_incomplete :: "incomplete_candle list"

section \<open>Historical context\<close>

record historical_series =
  hs_timeframe :: timeframe
  hs_candles :: "candle list"

text \<open>
  Candles are first sorted by \<^verbatim>\<open>(start, end)\<close>, then checked. Sorting by the pair is sorting by the
  end and then, stably, by the start.
\<close>

definition order_candles :: "candle list \<Rightarrow> candle list" where
  "order_candles cs = sort_key candle_start (sort_key candle_end cs)"

fun check_adjacent :: "candle list \<Rightarrow> unit res" where
  "check_adjacent (p # c # cs) =
     (if candle_start c = candle_start p \<and> candle_end c = candle_end p
      then Inl (ValidationError ''a historical series must not contain duplicate intervals'')
      else if candle_start c < candle_end p
      then Inl (ValidationError ''a historical series must not contain overlapping intervals'')
      else check_adjacent (c # cs))"
| "check_adjacent _ = Inr ()"

definition validate_series_identity :: "historical_series \<Rightarrow> historical_series res" where
  "validate_series_identity s =
     (let cs = hs_candles s
      in if cs = [] then Inl (ValidationError ''a historical series must contain at least one candle'')
         else if card (set (map candle_instrument cs)) \<noteq> 1
         then Inl (ValidationError ''all candles in a series must share one instrument'')
         else res_bind (check_adjacent cs) (\<lambda>_. Inr s))"

definition mk_historical_series :: "timeframe \<Rightarrow> candle list \<Rightarrow> historical_series res" where
  "mk_historical_series tf cs =
     validate_series_identity \<lparr>hs_timeframe = tf, hs_candles = order_candles cs\<rparr>"

definition series_instrument :: "historical_series \<Rightarrow> instrument" where
  "series_instrument s = candle_instrument (hd (hs_candles s))"

record previous_session_facts =
  ps_trading_date :: date
  ps_candle :: candle

record historical_context =
  hc_instrument :: instrument
  hc_previous_session :: "previous_session_facts option"
  hc_series :: "historical_series list"

text \<open>
  \<^verbatim>\<open>timeframe_ordering_key\<close> of \<^verbatim>\<open>historical/requirements.py\<close>: intraday before session, then by
  duration (compared here in microseconds). Sorting by the pair is sorting by its second
  component and then, stably, by its first.
\<close>

definition timeframe_ordering_key :: "timeframe \<Rightarrow> bool \<times> timedelta" where
  "timeframe_ordering_key tf = (is_session tf, case tf_duration tf of None \<Rightarrow> 0 | Some x \<Rightarrow> x)"

definition order_series :: "historical_series list \<Rightarrow> historical_series list" where
  "order_series ss =
     sort_key (\<lambda>s. fst (timeframe_ordering_key (hs_timeframe s)))
       (sort_key (\<lambda>s. snd (timeframe_ordering_key (hs_timeframe s))) ss)"

definition validate_membership :: "historical_context \<Rightarrow> historical_context res" where
  "validate_membership h =
     (let tfs = map hs_timeframe (hc_series h)
      in if card (set tfs) \<noteq> length tfs
         then Inl (ValidationError ''a historical context may hold at most one series per timeframe'')
         else if list_ex (\<lambda>s. series_instrument s \<noteq> hc_instrument h) (hc_series h)
         then Inl (ValidationError ''every series must belong to the context instrument'')
         else (case hc_previous_session h of
                 None \<Rightarrow> Inr h
               | Some p \<Rightarrow> (if candle_instrument (ps_candle p) \<noteq> hc_instrument h
                   then Inl (ValidationError ''previous-session facts must belong to the context instrument'')
                   else Inr h)))"

definition mk_historical_context ::
  "instrument \<Rightarrow> previous_session_facts option \<Rightarrow> historical_series list \<Rightarrow> historical_context res" where
  "mk_historical_context i p ss =
     validate_membership \<lparr>hc_instrument = i, hc_previous_session = p, hc_series = order_series ss\<rparr>"

section \<open>The market context\<close>

record market_context =
  mc_instrument :: instrument
  mc_version :: int
  mc_sequence :: int
  mc_event_timestamp :: instant
  mc_observed_at :: instant
  mc_latest_tick :: "tick option"
  mc_latest_quote :: "quote option"
  mc_latest_candle :: "candle option"
  mc_candle_sets :: "timeframe_candles list"
  mc_session :: "session_context option"
  mc_facts :: "market_fact list"
  mc_metadata :: "(string \<times> string) list"
  mc_historical :: "historical_context option"
  mc_session_statistics :: "session_statistics option"
  mc_previous_close :: "decimal option"
  mc_is_valid :: bool

text \<open>
  The observable arguments the two builders share, with the defaults of their signatures in
  \<open>no_observations\<close>.
\<close>

record context_args =
  arg_latest_tick :: "tick option"
  arg_latest_quote :: "quote option"
  arg_latest_candle :: "candle option"
  arg_candle_sets :: "timeframe_candles list"
  arg_session :: "session_context option"
  arg_facts :: "market_fact list"
  arg_metadata :: "(string \<times> string) list"
  arg_historical :: "historical_context option"
  arg_session_statistics :: "session_statistics option"
  arg_previous_close :: "decimal option"
  arg_is_valid :: bool

definition no_observations :: context_args where
  "no_observations =
     \<lparr>arg_latest_tick = None, arg_latest_quote = None, arg_latest_candle = None, arg_candle_sets = [],
      arg_session = None, arg_facts = [], arg_metadata = [], arg_historical = None,
      arg_session_statistics = None, arg_previous_close = None, arg_is_valid = True\<rparr>"

definition context_at :: "instrument \<Rightarrow> int \<Rightarrow> int \<Rightarrow> instant \<Rightarrow> instant \<Rightarrow> context_args \<Rightarrow> market_context" where
  "context_at i version sequence event_timestamp observed_at a =
     \<lparr>mc_instrument = i, mc_version = version, mc_sequence = sequence,
      mc_event_timestamp = event_timestamp, mc_observed_at = observed_at,
      mc_latest_tick = arg_latest_tick a, mc_latest_quote = arg_latest_quote a,
      mc_latest_candle = arg_latest_candle a, mc_candle_sets = arg_candle_sets a,
      mc_session = arg_session a, mc_facts = arg_facts a, mc_metadata = arg_metadata a,
      mc_historical = arg_historical a, mc_session_statistics = arg_session_statistics a,
      mc_previous_close = arg_previous_close a, mc_is_valid = arg_is_valid a\<rparr>"

definition initial_context :: "instrument \<Rightarrow> int \<Rightarrow> instant \<Rightarrow> instant \<Rightarrow> context_args \<Rightarrow> market_context" where
  "initial_context i sequence event_timestamp observed_at a =
     context_at i 1 sequence event_timestamp observed_at a"

definition with_update :: "market_context \<Rightarrow> int \<Rightarrow> instant \<Rightarrow> instant \<Rightarrow> context_args \<Rightarrow> market_context" where
  "with_update ctx sequence event_timestamp observed_at a =
     context_at (mc_instrument ctx) (mc_version ctx + 1) sequence event_timestamp observed_at a"

lemma context_at_simps [simp]:
  "mc_instrument (context_at i v sq e ob a) = i"
  "mc_version (context_at i v sq e ob a) = v"
  "mc_sequence (context_at i v sq e ob a) = sq"
  "mc_event_timestamp (context_at i v sq e ob a) = e"
  "mc_observed_at (context_at i v sq e ob a) = ob"
  "mc_latest_tick (context_at i v sq e ob a) = arg_latest_tick a"
  "mc_latest_quote (context_at i v sq e ob a) = arg_latest_quote a"
  "mc_candle_sets (context_at i v sq e ob a) = arg_candle_sets a"
  "mc_session (context_at i v sq e ob a) = arg_session a"
  "mc_historical (context_at i v sq e ob a) = arg_historical a"
  "mc_session_statistics (context_at i v sq e ob a) = arg_session_statistics a"
  "mc_previous_close (context_at i v sq e ob a) = arg_previous_close a"
  by (simp_all add: context_at_def)

lemma initial_version [simp]: "mc_version (initial_context i sq e ob a) = 1"
  by (simp add: initial_context_def)

lemma with_update_version [simp]: "mc_version (with_update c sq e ob a) = mc_version c + 1"
  by (simp add: with_update_def)

lemma builder_instrument [simp]:
  "mc_instrument (initial_context i sq e ob a) = i"
  "mc_instrument (with_update c sq e ob a) = mc_instrument c"
  by (simp_all add: initial_context_def with_update_def)

lemma builder_sequence [simp]:
  "mc_sequence (initial_context i sq e ob a) = sq"
  "mc_sequence (with_update c sq e ob a) = sq"
  by (simp_all add: initial_context_def with_update_def)

end
