(* ===== verification/Resampling.thy ===== *)
theory Resampling
  imports Buckets Market_Context "HOL-Library.Multiset"
begin

text \<open>
  Exact reconstruction of larger candles from smaller ones (\<^verbatim>\<open>market_engine/historical/resampling.py\<close>)
  and the re-stamping of provider daily bars to session identity
  (\<^verbatim>\<open>market_engine/historical/session_candles.py\<close>). A dictionary of lists is the partial map \<open>group_by\<close>
  builds; \<^verbatim>\<open>sorted(by_date)\<close> is the sorted list of its keys. Where the bucket enumeration would not
  return, the result is the error \<open>Diverges\<close>.
\<close>

section \<open>Base selection\<close>

definition divides_exactly :: "timeframe \<Rightarrow> timeframe \<Rightarrow> bool" where
  "divides_exactly target base =
     (case (tf_duration target, tf_duration base) of
        (Some t, Some b) \<Rightarrow> (if t \<le> b then False else t mod b = 0)
      | _ \<Rightarrow> False)"

text \<open>\<^verbatim>\<open>max(candidates, key=...)\<close> keeps the first maximal element.\<close>

fun max_key :: "('a \<Rightarrow> 'b::linorder) \<Rightarrow> 'a \<Rightarrow> 'a list \<Rightarrow> 'a" where
  "max_key f m [] = m"
| "max_key f m (x # xs) = max_key f (if f m < f x then x else m) xs"

definition duration_or_zero :: "timeframe \<Rightarrow> timedelta" where
  "duration_or_zero tf = (case tf_duration tf of None \<Rightarrow> 0 | Some dur \<Rightarrow> dur)"

definition select_base :: "timeframe \<Rightarrow> timeframe list \<Rightarrow> timeframe option" where
  "select_base target direct =
     (if is_session target \<or> tf_duration target = None then None
      else case filter (divides_exactly target) direct of
        [] \<Rightarrow> None
      | c # cs \<Rightarrow> Some (max_key duration_or_zero c cs))"

section \<open>Proving and aggregating one bucket\<close>

text \<open>The loop of \<^verbatim>\<open>_contiguous_and_sized\<close>; \<open>prev\<close> is the end of the candle before, if any.\<close>

fun contiguous_from :: "timedelta \<Rightarrow> instant \<Rightarrow> instant option \<Rightarrow> candle list \<Rightarrow> bool" where
  "contiguous_from source_duration session_close prev [] = True"
| "contiguous_from source_duration session_close prev (c # cs) =
     (if candle_end c - candle_start c \<noteq> source_duration \<and> candle_end c \<noteq> session_close then False
      else if (\<exists>p. prev = Some p \<and> candle_start c \<noteq> p) then False
      else contiguous_from source_duration session_close (Some (candle_end c)) cs)"

lemma contiguous_from_code [code]:
  "contiguous_from source_duration session_close prev [] = True"
  "contiguous_from source_duration session_close prev (c # cs) =
     (if candle_end c - candle_start c \<noteq> source_duration \<and> candle_end c \<noteq> session_close then False
      else if (case prev of None \<Rightarrow> False | Some p \<Rightarrow> candle_start c \<noteq> p) then False
      else contiguous_from source_duration session_close (Some (candle_end c)) cs)"
  by (simp_all split: option.split)

definition contiguous_and_sized :: "candle list \<Rightarrow> timedelta \<Rightarrow> instant \<Rightarrow> bool" where
  "contiguous_and_sized ordered source_duration session_close =
     contiguous_from source_duration session_close None ordered"

definition prove_and_aggregate ::
  "candle list \<Rightarrow> instant \<Rightarrow> instant \<Rightarrow> timedelta \<Rightarrow> instant \<Rightarrow> candle option res" where
  "prove_and_aggregate constituents start_ts end_ts source_duration session_close =
     (case sort_key candle_start constituents of
        [] \<Rightarrow> Inr None
      | c # cs \<Rightarrow>
          (if candle_start c \<noteq> start_ts \<or> candle_end (last (c # cs)) \<noteq> end_ts then Inr None
           else if \<not> contiguous_and_sized (c # cs) source_duration session_close then Inr None
           else res_bind (mk_candle (candle_instrument c) (utc start_ts) (utc end_ts) (candle_open c)
                  (max_of (candle_high c) (map candle_high cs)) (min_of (candle_low c) (map candle_low cs))
                  (candle_close (last (c # cs))) (sum_list (map candle_quantity (c # cs))))
                (\<lambda>candle. Inr (Some candle))))"

section \<open>Reconstruction\<close>

definition bucket_index_of :: "date \<Rightarrow> timeframe \<Rightarrow> trading_interval \<Rightarrow> zone \<Rightarrow> candle \<Rightarrow> int" where
  "bucket_index_of trading_date target interval z c =
     fst (bucket_bounds (candle_start c) trading_date target interval z)"

definition group_by_bucket_index ::
  "candle list \<Rightarrow> date \<Rightarrow> timeframe \<Rightarrow> trading_interval \<Rightarrow> zone \<Rightarrow> int \<Rightarrow> candle list option" where
  "group_by_bucket_index day_candles trading_date target interval z =
     group_by (bucket_index_of trading_date target interval z) day_candles"

definition start_date :: "zone \<Rightarrow> candle \<Rightarrow> date" where
  "start_date z c = wall_date (to_wall z (candle_start c))"

definition group_by_trading_date :: "candle list \<Rightarrow> zone \<Rightarrow> date \<Rightarrow> candle list option" where
  "group_by_trading_date cs z = group_by (start_date z) cs"

definition interval_close :: "date \<Rightarrow> trading_interval \<Rightarrow> zone \<Rightarrow> instant res" where
  "interval_close trading_date interval z =
     res_bind (tf_minutes 1) (\<lambda>one_minute.
       Inr (snd (snd (bucket_bounds (to_utc z (combine trading_date (iv_end interval)))
                        trading_date one_minute interval z))))"

definition reconstruct_interval ::
  "date \<Rightarrow> candle list \<Rightarrow> timeframe \<Rightarrow> timedelta \<Rightarrow> trading_interval \<Rightarrow> zone \<Rightarrow> candle list res" where
  "reconstruct_interval trading_date day_candles target source_duration interval z =
     res_bind (interval_close trading_date interval z) (\<lambda>close.
       let by_index = group_by_bucket_index day_candles trading_date target interval z
       in case session_buckets trading_date target interval z of
            None \<Rightarrow> Inl Diverges
          | Some buckets \<Rightarrow>
              res_bind (map_res (\<lambda>(index, s, e).
                  prove_and_aggregate (case by_index index of None \<Rightarrow> [] | Some cs \<Rightarrow> cs) s e source_duration close) buckets)
                (\<lambda>candles. Inr (List.map_filter id candles)))"

definition reconstruct_date ::
  "candle list \<Rightarrow> timeframe \<Rightarrow> timedelta \<Rightarrow> effective_schedule \<Rightarrow> trading_calendar \<Rightarrow> zone \<Rightarrow> date \<Rightarrow> candle list res" where
  "reconstruct_date candles target source_duration effective cal z trading_date =
     (if \<not> is_trading_day cal trading_date then Inr []
      else if trading_date \<in> open_sessions cal \<and> \<not> has_override effective trading_date then Inr []
      else let day_candles = (case group_by_trading_date candles z trading_date of None \<Rightarrow> [] | Some cs \<Rightarrow> cs)
           in res_bind (map_res (\<lambda>interval. reconstruct_interval trading_date day_candles target source_duration interval z)
                          (intervals_for effective trading_date))
                (\<lambda>blocks. Inr (concat blocks)))"

definition reconstruct_series ::
  "historical_series \<Rightarrow> timeframe \<Rightarrow> effective_schedule \<Rightarrow> trading_calendar \<Rightarrow> zone \<Rightarrow> historical_series option res" where
  "reconstruct_series source target effective cal z =
     (if \<not> divides_exactly target (hs_timeframe source)
      then Inl (ValueError ''target timeframe must be exactly divisible by the source timeframe'')
      else case tf_duration (hs_timeframe source) of
        None \<Rightarrow> Inr None
      | Some source_duration \<Rightarrow>
          (let dates = sort (remdups (map (start_date z) (hs_candles source)))
           in res_bind (map_res (reconstruct_date (hs_candles source) target source_duration effective cal z) dates) (\<lambda>days.
                let reconstructed = concat days
                in if reconstructed = [] then Inr None
                   else res_bind (mk_historical_series target reconstructed) (\<lambda>s. Inr (Some s)))))"

section \<open>Session identity of daily bars\<close>

definition canonicalize_session_candle ::
  "effective_schedule \<Rightarrow> trading_calendar \<Rightarrow> zone \<Rightarrow> candle \<Rightarrow> candle option res" where
  "canonicalize_session_candle effective cal z c =
     (let trading_date = start_date z c
      in if \<not> is_trading_day cal trading_date then Inr None
         else case bucket_bounds (candle_start c) trading_date tf_session (envelope_for effective trading_date) z of
           (_, start_utc, end_utc) \<Rightarrow>
             res_bind (mk_candle (candle_instrument c) (utc start_utc) (utc end_utc) (candle_open c) (candle_high c)
                         (candle_low c) (candle_close c) (candle_quantity c))
               (\<lambda>session. Inr (Some session)))"

fun canonical_loop ::
  "effective_schedule \<Rightarrow> trading_calendar \<Rightarrow> zone \<Rightarrow> (instant \<times> instant) set \<Rightarrow> candle list \<Rightarrow> candle list res" where
  "canonical_loop effective cal z seen [] = Inr []"
| "canonical_loop effective cal z seen (c # cs) =
     res_bind (canonicalize_session_candle effective cal z c) (\<lambda>session.
       case session of
         None \<Rightarrow> canonical_loop effective cal z seen cs
       | Some s \<Rightarrow>
           (let ident = (candle_start s, candle_end s)
            in if ident \<in> seen then canonical_loop effective cal z seen cs
               else res_bind (canonical_loop effective cal z (insert ident seen) cs) (\<lambda>rest. Inr (s # rest))))"

definition canonical_session_series ::
  "effective_schedule \<Rightarrow> trading_calendar \<Rightarrow> zone \<Rightarrow> candle list \<Rightarrow> candle list res" where
  "canonical_session_series effective cal z candles = canonical_loop effective cal z {} candles"

section \<open>When a bucket is covered exactly\<close>

text \<open>
  The reference notion: the candles, in order, tile the bucket from its start to its end without
  gap or overlap, and each has the source width or ends at the close of the live interval.
\<close>

fun tiles :: "instant \<Rightarrow> candle list \<Rightarrow> instant \<Rightarrow> bool" where
  "tiles s [] e = (s = e)"
| "tiles s (c # cs) e = (candle_start c = s \<and> tiles (candle_end c) cs e)"

definition sized :: "timedelta \<Rightarrow> instant \<Rightarrow> candle \<Rightarrow> bool" where
  "sized source_duration session_close c \<longleftrightarrow>
     candle_end c - candle_start c = source_duration \<or> candle_end c = session_close"

definition covers :: "candle list \<Rightarrow> instant \<Rightarrow> instant \<Rightarrow> timedelta \<Rightarrow> instant \<Rightarrow> bool" where
  "covers cs s e source_duration session_close \<longleftrightarrow>
     cs \<noteq> [] \<and> tiles s (sort_key candle_start cs) e \<and> list_all (sized source_duration session_close) cs"

definition aggregate_of :: "candle list \<Rightarrow> instant \<Rightarrow> instant \<Rightarrow> candle" where
  "aggregate_of cs s e =
     (let ordered_cs = sort_key candle_start cs
      in \<lparr>candle_instrument = candle_instrument (hd ordered_cs), candle_start = s, candle_end = e,
          candle_open = candle_open (hd ordered_cs), candle_high = Max (candle_high ` set cs),
          candle_low = Min (candle_low ` set cs), candle_close = candle_close (last ordered_cs),
          candle_quantity = sum_list (map candle_quantity cs)\<rparr>)"

lemma tiles_end: "tiles s cs e \<Longrightarrow> e = (if cs = [] then s else candle_end (last cs))"
  by (induction cs arbitrary: s) (auto split: if_splits)

lemma contiguous_from_tiles:
  "contiguous_from src close (Some p) cs \<longleftrightarrow>
     tiles p cs (if cs = [] then p else candle_end (last cs)) \<and> list_all (sized src close) cs"
  by (induction cs arbitrary: p) (auto simp: sized_def)

lemma contiguous_and_sized_tiles:
  "contiguous_and_sized (c # cs) src close \<longleftrightarrow>
     tiles (candle_start c) (c # cs) (candle_end (last (c # cs))) \<and> list_all (sized src close) (c # cs)"
  by (auto simp: contiguous_and_sized_def contiguous_from_tiles sized_def)

lemma tiles_bounds:
  assumes "tiles s cs e" "list_all wf_candle cs"
  shows "s \<le> e" "cs \<noteq> [] \<Longrightarrow> s < e" "c \<in> set cs \<Longrightarrow> s \<le> candle_start c \<and> candle_end c \<le> e"
proof -
  have "s \<le> e \<and> (cs \<noteq> [] \<longrightarrow> s < e) \<and> (\<forall>c \<in> set cs. s \<le> candle_start c \<and> candle_end c \<le> e)"
    using assms
  proof (induction cs arbitrary: s)
    case (Cons a cs)
    then have "candle_start a < candle_end a" by (simp add: wf_simps)
    with Cons show ?case by fastforce
  qed simp
  then show "s \<le> e" "cs \<noteq> [] \<Longrightarrow> s < e" "c \<in> set cs \<Longrightarrow> s \<le> candle_start c \<and> candle_end c \<le> e" by blast+
qed

lemma sum_list_sort_key: "sum_list (map f (sort_key g xs)) = sum_list (map f (xs :: 'a list))"
  for f :: "'a \<Rightarrow> int"
  by (metis mset_map mset_sort sum_mset_sum_list)

lemma aggregate_wf:
  assumes "cs \<noteq> []" "list_all wf_candle cs" "s < e"
  shows "wf_candle (aggregate_of cs s e)"
proof -
  let ?o = "sort_key candle_start cs"
  have ne: "?o \<noteq> []" using assms(1) by (metis set_empty set_sort)
  have ends: "hd ?o \<in> set cs" "last ?o \<in> set cs" using ne by (metis hd_in_set set_sort, metis last_in_set set_sort)
  have wf: "wf_candle (hd ?o)" "wf_candle (last ?o)" using ends assms(2) by (simp_all add: list_all_iff)
  have hi: "candle_high c \<le> Max (candle_high ` set cs)" if "c \<in> set cs" for c using that by simp
  have lo: "Min (candle_low ` set cs) \<le> candle_low c" if "c \<in> set cs" for c using that by simp
  have "Min (candle_low ` set cs) \<in> candle_low ` set cs" using assms(1) by (intro Min_in) simp_all
  then have "0 < Min (candle_low ` set cs)" using assms(2) by (auto simp: list_all_iff wf_simps)
  moreover have "0 \<le> sum_list (map candle_quantity cs)"
    using assms(2) by (intro sum_list_nonneg) (auto simp: list_all_iff wf_simps)
  ultimately show ?thesis
    using wf hi [OF ends(1)] hi [OF ends(2)] lo [OF ends(1)] lo [OF ends(2)] assms(3)
    by (auto simp: aggregate_of_def Let_def wf_simps)
qed

lemma prove_and_aggregate_eq:
  assumes "list_all wf_candle cs"
  shows "prove_and_aggregate cs s e src close =
    Inr (if covers cs s e src close then Some (aggregate_of cs s e) else None)"
proof (cases "sort_key candle_start cs")
  case Nil
  then have "cs = []" by (metis set_empty set_sort)
  then show ?thesis by (simp add: prove_and_aggregate_def covers_def)
next
  case (Cons c os)
  then have ne: "cs \<noteq> []" by auto
  have sets: "set (c # os) = set cs" using Cons by (metis set_sort)
  have wfo: "list_all wf_candle (c # os)" using assms sets by (simp add: list_all_iff)
  have sized: "list_all (sized src close) (c # os) = list_all (sized src close) cs"
    using sets by (simp add: list_all_iff)
  show ?thesis
  proof (cases "covers cs s e src close")
    case True
    then have t: "tiles s (c # os) e" "list_all (sized src close) (c # os)"
      by (simp_all only: covers_def Cons sized)
    have "s < e" using tiles_bounds(2) [OF t(1) wfo] by simp
    then have wf: "wf_candle (aggregate_of cs s e)" using aggregate_wf [OF ne assms] by blast
    have agg: "aggregate_of cs s e = \<lparr>candle_instrument = candle_instrument c, candle_start = s, candle_end = e,
        candle_open = candle_open c, candle_high = max_of (candle_high c) (map candle_high os),
        candle_low = min_of (candle_low c) (map candle_low os), candle_close = candle_close (last (c # os)),
        candle_quantity = sum_list (map candle_quantity (c # os))\<rparr>"
      using sets sum_list_sort_key [of candle_quantity candle_start cs]
      by (simp add: aggregate_of_def Cons max_of_eq min_of_eq flip: sets)
    from agg wf have "mk_candle (candle_instrument c) (utc s) (utc e) (candle_open c)
        (max_of (candle_high c) (map candle_high os)) (min_of (candle_low c) (map candle_low os))
        (candle_close (last (c # os))) (sum_list (map candle_quantity (c # os))) = Inr (aggregate_of cs s e)"
      by (simp only: mk_candle_iff)
    moreover have "contiguous_and_sized (c # os) src close" "candle_start c = s" "candle_end (last (c # os)) = e"
      using t tiles_end [OF t(1)] by (simp_all add: contiguous_and_sized_tiles)
    ultimately show ?thesis using True by (simp add: prove_and_aggregate_def Cons)
  next
    case False
    have "\<not> (candle_start c = s \<and> candle_end (last (c # os)) = e \<and> contiguous_and_sized (c # os) src close)"
    proof
      assume "candle_start c = s \<and> candle_end (last (c # os)) = e \<and> contiguous_and_sized (c # os) src close"
      with False ne show False by (simp only: covers_def Cons contiguous_and_sized_tiles sized) metis
    qed
    with False show ?thesis by (auto simp: prove_and_aggregate_def Cons)
  qed
qed

section \<open>The reconstruction as a pure function of its source\<close>

definition bucket_sources :: "date \<Rightarrow> candle list \<Rightarrow> timeframe \<Rightarrow> trading_interval \<Rightarrow> zone \<Rightarrow> int \<Rightarrow> candle list" where
  "bucket_sources d cs target iv z k = filter (\<lambda>c. bucket_index_of d target iv z c = k) cs"

definition interval_candles ::
  "date \<Rightarrow> candle list \<Rightarrow> timeframe \<Rightarrow> timedelta \<Rightarrow> trading_interval \<Rightarrow> zone \<Rightarrow> candle list" where
  "interval_candles d cs target src iv z =
     map (\<lambda>(k, s, e). aggregate_of (bucket_sources d cs target iv z k) s e)
       (filter (\<lambda>(k, s, e). covers (bucket_sources d cs target iv z k) s e src (to_utc z (combine d (iv_end iv))))
         (the (session_buckets d target iv z)))"

definition date_candles ::
  "candle list \<Rightarrow> timeframe \<Rightarrow> timedelta \<Rightarrow> effective_schedule \<Rightarrow> trading_calendar \<Rightarrow> zone \<Rightarrow> date \<Rightarrow> candle list" where
  "date_candles cs target src eff cal z d =
     (if is_trading_day cal d \<and> (d \<in> open_sessions cal \<longrightarrow> has_override eff d)
      then concat (map (\<lambda>iv. interval_candles d (filter (\<lambda>c. start_date z c = d) cs) target src iv z) (intervals_for eff d))
      else [])"

definition wf_effective :: "effective_schedule \<Rightarrow> bool" where
  "wf_effective eff \<longleftrightarrow> wf_schedule (eff_default eff)
     \<and> (\<forall>d ov. eff_overrides eff d = Some ov \<longrightarrow>
          ov_live_intervals ov \<noteq> [] \<and> list_all wf_interval (ov_live_intervals ov) \<and> intervals_gapped (ov_live_intervals ov))"

lemma wf_intervals_for:
  assumes "wf_effective eff"
  shows "list_all wf_interval (intervals_for eff d)" "intervals_gapped (intervals_for eff d)" "intervals_for eff d \<noteq> []"
  using assms by (auto simp: wf_effective_def intervals_for_def intervals_gapped_def split: option.splits)

lemma wf_envelope_for:
  assumes "wf_effective eff"
  shows "wf_interval (envelope_for eff d)"
proof (cases "eff_overrides eff d")
  case None
  then show ?thesis using assms by (simp add: wf_effective_def envelope_for_def)
next
  case (Some ov)
  with assms have wf: "ov_live_intervals ov \<noteq> []" "list_all wf_interval (ov_live_intervals ov)"
    "intervals_gapped (ov_live_intervals ov)" by (auto simp: wf_effective_def)
  then obtain iv ivs where ivs: "ov_live_intervals ov = iv # ivs" by (cases "ov_live_intervals ov") simp_all
  have "iv_end iv < iv_start (last ivs)" if "ivs \<noteq> []"
    using that wf ivs intervals_gapped_Cons(2) [of iv ivs "last ivs"] by simp
  moreover have "wf_interval iv" "ivs \<noteq> [] \<Longrightarrow> wf_interval (last ivs)" using wf ivs by (simp_all add: list_all_iff)
  ultimately show ?thesis using Some ivs by (auto simp: envelope_for_def wf_simps)
qed

lemma tf_one_minute: "tf_minutes 1 = Inr (Timeframe INTRADAY (Some MINUTE))"
  by (simp add: tf_minutes_def mk_timeframe_def)

lemma map_filter_if:
  "List.map_filter id (map (\<lambda>x. if P x then Some (g x) else None) xs) = map g (filter P xs)"
  by (induction xs) (simp_all add: List.map_filter_def)

lemma group_default: "(case group_by key xs k of None \<Rightarrow> [] | Some ys \<Rightarrow> ys) = filter (\<lambda>x. key x = k) xs"
  by (simp add: group_by_eq Let_def)

context steady_day
begin

lemma interval_close_eq:
  assumes "wf_interval iv"
  shows "interval_close d iv z = Inr (to_utc z (combine d (iv_end iv)))"
proof -
  let ?o = "combine d (iv_start iv)" and ?c = "combine d (iv_end iv)"
  have "to_wall z (to_utc z ?c) = ?c" using assms by (intro wall_utc) (simp add: wf_simps)
  moreover have "?c - ?o < ((?c - ?o) div MINUTE + 1) * MINUTE"
    using eq_div_iff_range [of MINUTE "(?c - ?o) div MINUTE" "?c - ?o"] by simp
  then have "min (?o + (?c - ?o) div MINUTE * MINUTE + MINUTE) ?c = ?c" by (simp add: algebra_simps)
  ultimately show ?thesis
    by (simp add: interval_close_def tf_one_minute bucket_bounds_def Let_def)
qed

lemma reconstruct_interval_eq:
  assumes "wf_interval iv" "wf_timeframe target" "list_all wf_candle cs"
  shows "reconstruct_interval d cs target src iv z = Inr (interval_candles d cs target src iv z)"
proof -
  obtain bs where bs: "session_buckets d target iv z = Some bs" using session_buckets_returns [OF assms(2)] by blast
  let ?close = "to_utc z (combine d (iv_end iv))"
  let ?P = "\<lambda>(k, s, e). covers (bucket_sources d cs target iv z k) s e src ?close"
  let ?g = "\<lambda>(k, s, e). aggregate_of (bucket_sources d cs target iv z k) s e"
  have "list_all wf_candle (bucket_sources d cs target iv z k)" for k
    using assms(3) by (auto simp: list_all_iff bucket_sources_def)
  then have "map_res (\<lambda>(index, s, e). prove_and_aggregate (bucket_sources d cs target iv z index) s e src ?close) bs
      = Inr (map (\<lambda>x. if ?P x then Some (?g x) else None) bs)"
    by (intro map_res_Inr) (auto simp: prove_and_aggregate_eq)
  then show ?thesis
    using map_filter_if [of ?P ?g bs]
    by (simp add: reconstruct_interval_def interval_close_eq [OF assms(1)] bs group_by_bucket_index_def group_default
        bucket_sources_def [symmetric] interval_candles_def Let_def)
qed

lemma reconstruct_date_eq:
  assumes "wf_effective eff" "wf_timeframe target" "list_all wf_candle cs"
  shows "reconstruct_date cs target src eff cal z d = Inr (date_candles cs target src eff cal z d)"
proof -
  have "list_all wf_candle (filter (\<lambda>c. start_date z c = d) cs)" using assms(3) by (auto simp: list_all_iff)
  then have "map_res (\<lambda>iv. reconstruct_interval d (filter (\<lambda>c. start_date z c = d) cs) target src iv z) (intervals_for eff d)
      = Inr (map (\<lambda>iv. interval_candles d (filter (\<lambda>c. start_date z c = d) cs) target src iv z) (intervals_for eff d))"
    using wf_intervals_for(1) [OF assms(1), of d] assms(2)
    by (intro map_res_Inr reconstruct_interval_eq) (auto simp: list_all_iff)
  then show ?thesis
    by (auto simp: reconstruct_date_def date_candles_def group_by_trading_date_def group_default)
qed

lemma interval_candles_ordered:
  assumes "wf_interval iv" "wf_timeframe target" "list_all wf_candle cs"
  shows "sorted_wrt (\<lambda>a b. candle_end a \<le> candle_start b) (interval_candles d cs target src iv z)"
    and "c \<in> set (interval_candles d cs target src iv z) \<Longrightarrow>
      wf_candle c \<and> to_utc z (combine d (iv_start iv)) \<le> candle_start c \<and> candle_end c \<le> to_utc z (combine d (iv_end iv))
      \<and> candle_instrument c \<in> candle_instrument ` set cs"
proof -
  obtain bs where bs: "session_buckets d target iv z = Some bs" using session_buckets_returns [OF assms(2)] by blast
  let ?P = "\<lambda>(k, s, e). covers (bucket_sources d cs target iv z k) s e src (to_utc z (combine d (iv_end iv)))"
  have "sorted_wrt (\<lambda>(_, _, e) (_, s, _). e \<le> s) (filter ?P bs)"
    using session_buckets_ordered(1) [OF assms(1,2) bs] by (rule sorted_wrt_filter)
  then show "sorted_wrt (\<lambda>a b. candle_end a \<le> candle_start b) (interval_candles d cs target src iv z)"
    unfolding interval_candles_def sorted_wrt_map bs option.sel
    by (rule sorted_wrt_mono_rel [rotated]) (auto simp: aggregate_of_def Let_def)
  assume "c \<in> set (interval_candles d cs target src iv z)"
  then obtain k s e where k: "(k, s, e) \<in> set bs" and cov: "covers (bucket_sources d cs target iv z k) s e src (to_utc z (combine d (iv_end iv)))"
    and c: "c = aggregate_of (bucket_sources d cs target iv z k) s e"
    by (auto simp: interval_candles_def bs)
  let ?cs = "bucket_sources d cs target iv z k"
  have wf: "list_all wf_candle ?cs" "list_all wf_candle (sort_key candle_start ?cs)"
    using assms(3) by (auto simp: list_all_iff bucket_sources_def)
  have ne: "?cs \<noteq> []" "sort_key candle_start ?cs \<noteq> []" using cov by (auto simp: covers_def) (metis set_empty set_sort)
  have "s < e" using cov tiles_bounds(2) [OF _ wf(2)] ne by (auto simp: covers_def)
  from aggregate_wf [OF ne(1) wf(1) this] have "wf_candle c" by (simp add: c)
  moreover have "hd (sort_key candle_start ?cs) \<in> set cs"
    using ne(2) hd_in_set [of "sort_key candle_start ?cs"] by (auto simp: bucket_sources_def)
  ultimately show "wf_candle c \<and> to_utc z (combine d (iv_start iv)) \<le> candle_start c \<and> candle_end c \<le> to_utc z (combine d (iv_end iv))
      \<and> candle_instrument c \<in> candle_instrument ` set cs"
    using session_buckets_ordered(2) [OF assms(1,2) bs k] by (auto simp: c aggregate_of_def Let_def)
qed

lemma date_candles_ordered:
  assumes "wf_effective eff" "wf_timeframe target" "list_all wf_candle cs"
  shows "sorted_wrt (\<lambda>a b. candle_end a \<le> candle_start b) (date_candles cs target src eff cal z d)"
    and "c \<in> set (date_candles cs target src eff cal z d) \<Longrightarrow>
      wf_candle c \<and> combine d 0 - off \<le> candle_start c \<and> candle_end c \<le> combine (d + 1) 0 - off
      \<and> candle_instrument c \<in> candle_instrument ` set cs"
proof -
  let ?cs = "filter (\<lambda>c. start_date z c = d) cs"
  have wf: "list_all wf_candle ?cs" using assms(3) by (auto simp: list_all_iff)
  have blocks: "sorted_wrt (\<lambda>a b. candle_end a \<le> candle_start b) (concat (map (\<lambda>iv. interval_candles d ?cs target src iv z) ivs))"
    if "list_all wf_interval ivs" "intervals_gapped ivs" for ivs
    using that
  proof (induction ivs)
    case (Cons iv ivs)
    then have ok: "wf_interval iv" "list_all wf_interval ivs" by simp_all
    note gap = intervals_gapped_Cons [OF Cons.prems(2,1)]
    have "candle_end a \<le> candle_start b"
      if a: "a \<in> set (interval_candles d ?cs target src iv z)" and iv': "iv' \<in> set ivs" and b: "b \<in> set (interval_candles d ?cs target src iv' z)" for a b iv'
    proof -
      have ok': "wf_interval iv'" using ok(2) iv' by (simp add: list_all_iff)
      have "to_utc z (combine d (iv_end iv)) \<le> to_utc z (combine d (iv_start iv'))"
        using gap(2) [OF iv'] ok(1) ok' by (subst to_utc_le) (simp_all add: wf_simps)
      with interval_candles_ordered(2) [OF ok(1) assms(2) wf a] interval_candles_ordered(2) [OF ok' assms(2) wf b]
      show ?thesis by linarith
    qed
    then show ?case
      using Cons.IH [OF ok(2) gap(1)] interval_candles_ordered(1) [OF ok(1) assms(2) wf]
      by (auto simp: sorted_wrt_append)
  qed simp
  show "sorted_wrt (\<lambda>a b. candle_end a \<le> candle_start b) (date_candles cs target src eff cal z d)"
    using blocks [OF wf_intervals_for(1,2) [OF assms(1)]] by (simp add: date_candles_def)
  assume "c \<in> set (date_candles cs target src eff cal z d)"
  then obtain iv where iv: "iv \<in> set (intervals_for eff d)" "c \<in> set (interval_candles d ?cs target src iv z)"
    by (auto simp: date_candles_def split: if_splits)
  then have ok: "wf_interval iv" using wf_intervals_for(1) [OF assms(1)] by (auto simp: list_all_iff)
  have "combine d 0 - off \<le> to_utc z (combine d (iv_start iv))" "to_utc z (combine d (iv_end iv)) \<le> combine (d + 1) 0 - off"
  proof -
    have "wall_date (combine d (iv_start iv)) = d" "wall_date (combine d (iv_end iv)) = d" using ok by (simp_all add: wf_simps)
    then show "combine d 0 - off \<le> to_utc z (combine d (iv_start iv))" "to_utc z (combine d (iv_end iv)) \<le> combine (d + 1) 0 - off"
      using ok by (simp_all add: to_utc_day wf_simps is_time_def) (simp_all add: combine_def)
  qed
  with interval_candles_ordered(2) [OF ok assms(2) wf iv(2)]
  show "wf_candle c \<and> combine d 0 - off \<le> candle_start c \<and> candle_end c \<le> combine (d + 1) 0 - off
      \<and> candle_instrument c \<in> candle_instrument ` set cs" by auto
qed

end

section \<open>The reconstructed series is valid\<close>

lemma check_adjacent_ordered:
  "sorted_wrt (\<lambda>a b. candle_end a \<le> candle_start b) cs \<Longrightarrow> list_all wf_candle cs \<Longrightarrow> check_adjacent cs = Inr ()"
  by (induction cs rule: check_adjacent.induct) (auto simp: wf_simps)

lemma order_candles_ordered:
  assumes "sorted_wrt (\<lambda>a b. candle_end a \<le> candle_start b) cs" "list_all wf_candle cs"
  shows "order_candles cs = cs"
proof -
  have "sorted (map candle_start cs) \<and> sorted (map candle_end cs)"
    using assms by (induction cs) (force simp: wf_simps list_all_iff)+
  then show ?thesis by (simp add: order_candles_def sort_key_id_if_sorted)
qed

definition reconstructed_candles ::
  "historical_series \<Rightarrow> timeframe \<Rightarrow> timedelta \<Rightarrow> effective_schedule \<Rightarrow> trading_calendar \<Rightarrow> zone \<Rightarrow> candle list" where
  "reconstructed_candles source target src eff cal z =
     concat (map (date_candles (hs_candles source) target src eff cal z)
       (sort (remdups (map (start_date z) (hs_candles source)))))"

lemma reconstructed_ordered:
  assumes "\<And>d. steady_day z d off" "wf_effective eff" "wf_timeframe target" "list_all wf_candle (hs_candles source)"
  shows "sorted_wrt (\<lambda>a b. candle_end a \<le> candle_start b) (reconstructed_candles source target src eff cal z)"
proof -
  let ?f = "date_candles (hs_candles source) target src eff cal z"
  have "sorted_wrt (\<lambda>a b. candle_end a \<le> candle_start b) (concat (map ?f ds))" if "sorted_wrt (<) ds" for ds
    using that
  proof (induction ds)
    case (Cons d ds)
    have "candle_end a \<le> candle_start b" if "a \<in> set (?f d)" "d' \<in> set ds" "b \<in> set (?f d')" for a b d'
    proof -
      have "d + 1 \<le> d'" using Cons.prems that(2) by auto
      then have "combine (d + 1) 0 \<le> combine d' 0" by (simp add: combine_def)
      with steady_day.date_candles_ordered(2) [OF assms that(1)] steady_day.date_candles_ordered(2) [OF assms that(3)]
      show ?thesis by linarith
    qed
    then show ?case
      using Cons steady_day.date_candles_ordered(1) [OF assms] by (auto simp: sorted_wrt_append)
  qed simp
  then show ?thesis
    unfolding reconstructed_candles_def by (simp add: strict_sorted_iff)
qed

lemma series_of_one_instrument:
  assumes "mk_historical_series tf cs = Inr source"
  shows "\<exists>i. \<forall>c \<in> set (hs_candles source). candle_instrument c = i" "hs_candles source = order_candles cs" "hs_timeframe source = tf"
proof -
  from assms have "card (set (map candle_instrument (hs_candles source))) = 1" "hs_candles source = order_candles cs" "hs_timeframe source = tf"
    by (auto simp: mk_historical_series_def validate_series_identity_def Let_def split: if_splits)
  then show "\<exists>i. \<forall>c \<in> set (hs_candles source). candle_instrument c = i" "hs_candles source = order_candles cs" "hs_timeframe source = tf"
    by (auto simp: card_1_singleton_iff)
qed

lemma reconstruct_series_eq:
  assumes "\<And>d. steady_day z d off" "wf_effective eff" "wf_timeframe target" "divides_exactly target (hs_timeframe source)"
    and "mk_historical_series tf cs = Inr source" "list_all wf_candle cs"
    and src: "tf_duration (hs_timeframe source) = Some src"
  shows "reconstruct_series source target eff cal z =
    Inr (let out = reconstructed_candles source target src eff cal z
         in if out = [] then None else Some \<lparr>hs_timeframe = target, hs_candles = out\<rparr>)"
proof -
  let ?cs = "hs_candles source" and ?out = "reconstructed_candles source target src eff cal z"
  have wf: "list_all wf_candle ?cs" using series_of_one_instrument(2) [OF assms(5)] assms(6) by (simp add: order_candles_def list_all_iff)
  note dated = steady_day.date_candles_ordered [OF assms(1-3) wf]
  have out: "c \<in> set ?out \<Longrightarrow> wf_candle c \<and> candle_instrument c \<in> candle_instrument ` set ?cs" for c
    using dated(2) by (fastforce simp: reconstructed_candles_def)
  then have wfo: "list_all wf_candle ?out" by (simp add: list_all_iff)
  have ord: "sorted_wrt (\<lambda>a b. candle_end a \<le> candle_start b) ?out" using reconstructed_ordered [OF assms(1-3) wf] .
  have days: "map_res (reconstruct_date ?cs target src eff cal z) ds = Inr (map (date_candles ?cs target src eff cal z) ds)" for ds
    using steady_day.reconstruct_date_eq [OF assms(1-3) wf] by (intro map_res_Inr) blast
  have series: "mk_historical_series target ?out = Inr \<lparr>hs_timeframe = target, hs_candles = ?out\<rparr>" if "?out \<noteq> []"
  proof -
    obtain i where i: "\<forall>c \<in> set ?cs. candle_instrument c = i" using series_of_one_instrument(1) [OF assms(5)] by blast
    have "candle_instrument ` set ?out = {i}" using that out i by (auto simp: image_iff) (metis last_in_set)
    then show ?thesis
      using that by (simp add: mk_historical_series_def validate_series_identity_def order_candles_ordered [OF ord wfo]
          check_adjacent_ordered [OF ord wfo] Let_def)
  qed
  then show ?thesis
    using assms(4)
    by (simp add: reconstruct_series_def src days reconstructed_candles_def [symmetric] Let_def del: concat_eq_Nil_conv)
qed

section \<open>Constituents are the source candles inside the bucket\<close>

definition starting_in :: "candle list \<Rightarrow> instant \<Rightarrow> instant \<Rightarrow> candle list" where
  "starting_in cs s e = filter (\<lambda>c. s \<le> candle_start c \<and> candle_start c < e) cs"

context steady_day
begin

lemma bucket_index_spans:
  assumes "wf_interval iv" "wf_timeframe target" "tf_duration target = Some dur" "session_buckets d target iv z = Some bs"
    and "(k, s, e) \<in> set bs" "s \<le> candle_start c" "candle_start c < e"
  shows "start_date z c = d" "bucket_index_of d target iv z c = k"
proof -
  have dur: "0 < dur" using assms(2,3) by (simp add: wf_simps)
  have days: "wall_date (combine d (iv_start iv)) = d" "wall_date (combine d (iv_end iv)) = d"
    using assms(1) by (simp_all add: wf_simps)
  have "to_utc z (combine d (iv_start iv)) \<le> s" "e \<le> to_utc z (combine d (iv_end iv))"
    using session_buckets_ordered(2) [OF assms(1,2,4,5)] by simp_all
  then have t: "combine d (iv_start iv) \<le> candle_start c + off" "candle_start c + off < combine d (iv_end iv)"
    using assms(6,7) days by (simp_all add: to_utc_day)
  have date: "wall_date (candle_start c + off) = d"
    using t assms(1) by (intro wall_date_between [of "iv_start iv" "iv_end iv"]) (simp_all add: wf_simps)
  then show "start_date z c = d" by (simp add: start_date_def to_wall_day)
  from date have "combine d (wall_time (candle_start c + off)) = candle_start c + off" by (metis combine_wall)
  with t have "iv_start iv \<le> wall_time (candle_start c + off)" "wall_time (candle_start c + off) < iv_end iv"
    by (metis combine_le_iff, metis combine_less_iff)
  with date have "in_interval z d iv (candle_start c)" by (simp add: in_interval_def to_wall_day)
  from bucket_locates [OF assms(1,3) dur this assms(4), of "(k, s, e)"] assms(5-7)
  show "bucket_index_of d target iv z c = k" by (auto simp: bucket_index_of_def spans_def) (metis fst_conv)
qed

lemma covered_sources:
  assumes "wf_interval iv" "wf_timeframe target" "tf_duration target = Some dur" "session_buckets d target iv z = Some bs"
    and "(k, s, e) \<in> set bs" "list_all wf_candle cs"
    and "covers (bucket_sources d (filter (\<lambda>c. start_date z c = d) cs) target iv z k) s e src close"
  shows "bucket_sources d (filter (\<lambda>c. start_date z c = d) cs) target iv z k = starting_in cs s e"
proof -
  let ?b = "bucket_sources d (filter (\<lambda>c. start_date z c = d) cs) target iv z k"
  have wf: "list_all wf_candle (sort_key candle_start ?b)" using assms(6) by (auto simp: list_all_iff bucket_sources_def)
  have inside: "s \<le> candle_start c \<and> candle_start c < e" if "c \<in> set ?b" for c
  proof -
    have "s \<le> candle_start c" "candle_end c \<le> e"
      using assms(7) tiles_bounds(3) [OF _ wf, of s e c] that by (auto simp: covers_def)
    moreover have "wf_candle c" using that assms(6) by (auto simp: bucket_sources_def list_all_iff)
    ultimately show ?thesis by (simp add: wf_simps)
  qed
  have "start_date z c = d \<and> bucket_index_of d target iv z c = k \<longleftrightarrow> s \<le> candle_start c \<and> candle_start c < e"
    if "c \<in> set cs" for c
  proof
    assume "start_date z c = d \<and> bucket_index_of d target iv z c = k"
    with that have "c \<in> set ?b" by (simp add: bucket_sources_def)
    then show "s \<le> candle_start c \<and> candle_start c < e" by (rule inside)
  next
    assume "s \<le> candle_start c \<and> candle_start c < e"
    with bucket_index_spans [OF assms(1-5), of c] show "start_date z c = d \<and> bucket_index_of d target iv z c = k" by blast
  qed
  then show ?thesis
    unfolding bucket_sources_def starting_in_def filter_filter by (intro filter_cong) blast+
qed

end

lemma sort_starting_in:
  "sorted (map candle_start cs) \<Longrightarrow> sort_key candle_start (starting_in cs s e) = starting_in cs s e"
  by (simp add: starting_in_def sort_key_id_if_sorted sorted_filter)

lemma sorted_series: "mk_historical_series tf cs = Inr source \<Longrightarrow> sorted (map candle_start (hs_candles source))"
  using series_of_one_instrument(2) by (simp add: order_candles_def)

context steady_day
begin

lemma bucket_at_member:
  assumes "wf_interval iv" "wf_timeframe target" "tf_duration target = Some dur" "session_buckets d target iv z = Some bs"
    and "(k, s, e) \<in> set bs"
  shows "s = combine d (iv_start iv) + k * dur - off"
    and "e = min (combine d (iv_start iv) + (k + 1) * dur) (combine d (iv_end iv)) - off" and "s < e"
proof -
  let ?o = "combine d (iv_start iv)" and ?c = "combine d (iv_end iv)"
  have dur: "0 < dur" using assms(2,3) by (simp add: wf_simps)
  from assms(4,5) have k: "0 \<le> k" "k < bucket_count dur ?o ?c" "(k, s, e) = bucket_at dur z ?o ?c k"
    by (auto simp: session_buckets_intraday [OF assms(3) dur] Let_def bucket_at_def)
  from k(3) show s: "s = ?o + k * dur - off" and e: "e = min (?o + (k + 1) * dur) ?c - off"
    using bucket_at_utc [OF assms(1) dur k(1,2)] by simp_all
  have "?o + k * dur < ?c" using k less_bucket_count_iff [OF dur k(1)] by simp
  then show "s < e" using dur by (simp add: s e algebra_simps)
qed

lemma index_starts_after:
  assumes "wf_interval iv" "wf_timeframe target" "tf_duration target = Some dur" "session_buckets d target iv z = Some bs"
    and "(k, s, e) \<in> set bs" "start_date z c = d" "bucket_index_of d target iv z c = k"
  shows "s \<le> candle_start c"
proof -
  have dur: "0 < dur" using assms(2,3) by (simp add: wf_simps)
  have t: "to_wall z (candle_start c) = candle_start c + off" using assms(6) to_wall_only by (simp add: start_date_def)
  have "k = (candle_start c + off - combine d (iv_start iv)) div dur"
    using assms(7) by (simp add: bucket_index_of_def bucket_bounds_eq [OF assms(3)] bucket_at_def t)
  then have "k * dur \<le> candle_start c + off - combine d (iv_start iv)" using eq_div_iff_range [OF dur] by simp
  then show ?thesis using bucket_at_member(1) [OF assms(1-5)] by simp
qed

lemma clean_bucket_sources:
  assumes "wf_interval iv" "wf_timeframe target" "tf_duration target = Some dur" "session_buckets d target iv z = Some bs"
    and "(k, s, e) \<in> set bs"
    and "\<forall>c \<in> set cs. start_date z c = d \<and> bucket_index_of d target iv z c = k \<longrightarrow> candle_start c < e"
  shows "bucket_sources d (filter (\<lambda>c. start_date z c = d) cs) target iv z k = starting_in cs s e"
proof -
  have "start_date z c = d \<and> bucket_index_of d target iv z c = k \<longleftrightarrow> s \<le> candle_start c \<and> candle_start c < e"
    if "c \<in> set cs" for c
    using that assms(6) bucket_index_spans [OF assms(1-5), of c] index_starts_after [OF assms(1-5), of c] by blast
  then show ?thesis
    unfolding bucket_sources_def starting_in_def filter_filter by (intro filter_cong) blast+
qed

lemma stray_bar_excludes:
  assumes "wf_interval iv" "wf_timeframe target" "tf_duration target = Some dur" "session_buckets d target iv z = Some bs"
    and "(k, s, e) \<in> set bs" "list_all wf_candle cs"
    and "x \<in> set cs" "bucket_index_of d target iv z x = k" "e \<le> candle_start x"
    and "c \<in> set (interval_candles d cs target src iv z)"
  shows "candle_start c \<noteq> s"
proof
  assume cs: "candle_start c = s"
  from assms(4,10) obtain k' s' e' where k': "(k', s', e') \<in> set bs" "c = aggregate_of (bucket_sources d cs target iv z k') s' e'"
    and cov: "covers (bucket_sources d cs target iv z k') s' e' src (to_utc z (combine d (iv_end iv)))"
    by (auto simp: interval_candles_def)
  have s': "s' = s" using cs k'(2) by (simp add: aggregate_of_def Let_def)
  have pos: "0 < dur" using assms(2,3) by (simp add: wf_simps)
  have "k' = k" using bucket_at_member(1) [OF assms(1-4) k'(1)] bucket_at_member(1) [OF assms(1-5)] s' pos by auto
  moreover from this have "e' = e" using bucket_at_member(2) [OF assms(1-4) k'(1)] bucket_at_member(2) [OF assms(1-5)] by simp
  ultimately have cov: "covers (bucket_sources d cs target iv z k) s e src (to_utc z (combine d (iv_end iv)))" using cov s' by simp
  let ?b = "bucket_sources d cs target iv z k"
  have wf: "list_all wf_candle (sort_key candle_start ?b)" using assms(6) by (auto simp: list_all_iff bucket_sources_def)
  have "x \<in> set (sort_key candle_start ?b)" using assms(7,8) by (simp add: bucket_sources_def)
  with tiles_bounds(3) [OF _ wf] cov have "candle_end x \<le> e" by (auto simp: covers_def)
  moreover have "wf_candle x" using assms(6,7) by (simp add: list_all_iff)
  ultimately show False using assms(9) by (simp add: wf_simps)
qed

end

section \<open>Properties\<close>

text \<open>
  C7. Reconstruction is sound. For a valid source whose timeframe divides the target it never
  raises, and every candle of the reconstructed series is an official bucket of a trading day that
  the source candles starting in it tile without gap or overlap; its open, high, low, close and
  quantity are the aggregates of exactly those candles. Nothing is interpolated.
\<close>

theorem reconstruction_sound:
  assumes "\<And>d. steady_day z d off" "wf_effective eff" "wf_timeframe target" "divides_exactly target tf"
    and "mk_historical_series tf cs = Inr source" "list_all wf_candle cs"
  shows "\<exists>r. reconstruct_series source target eff cal z = Inr r
    \<and> (\<forall>ser c. r = Some ser \<and> c \<in> set (hs_candles ser) \<longrightarrow>
         (\<exists>d iv bs k s e. is_trading_day cal d \<and> iv \<in> set (intervals_for eff d)
            \<and> session_buckets d target iv z = Some bs \<and> (k, s, e) \<in> set bs
            \<and> starting_in (hs_candles source) s e \<noteq> [] \<and> tiles s (starting_in (hs_candles source) s e) e
            \<and> c = aggregate_of (starting_in (hs_candles source) s e) s e))"
proof -
  have tf: "hs_timeframe source = tf" "hs_candles source = order_candles cs" using series_of_one_instrument [OF assms(5)] by simp_all
  obtain dur src where durs: "tf_duration target = Some dur" "tf_duration tf = Some src"
    using assms(4) by (auto simp: divides_exactly_def split: option.splits)
  let ?out = "reconstructed_candles source target src eff cal z" and ?cs = "hs_candles source"
  have wf: "list_all wf_candle ?cs" using tf(2) assms(6) by (simp add: order_candles_def list_all_iff)
  have eq: "reconstruct_series source target eff cal z =
      Inr (if ?out = [] then None else Some \<lparr>hs_timeframe = target, hs_candles = ?out\<rparr>)"
    using reconstruct_series_eq [OF assms(1-3) _ assms(5,6)] assms(4) durs(2) by (simp add: tf Let_def)
  have "\<exists>d iv bs k s e. is_trading_day cal d \<and> iv \<in> set (intervals_for eff d)
        \<and> session_buckets d target iv z = Some bs \<and> (k, s, e) \<in> set bs
        \<and> starting_in ?cs s e \<noteq> [] \<and> tiles s (starting_in ?cs s e) e \<and> c = aggregate_of (starting_in ?cs s e) s e"
    if "c \<in> set ?out" for c
  proof -
    from that obtain d iv where d: "is_trading_day cal d" and iv: "iv \<in> set (intervals_for eff d)"
      and c: "c \<in> set (interval_candles d (filter (\<lambda>c. start_date z c = d) ?cs) target src iv z)"
      by (auto simp: reconstructed_candles_def date_candles_def split: if_splits)
    obtain bs where bs: "session_buckets d target iv z = Some bs" using session_buckets_returns [OF assms(3)] by blast
    let ?b = "bucket_sources d (filter (\<lambda>c. start_date z c = d) ?cs) target iv z"
    from c obtain k s e where k: "(k, s, e) \<in> set bs" "covers (?b k) s e src (to_utc z (combine d (iv_end iv)))" "c = aggregate_of (?b k) s e"
      by (auto simp: interval_candles_def bs)
    have "wf_interval iv" using wf_intervals_for(1) [OF assms(2)] iv by (auto simp: list_all_iff)
    from steady_day.covered_sources [OF assms(1) this assms(3) durs(1) bs k(1) wf k(2)] k sort_starting_in [OF sorted_series [OF assms(5)]]
    show ?thesis using d iv bs by (metis covers_def)
  qed
  with eq show ?thesis by (auto split: if_splits)
qed

text \<open>One-minute bars of TCS, \<open>n\<close> minutes after the open of the date 20000, and the default hours.\<close>

definition demo_bar :: "int \<Rightarrow> decimal \<Rightarrow> int \<Rightarrow> candle" where
  "demo_bar n price quantity =
     \<lparr>candle_instrument = cash_equity ''NSE'' ''TCS'', candle_start = 1728013500000000 + n * MINUTE,
      candle_end = 1728013560000000 + n * MINUTE, candle_open = price, candle_high = price + 1,
      candle_low = price - 1, candle_close = price, candle_quantity = quantity\<rparr>"

definition nse_effective :: effective_schedule where
  "nse_effective = \<lparr>eff_default = nse_schedule, eff_overrides = Map.empty\<rparr>"

definition demo_bars :: "candle list" where
  "demo_bars = [demo_bar 0 100 5, demo_bar 1 102 7]"

definition two_minutes :: timeframe where
  "two_minutes = Timeframe INTRADAY (Some (2 * MINUTE))"

lemma wf_nse_effective: "wf_effective nse_effective"
  by (simp add: wf_effective_def nse_effective_def wf_nse_schedule)

lemma wf_demo_bars: "list_all wf_candle demo_bars"
  by (simp add: demo_bars_def demo_bar_def wf_simps)

lemma demo_divides: "divides_exactly two_minutes one_minute" "wf_timeframe two_minutes"
  by (simp_all add: divides_exactly_def two_minutes_def one_minute_def wf_simps)

lemma demo_source: "mk_historical_series one_minute demo_bars = Inr \<lparr>hs_timeframe = one_minute, hs_candles = demo_bars\<rparr>"
  by (simp add: mk_historical_series_def validate_series_identity_def order_candles_def demo_bars_def demo_bar_def Let_def)

theorem reconstruction_sound_witness:
  "\<exists>r. reconstruct_series \<lparr>hs_timeframe = one_minute, hs_candles = demo_bars\<rparr> two_minutes nse_effective weekday_calendar kolkata = Inr r"
  using reconstruction_sound [OF kolkata.steady_day_axioms wf_nse_effective demo_divides(2,1) demo_source wf_demo_bars, of weekday_calendar]
  by blast

text \<open>
  Reconstruction is complete. A bucket of a trading day (a special open day must have its
  session hours configured) whose source candles tile it, each of the source width or ending at
  the close of the live interval, is always emitted, provided no other source bar of the day
  falls on the bucket's index after the bucket's end.
\<close>

lemma reconstruction_complete:
  assumes "\<And>d. steady_day z d off" "wf_effective eff" "wf_timeframe target" "divides_exactly target tf"
    and "mk_historical_series tf cs = Inr source" "list_all wf_candle cs" "tf_duration tf = Some src"
    and "is_trading_day cal d" "d \<in> open_sessions cal \<longrightarrow> has_override eff d" "iv \<in> set (intervals_for eff d)"
    and "session_buckets d target iv z = Some bs" "(k, s, e) \<in> set bs"
    and "starting_in (hs_candles source) s e \<noteq> []" "tiles s (starting_in (hs_candles source) s e) e"
    and "list_all (sized src (to_utc z (combine d (iv_end iv)))) (starting_in (hs_candles source) s e)"
    and "\<forall>c \<in> set (hs_candles source). start_date z c = d \<and> bucket_index_of d target iv z c = k \<longrightarrow> candle_start c < e"
  shows "\<exists>ser. reconstruct_series source target eff cal z = Inr (Some ser)
    \<and> aggregate_of (starting_in (hs_candles source) s e) s e \<in> set (hs_candles ser)"
proof -
  have tf: "hs_timeframe source = tf" using series_of_one_instrument [OF assms(5)] by simp
  obtain dur where dur: "tf_duration target = Some dur" using assms(4) by (auto simp: divides_exactly_def split: option.splits)
  let ?out = "reconstructed_candles source target src eff cal z" and ?cs = "hs_candles source"
  let ?c = "aggregate_of (starting_in ?cs s e) s e"
  have ok: "wf_interval iv" using wf_intervals_for(1) [OF assms(2)] assms(10) by (auto simp: list_all_iff)
  have eq: "bucket_sources d (filter (\<lambda>c. start_date z c = d) ?cs) target iv z k = starting_in ?cs s e"
    by (rule steady_day.clean_bucket_sources [OF assms(1) ok assms(3) dur assms(11,12,16)])
  have "covers (starting_in ?cs s e) s e src (to_utc z (combine d (iv_end iv)))"
    using assms(13-15) sort_starting_in [OF sorted_series [OF assms(5)]] by (simp add: covers_def)
  then have "?c \<in> set (interval_candles d (filter (\<lambda>c. start_date z c = d) ?cs) target src iv z)"
    using assms(11,12) eq by (force simp: interval_candles_def)
  then have "?c \<in> set (date_candles ?cs target src eff cal z d)" using assms(8-10) by (auto simp: date_candles_def)
  moreover have "d \<in> start_date z ` set ?cs"
    using assms(13) steady_day.bucket_index_spans(1) [OF assms(1) ok assms(3) dur assms(11,12)]
    by (fastforce simp: starting_in_def filter_empty_conv)
  ultimately have "?c \<in> set ?out" by (auto simp: reconstructed_candles_def)
  moreover have "reconstruct_series source target eff cal z =
      Inr (if ?out = [] then None else Some \<lparr>hs_timeframe = target, hs_candles = ?out\<rparr>)"
    using reconstruct_series_eq [OF assms(1-3) _ assms(5,6)] assms(4,7) by (simp add: tf Let_def)
  ultimately show ?thesis by auto
qed

lemma demo_bucket_zero:
  "\<exists>bs. session_buckets 20000 two_minutes (bounds nse_schedule) kolkata = Some bs
    \<and> (0, 1728013500000000, 1728013620000000) \<in> set bs"
  by (rule session_buckets_member [where duration = "2 * MINUTE" and k = 0])
    (simp_all add: two_minutes_def bucket_at_def bucket_count_def bounds_def nse_schedule_def combine_def kolkata_def fixed_zone_def)

lemma reconstruction_complete_example:
  "\<exists>ser. reconstruct_series \<lparr>hs_timeframe = one_minute, hs_candles = demo_bars\<rparr> two_minutes nse_effective weekday_calendar kolkata
       = Inr (Some ser)
    \<and> aggregate_of demo_bars 1728013500000000 1728013620000000 \<in> set (hs_candles ser)"
proof -
  let ?src = "\<lparr>hs_timeframe = one_minute, hs_candles = demo_bars\<rparr>"
  obtain bs where bs: "session_buckets 20000 two_minutes (bounds nse_schedule) kolkata = Some bs"
    "(0, 1728013500000000, 1728013620000000) \<in> set bs" using demo_bucket_zero by blast
  have all: "starting_in (hs_candles ?src) 1728013500000000 1728013620000000 = demo_bars"
    by (simp add: starting_in_def demo_bars_def demo_bar_def)
  have iv: "bounds nse_schedule \<in> set (intervals_for nse_effective 20000)"
    by (simp add: intervals_for_def nse_effective_def)
  have day: "is_trading_day weekday_calendar 20000" "20000 \<in> open_sessions weekday_calendar \<longrightarrow> has_override nse_effective 20000"
    by (simp_all add: is_trading_day_def weekday_calendar_def weekday_def)
  have dur: "tf_duration one_minute = Some MINUTE" by (simp add: one_minute_def)
  have tiled: "starting_in (hs_candles ?src) 1728013500000000 1728013620000000 \<noteq> []"
    "tiles 1728013500000000 (starting_in (hs_candles ?src) 1728013500000000 1728013620000000) 1728013620000000"
    "list_all (sized MINUTE (to_utc kolkata (combine 20000 (iv_end (bounds nse_schedule)))))
       (starting_in (hs_candles ?src) 1728013500000000 1728013620000000)"
    unfolding all by (simp_all add: demo_bars_def demo_bar_def sized_def)
  have clean: "\<forall>c \<in> set (hs_candles ?src). start_date kolkata c = 20000 \<and> bucket_index_of 20000 two_minutes (bounds nse_schedule) kolkata c = 0
      \<longrightarrow> candle_start c < 1728013620000000"
    by (simp add: demo_bars_def demo_bar_def)
  show ?thesis
    using reconstruction_complete [OF kolkata.steady_day_axioms wf_nse_effective demo_divides(2,1) demo_source wf_demo_bars dur day iv bs tiled clean]
    by (simp only: all)
qed

text \<open>
  Why the last condition is needed: when the target does not divide the session, the index of
  the truncated last bucket also covers the minutes after the close, so one source bar of the day
  starting there withholds the whole bucket, however completely the live session covers it.
\<close>

lemma stray_bar_withholds_bucket:
  assumes "steady_day z d off" "wf_interval iv" "wf_timeframe target" "tf_duration target = Some dur"
    and "session_buckets d target iv z = Some bs" "(k, s, e) \<in> set bs" "list_all wf_candle cs"
    and "x \<in> set cs" "bucket_index_of d target iv z x = k" "e \<le> candle_start x"
  shows "\<exists>out. reconstruct_interval d cs target src iv z = Inr out \<and> (\<forall>c \<in> set out. candle_start c \<noteq> s)"
  using steady_day.reconstruct_interval_eq [OF assms(1-3,7)] steady_day.stray_bar_excludes [OF assms] by blast


text \<open>Four bars tile the truncated last bucket 15:26-15:30 of the seven-minute timeframe; a fifth bar starts at 15:30.\<close>

definition closing_bars :: "candle list" where
  "closing_bars = [demo_bar 371 100 5, demo_bar 372 100 5, demo_bar 373 100 5, demo_bar 374 100 5, demo_bar 375 100 1]"

lemma stray_bar_withholds_bucket_example:
  "covers (butlast closing_bars) 1728035760000000 1728036000000000 MINUTE 1728036000000000
    \<and> (\<exists>out. reconstruct_interval 20000 closing_bars (Timeframe INTRADAY (Some (7 * MINUTE))) MINUTE (bounds nse_schedule) kolkata = Inr out
         \<and> \<not> list_ex (\<lambda>c. candle_start c = 1728035760000000) out)"
proof -
  let ?tf = "Timeframe INTRADAY (Some (7 * MINUTE))"
  have iv: "wf_interval (bounds nse_schedule)" using wf_nse_schedule by simp
  have tf: "wf_timeframe ?tf" "tf_duration ?tf = Some (7 * MINUTE)" by (simp_all add: wf_simps)
  have "\<exists>bs. session_buckets 20000 ?tf (bounds nse_schedule) kolkata = Some bs
      \<and> (53, 1728035760000000, 1728036000000000) \<in> set bs"
    by (rule session_buckets_member [where duration = "7 * MINUTE" and k = 53])
      (simp_all add: bucket_at_def bucket_count_def bounds_def nse_schedule_def combine_def kolkata_def fixed_zone_def)
  then obtain bs where bs: "session_buckets 20000 ?tf (bounds nse_schedule) kolkata = Some bs"
    "(53, 1728035760000000, 1728036000000000) \<in> set bs" by blast
  have wf: "list_all wf_candle closing_bars" by (simp add: closing_bars_def demo_bar_def wf_simps)
  have x: "demo_bar 375 100 1 \<in> set closing_bars" by (simp add: closing_bars_def)
  have ix: "bucket_index_of 20000 ?tf (bounds nse_schedule) kolkata (demo_bar 375 100 1) = 53"
    by (simp add: bucket_index_of_def bucket_bounds_def demo_bar_def bounds_def nse_schedule_def combine_def kolkata_def fixed_zone_def Let_def)
  have st: "1728036000000000 \<le> candle_start (demo_bar 375 100 1)" by (simp add: demo_bar_def)
  have "covers (butlast closing_bars) 1728035760000000 1728036000000000 MINUTE 1728036000000000"
    by (simp add: closing_bars_def demo_bar_def covers_def sized_def)
  with stray_bar_withholds_bucket [OF kolkata.steady_day_axioms iv tf bs wf x ix st, of MINUTE]
  show ?thesis by (auto simp: list_ex_iff)
qed

section \<open>Session identity\<close>

text \<open>The official identity of a date's session, and a bar re-stamped to it.\<close>

definition session_identity :: "effective_schedule \<Rightarrow> zone \<Rightarrow> date \<Rightarrow> instant \<times> instant" where
  "session_identity eff z d =
     (to_utc z (combine d (iv_start (envelope_for eff d))), to_utc z (combine d (iv_end (envelope_for eff d))))"

definition restamp :: "effective_schedule \<Rightarrow> zone \<Rightarrow> candle \<Rightarrow> candle" where
  "restamp eff z c =
     c\<lparr>candle_start := fst (session_identity eff z (start_date z c)),
       candle_end := snd (session_identity eff z (start_date z c))\<rparr>"

lemma session_identity_date:
  assumes "steady_day z d off" "wf_effective eff"
  shows "wall_date (to_wall z (fst (session_identity eff z d))) = d"
    "fst (session_identity eff z d) < snd (session_identity eff z d)"
proof -
  have iv: "wf_interval (envelope_for eff d)" using assms(2) by (rule wf_envelope_for)
  then show "wall_date (to_wall z (fst (session_identity eff z d))) = d"
    by (simp add: session_identity_def wf_simps steady_day.wall_utc [OF assms(1)])
  from iv show "fst (session_identity eff z d) < snd (session_identity eff z d)"
    by (simp add: session_identity_def wf_simps steady_day.to_utc_less [OF assms(1)])
qed

lemma canonicalize_eq:
  assumes "\<And>d. steady_day z d off" "wf_effective eff" "wf_candle c"
  shows "canonicalize_session_candle eff cal z c =
    Inr (if is_trading_day cal (start_date z c) then Some (restamp eff z c) else None)"
proof -
  have "wf_candle (restamp eff z c)"
    using assms(3) session_identity_date(2) [OF assms(1,2)] by (simp add: wf_simps restamp_def)
  then have "mk_candle (candle_instrument c) (utc (fst (session_identity eff z (start_date z c))))
      (utc (snd (session_identity eff z (start_date z c)))) (candle_open c) (candle_high c)
      (candle_low c) (candle_close c) (candle_quantity c) = Inr (restamp eff z c)"
    by (simp only: mk_candle_iff) (simp add: restamp_def)
  then show ?thesis
    by (simp add: canonicalize_session_candle_def bucket_bounds_def tf_session_def session_identity_def Let_def)
qed

lemma start_date_restamp:
  assumes "\<And>d. steady_day z d off" "wf_effective eff"
  shows "start_date z (restamp eff z c) = start_date z c"
  using session_identity_date(1) [OF assms] by (simp add: start_date_def restamp_def)

lemma canonical_loop_spec:
  assumes "\<And>d. steady_day z d off" "wf_effective eff" "list_all wf_candle cs"
  shows "\<exists>out. canonical_loop eff cal z (session_identity eff z ` D) cs = Inr out
    \<and> distinct (map (start_date z) out)
    \<and> start_date z ` set out = set (filter (is_trading_day cal) (map (start_date z) cs)) - D
    \<and> (\<forall>out_c \<in> set out. out_c = restamp eff z (hd (filter (\<lambda>c. start_date z c = start_date z out_c) cs)))"
  using assms(3)
proof (induction cs arbitrary: D)
  case (Cons c cs)
  then have wf: "wf_candle c" "list_all wf_candle cs" by simp_all
  let ?d = "start_date z c"
  have ident: "session_identity eff z d = session_identity eff z d' \<longleftrightarrow> d = d'" for d d'
    using session_identity_date(1) [OF assms(1,2)] by metis
  then have mem: "session_identity eff z ?d \<in> session_identity eff z ` D \<longleftrightarrow> ?d \<in> D" by (simp add: image_iff)
  have fields: "(candle_start (restamp eff z c), candle_end (restamp eff z c)) = session_identity eff z ?d"
    by (simp add: restamp_def)
  show ?case
  proof (cases "is_trading_day cal ?d \<and> ?d \<notin> D")
    case True
    obtain out where out: "canonical_loop eff cal z (session_identity eff z ` insert ?d D) cs = Inr out"
      "distinct (map (start_date z) out)"
      "start_date z ` set out = set (filter (is_trading_day cal) (map (start_date z) cs)) - insert ?d D"
      "\<forall>o' \<in> set out. o' = restamp eff z (hd (filter (\<lambda>c. start_date z c = start_date z o') cs))"
      using Cons.IH [OF wf(2)] by blast
    have "canonical_loop eff cal z (session_identity eff z ` D) (c # cs) = Inr (restamp eff z c # out)"
      using out(1) True mem fields by (simp add: canonicalize_eq [OF assms(1,2) wf(1)] Let_def)
    moreover have "start_date z o' \<noteq> ?d" if "o' \<in> set out" for o' using out(3) that by blast
    ultimately show ?thesis
      using out(2-4) True by (intro exI [of _ "restamp eff z c # out"]) (auto simp: start_date_restamp [OF assms(1,2)])
  next
    case False
    obtain out where out: "canonical_loop eff cal z (session_identity eff z ` D) cs = Inr out"
      "distinct (map (start_date z) out)"
      "start_date z ` set out = set (filter (is_trading_day cal) (map (start_date z) cs)) - D"
      "\<forall>o' \<in> set out. o' = restamp eff z (hd (filter (\<lambda>c. start_date z c = start_date z o') cs))"
      using Cons.IH [OF wf(2)] by blast
    have "canonical_loop eff cal z (session_identity eff z ` D) (c # cs) = Inr out"
      using out(1) False mem fields by (auto simp: canonicalize_eq [OF assms(1,2) wf(1)] Let_def)
    moreover have "start_date z o' \<noteq> ?d" if "o' \<in> set out" for o'
    proof -
      have "start_date z o' \<in> start_date z ` set out" using that by blast
      with out(3) False show ?thesis by auto
    qed
    ultimately show ?thesis
      using out(2-4) False by (intro exI [of _ out]) auto
  qed
qed simp

text \<open>
  Canonicalising a run of provider daily bars never raises on valid bars and yields exactly one
  session candle per traded date: the first bar of the date with its prices and quantity kept and
  its interval replaced by the official envelope of that date. Bars on non-trading days vanish.
\<close>

lemma canonical_sessions_unique:
  assumes "\<And>d. steady_day z d off" "wf_effective eff" "list_all wf_candle cs"
  shows "\<exists>out. canonical_session_series eff cal z cs = Inr out
    \<and> distinct (map (start_date z) out)
    \<and> start_date z ` set out = set (filter (is_trading_day cal) (map (start_date z) cs))
    \<and> (\<forall>out_c \<in> set out. out_c = restamp eff z (hd (filter (\<lambda>c. start_date z c = start_date z out_c) cs)))"
  using canonical_loop_spec [OF assms, of cal "{}"] by (simp add: canonical_session_series_def)

lemma canonical_sessions_unique_example:
  "\<exists>out. canonical_session_series nse_effective weekday_calendar kolkata demo_bars = Inr out
    \<and> distinct (map (start_date kolkata) out) \<and> start_date kolkata ` set out = {20000}"
proof -
  have "set (filter (is_trading_day weekday_calendar) (map (start_date kolkata) demo_bars)) = {20000}"
    by (auto simp: demo_bars_def demo_bar_def start_date_def kolkata_def fixed_zone_def wall_date_def is_trading_day_def
        weekday_calendar_def weekday_def)
  with canonical_sessions_unique [OF kolkata.steady_day_axioms wf_nse_effective wf_demo_bars, of weekday_calendar]
  show ?thesis by auto
qed

end
