(* ===== verification/Event_Bus.thy ===== *)
theory Event_Bus
  imports Apex_Prelude
begin

text \<open>
  The synchronous in-process event bus (\<^verbatim>\<open>events/bus.py\<close>). A handler is known by its identity; what
  it does with an event is a parameter \<open>raises\<close> that says whether the call ends in an exception.
  Publishing returns the deliveries it made, in order, and whether one of them raised. The
  handlers are taken from a snapshot of the list, so what a handler does to the bus meanwhile
  cannot change the current publication.
\<close>

type_synonym handler = nat

record 'k event_bus =
  subscribers :: "'k \<Rightarrow> handler list option"

record 'k subscription =
  sub_event_type :: 'k
  sub_handler :: handler

definition empty_bus :: "'k event_bus" where
  "empty_bus = \<lparr>subscribers = Map.empty\<rparr>"

definition subscribe :: "'k event_bus \<Rightarrow> 'k \<Rightarrow> handler \<Rightarrow> 'k event_bus \<times> 'k subscription" where
  "subscribe bus k h =
     (bus\<lparr>subscribers := (subscribers bus)(k \<mapsto> (case subscribers bus k of None \<Rightarrow> [] | Some hs \<Rightarrow> hs) @ [h])\<rparr>,
      \<lparr>sub_event_type = k, sub_handler = h\<rparr>)"

definition unsubscribe :: "'k event_bus \<Rightarrow> 'k subscription \<Rightarrow> 'k event_bus" where
  "unsubscribe bus s =
     (case subscribers bus (sub_event_type s) of
        None \<Rightarrow> bus
      | Some hs \<Rightarrow> bus\<lparr>subscribers := (subscribers bus)(sub_event_type s \<mapsto> filter (\<lambda>h. h \<noteq> sub_handler s) hs)\<rparr>)"

fun dispatch :: "(handler \<Rightarrow> 'e \<Rightarrow> bool) \<Rightarrow> handler list \<Rightarrow> 'e \<Rightarrow> (handler \<times> 'e) list \<times> bool" where
  "dispatch raises [] ev = ([], False)"
| "dispatch raises (h # hs) ev =
     (if raises h ev then ([(h, ev)], True)
      else case dispatch raises hs ev of (deliveries, failed) \<Rightarrow> ((h, ev) # deliveries, failed))"

definition publish ::
  "(handler \<Rightarrow> 'e \<Rightarrow> bool) \<Rightarrow> ('e \<Rightarrow> 'k) \<Rightarrow> 'k event_bus \<Rightarrow> 'e \<Rightarrow> (handler \<times> 'e) list \<times> bool" where
  "publish raises type_of bus ev =
     dispatch raises (case subscribers bus (type_of ev) of None \<Rightarrow> [] | Some hs \<Rightarrow> hs) ev"

section \<open>Delivery\<close>

definition handlers_of :: "'k event_bus \<Rightarrow> 'k \<Rightarrow> handler list" where
  "handlers_of bus k = (case subscribers bus k of None \<Rightarrow> [] | Some hs \<Rightarrow> hs)"

lemma handlers_of_empty [simp]: "handlers_of empty_bus k = []"
  by (simp add: handlers_of_def empty_bus_def)

lemma handlers_of_subscribe [simp]:
  "handlers_of (fst (subscribe bus k h)) k' = handlers_of bus k' @ (if k' = k then [h] else [])"
  by (simp add: handlers_of_def subscribe_def split: option.splits)

lemma handlers_of_unsubscribe [simp]:
  "handlers_of (unsubscribe bus s) k =
     (if k = sub_event_type s then filter (\<lambda>h. h \<noteq> sub_handler s) (handlers_of bus k) else handlers_of bus k)"
  by (auto simp: handlers_of_def unsubscribe_def split: option.splits)

lemma dispatch_eq:
  "dispatch raises hs ev =
     (let (before, rest) = (takeWhile (\<lambda>h. \<not> raises h ev) hs, dropWhile (\<lambda>h. \<not> raises h ev) hs)
      in (map (\<lambda>h. (h, ev)) (before @ take 1 rest), rest \<noteq> []))"
  by (induction hs) (simp_all add: Let_def)

lemma publish_eq:
  "publish raises type_of bus ev = dispatch raises (handlers_of bus (type_of ev)) ev"
  by (simp add: publish_def handlers_of_def)

lemma dispatch_failed_iff: "snd (dispatch raises hs ev) \<longleftrightarrow> (\<exists>h \<in> set hs. raises h ev)"
  by (induction hs) (auto split: prod.splits)

text \<open>The bus after a sequence of subscriptions and removals.\<close>

datatype 'k bus_op = Subscribe 'k handler | Unsubscribe 'k handler

fun bus_step :: "'k event_bus \<Rightarrow> 'k bus_op \<Rightarrow> 'k event_bus" where
  "bus_step bus (Subscribe k h) = fst (subscribe bus k h)"
| "bus_step bus (Unsubscribe k h) = unsubscribe bus \<lparr>sub_event_type = k, sub_handler = h\<rparr>"

text \<open>The handlers of one event type after the same sequence, read off the sequence itself.\<close>

fun live_handlers :: "'k \<Rightarrow> 'k bus_op list \<Rightarrow> handler list" where
  "live_handlers k [] = []"
| "live_handlers k (Subscribe k' h # ops) = (if k' = k \<and> Unsubscribe k h \<notin> set ops then h # live_handlers k ops else live_handlers k ops)"
| "live_handlers k (Unsubscribe k' h # ops) = live_handlers k ops"

lemma handlers_of_steps:
  "handlers_of (foldl bus_step bus ops) k =
     filter (\<lambda>h. Unsubscribe k h \<notin> set ops) (handlers_of bus k) @ live_handlers k ops"
proof (induction ops arbitrary: bus)
  case (Cons op ops)
  show ?case
  proof (cases op)
    case (Subscribe k' h)
    then show ?thesis using Cons.IH [of "fst (subscribe bus k' h)"] by simp
  next
    case (Unsubscribe k' h)
    show ?thesis
      using Cons.IH [of "unsubscribe bus \<lparr>sub_event_type = k', sub_handler = h\<rparr>"]
      by (auto simp: Unsubscribe intro!: filter_cong)
  qed
qed simp

text \<open>
  Dispatch is deterministic: after any sequence of subscriptions and removals, an event goes to
  exactly the handlers of its own type that were subscribed and not removed since, in the order of
  subscription, stopping right after the first handler that raises.
\<close>

lemma publish_in_subscription_order:
  "publish raises type_of (foldl bus_step empty_bus ops) ev =
    (let hs = live_handlers (type_of ev) ops
     in (map (\<lambda>h. (h, ev)) (takeWhile (\<lambda>h. \<not> raises h ev) hs @ take 1 (dropWhile (\<lambda>h. \<not> raises h ev) hs)),
         \<exists>h \<in> set hs. raises h ev))"
  by (simp add: publish_eq handlers_of_steps dispatch_eq Let_def dropWhile_eq_Nil_conv)

end
