(* ===== verification/Session_Statistics.thy ===== *)
theory Session_Statistics
  imports Market_Context
begin

text \<open>
  The pure current-session statistics logic of \<^verbatim>\<open>market_engine/session_statistics.py\<close>: one
  reconciliation primitive, the tick-path wrapper, and the resolution between a staged
  observation and the tick-carried aggregate under per-source authority.
\<close>

record session_statistics_authority =
  staged_observation_verified :: bool
  tick_aggregate_verified :: bool

definition disabled_authority :: session_statistics_authority where
  "disabled_authority = \<lparr>staged_observation_verified = False, tick_aggregate_verified = False\<rparr>"

definition same_session_prior ::
  "session_statistics option \<Rightarrow> session_context \<Rightarrow> session_statistics option" where
  "same_session_prior previous session =
     (case previous of
        None \<Rightarrow> None
      | Some p \<Rightarrow> (if ss_trading_date p \<noteq> sc_trading_date session then None else Some p))"

definition reconciled ::
  "session_statistics \<Rightarrow> session_statistics \<Rightarrow> instant \<Rightarrow> session_statistics" where
  "reconciled candidate prior aggregate_as_of =
     (if aggregate_as_of < ss_as_of prior then prior
      else case (ss_open candidate, ss_high candidate, ss_low candidate,
                 ss_open prior, ss_high prior, ss_low prior) of
        (Some new_open, Some new_high, Some new_low, Some old_open, Some old_high, Some old_low) \<Rightarrow>
          (if new_open \<noteq> old_open then prior
           else if new_high < old_high \<or> new_low > old_low then prior
           else if new_high = old_high \<and> new_low = old_low then prior
           else candidate)
      | _ \<Rightarrow> prior)"

text \<open>
  The candidate is built from a validated aggregate, so the constructor of \<^verbatim>\<open>SessionStatistics\<close>
  accepts it (lemma \<open>candidate_constructs\<close>).
\<close>

definition candidate_statistics ::
  "provider_session_ohlc \<Rightarrow> date \<Rightarrow> instant \<Rightarrow> session_statistics" where
  "candidate_statistics aggregate d as_of =
     \<lparr>ss_trading_date = d, ss_open = Some (agg_open aggregate), ss_high = Some (agg_high aggregate),
      ss_low = Some (agg_low aggregate), ss_quality = AUTHORITATIVE, ss_as_of = as_of\<rparr>"

definition apply_session_ohlc ::
  "provider_session_ohlc option \<Rightarrow> instant \<Rightarrow> session_context \<Rightarrow> session_statistics option \<Rightarrow>
   bool \<Rightarrow> session_statistics option" where
  "apply_session_ohlc aggregate aggregate_as_of session previous source_verified =
     (let prior = same_session_prior previous session
      in if sc_market_state session \<noteq> LIVE_SESSION then prior
         else case aggregate of
           None \<Rightarrow> prior
         | Some agg \<Rightarrow>
             (if \<not> source_verified then prior
              else let candidate = candidate_statistics agg (sc_trading_date session) aggregate_as_of
                   in case prior of
                        None \<Rightarrow> Some candidate
                      | Some p \<Rightarrow> Some (reconciled candidate p aggregate_as_of)))"

definition update_session_statistics ::
  "tick \<Rightarrow> session_context \<Rightarrow> session_statistics option \<Rightarrow> session_statistics_authority \<Rightarrow>
   session_statistics option" where
  "update_session_statistics t session previous authority =
     apply_session_ohlc (tick_session_ohlc t) (tick_event_timestamp t) session previous
       (tick_aggregate_verified authority)"

definition resolve_session_statistics ::
  "provider_session_ohlc option \<Rightarrow> instant \<Rightarrow> session_statistics_observation option \<Rightarrow>
   session_context option \<Rightarrow> session_statistics option \<Rightarrow> session_statistics_authority \<Rightarrow>
   session_statistics option \<times> session_statistics_observation option" where
  "resolve_session_statistics aggregate aggregate_as_of staged session previous authority =
     (case session of
        None \<Rightarrow> (previous, staged)
      | Some s \<Rightarrow>
          (let tick_path = apply_session_ohlc aggregate aggregate_as_of s previous
                 (tick_aggregate_verified authority)
           in case staged of
                None \<Rightarrow> (tick_path, None)
              | Some ob \<Rightarrow>
                  (if obs_trading_date ob < sc_trading_date s then (tick_path, None)
                   else if obs_trading_date ob = sc_trading_date s \<and> sc_market_state s = LIVE_SESSION
                   then (apply_session_ohlc (Some (obs_session_ohlc ob)) (obs_observed_at ob) s previous
                           (staged_observation_verified authority), None)
                   else (tick_path, Some ob))))"

lemmas statistics_defs [engine_simps] =
  apply_session_ohlc_def same_session_prior_def reconciled_def candidate_statistics_def Let_def

lemma candidate_constructs:
  assumes "wf_ohlc a"
  shows "mk_session_statistics d (Some (agg_open a)) (Some (agg_high a)) (Some (agg_low a))
    AUTHORITATIVE (utc t) = Inr (candidate_statistics a d t)"
  using assms
  by (auto simp: mk_session_statistics_def validate_quality_consistency_def positive_if_some_def
      candidate_statistics_def wf_simps)

lemma wf_candidate: "wf_ohlc a \<Longrightarrow> wf_statistics (candidate_statistics a d t)"
  using candidate_constructs mk_session_statistics_wf by blast

section \<open>One accepted datum\<close>

text \<open>
  The progress order of a session: a later snapshot of the same trading date has the same open,
  a high that is no lower, a low that is no higher, and is as fresh.
\<close>

definition advances :: "session_statistics \<Rightarrow> session_statistics \<Rightarrow> bool" where
  "advances p q \<longleftrightarrow> ss_trading_date p = ss_trading_date q \<and> ss_open p = ss_open q
     \<and> ss_as_of p \<le> ss_as_of q
     \<and> the (ss_high p) \<le> the (ss_high q) \<and> the (ss_low q) \<le> the (ss_low p)"

lemma advances_refl [simp]: "advances p p"
  by (simp add: advances_def)

lemma advances_trans: "advances p q \<Longrightarrow> advances q r \<Longrightarrow> advances p r"
  by (auto simp: advances_def)

lemma apply_not_live: "sc_market_state s \<noteq> LIVE_SESSION \<Longrightarrow>
    apply_session_ohlc a t s prev v = same_session_prior prev s"
  by (simp add: apply_session_ohlc_def)

lemma apply_unverified: "apply_session_ohlc a t s prev False = same_session_prior prev s"
  by (simp add: apply_session_ohlc_def Let_def split: option.splits)

lemma apply_same_date: "apply_session_ohlc a t s prev v = Some q \<Longrightarrow> ss_trading_date q = sc_trading_date s"
  by (auto simp: engine_simps split: option.splits if_splits)

lemma reconciled_cases: "reconciled c p t = p \<or> reconciled c p t = c"
  by (auto simp: reconciled_def split: option.splits if_splits)

lemma apply_whole_snapshot:
  "apply_session_ohlc a t s prev v = Some q \<Longrightarrow>
     prev = Some q \<or> (\<exists>agg. a = Some agg \<and> v \<and> sc_market_state s = LIVE_SESSION
       \<and> q = candidate_statistics agg (sc_trading_date s) t)"
proof (cases "same_session_prior prev s")
  case None
  moreover assume "apply_session_ohlc a t s prev v = Some q"
  ultimately show ?thesis
    by (auto simp: apply_session_ohlc_def split: option.splits if_splits)
next
  case (Some p)
  then have prev: "prev = Some p" by (auto simp: same_session_prior_def split: option.splits if_splits)
  assume "apply_session_ohlc a t s prev v = Some q"
  then have "q = p \<or> (\<exists>agg. a = Some agg \<and> v \<and> sc_market_state s = LIVE_SESSION
      \<and> q = reconciled (candidate_statistics agg (sc_trading_date s) t) p t)"
    by (auto simp: apply_session_ohlc_def Some Let_def split: option.splits if_splits)
  then show ?thesis
    unfolding prev using reconciled_cases by metis
qed

lemma apply_retains_or_advances:
  assumes "apply_session_ohlc a t s (Some p) v = r" "ss_trading_date p = sc_trading_date s"
  shows "\<exists>q. r = Some q \<and> advances p q"
  using assms
  by (auto simp: engine_simps advances_def split: option.splits if_splits)

lemma apply_wf:
  assumes "apply_session_ohlc a t s prev v = Some q" "\<And>p. prev = Some p \<Longrightarrow> wf_statistics p"
    "\<And>agg. a = Some agg \<Longrightarrow> wf_ohlc agg"
  shows "wf_statistics q"
  using apply_whole_snapshot [OF assms(1)] assms(2,3) wf_candidate by blast

section \<open>Sequences of accepted data\<close>

text \<open>
  One accepted datum of an instrument as \<^verbatim>\<open>TickEngine._session_statistics_for\<close> sees it, and a run
  of them. A staging between two data replaces the staged observation.
\<close>

record datum =
  d_aggregate :: "provider_session_ohlc option"
  d_event_timestamp :: instant
  d_session :: "session_context option"
  d_staged_before :: "session_statistics_observation option"

definition stats_step ::
  "session_statistics_authority \<Rightarrow> session_statistics option \<times> session_statistics_observation option \<Rightarrow> datum \<Rightarrow>
   session_statistics option \<times> session_statistics_observation option" where
  "stats_step authority st d =
     (let staged = (case d_staged_before d of None \<Rightarrow> snd st | Some ob \<Rightarrow> Some ob)
      in resolve_session_statistics (d_aggregate d) (d_event_timestamp d) staged (d_session d) (fst st) authority)"

lemma resolve_no_session [simp]: "resolve_session_statistics agg ts staged None prev au = (prev, staged)"
  by (simp add: resolve_session_statistics_def)

lemma resolve_fst_cases:
  obtains (tick) "fst (resolve_session_statistics agg ts staged (Some s) prev au) =
      apply_session_ohlc agg ts s prev (tick_aggregate_verified au)"
  | (staged) ob where "staged = Some ob" "obs_trading_date ob = sc_trading_date s"
      "sc_market_state s = LIVE_SESSION"
      "fst (resolve_session_statistics agg ts staged (Some s) prev au) =
        apply_session_ohlc (Some (obs_session_ohlc ob)) (obs_observed_at ob) s prev (staged_observation_verified au)"
proof (cases staged)
  case None
  then show ?thesis using tick by (simp add: resolve_session_statistics_def Let_def)
next
  case (Some ob)
  then show ?thesis
    using that
    by (cases "obs_trading_date ob = sc_trading_date s \<and> sc_market_state s = LIVE_SESSION")
      (auto simp: resolve_session_statistics_def Let_def)
qed

lemma resolve_unverified:
  assumes "\<not> staged_observation_verified au" "\<not> tick_aggregate_verified au"
  shows "fst (resolve_session_statistics agg ts staged (Some s) prev au) = same_session_prior prev s"
  by (rule resolve_fst_cases [of agg ts staged s prev au]) (simp_all add: assms apply_unverified)

lemma resolve_advances:
  assumes "ss_trading_date p = sc_trading_date s"
  shows "\<exists>q. fst (resolve_session_statistics agg ts staged (Some s) (Some p) au) = Some q \<and> advances p q"
  using apply_retains_or_advances [OF _ assms]
  by (rule_tac resolve_fst_cases [of agg ts staged s "Some p" au]) simp_all

section \<open>Properties\<close>

text \<open>
  C12. Statistics change only through a verified source: whenever resolving a datum yields
  statistics other than the prior ones, the market is in its live session, the source that
  supplied the aggregate (tick-carried or staged observation) is itself verified, and the new
  statistics are one whole aggregate of that source, never a merge of fields.
\<close>

theorem statistics_change_needs_verified_source:
  assumes "fst (resolve_session_statistics agg ts staged (Some s) prev au) = Some q" "prev \<noteq> Some q"
  shows "sc_market_state s = LIVE_SESSION
    \<and> ((\<exists>a. tick_aggregate_verified au \<and> agg = Some a \<and> q = candidate_statistics a (sc_trading_date s) ts)
       \<or> (\<exists>ob. staged_observation_verified au \<and> staged = Some ob \<and> obs_trading_date ob = sc_trading_date s
            \<and> q = candidate_statistics (obs_session_ohlc ob) (sc_trading_date s) (obs_observed_at ob)))"
proof (rule resolve_fst_cases [of agg ts staged s prev au])
  assume "fst (resolve_session_statistics agg ts staged (Some s) prev au) =
    apply_session_ohlc agg ts s prev (tick_aggregate_verified au)"
  with assms show ?thesis using apply_whole_snapshot by metis
next
  fix ob
  assume "staged = Some ob" "obs_trading_date ob = sc_trading_date s"
    "fst (resolve_session_statistics agg ts staged (Some s) prev au) =
      apply_session_ohlc (Some (obs_session_ohlc ob)) (obs_observed_at ob) s prev (staged_observation_verified au)"
  with assms show ?thesis using apply_whole_snapshot by (metis option.inject)
qed

definition example_ohlc :: provider_session_ohlc where
  "example_ohlc = \<lparr>agg_open = 100, agg_high = 105, agg_low = 99, agg_close = 101\<rparr>"

definition example_session :: session_context where
  "example_session = \<lparr>sc_trading_date = 20000, sc_market_state = LIVE_SESSION, sc_exchange_timezone = ''Asia/Kolkata''\<rparr>"

theorem statistics_change_needs_verified_source_witness:
  "fst (resolve_session_statistics (Some example_ohlc) 7 None (Some example_session) None
      \<lparr>staged_observation_verified = False, tick_aggregate_verified = True\<rparr>)
    = Some (candidate_statistics example_ohlc 20000 7)
   \<and> sc_market_state example_session = LIVE_SESSION"
proof -
  have "fst (resolve_session_statistics (Some example_ohlc) 7 None (Some example_session) None
      \<lparr>staged_observation_verified = False, tick_aggregate_verified = True\<rparr>)
    = Some (candidate_statistics example_ohlc 20000 7)"
    by (simp add: resolve_session_statistics_def apply_session_ohlc_def same_session_prior_def
        example_session_def Let_def)
  from this statistics_change_needs_verified_source [OF this] show ?thesis by simp
qed

text \<open>
  An engine with the default authority never holds statistics, whatever ticks, quotes,
  sessions and staged observations it sees: the fold of the statistics step over any list of
  data starting without statistics ends without statistics.
\<close>

lemma default_authority_never_establishes:
  "fst (foldl (stats_step disabled_authority) (None, staged) ds) = None"
proof (induction ds arbitrary: staged)
  case (Cons d ds)
  have "fst (stats_step disabled_authority (None, staged) d) = None"
    by (cases "d_session d")
      (simp_all add: stats_step_def resolve_unverified disabled_authority_def same_session_prior_def Let_def)
  with Cons show ?case by (cases "stats_step disabled_authority (None, staged) d") simp
qed simp

text \<open>
  Within one trading date statistics only move forward: over any run of data classified into
  that date the open is kept, the high never falls, the low never rises, freshness never
  regresses, and statistics once present stay present.
\<close>

lemma statistics_progress_within_session:
  assumes "fst st = Some p" "ss_trading_date p = D"
    and "list_all (\<lambda>d. case d_session d of None \<Rightarrow> True | Some s \<Rightarrow> sc_trading_date s = D) ds"
  shows "\<exists>q. fst (foldl (stats_step au) st ds) = Some q \<and> advances p q"
  using assms
proof (induction ds arbitrary: st p)
  case (Cons d ds)
  have "\<exists>q. fst (stats_step au st d) = Some q \<and> advances p q"
    using Cons.prems resolve_advances
    by (cases "d_session d") (simp_all add: stats_step_def Let_def)
  then obtain q where q: "fst (stats_step au st d) = Some q" "advances p q" by blast
  then have "ss_trading_date q = D" using Cons.prems(2) by (simp add: advances_def)
  with Cons.IH [OF q(1)] Cons.prems(3) obtain r where
    "fst (foldl (stats_step au) (stats_step au st d) ds) = Some r" "advances q r" by auto
  with q(2) advances_trans show ?case by auto
qed simp

lemma statistics_progress_within_session_example:
  "\<exists>q. fst (foldl (stats_step \<lparr>staged_observation_verified = True, tick_aggregate_verified = True\<rparr>)
      (Some (candidate_statistics example_ohlc 20000 7), None)
      [\<lparr>d_aggregate = Some (example_ohlc\<lparr>agg_high := 110\<rparr>), d_event_timestamp = 8,
        d_session = Some example_session, d_staged_before = None\<rparr>]) = Some q
    \<and> advances (candidate_statistics example_ohlc 20000 7) q"
  by (rule statistics_progress_within_session [where D = 20000])
    (simp_all add: candidate_statistics_def example_session_def)

text \<open>
  No previous-day leakage: after any datum with a classified session, statistics that are
  present belong to that session's trading date, and a staged observation of an earlier date is
  gone.
\<close>

lemma no_previous_day_leakage:
  assumes "resolve_session_statistics agg ts staged (Some s) prev au = (next_stats, next_staged)"
  shows "(\<forall>q. next_stats = Some q \<longrightarrow> ss_trading_date q = sc_trading_date s)
    \<and> (\<forall>ob. next_staged = Some ob \<longrightarrow> staged = Some ob \<and> sc_trading_date s \<le> obs_trading_date ob)"
proof
  show "\<forall>q. next_stats = Some q \<longrightarrow> ss_trading_date q = sc_trading_date s"
    by (rule resolve_fst_cases [of agg ts staged s prev au]) (use assms apply_same_date in auto)
  show "\<forall>ob. next_staged = Some ob \<longrightarrow> staged = Some ob \<and> sc_trading_date s \<le> obs_trading_date ob"
    using assms by (auto simp: resolve_session_statistics_def Let_def split: option.splits if_splits)
qed

lemma no_previous_day_leakage_example:
  "resolve_session_statistics None 9
      (Some \<lparr>obs_instrument = cash_equity ''NSE'' ''TCS'', obs_trading_date = 19999, obs_observed_at = 3, obs_session_ohlc = example_ohlc\<rparr>)
      (Some example_session) (Some (candidate_statistics example_ohlc 20000 7)) disabled_authority
      = (Some (candidate_statistics example_ohlc 20000 7), None)
    \<and> ss_trading_date (candidate_statistics example_ohlc 20000 7) = sc_trading_date example_session"
proof -
  have "resolve_session_statistics None 9
      (Some \<lparr>obs_instrument = cash_equity ''NSE'' ''TCS'', obs_trading_date = 19999, obs_observed_at = 3, obs_session_ohlc = example_ohlc\<rparr>)
      (Some example_session) (Some (candidate_statistics example_ohlc 20000 7)) disabled_authority
      = (Some (candidate_statistics example_ohlc 20000 7), None)"
    by (simp add: resolve_session_statistics_def apply_session_ohlc_def same_session_prior_def
        example_session_def candidate_statistics_def Let_def)
  from this no_previous_day_leakage [OF this] show ?thesis by simp
qed

end
