(* ===== verification/Candle_Engine.thy ===== *)
theory Candle_Engine
  imports Buckets Market_Context "HOL-Library.List_Lexorder" "HOL-Library.Char_ord"
begin

text \<open>
  Live candle aggregation (\<^verbatim>\<open>market_engine/candle_engine.py\<close>) and the pure reconciliation decision
  (\<^verbatim>\<open>market_engine/historical/reconciliation.py\<close>). The engine is a record; each method is a function
  from engine to engine. The dictionary of per-stream states is a partial map keyed by instrument
  and timeframe, a \<^verbatim>\<open>deque(maxlen=w)\<close> is a list that never exceeds \<open>w\<close>.
\<close>

section \<open>Reconciliation decision\<close>

datatype reconciliation_outcome =
    RECONCILED | ALREADY_RECONCILED | NO_MATCH | NO_AUTHORITATIVE_CANDLE | CONFLICT
  | OUT_OF_WINDOW | CURRENT_DAY_WITHHELD

record candle_identity =
  id_instrument :: instrument
  id_timeframe :: timeframe
  id_start :: instant
  id_end :: instant

record reconciliation_result =
  rr_identity :: candle_identity
  rr_outcome :: reconciliation_outcome
  rr_candle :: "candle option"

definition identity_of :: "candle \<Rightarrow> timeframe \<Rightarrow> candle_identity" where
  "identity_of c tf =
     \<lparr>id_instrument = candle_instrument c, id_timeframe = tf, id_start = candle_start c, id_end = candle_end c\<rparr>"

definition identity_of_incomplete :: "incomplete_candle \<Rightarrow> candle_identity" where
  "identity_of_incomplete c =
     \<lparr>id_instrument = ic_instrument c, id_timeframe = ic_timeframe c, id_start = ic_start c, id_end = ic_end c\<rparr>"

fun match_incomplete :: "candle_identity \<Rightarrow> incomplete_candle list \<Rightarrow> reconciliation_outcome" where
  "match_incomplete ident [] = NO_MATCH"
| "match_incomplete ident (c # cs) =
     (if identity_of_incomplete c = ident then RECONCILED else match_incomplete ident cs)"

fun match_outcome ::
  "candle \<Rightarrow> timeframe \<Rightarrow> incomplete_candle list \<Rightarrow> candle list \<Rightarrow> reconciliation_outcome" where
  "match_outcome authoritative tf incomplete [] = match_incomplete (identity_of authoritative tf) incomplete"
| "match_outcome authoritative tf incomplete (c # cs) =
     (if identity_of c tf = identity_of authoritative tf
      then (if c = authoritative then ALREADY_RECONCILED else CONFLICT)
      else match_outcome authoritative tf incomplete cs)"

section \<open>Engine state\<close>

record bucket =
  b_index :: int
  b_start_utc :: instant
  b_end_utc :: instant
  b_open :: decimal
  b_high :: decimal
  b_low :: decimal
  b_close :: decimal
  b_baseline :: "int option"
  b_last_cumulative :: "int option"
  b_feed_gap :: bool
  b_ohlc_broken :: bool
  b_volume_invalid :: bool

record timeframe_state =
  ts_instrument :: instrument
  ts_timeframe :: timeframe
  ts_finalized :: "candle list"
  ts_incomplete :: "incomplete_candle list"
  ts_trading_date :: "date option"
  ts_partial :: "bucket option"
  ts_previous_bucket_index :: "int option"
  ts_previous_bucket_end_cumulative :: "int option"

record candle_engine =
  ce_schedule :: session_schedule
  ce_timezone :: zone
  ce_window :: nat
  ce_timeframes :: "timeframe list"
  ce_states :: "instrument \<times> timeframe \<Rightarrow> timeframe_state option"
  ce_continuity_broken :: "instrument set"

section \<open>Timeframe registration\<close>

text \<open>The difference of two datetimes with the same \<^verbatim>\<open>tzinfo\<close> is the difference of the wall clocks.\<close>

definition session_length :: "session_schedule \<Rightarrow> timedelta" where
  "session_length s = combine 10957 (regular_close s) - combine 10957 (regular_open s)"

definition validated :: "session_schedule \<Rightarrow> timeframe list \<Rightarrow> timeframe list res" where
  "validated s tfs =
     (if list_ex (\<lambda>tf. \<exists>dur. tf_duration tf = Some dur \<and> session_length s \<le> dur) tfs
      then Inl (ValueError ''an intraday timeframe must be shorter than the session'')
      else Inr (remdups tfs))"

text \<open>\<^verbatim>\<open>sorted(..., key=lambda tf: (tf.is_session, tf.label))\<close>: by label, then stably by \<^verbatim>\<open>is_session\<close>.\<close>

definition ordered :: "timeframe list \<Rightarrow> timeframe list" where
  "ordered tfs = sort_key is_session (sort_key tf_label tfs)"

definition mk_candle_engine ::
  "session_schedule \<Rightarrow> zone \<Rightarrow> timeframe list \<Rightarrow> int \<Rightarrow> candle_engine res" where
  "mk_candle_engine s z tfs window =
     (if window \<le> 0 then Inl (ValueError ''finalized_window must be a positive integer'')
      else res_bind (validated s tfs) (\<lambda>v.
        Inr \<lparr>ce_schedule = s, ce_timezone = z, ce_window = nat window, ce_timeframes = ordered v,
             ce_states = Map.empty, ce_continuity_broken = {}\<rparr>))"

definition set_required_timeframes :: "candle_engine \<Rightarrow> timeframe list \<Rightarrow> candle_engine res" where
  "set_required_timeframes e tfs =
     res_bind (validated (ce_schedule e) tfs) (\<lambda>desired.
       let removed = set (ce_timeframes e) - set desired
       in Inr (e\<lparr>ce_states := (\<lambda>key. if snd key \<in> removed then None else ce_states e key),
                 ce_timeframes := ordered desired\<rparr>))"

section \<open>Buckets in progress\<close>

definition interval_volume :: "bucket \<Rightarrow> int option" where
  "interval_volume b =
     (if b_volume_invalid b then None
      else case (b_baseline b, b_last_cumulative b) of
        (Some baseline, Some last_cumulative) \<Rightarrow>
          (let volume = last_cumulative - baseline in if volume < 0 then None else Some volume)
      | _ \<Rightarrow> None)"

definition quality_for :: "bucket \<Rightarrow> candle_quality" where
  "quality_for b =
     (if b_feed_gap b then FEED_GAP else if b_ohlc_broken b then INCOMPLETE_OHLC else INCOMPLETE_VOLUME)"

definition to_incomplete :: "instrument \<Rightarrow> timeframe \<Rightarrow> bucket \<Rightarrow> incomplete_candle" where
  "to_incomplete i tf b =
     \<lparr>ic_instrument = i, ic_timeframe = tf, ic_start = b_start_utc b, ic_end = b_end_utc b,
      ic_open = b_open b, ic_high = b_high b, ic_low = b_low b, ic_close = b_close b,
      ic_quantity = interval_volume b, ic_quality = quality_for b\<rparr>"

definition partial_view :: "bucket \<Rightarrow> partial_candle" where
  "partial_view b =
     \<lparr>pc_start = b_start_utc b, pc_end = b_end_utc b, pc_open = b_open b, pc_high = b_high b,
      pc_low = b_low b, pc_close = b_close b, pc_quantity = interval_volume b, pc_quality = quality_for b\<rparr>"

definition apply_tick :: "bucket \<Rightarrow> tick \<Rightarrow> bucket" where
  "apply_tick b t =
     (let price = last_price t;
          b' = b\<lparr>b_high := max (b_high b) price, b_low := min (b_low b) price, b_close := price\<rparr>
      in case session_cumulative_volume t of
           None \<Rightarrow> b'
         | Some cumulative \<Rightarrow>
             (case b_last_cumulative b of
                Some prev \<Rightarrow> (if cumulative < prev then b'\<lparr>b_volume_invalid := True\<rparr>
                              else b'\<lparr>b_last_cumulative := Some cumulative\<rparr>)
              | None \<Rightarrow> b'\<lparr>b_last_cumulative := Some cumulative\<rparr>))"

definition open_bucket ::
  "instrument set \<Rightarrow> timeframe_state \<Rightarrow> int \<Rightarrow> instant \<Rightarrow> instant \<Rightarrow> tick \<Rightarrow> bucket" where
  "open_bucket continuity_broken st index start_utc end_utc t =
     (let contiguous = (\<exists>p. ts_previous_bucket_index st = Some p \<and> index = p + 1);
          broken = ts_instrument st \<in> continuity_broken;
          feed_gap = (broken \<or> (ts_previous_bucket_index st \<noteq> None \<and> \<not> contiguous));
          baseline = (if feed_gap \<or> \<not> contiguous then None else ts_previous_bucket_end_cumulative st);
          price = last_price t
      in \<lparr>b_index = index, b_start_utc = start_utc, b_end_utc = end_utc, b_open = price, b_high = price,
          b_low = price, b_close = price, b_baseline = baseline,
          b_last_cumulative = session_cumulative_volume t, b_feed_gap = feed_gap,
          b_ohlc_broken = False, b_volume_invalid = False\<rparr>)"

definition finalize_partial :: "nat \<Rightarrow> timeframe_state \<Rightarrow> timeframe_state" where
  "finalize_partial window st =
     (case ts_partial st of
        None \<Rightarrow> st
      | Some b \<Rightarrow>
          st\<lparr>ts_incomplete := push_bounded window (to_incomplete (ts_instrument st) (ts_timeframe st) b) (ts_incomplete st),
             ts_previous_bucket_index := Some (b_index b),
             ts_previous_bucket_end_cumulative :=
               (if b_feed_gap b \<or> b_last_cumulative b = None then None else b_last_cumulative b),
             ts_partial := None\<rparr>)"

definition reset_session :: "nat \<Rightarrow> timeframe_state \<Rightarrow> date \<Rightarrow> timeframe_state" where
  "reset_session window st trading_date =
     (let st' = finalize_partial window st
      in st'\<lparr>ts_trading_date := Some trading_date, ts_partial := None, ts_previous_bucket_index := None,
             ts_previous_bucket_end_cumulative := None\<rparr>)"

section \<open>Engine operations\<close>

definition fresh_state :: "instrument \<Rightarrow> timeframe \<Rightarrow> timeframe_state" where
  "fresh_state i tf =
     \<lparr>ts_instrument = i, ts_timeframe = tf, ts_finalized = [], ts_incomplete = [], ts_trading_date = None,
      ts_partial = None, ts_previous_bucket_index = None, ts_previous_bucket_end_cumulative = None\<rparr>"

definition state_for_stream :: "candle_engine \<Rightarrow> instrument \<Rightarrow> timeframe \<Rightarrow> timeframe_state" where
  "state_for_stream e i tf = (case ce_states e (i, tf) of Some st \<Rightarrow> st | None \<Rightarrow> fresh_state i tf)"

text \<open>
  The tail of \<^verbatim>\<open>_update_timeframe\<close>: locate the bucket and either fold the tick into the partial or
  close the partial and open the next one.
\<close>

definition place_tick ::
  "nat \<Rightarrow> instrument set \<Rightarrow> timeframe_state \<Rightarrow> bucket_span \<Rightarrow> tick \<Rightarrow> timeframe_state" where
  "place_tick window broken st bspan t =
     (case bspan of (index, start_utc, end_utc) \<Rightarrow>
       (case ts_partial st of
          Some b \<Rightarrow>
            (if b_index b = index then st\<lparr>ts_partial := Some (apply_tick b t)\<rparr>
             else let st' = finalize_partial window st
                  in st'\<lparr>ts_partial := Some (open_bucket broken st' index start_utc end_utc t)\<rparr>)
        | None \<Rightarrow> st\<lparr>ts_partial := Some (open_bucket broken st index start_utc end_utc t)\<rparr>))"

definition update_timeframe :: "tick \<Rightarrow> session_context \<Rightarrow> candle_engine \<Rightarrow> timeframe \<Rightarrow> candle_engine" where
  "update_timeframe t session e tf =
     (let i = tick_instrument t;
          st = state_for_stream e i tf;
          d = sc_trading_date session;
          rolled = (ts_trading_date st \<noteq> Some d);
          st1 = (if rolled then reset_session (ce_window e) st d else st);
          broken = (if rolled then ce_continuity_broken e - {ts_instrument st} else ce_continuity_broken e);
          bspan = bucket_bounds (tick_event_timestamp t) d tf (bounds (ce_schedule e)) (ce_timezone e)
      in e\<lparr>ce_states := (ce_states e)((i, tf) \<mapsto> place_tick (ce_window e) broken st1 bspan t),
           ce_continuity_broken := broken\<rparr>)"

definition update :: "candle_engine \<Rightarrow> tick \<Rightarrow> session_context \<Rightarrow> candle_engine" where
  "update e t session =
     (if sc_market_state session \<noteq> LIVE_SESSION then e
      else foldl (update_timeframe t session) e (ce_timeframes e))"

definition continuity_loss :: "feed_continuity set" where
  "continuity_loss = {DISCONNECTED, CONTINUITY_LOST}"

definition taint :: "timeframe_state \<Rightarrow> timeframe_state" where
  "taint st = st\<lparr>ts_partial := map_option (\<lambda>b. b\<lparr>b_ohlc_broken := True\<rparr>) (ts_partial st)\<rparr>"

definition record_continuity :: "candle_engine \<Rightarrow> feed_continuity_event \<Rightarrow> candle_engine" where
  "record_continuity e ev =
     (if continuity_status ev \<notin> continuity_loss then e
      else e\<lparr>ce_states := map_option taint \<circ> ce_states e,
             ce_continuity_broken := ce_continuity_broken e \<union> fst ` dom (ce_states e)\<rparr>)"

definition flush_state :: "nat \<Rightarrow> instant \<Rightarrow> timeframe_state \<Rightarrow> timeframe_state" where
  "flush_state window at_time st =
     (case ts_partial st of
        None \<Rightarrow> st
      | Some b \<Rightarrow> (if b_end_utc b \<le> at_time then finalize_partial window st else st))"

definition flush :: "candle_engine \<Rightarrow> instant \<Rightarrow> candle_engine" where
  "flush e at_time = e\<lparr>ce_states := map_option (flush_state (ce_window e) at_time) \<circ> ce_states e\<rparr>"

definition apply_reconciliation ::
  "nat \<Rightarrow> timeframe_state \<Rightarrow> candle \<Rightarrow> timeframe \<Rightarrow> candle_identity \<Rightarrow> timeframe_state" where
  "apply_reconciliation window st authoritative tf ident =
     (let kept = filter (\<lambda>c. identity_of c tf \<noteq> ident) (ts_finalized st) @ [authoritative]
      in st\<lparr>ts_incomplete := last_n window (filter (\<lambda>c. identity_of_incomplete c \<noteq> ident) (ts_incomplete st)),
            ts_finalized := last_n window (sort_key candle_start kept)\<rparr>)"

definition is_out_of_window :: "timeframe_state \<Rightarrow> candle \<Rightarrow> bool" where
  "is_out_of_window st authoritative =
     (case map ic_start (ts_incomplete st) @ map candle_start (ts_finalized st)
             @ (case ts_partial st of None \<Rightarrow> [] | Some b \<Rightarrow> [b_start_utc b]) of
        [] \<Rightarrow> False
      | r # rs \<Rightarrow> candle_start authoritative < min_of r rs)"

definition reconcile :: "candle_engine \<Rightarrow> candle \<Rightarrow> timeframe \<Rightarrow> reconciliation_result \<times> candle_engine" where
  "reconcile e authoritative tf =
     (let ident = identity_of authoritative tf;
          result = (\<lambda>out c. \<lparr>rr_identity = ident, rr_outcome = out, rr_candle = c\<rparr>)
      in case ce_states e (candle_instrument authoritative, tf) of
           None \<Rightarrow> (result NO_MATCH None, e)
         | Some st \<Rightarrow>
             (let outcome = match_outcome authoritative tf (ts_incomplete st) (ts_finalized st)
              in if outcome = RECONCILED
                 then (result outcome (Some authoritative),
                       e\<lparr>ce_states := (ce_states e)((candle_instrument authoritative, tf) \<mapsto>
                           apply_reconciliation (ce_window e) st authoritative tf ident)\<rparr>)
                 else if outcome = NO_MATCH \<and> is_out_of_window st authoritative
                 then (result OUT_OF_WINDOW None, e)
                 else (result outcome (if outcome = ALREADY_RECONCILED then Some authoritative else None), e)))"

definition candle_sets_for :: "candle_engine \<Rightarrow> instrument \<Rightarrow> timeframe_candles list" where
  "candle_sets_for e i =
     map (\<lambda>tf. case ce_states e (i, tf) of
         None \<Rightarrow> \<lparr>tc_timeframe = tf, tc_partial = None, tc_finalized = [], tc_incomplete = []\<rparr>
       | Some st \<Rightarrow> \<lparr>tc_timeframe = tf, tc_partial = map_option partial_view (ts_partial st),
                     tc_finalized = ts_finalized st, tc_incomplete = ts_incomplete st\<rparr>)
       (ce_timeframes e)"

section \<open>Well-formed engine states\<close>

definition wf_bucket :: "bucket \<Rightarrow> bool" where
  [wf_simps]: "wf_bucket b \<longleftrightarrow> 0 < b_low b \<and> b_low b \<le> b_open b \<and> b_open b \<le> b_high b
     \<and> b_low b \<le> b_close b \<and> b_close b \<le> b_high b \<and> (b_feed_gap b \<longrightarrow> b_baseline b = None)"

definition wf_incomplete :: "incomplete_candle \<Rightarrow> bool" where
  [wf_simps]: "wf_incomplete c \<longleftrightarrow> 0 < ic_low c \<and> ic_low c \<le> ic_open c \<and> ic_open c \<le> ic_high c
     \<and> ic_low c \<le> ic_close c \<and> ic_close c \<le> ic_high c \<and> nonneg_if_some (ic_quantity c)
     \<and> ic_quality c \<noteq> COMPLETE \<and> (ic_quality c = FEED_GAP \<longrightarrow> ic_quantity c = None)"

definition wf_state :: "nat \<Rightarrow> instrument \<times> timeframe \<Rightarrow> timeframe_state \<Rightarrow> bool" where
  "wf_state window key st \<longleftrightarrow>
     (ts_instrument st, ts_timeframe st) = key
     \<and> length (ts_finalized st) \<le> window \<and> length (ts_incomplete st) \<le> window
     \<and> list_all wf_incomplete (ts_incomplete st)
     \<and> list_all (\<lambda>c. ic_instrument c = fst key \<and> ic_timeframe c = snd key) (ts_incomplete st)
     \<and> list_all (\<lambda>c. wf_candle c \<and> candle_instrument c = fst key) (ts_finalized st)
     \<and> sorted (map candle_start (ts_finalized st))
     \<and> (case ts_partial st of None \<Rightarrow> True | Some b \<Rightarrow> wf_bucket b)"

definition wf_engine :: "candle_engine \<Rightarrow> bool" where
  "wf_engine e \<longleftrightarrow> 0 < ce_window e \<and> distinct (ce_timeframes e)
     \<and> (\<forall>key st. ce_states e key = Some st \<longrightarrow> wf_state (ce_window e) key st)"

lemma wf_engineD: "wf_engine e \<Longrightarrow> ce_states e key = Some st \<Longrightarrow> wf_state (ce_window e) key st"
  unfolding wf_engine_def by blast

lemma wf_engineI:
  "0 < ce_window e \<Longrightarrow> distinct (ce_timeframes e) \<Longrightarrow> (\<And>key st. ce_states e key = Some st \<Longrightarrow> wf_state (ce_window e) key st) \<Longrightarrow> wf_engine e"
  unfolding wf_engine_def by blast

lemma wf_engine_window: "wf_engine e \<Longrightarrow> 0 < ce_window e" "wf_engine e \<Longrightarrow> distinct (ce_timeframes e)"
  unfolding wf_engine_def by blast+

lemma wf_engine_upd:
  "wf_engine e \<Longrightarrow> wf_state (ce_window e) key st \<Longrightarrow> wf_engine (e\<lparr>ce_states := (ce_states e)(key \<mapsto> st)\<rparr>)"
  by (rule wf_engineI) (auto simp: wf_engine_window wf_engineD split: if_splits)

lemma wf_engine_broken [simp]: "wf_engine (e\<lparr>ce_continuity_broken := br\<rparr>) = wf_engine e"
  unfolding wf_engine_def by simp

subsection \<open>Buckets\<close>

lemma interval_volume_nonneg: "nonneg_if_some (interval_volume b)"
  by (simp add: interval_volume_def nonneg_if_some_def Let_def split: option.splits)

lemma wf_to_incomplete: "wf_bucket b \<Longrightarrow> wf_incomplete (to_incomplete i tf b)"
  using interval_volume_nonneg [of b]
  by (auto simp: wf_simps to_incomplete_def quality_for_def interval_volume_def split: option.splits)

lemma wf_apply_tick: "wf_bucket b \<Longrightarrow> wf_tick t \<Longrightarrow> wf_bucket (apply_tick b t)"
  by (auto simp: wf_simps apply_tick_def Let_def split: option.splits)

lemma wf_open_bucket: "wf_tick t \<Longrightarrow> wf_bucket (open_bucket br st i s e t)"
  by (auto simp: wf_simps open_bucket_def Let_def)

text \<open>The two candle constructors never raise on a well-formed bucket.\<close>

lemma candle_views_construct:
  "wf_bucket b \<Longrightarrow> validate_incomplete_candle (to_incomplete i tf b) = Inr (to_incomplete i tf b)"
  "wf_bucket b \<Longrightarrow> validate_partial_candle (partial_view b) = Inr (partial_view b)"
  using interval_volume_nonneg [of b]
  by (auto simp: wf_simps validate_incomplete_candle_def validate_partial_candle_def to_incomplete_def partial_view_def)

subsection \<open>Streams\<close>

lemma wf_fresh_state [simp]: "wf_state w (i, tf) (fresh_state i tf)"
  by (simp add: wf_state_def fresh_state_def)

lemma list_all_push_bounded: "list_all P xs \<Longrightarrow> P x \<Longrightarrow> list_all P (push_bounded n x xs)"
  by (auto simp: list_all_iff dest: set_push_boundedD)

lemma to_incomplete_fields [simp]:
  "ic_instrument (to_incomplete i tf b) = i"
  "ic_timeframe (to_incomplete i tf b) = tf"
  "ic_start (to_incomplete i tf b) = b_start_utc b"
  "ic_end (to_incomplete i tf b) = b_end_utc b"
  by (simp_all add: to_incomplete_def)

lemma finalize_partial_wf: "wf_state w key st \<Longrightarrow> wf_state w key (finalize_partial w st)"
  by (cases key)
    (auto simp: wf_state_def finalize_partial_def wf_to_incomplete
      intro!: list_all_push_bounded split: option.splits)

lemma finalize_partial_fields [simp]:
  "ts_instrument (finalize_partial w st) = ts_instrument st"
  "ts_timeframe (finalize_partial w st) = ts_timeframe st"
  "ts_finalized (finalize_partial w st) = ts_finalized st"
  "ts_trading_date (finalize_partial w st) = ts_trading_date st"
  "ts_partial (finalize_partial w st) = None"
  by (simp_all add: finalize_partial_def split: option.splits)

lemma wf_state_with_partial:
  "wf_state w key st \<Longrightarrow> wf_bucket b \<Longrightarrow> wf_state w key (st\<lparr>ts_partial := Some b\<rparr>)"
  by (simp add: wf_state_def)

lemma reset_session_wf: "wf_state w key st \<Longrightarrow> wf_state w key (reset_session w st d)"
  using finalize_partial_wf [of w key st] by (simp add: reset_session_def wf_state_def Let_def)

lemma place_tick_wf:
  assumes "wf_state w key st" "wf_tick t"
  shows "wf_state w key (place_tick w br st bspan t)"
proof -
  obtain i s e where sp: "bspan = (i, s, e)" by (cases bspan)
  show ?thesis
  proof (cases "ts_partial st")
    case None
    then show ?thesis
      using assms by (simp add: place_tick_def sp wf_state_with_partial wf_open_bucket)
  next
    case (Some b)
    then have "wf_bucket b" using assms(1) by (simp add: wf_state_def)
    with Some show ?thesis
      using assms finalize_partial_wf [OF assms(1)]
      by (simp add: place_tick_def sp wf_state_with_partial wf_open_bucket wf_apply_tick Let_def)
  qed
qed

lemma flush_state_wf: "wf_state w key st \<Longrightarrow> wf_state w key (flush_state w t st)"
  by (simp add: flush_state_def finalize_partial_wf split: option.splits)

lemma taint_wf: "wf_state w key st \<Longrightarrow> wf_state w key (taint st)"
  by (auto simp: wf_state_def taint_def wf_simps split: option.splits)

lemma list_all_last_n: "list_all P xs \<Longrightarrow> list_all P (last_n n xs)"
  by (auto simp: list_all_iff dest: set_last_nD)

lemma apply_reconciliation_wf:
  assumes "wf_state w (i, tf) st" "wf_candle c" "candle_instrument c = i"
  shows "wf_state w (i, tf) (apply_reconciliation w st c tf ident)"
  using assms
  by (auto simp: wf_state_def apply_reconciliation_def Let_def map_last_n
      list_all_iff dest!: set_last_nD split: option.splits)

subsection \<open>Engine operations\<close>

lemma state_for_stream_wf: "wf_engine e \<Longrightarrow> wf_state (ce_window e) (i, tf) (state_for_stream e i tf)"
  by (auto simp: state_for_stream_def wf_engineD split: option.splits)

lemma update_timeframe_wf:
  assumes "wf_engine e" "wf_tick t"
  shows "wf_engine (update_timeframe t s e tf)"
proof -
  note base = state_for_stream_wf [OF assms(1), of "tick_instrument t" tf]
  show ?thesis
    unfolding update_timeframe_def Let_def wf_engine_broken
    by (intro wf_engine_upd [OF assms(1)] place_tick_wf) (use base reset_session_wf assms(2) in auto)
qed

lemma update_timeframe_frame [simp]:
  "ce_window (update_timeframe t s e tf) = ce_window e"
  "ce_timeframes (update_timeframe t s e tf) = ce_timeframes e"
  "ce_schedule (update_timeframe t s e tf) = ce_schedule e"
  "ce_timezone (update_timeframe t s e tf) = ce_timezone e"
  "key \<noteq> (tick_instrument t, tf) \<Longrightarrow> ce_states (update_timeframe t s e tf) key = ce_states e key"
  by (auto simp: update_timeframe_def Let_def)

lemma foldl_update_wf:
  "wf_engine e \<Longrightarrow> wf_tick t \<Longrightarrow> wf_engine (foldl (update_timeframe t s) e tfs)"
  by (induction tfs arbitrary: e) (simp_all add: update_timeframe_wf)

lemma update_wf: "wf_engine e \<Longrightarrow> wf_tick t \<Longrightarrow> wf_engine (update e t s)"
  by (simp add: update_def foldl_update_wf)

lemma record_continuity_wf: "wf_engine e \<Longrightarrow> wf_engine (record_continuity e ev)"
  by (rule wf_engineI) (auto simp: record_continuity_def wf_engine_window wf_engineD taint_wf split: if_splits)

lemma flush_wf: "wf_engine e \<Longrightarrow> wf_engine (flush e t)"
  by (rule wf_engineI) (auto simp: flush_def wf_engine_window wf_engineD flush_state_wf)

lemma reconcile_wf:
  assumes "wf_engine e" "wf_candle c"
  shows "wf_engine (snd (reconcile e c tf))"
proof -
  have "wf_state (ce_window e) (candle_instrument c, tf) (apply_reconciliation (ce_window e) st c tf ident)"
    if "ce_states e (candle_instrument c, tf) = Some st" for st ident
    using wf_engineD [OF assms(1) that] assms(2) by (intro apply_reconciliation_wf) simp_all
  then show ?thesis
    using assms(1) by (simp add: reconcile_def Let_def wf_engine_upd split: option.splits)
qed

lemma distinct_ordered [simp]: "distinct (ordered tfs) = distinct tfs"
  by (simp add: ordered_def)

lemma set_ordered [simp]: "set (ordered tfs) = set tfs"
  by (simp add: ordered_def)

lemma validated_Inr:
  "validated s tfs = Inr v \<Longrightarrow> v = remdups tfs"
  by (auto simp: validated_def split: if_splits)

lemma set_required_timeframes_wf:
  "wf_engine e \<Longrightarrow> set_required_timeframes e tfs = Inr e' \<Longrightarrow> wf_engine e'"
  by (rule wf_engineI)
    (auto simp: set_required_timeframes_def Let_def wf_engine_window wf_engineD dest: validated_Inr split: if_splits)

lemma mk_candle_engine_wf: "mk_candle_engine s z tfs w = Inr e \<Longrightarrow> wf_engine e"
  by (rule wf_engineI) (auto simp: mk_candle_engine_def dest: validated_Inr split: if_splits)

end
