(* ===== verification/Tick_Engine.thy ===== *)
theory Tick_Engine
  imports Event_Bus Session_Statistics Candle_Engine
begin

text \<open>
  Routing of validated events into per-instrument context versions: \<^verbatim>\<open>market_engine/tick_engine.py\<close>
  with the state registry (\<^verbatim>\<open>state.py\<close>), the front-door validation (\<^verbatim>\<open>validation.py\<close>), the sequence
  (\<^verbatim>\<open>sequence.py\<close>), the clocks (\<^verbatim>\<open>clock.py\<close>), the context events (\<^verbatim>\<open>events.py\<close>) and the decision counters
  (\<^verbatim>\<open>tick_diagnostics.py\<close>). A clock reading is an argument of the step that takes it. Every event
  handed to the bus is appended to \<open>te_published\<close> and every call of a handler to \<open>te_deliveries\<close>;
  when a handler raises, the exception leaves the step after the effects made up to that point.
\<close>

section \<open>Sequence and clock\<close>

record monotonic_sequence =
  seq_current :: int

definition next_value :: "monotonic_sequence \<Rightarrow> int \<times> monotonic_sequence" where
  "next_value s = (seq_current s + 1, s\<lparr>seq_current := seq_current s + 1\<rparr>)"

definition as_utc :: "py_datetime \<Rightarrow> instant res" where
  "as_utc moment =
     (case moment of
        Naive _ \<Rightarrow> Inl (ValueError ''clock time must be timezone-aware'')
      | Aware w off \<Rightarrow> Inr (w - off))"

record manual_clock =
  clock_current :: instant

definition mk_manual_clock :: "py_datetime \<Rightarrow> manual_clock res" where
  "mk_manual_clock moment = res_bind (as_utc moment) (\<lambda>t. Inr \<lparr>clock_current = t\<rparr>)"

definition clock_set :: "manual_clock \<Rightarrow> py_datetime \<Rightarrow> manual_clock res" where
  "clock_set c moment = res_bind (as_utc moment) (\<lambda>t. Inr (c\<lparr>clock_current := t\<rparr>))"

definition clock_advance :: "manual_clock \<Rightarrow> timedelta \<Rightarrow> manual_clock" where
  "clock_advance c delta = c\<lparr>clock_current := clock_current c + delta\<rparr>"

section \<open>Per-instrument state\<close>

record instrument_state =
  is_instrument :: instrument
  is_latest_tick :: "tick option"
  is_latest_quote :: "quote option"
  is_last_event_timestamp :: "instant option"
  is_last_sequence :: "int option"
  is_context :: "market_context option"
  is_historical :: "historical_context option"
  is_session_statistics :: "session_statistics option"
  is_staged :: "session_statistics_observation option"

record state_registry =
  reg_known :: "instrument set"
  reg_states :: "instrument \<Rightarrow> instrument_state option"

definition empty_state :: "instrument \<Rightarrow> instrument_state" where
  "empty_state i =
     \<lparr>is_instrument = i, is_latest_tick = None, is_latest_quote = None, is_last_event_timestamp = None,
      is_last_sequence = None, is_context = None, is_historical = None, is_session_statistics = None,
      is_staged = None\<rparr>"

definition mk_registry :: "instrument list \<Rightarrow> state_registry" where
  "mk_registry known = \<lparr>reg_known = set known, reg_states = Map.empty\<rparr>"

definition is_known :: "state_registry \<Rightarrow> instrument \<Rightarrow> bool" where
  "is_known r i \<longleftrightarrow> i \<in> reg_known r"

definition put_state :: "state_registry \<Rightarrow> instrument \<Rightarrow> instrument_state \<Rightarrow> state_registry" where
  "put_state r i st = r\<lparr>reg_states := (reg_states r)(i \<mapsto> st)\<rparr>"

definition ensure :: "state_registry \<Rightarrow> instrument \<Rightarrow> instrument_state \<times> state_registry" where
  "ensure r i =
     (case reg_states r i of
        Some st \<Rightarrow> (st, r)
      | None \<Rightarrow> (empty_state i, put_state r i (empty_state i)))"

definition install_historical :: "state_registry \<Rightarrow> instrument \<Rightarrow> historical_context \<Rightarrow> state_registry res" where
  "install_historical r i h =
     (if hc_instrument h \<noteq> i
      then Inl (ValueError ''historical context instrument must match the target instrument'')
      else case ensure r i of (st, r') \<Rightarrow> Inr (put_state r' i (st\<lparr>is_historical := Some h\<rparr>)))"

text \<open>The conflict is raised after \<^verbatim>\<open>ensure\<close>, but only when a state, and with it the observation, existed.\<close>

definition stage_session_statistics_observation ::
  "state_registry \<Rightarrow> instrument \<Rightarrow> session_statistics_observation \<Rightarrow> state_registry res" where
  "stage_session_statistics_observation r i ob =
     (if obs_instrument ob \<noteq> i
      then Inl (ValueError ''session statistics observation instrument must match the target'')
      else case ensure r i of (st, r') \<Rightarrow>
        (case is_staged st of
           None \<Rightarrow> Inr (put_state r' i (st\<lparr>is_staged := Some ob\<rparr>))
         | Some current \<Rightarrow>
             (if obs_observed_at ob < obs_observed_at current then Inr r'
              else if obs_observed_at ob = obs_observed_at current \<and> ob \<noteq> current
              then Inl (ValueError ''conflicting session statistics observation at the same instant'')
              else Inr (put_state r' i (st\<lparr>is_staged := Some ob\<rparr>)))))"

section \<open>Front-door validation\<close>

datatype datum_event = TickEvent tick | QuoteEvent quote

definition event_instrument :: "datum_event \<Rightarrow> instrument" where
  "event_instrument ev = (case ev of TickEvent t \<Rightarrow> tick_instrument t | QuoteEvent q \<Rightarrow> quote_instrument q)"

definition event_timestamp :: "datum_event \<Rightarrow> instant" where
  "event_timestamp ev = (case ev of TickEvent t \<Rightarrow> tick_event_timestamp t | QuoteEvent q \<Rightarrow> quote_event_timestamp q)"

datatype validation_outcome = ACCEPT | DUPLICATE | STALE | INVALID

definition max_future_skew :: timedelta where
  "max_future_skew = MINUTE"

definition is_duplicate :: "datum_event \<Rightarrow> instrument_state \<Rightarrow> bool" where
  "is_duplicate ev st =
     (case ev of
        TickEvent t \<Rightarrow> is_latest_tick st = Some t
      | QuoteEvent q \<Rightarrow> is_latest_quote st = Some q)"

definition classify :: "datum_event \<Rightarrow> bool \<Rightarrow> instrument_state option \<Rightarrow> instant \<Rightarrow> validation_outcome" where
  "classify ev known state now =
     (if \<not> known then INVALID
      else if now + max_future_skew < event_timestamp ev then INVALID
      else case state of
        None \<Rightarrow> ACCEPT
      | Some st \<Rightarrow>
          (if is_duplicate ev st then DUPLICATE
           else case is_last_event_timestamp st of
             None \<Rightarrow> ACCEPT
           | Some last_ts \<Rightarrow> (if event_timestamp ev < last_ts then STALE else ACCEPT)))"

section \<open>Decision counters\<close>

record decision_counters =
  ticks_received :: int
  ticks_accepted :: int
  by_reason :: "validation_outcome \<Rightarrow> int"
  references_received :: int
  references_accepted :: int
  references_rejected :: int
  last_accepted_event_ts :: "instant option"
  last_rejected_reason :: "validation_outcome option"
  last_rejected_event_ts :: "instant option"
  last_rejection_observed_at :: "instant option"
  last_rejected_delta :: "timedelta option"

definition new_counters :: decision_counters where
  "new_counters =
     \<lparr>ticks_received = 0, ticks_accepted = 0, by_reason = (\<lambda>_. 0), references_received = 0,
      references_accepted = 0, references_rejected = 0, last_accepted_event_ts = None,
      last_rejected_reason = None, last_rejected_event_ts = None, last_rejection_observed_at = None,
      last_rejected_delta = None\<rparr>"

definition record_tick :: "decision_counters \<Rightarrow> validation_outcome \<Rightarrow> instant \<Rightarrow> instant \<Rightarrow> decision_counters" where
  "record_tick c outcome ts now =
     (let c' = c\<lparr>ticks_received := ticks_received c + 1\<rparr>
      in if outcome = ACCEPT
         then c'\<lparr>ticks_accepted := ticks_accepted c + 1, last_accepted_event_ts := Some ts\<rparr>
         else c'\<lparr>by_reason := (by_reason c)(outcome := by_reason c outcome + 1),
                last_rejected_reason := Some outcome, last_rejected_event_ts := Some ts,
                last_rejection_observed_at := Some now, last_rejected_delta := Some (ts - now)\<rparr>)"

definition record_reference :: "decision_counters \<Rightarrow> validation_outcome \<Rightarrow> decision_counters" where
  "record_reference c outcome =
     (let c' = c\<lparr>references_received := references_received c + 1\<rparr>
      in if outcome = ACCEPT then c'\<lparr>references_accepted := references_accepted c + 1\<rparr>
         else c'\<lparr>references_rejected := references_rejected c + 1\<rparr>)"

record tick_engine_diagnostics =
  diag_ticks_received :: int
  diag_ticks_accepted :: int
  diag_ticks_rejected_total :: int
  diag_rejected_by_reason :: "validation_outcome \<Rightarrow> int"
  diag_references_received :: int
  diag_references_accepted :: int
  diag_references_rejected :: int
  diag_last_accepted_event_timestamp :: "instant option"
  diag_last_rejected_reason :: "validation_outcome option"
  diag_last_rejected_event_timestamp :: "instant option"
  diag_last_rejection_observed_at :: "instant option"
  diag_last_rejected_event_clock_delta :: "timedelta option"

definition snapshot :: "decision_counters \<Rightarrow> tick_engine_diagnostics" where
  "snapshot c =
     \<lparr>diag_ticks_received = ticks_received c, diag_ticks_accepted = ticks_accepted c,
      diag_ticks_rejected_total = ticks_received c - ticks_accepted c, diag_rejected_by_reason = by_reason c,
      diag_references_received = references_received c, diag_references_accepted = references_accepted c,
      diag_references_rejected = references_rejected c,
      diag_last_accepted_event_timestamp = last_accepted_event_ts c,
      diag_last_rejected_reason = last_rejected_reason c,
      diag_last_rejected_event_timestamp = last_rejected_event_ts c,
      diag_last_rejection_observed_at = last_rejection_observed_at c,
      diag_last_rejected_event_clock_delta = last_rejected_delta c\<rparr>"

section \<open>The engine\<close>

datatype context_event =
    MarketContextCreated market_context
  | MarketContextUpdated market_context int

datatype context_event_type = Created | Updated

definition context_event_type_of :: "context_event \<Rightarrow> context_event_type" where
  "context_event_type_of ev = (case ev of MarketContextCreated _ \<Rightarrow> Created | MarketContextUpdated _ _ \<Rightarrow> Updated)"

definition event_context :: "context_event \<Rightarrow> market_context" where
  "event_context ev = (case ev of MarketContextCreated c \<Rightarrow> c | MarketContextUpdated c _ \<Rightarrow> c)"

record tick_engine =
  te_registry :: state_registry
  te_bus :: "context_event_type event_bus"
  te_sequence :: monotonic_sequence
  te_session :: "session_classifier option"
  te_candles :: "candle_engine option"
  te_authority :: session_statistics_authority
  te_halt_active :: bool
  te_counters :: decision_counters
  te_published :: "context_event list"
  te_deliveries :: "(handler \<times> context_event) list"

record process_result =
  pr_outcome :: validation_outcome
  pr_context :: "market_context option"

definition mk_tick_engine ::
  "state_registry \<Rightarrow> context_event_type event_bus \<Rightarrow> session_classifier option \<Rightarrow> candle_engine option \<Rightarrow>
   session_statistics_authority \<Rightarrow> tick_engine" where
  "mk_tick_engine r bus session candles authority =
     \<lparr>te_registry = r, te_bus = bus, te_sequence = \<lparr>seq_current = 0\<rparr>, te_session = session, te_candles = candles,
      te_authority = authority, te_halt_active = False, te_counters = new_counters, te_published = [],
      te_deliveries = []\<rparr>"

definition merge :: "datum_event \<Rightarrow> instrument_state \<Rightarrow> tick option \<times> quote option" where
  "merge ev st =
     (case ev of
        TickEvent t \<Rightarrow> (Some t, is_latest_quote st)
      | QuoteEvent q \<Rightarrow> (is_latest_tick st, Some q))"

definition carried_previous_close :: "market_context \<Rightarrow> session_context option \<Rightarrow> decimal option" where
  "carried_previous_close prior new_session =
     (case (new_session, mc_session prior) of
        (Some s, Some p) \<Rightarrow> (if sc_trading_date s \<noteq> sc_trading_date p then None else mc_previous_close prior)
      | _ \<Rightarrow> mc_previous_close prior)"

definition set_halt :: "tick_engine \<Rightarrow> bool \<Rightarrow> tick_engine" where
  "set_halt e active = e\<lparr>te_halt_active := active\<rparr>"

definition on_feed_continuity :: "tick_engine \<Rightarrow> feed_continuity_event \<Rightarrow> tick_engine" where
  "on_feed_continuity e ev = e\<lparr>te_candles := map_option (\<lambda>c. record_continuity c ev) (te_candles e)\<rparr>"

definition session_for :: "tick_engine \<Rightarrow> datum_event \<Rightarrow> session_context option" where
  "session_for e ev = map_option (\<lambda>cl. classify_session cl (event_timestamp ev) (te_halt_active e)) (te_session e)"

text \<open>\<^verbatim>\<open>_candle_sets_for\<close>: the candle engine after the datum and the snapshot to stamp.\<close>

definition candle_step ::
  "candle_engine option \<Rightarrow> datum_event \<Rightarrow> session_context option \<Rightarrow> timeframe_candles list \<times> candle_engine option" where
  "candle_step candles ev session =
     (case candles of
        None \<Rightarrow> ([], None)
      | Some ce \<Rightarrow>
          (let ce' = (case (ev, session) of (TickEvent t, Some s) \<Rightarrow> update ce t s | _ \<Rightarrow> ce)
           in (candle_sets_for ce' (event_instrument ev), Some ce')))"

definition session_statistics_for ::
  "tick_engine \<Rightarrow> datum_event \<Rightarrow> session_context option \<Rightarrow> instrument_state \<Rightarrow>
   session_statistics option \<times> session_statistics_observation option" where
  "session_statistics_for e ev session st =
     resolve_session_statistics (case ev of TickEvent t \<Rightarrow> tick_session_ohlc t | QuoteEvent _ \<Rightarrow> None)
       (event_timestamp ev) (is_staged st) session (is_session_statistics st) (te_authority e)"

text \<open>Hand an event to the bus; the flag says whether a handler raised.\<close>

definition publish_event ::
  "(handler \<Rightarrow> context_event \<Rightarrow> bool) \<Rightarrow> tick_engine \<Rightarrow> context_event \<Rightarrow> tick_engine \<times> bool" where
  "publish_event raises e ev =
     (case publish raises context_event_type_of (te_bus e) ev of (deliveries, failed) \<Rightarrow>
        (e\<lparr>te_published := te_published e @ [ev], te_deliveries := te_deliveries e @ deliveries\<rparr>, failed))"

definition handler_error :: py_error where
  "handler_error = RuntimeError ''event handler raised''"

definition accept ::
  "(handler \<Rightarrow> context_event \<Rightarrow> bool) \<Rightarrow> tick_engine \<Rightarrow> instant \<Rightarrow> datum_event \<Rightarrow> tick_engine \<times> process_result res" where
  "accept raises e observed_at ev =
     (let i = event_instrument ev;
          (st, reg) = ensure (te_registry e) i;
          (tick, quote) = merge ev st;
          (sequence, sq) = next_value (te_sequence e);
          session = session_for e ev;
          (candle_sets, candles) = candle_step (te_candles e) ev session;
          (statistics, staged_after) = session_statistics_for e ev session st;
          args = no_observations\<lparr>arg_latest_tick := tick, arg_latest_quote := quote, arg_candle_sets := candle_sets,
            arg_session := session, arg_historical := is_historical st, arg_session_statistics := statistics\<rparr>;
          (context, message) =
            (case is_context st of
               None \<Rightarrow> (let c = initial_context i sequence (event_timestamp ev) observed_at args
                       in (c, MarketContextCreated c))
             | Some prior \<Rightarrow>
                 (let c = with_update prior sequence (event_timestamp ev) observed_at
                            (args\<lparr>arg_previous_close := carried_previous_close prior session\<rparr>)
                  in (c, MarketContextUpdated c (mc_version prior))));
          (e', failed) = publish_event raises (e\<lparr>te_registry := reg, te_sequence := sq, te_candles := candles\<rparr>) message
      in if failed then (e', Inl handler_error)
         else (e'\<lparr>te_registry := put_state reg i
                  (st\<lparr>is_latest_tick := tick, is_latest_quote := quote,
                      is_last_event_timestamp := Some (event_timestamp ev), is_last_sequence := Some sequence,
                      is_context := Some context, is_session_statistics := statistics, is_staged := staged_after\<rparr>)\<rparr>,
               Inr \<lparr>pr_outcome = ACCEPT, pr_context = Some context\<rparr>))"

definition accept_reference ::
  "(handler \<Rightarrow> context_event \<Rightarrow> bool) \<Rightarrow> tick_engine \<Rightarrow> instant \<Rightarrow> market_reference \<Rightarrow> tick_engine \<times> process_result res" where
  "accept_reference raises e now ref =
     (let i = ref_instrument ref
      in if \<not> is_known (te_registry e) i then (e, Inr \<lparr>pr_outcome = INVALID, pr_context = None\<rparr>)
         else let (st, reg) = ensure (te_registry e) i;
                  (sequence, sq) = next_value (te_sequence e);
                  session = map_option (\<lambda>cl. classify_session cl now (te_halt_active e)) (te_session e);
                  (context, message) =
                    (case is_context st of
                       None \<Rightarrow> (let c = initial_context i sequence now now
                                 (no_observations\<lparr>arg_session := session, arg_historical := is_historical st,
                                    arg_previous_close := Some (ref_previous_close ref)\<rparr>)
                               in (c, MarketContextCreated c))
                     | Some prior \<Rightarrow>
                         (let c = with_update prior sequence now now
                                (no_observations\<lparr>arg_latest_tick := is_latest_tick st, arg_latest_quote := is_latest_quote st,
                                   arg_candle_sets := mc_candle_sets prior,
                                   arg_session := (case session of Some s \<Rightarrow> Some s | None \<Rightarrow> mc_session prior),
                                   arg_historical := is_historical st,
                                   arg_session_statistics := is_session_statistics st,
                                   arg_previous_close := Some (ref_previous_close ref)\<rparr>)
                          in (c, MarketContextUpdated c (mc_version prior))));
                  (e', failed) = publish_event raises (e\<lparr>te_registry := reg, te_sequence := sq\<rparr>) message
              in if failed then (e', Inl handler_error)
                 else (e'\<lparr>te_registry := put_state reg i (st\<lparr>is_last_sequence := Some sequence, is_context := Some context\<rparr>)\<rparr>,
                       Inr \<lparr>pr_outcome = ACCEPT, pr_context = Some context\<rparr>))"

definition process_datum ::
  "(handler \<Rightarrow> context_event \<Rightarrow> bool) \<Rightarrow> tick_engine \<Rightarrow> instant \<Rightarrow> instant \<Rightarrow> datum_event \<Rightarrow> tick_engine \<times> process_result res" where
  "process_datum raises e now observed_at ev =
     (let i = event_instrument ev;
          outcome = classify ev (is_known (te_registry e) i) (reg_states (te_registry e) i) now;
          e' = e\<lparr>te_counters := record_tick (te_counters e) outcome (event_timestamp ev) now\<rparr>
      in if outcome \<noteq> ACCEPT then (e', Inr \<lparr>pr_outcome = outcome, pr_context = None\<rparr>)
         else accept raises e' observed_at ev)"

definition process_reference ::
  "(handler \<Rightarrow> context_event \<Rightarrow> bool) \<Rightarrow> tick_engine \<Rightarrow> instant \<Rightarrow> market_reference \<Rightarrow> tick_engine \<times> process_result res" where
  "process_reference raises e now ref =
     (case accept_reference raises e now ref of
        (e', Inl err) \<Rightarrow> (e', Inl err)
      | (e', Inr result) \<Rightarrow> (e'\<lparr>te_counters := record_reference (te_counters e') (pr_outcome result)\<rparr>, Inr result))"

end
