(* ===== verification/Candle_Properties.thy ===== *)
theory Candle_Properties
  imports Candle_Engine
begin

text \<open>
  What the live candle engine guarantees: every state it can reach is well formed, a bucket is
  exactly the open/high/low/close of its ticks, flushing and reconciliation do what they
  promise, and how the feed-continuity taint behaves.
\<close>

section \<open>Reachable engines\<close>

inductive engine_step :: "candle_engine \<Rightarrow> candle_engine \<Rightarrow> bool" where
  step_tick: "wf_tick t \<Longrightarrow> engine_step e (update e t s)"
| step_continuity: "engine_step e (record_continuity e ev)"
| step_flush: "engine_step e (flush e at_time)"
| step_reconcile: "wf_candle c \<Longrightarrow> engine_step e (snd (reconcile e c tf))"
| step_timeframes: "set_required_timeframes e tfs = Inr e' \<Longrightarrow> engine_step e e'"

inductive engine_reachable :: "candle_engine \<Rightarrow> bool" where
  start: "mk_candle_engine s z tfs w = Inr e \<Longrightarrow> engine_reachable e"
| step: "engine_reachable e \<Longrightarrow> engine_step e e' \<Longrightarrow> engine_reachable e'"

inductive_cases engine_stepE: "engine_step e e'"

lemma engine_step_wf: "engine_step e e' \<Longrightarrow> wf_engine e \<Longrightarrow> wf_engine e'"
  by (auto elim!: engine_stepE
      intro: update_wf record_continuity_wf flush_wf reconcile_wf set_required_timeframes_wf)

lemma reachable_wf: "engine_reachable e \<Longrightarrow> wf_engine e"
  by (induction rule: engine_reachable.induct) (auto intro: mk_candle_engine_wf engine_step_wf)

section \<open>One bucket is the OHLC of its ticks\<close>

lemma apply_tick_fields [simp]:
  "b_index (apply_tick b t) = b_index b"
  "b_start_utc (apply_tick b t) = b_start_utc b"
  "b_end_utc (apply_tick b t) = b_end_utc b"
  "b_open (apply_tick b t) = b_open b"
  "b_high (apply_tick b t) = max (b_high b) (last_price t)"
  "b_low (apply_tick b t) = min (b_low b) (last_price t)"
  "b_close (apply_tick b t) = last_price t"
  "b_baseline (apply_tick b t) = b_baseline b"
  "b_feed_gap (apply_tick b t) = b_feed_gap b"
  "b_ohlc_broken (apply_tick b t) = b_ohlc_broken b"
  by (simp_all add: apply_tick_def Let_def split: option.splits)

lemma open_bucket_fields [simp]:
  "b_index (open_bucket br st k s e t) = k"
  "b_start_utc (open_bucket br st k s e t) = s"
  "b_end_utc (open_bucket br st k s e t) = e"
  "b_open (open_bucket br st k s e t) = last_price t"
  "b_high (open_bucket br st k s e t) = last_price t"
  "b_low (open_bucket br st k s e t) = last_price t"
  "b_close (open_bucket br st k s e t) = last_price t"
  by (simp_all add: open_bucket_def Let_def)

lemma foldl_apply_tick:
  "b_index (foldl apply_tick b ts) = b_index b"
  "b_open (foldl apply_tick b ts) = b_open b"
  "b_high (foldl apply_tick b ts) = max_of (b_high b) (map last_price ts)"
  "b_low (foldl apply_tick b ts) = min_of (b_low b) (map last_price ts)"
  "b_close (foldl apply_tick b ts) = (if ts = [] then b_close b else last_price (last ts))"
  by (induction ts arbitrary: b) simp_all

text \<open>The effect of a live tick on one stream of its instrument.\<close>

definition stream_bucket :: "candle_engine \<Rightarrow> timeframe \<Rightarrow> session_context \<Rightarrow> tick \<Rightarrow> bucket_span" where
  "stream_bucket e tf s t =
     bucket_bounds (tick_event_timestamp t) (sc_trading_date s) tf (bounds (ce_schedule e)) (ce_timezone e)"

definition rolled_state :: "nat \<Rightarrow> timeframe_state \<Rightarrow> date \<Rightarrow> timeframe_state" where
  "rolled_state w st d = (if ts_trading_date st \<noteq> Some d then reset_session w st d else st)"

lemma update_timeframe_here:
  "\<exists>br. ce_states (update_timeframe t s e tf) (tick_instrument t, tf) =
     Some (place_tick (ce_window e) br
       (rolled_state (ce_window e) (state_for_stream e (tick_instrument t) tf) (sc_trading_date s))
       (stream_bucket e tf s t) t)"
  by (simp add: update_timeframe_def Let_def stream_bucket_def rolled_state_def) blast

lemma foldl_update_frame [simp]:
  "ce_window (foldl (update_timeframe t s) e tfs) = ce_window e"
  "ce_timeframes (foldl (update_timeframe t s) e tfs) = ce_timeframes e"
  "ce_schedule (foldl (update_timeframe t s) e tfs) = ce_schedule e"
  "ce_timezone (foldl (update_timeframe t s) e tfs) = ce_timezone e"
  by (induction tfs arbitrary: e) simp_all

lemma foldl_update_other:
  "(fst key = tick_instrument t \<Longrightarrow> snd key \<notin> set tfs) \<Longrightarrow>
     ce_states (foldl (update_timeframe t s) e tfs) key = ce_states e key"
proof (induction tfs arbitrary: e)
  case (Cons tf tfs)
  then have "key \<noteq> (tick_instrument t, tf)" by auto
  with Cons show ?case by simp
qed simp

lemma foldl_update_here:
  assumes "distinct tfs" "tf \<in> set tfs"
  shows "\<exists>br. ce_states (foldl (update_timeframe t s) e tfs) (tick_instrument t, tf) =
     Some (place_tick (ce_window e) br
       (rolled_state (ce_window e) (state_for_stream e (tick_instrument t) tf) (sc_trading_date s))
       (stream_bucket e tf s t) t)"
  using assms
proof (induction tfs arbitrary: e)
  case (Cons x tfs)
  show ?case
  proof (cases "x = tf")
    case True
    then have "tf \<notin> set tfs" using Cons.prems by simp
    then show ?thesis
      using True update_timeframe_here [of t s e tf]
        foldl_update_other [of "(tick_instrument t, tf)" t tfs s "update_timeframe t s e x"] by simp
  next
    case False
    then have "state_for_stream (update_timeframe t s e x) (tick_instrument t) tf = state_for_stream e (tick_instrument t) tf"
      by (simp add: state_for_stream_def)
    with False Cons show ?thesis
      using Cons.IH [of "update_timeframe t s e x"] by (simp add: stream_bucket_def)
  qed
qed simp

lemma update_frame [simp]:
  "ce_window (update e t s) = ce_window e"
  "ce_timeframes (update e t s) = ce_timeframes e"
  "ce_schedule (update e t s) = ce_schedule e"
  "ce_timezone (update e t s) = ce_timezone e"
  by (simp_all add: update_def)

lemma update_here:
  assumes "distinct (ce_timeframes e)" "tf \<in> set (ce_timeframes e)" "sc_market_state s = LIVE_SESSION"
  shows "\<exists>br. ce_states (update e t s) (tick_instrument t, tf) =
     Some (place_tick (ce_window e) br
       (rolled_state (ce_window e) (state_for_stream e (tick_instrument t) tf) (sc_trading_date s))
       (stream_bucket e tf s t) t)"
  using foldl_update_here [OF assms(1,2)] assms(3) by (simp add: update_def)

lemma update_other_instrument:
  "i \<noteq> tick_instrument t \<Longrightarrow> ce_states (update e t s) (i, tf) = ce_states e (i, tf)"
  using foldl_update_other [of "(i, tf)" t "ce_timeframes e" s e] by (simp add: update_def)

lemma stream_bucket_update [simp]: "stream_bucket (update e t' s') tf s t = stream_bucket e tf s t"
  by (simp add: stream_bucket_def)

lemma rolled_state_same [simp]: "ts_trading_date st = Some d \<Longrightarrow> rolled_state w st d = st"
  by (simp add: rolled_state_def)

lemma rolled_state_date [simp]: "ts_trading_date (rolled_state w st d) = Some d"
  by (simp add: rolled_state_def reset_session_def Let_def)

lemma place_tick_same:
  "ts_partial st = Some b \<Longrightarrow> b_index b = fst bspan \<Longrightarrow>
     place_tick w br st bspan t = st\<lparr>ts_partial := Some (apply_tick b t)\<rparr>"
  by (cases bspan) (simp add: place_tick_def)

lemma place_tick_new:
  assumes "\<And>b. ts_partial st = Some b \<Longrightarrow> b_index b \<noteq> fst bspan"
  shows "\<exists>st'. ts_partial (place_tick w br st bspan t) =
      Some (open_bucket br st' (fst bspan) (fst (snd bspan)) (snd (snd bspan)) t)
    \<and> ts_trading_date (place_tick w br st bspan t) = ts_trading_date st"
proof (cases bspan)
  case (fields k a e)
  show ?thesis
  proof (cases "ts_partial st")
    case None
    then show ?thesis using fields by (simp add: place_tick_def) blast
  next
    case (Some b)
    then show ?thesis using fields assms by (simp add: place_tick_def Let_def) blast
  qed
qed

text \<open>Whether a tick of the bucket \<open>k\<close> on date \<open>d\<close> opens a new bucket in a stream.\<close>

definition opens_bucket :: "timeframe_state option \<Rightarrow> date \<Rightarrow> int \<Rightarrow> bool" where
  "opens_bucket so d k =
     (case so of
        None \<Rightarrow> True
      | Some st \<Rightarrow> ts_trading_date st \<noteq> Some d
          \<or> (case ts_partial st of None \<Rightarrow> True | Some b \<Rightarrow> b_index b \<noteq> k))"

lemma first_tick:
  assumes "distinct (ce_timeframes e)" "tf \<in> set (ce_timeframes e)" "sc_market_state s = LIVE_SESSION"
    and "opens_bucket (ce_states e (tick_instrument t, tf)) (sc_trading_date s) (fst (stream_bucket e tf s t))"
  shows "\<exists>st b. ce_states (update e t s) (tick_instrument t, tf) = Some st \<and> ts_partial st = Some b
    \<and> ts_trading_date st = Some (sc_trading_date s) \<and> b_index b = fst (stream_bucket e tf s t)
    \<and> b_open b = last_price t \<and> b_high b = last_price t \<and> b_low b = last_price t \<and> b_close b = last_price t"
proof -
  let ?st = "rolled_state (ce_window e) (state_for_stream e (tick_instrument t) tf) (sc_trading_date s)"
  have "b_index b \<noteq> fst (stream_bucket e tf s t)" if "ts_partial ?st = Some b" for b
    using that assms(4)
    by (auto simp: rolled_state_def reset_session_def state_for_stream_def fresh_state_def opens_bucket_def Let_def
        split: option.splits if_splits)
  from place_tick_new [OF this] update_here [OF assms(1-3), of t] show ?thesis by force
qed

lemma next_ticks:
  assumes "distinct (ce_timeframes e)" "tf \<in> set (ce_timeframes e)" "sc_market_state s = LIVE_SESSION"
    and "ce_states e (i, tf) = Some st" "ts_partial st = Some b" "ts_trading_date st = Some (sc_trading_date s)"
    and "list_all (\<lambda>t. tick_instrument t = i \<and> fst (stream_bucket e tf s t) = b_index b) ts"
  shows "\<exists>st'. ce_states (foldl (\<lambda>e t. update e t s) e ts) (i, tf) = Some st'
    \<and> ts_partial st' = Some (foldl apply_tick b ts)"
  using assms
proof (induction ts arbitrary: e st b)
  case (Cons t ts)
  then have t: "tick_instrument t = i" "b_index b = fst (stream_bucket e tf s t)" by simp_all
  let ?st = "st\<lparr>ts_partial := Some (apply_tick b t)\<rparr>"
  have "ce_states (update e t s) (i, tf) = Some ?st"
    using update_here [OF Cons.prems(1-3), of t] Cons.prems(4-6) t
    by (auto simp: state_for_stream_def place_tick_same)
  then show ?case
    using Cons.IH [of "update e t s" ?st "apply_tick b t"] Cons.prems by simp
qed simp

section \<open>Properties\<close>

text \<open>
  C2. Aggregation is exact: when a run of live ticks of one instrument falls into one bucket of a
  registered timeframe, the bucket in progress afterwards has the first price as open, the
  largest as high, the smallest as low and the last as close, whatever the other registered
  timeframes do meanwhile.
\<close>

theorem bucket_is_ohlc_of_its_ticks:
  assumes "engine_reachable e" "tf \<in> set (ce_timeframes e)" "sc_market_state s = LIVE_SESSION"
    and "opens_bucket (ce_states e (i, tf)) (sc_trading_date s) k"
    and "list_all (\<lambda>t. tick_instrument t = i \<and> fst (stream_bucket e tf s t) = k) (t # ts)"
  shows "\<exists>st b. ce_states (foldl (\<lambda>e t. update e t s) e (t # ts)) (i, tf) = Some st \<and> ts_partial st = Some b
    \<and> b_index b = k \<and> b_open b = last_price t
    \<and> b_high b = Max (last_price ` set (t # ts)) \<and> b_low b = Min (last_price ` set (t # ts))
    \<and> b_close b = last_price (last (t # ts))"
proof -
  have dist: "distinct (ce_timeframes e)" using reachable_wf [OF assms(1)] wf_engine_window by blast
  from assms(5) have t: "tick_instrument t = i" "fst (stream_bucket e tf s t) = k"
    and ts: "list_all (\<lambda>t. tick_instrument t = i \<and> fst (stream_bucket e tf s t) = k) ts" by simp_all
  from first_tick [OF dist assms(2,3), of t] assms(4) t obtain st b where
    st: "ce_states (update e t s) (i, tf) = Some st" "ts_partial st = Some b"
      "ts_trading_date st = Some (sc_trading_date s)" "b_index b = k"
    and p: "b_open b = last_price t" "b_high b = last_price t" "b_low b = last_price t" "b_close b = last_price t"
    by auto
  obtain st' where st': "ce_states (foldl (\<lambda>e t. update e t s) (update e t s) ts) (i, tf) = Some st'"
    "ts_partial st' = Some (foldl apply_tick b ts)"
    using next_ticks [of "update e t s" tf s i st b ts] st ts dist assms(2,3) by auto
  then show ?thesis
    by (intro exI [of _ st'] exI [of _ "foldl apply_tick b ts"])
      (simp add: foldl_apply_tick st(4) p max_of_eq min_of_eq)
qed

text \<open>A small engine used by the witnesses: the default exchange hours, one-minute candles.\<close>

definition demo_engine :: candle_engine where
  "demo_engine = \<lparr>ce_schedule = nse_schedule, ce_timezone = kolkata, ce_window = 20,
     ce_timeframes = [one_minute], ce_states = Map.empty, ce_continuity_broken = {}\<rparr>"

definition demo_session :: session_context where
  "demo_session = \<lparr>sc_trading_date = 20000, sc_market_state = LIVE_SESSION, sc_exchange_timezone = ''Asia/Kolkata''\<rparr>"

text \<open>A trade of TCS \<open>n\<close> seconds after the opening bell.\<close>

definition demo_tick :: "int \<Rightarrow> decimal \<Rightarrow> int \<Rightarrow> tick" where
  "demo_tick n price cumulative =
     \<lparr>tick_instrument = cash_equity ''NSE'' ''TCS'', tick_event_timestamp = 1728013500000000 + n * 1000000,
      last_price = price, tick_traded_quantity = None, session_cumulative_volume = Some cumulative,
      tick_session_ohlc = None\<rparr>"

lemma demo_engine_constructed: "mk_candle_engine nse_schedule kolkata [one_minute] 20 = Inr demo_engine"
  by (simp add: mk_candle_engine_def validated_def session_length_def combine_def nse_schedule_def
      demo_engine_def one_minute_def ordered_def)

lemma demo_engine_reachable: "engine_reachable demo_engine"
  using demo_engine_constructed by (rule engine_reachable.start)

theorem bucket_is_ohlc_of_its_ticks_witness:
  "\<exists>st b. ce_states (foldl (\<lambda>e t. update e t demo_session) demo_engine
       [demo_tick 10 100 5, demo_tick 30 103 9, demo_tick 50 99 12]) (cash_equity ''NSE'' ''TCS'', one_minute) = Some st
    \<and> ts_partial st = Some b \<and> b_open b = 100 \<and> b_high b = 103 \<and> b_low b = 99 \<and> b_close b = 99"
proof -
  have live: "sc_market_state demo_session = LIVE_SESSION" by (simp add: demo_session_def)
  have opens: "opens_bucket (ce_states demo_engine (cash_equity ''NSE'' ''TCS'', one_minute)) (sc_trading_date demo_session) 0"
    by (simp add: opens_bucket_def demo_engine_def)
  have reg: "one_minute \<in> set (ce_timeframes demo_engine)" by (simp add: demo_engine_def)
  have same: "list_all (\<lambda>t. tick_instrument t = cash_equity ''NSE'' ''TCS''
      \<and> fst (stream_bucket demo_engine one_minute demo_session t) = 0)
      [demo_tick 10 100 5, demo_tick 30 103 9, demo_tick 50 99 12]"
    by (simp add: demo_tick_def stream_bucket_def demo_engine_def demo_session_def one_minute_def nse_schedule_def
        bucket_bounds_def bounds_def combine_def kolkata_def fixed_zone_def Let_def)
  show ?thesis
    using bucket_is_ohlc_of_its_ticks [OF demo_engine_reachable reg live opens same]
    by (auto simp: demo_tick_def)
qed



section \<open>Flush\<close>

lemma flush_states: "ce_states (flush e t) key = map_option (flush_state (ce_window e) t) (ce_states e key)"
  by (simp add: flush_def)

text \<open>
  Flushing at an instant closes exactly the partial candles whose bucket has ended by then:
  each becomes the newest incomplete candle of its stream, all others stay untouched, no stream
  appears or disappears, and flushing again at the same instant changes nothing.
\<close>

lemma flush_closes_exactly_ended_buckets:
  assumes "wf_engine e" "ce_states e key = Some st"
  shows "\<exists>st'. ce_states (flush e t) key = Some st'
    \<and> (\<forall>b. ts_partial st = Some b \<and> b_end_utc b \<le> t \<longrightarrow>
          ts_partial st' = None \<and> ts_incomplete st' \<noteq> []
          \<and> last (ts_incomplete st') = to_incomplete (ts_instrument st) (ts_timeframe st) b)
    \<and> ((\<forall>b. ts_partial st = Some b \<longrightarrow> t < b_end_utc b) \<longrightarrow> st' = st)
    \<and> dom (ce_states (flush e t)) = dom (ce_states e)
    \<and> flush (flush e t) t = flush e t"
proof -
  have w: "0 < ce_window e" using assms(1) by (rule wf_engine_window)
  have idem: "flush_state w t (flush_state w t st) = flush_state w t st" for w st
    by (simp add: flush_state_def split: option.splits)
  have "flush (flush e t) t = flush e t"
    by (simp add: flush_def comp_assoc [symmetric] option.map_comp comp_def idem)
  moreover have "dom (ce_states (flush e t)) = dom (ce_states e)"
    by (auto simp: flush_states dom_def)
  moreover have "\<forall>b. ts_partial st = Some b \<and> b_end_utc b \<le> t \<longrightarrow>
      ts_partial (flush_state (ce_window e) t st) = None \<and> ts_incomplete (flush_state (ce_window e) t st) \<noteq> []
      \<and> last (ts_incomplete (flush_state (ce_window e) t st)) = to_incomplete (ts_instrument st) (ts_timeframe st) b"
    using w by (auto simp: flush_state_def finalize_partial_def last_push_bounded push_bounded_def last_n_append_one)
  moreover have "(\<forall>b. ts_partial st = Some b \<longrightarrow> t < b_end_utc b) \<longrightarrow> flush_state (ce_window e) t st = st"
    by (auto simp: flush_state_def split: option.splits)
  moreover have "ce_states (flush e t) key = Some (flush_state (ce_window e) t st)"
    using assms(2) by (simp add: flush_states)
  ultimately show ?thesis by blast
qed

definition demo_bucket :: bucket where
  "demo_bucket = \<lparr>b_index = 0, b_start_utc = 1728013500000000, b_end_utc = 1728013560000000,
     b_open = 100, b_high = 103, b_low = 99, b_close = 101, b_baseline = None, b_last_cumulative = Some 12,
     b_feed_gap = False, b_ohlc_broken = False, b_volume_invalid = False\<rparr>"

definition demo_key :: "instrument \<times> timeframe" where
  "demo_key = (cash_equity ''NSE'' ''TCS'', one_minute)"

definition demo_stream :: timeframe_state where
  "demo_stream = (fresh_state (cash_equity ''NSE'' ''TCS'') one_minute)\<lparr>ts_trading_date := Some 20000, ts_partial := Some demo_bucket\<rparr>"

definition demo_open_engine :: candle_engine where
  "demo_open_engine = demo_engine\<lparr>ce_states := [demo_key \<mapsto> demo_stream]\<rparr>"

lemma demo_open_engine_wf: "wf_engine demo_open_engine" "ce_states demo_open_engine demo_key = Some demo_stream"
proof -
  have "wf_state 20 demo_key demo_stream"
    by (simp add: wf_state_def demo_stream_def demo_key_def fresh_state_def demo_bucket_def wf_bucket_def)
  then show "wf_engine demo_open_engine"
    by (intro wf_engineI) (auto simp: demo_open_engine_def demo_engine_def split: if_splits)
  show "ce_states demo_open_engine demo_key = Some demo_stream" by (simp add: demo_open_engine_def)
qed

lemma flush_closes_exactly_ended_buckets_example:
  "\<exists>st'. ce_states (flush demo_open_engine 1728013560000000) demo_key = Some st'
    \<and> ts_partial st' = None
    \<and> last (ts_incomplete st') = to_incomplete (cash_equity ''NSE'' ''TCS'') one_minute demo_bucket"
  using flush_closes_exactly_ended_buckets [OF demo_open_engine_wf, of 1728013560000000]
  by (auto simp: demo_stream_def demo_bucket_def fresh_state_def)

section \<open>Reconciliation\<close>

lemma match_incomplete_iff: "match_incomplete ident cs = RECONCILED \<longleftrightarrow> (\<exists>c \<in> set cs. identity_of_incomplete c = ident)"
  by (induction cs) auto

lemma match_outcome_finalized:
  "(\<exists>c \<in> set fs. identity_of c tf = identity_of a tf) \<Longrightarrow> match_outcome a tf ics fs \<in> {ALREADY_RECONCILED, CONFLICT}"
  by (induction fs) auto

lemma match_outcome_incomplete:
  "\<not> (\<exists>c \<in> set fs. identity_of c tf = identity_of a tf) \<Longrightarrow>
     match_outcome a tf ics fs = match_incomplete (identity_of a tf) ics"
  by (induction fs) auto

lemma match_outcome_RECONCILED_iff:
  "match_outcome a tf ics fs = RECONCILED \<longleftrightarrow>
     (\<exists>c \<in> set ics. identity_of_incomplete c = identity_of a tf)
     \<and> \<not> (\<exists>c \<in> set fs. identity_of c tf = identity_of a tf)"
proof (cases "\<exists>c \<in> set fs. identity_of c tf = identity_of a tf")
  case True
  from match_outcome_finalized [OF True, of ics] True show ?thesis by auto
next
  case False
  then show ?thesis by (simp add: match_outcome_incomplete match_incomplete_iff)
qed

lemma reconcile_changes_only_reconciled:
  "rr_outcome (fst (reconcile e a tf)) \<noteq> RECONCILED \<Longrightarrow> snd (reconcile e a tf) = e"
  by (auto simp: reconcile_def Let_def split: option.splits if_splits)

lemma reconcile_RECONCILED:
  assumes "rr_outcome (fst (reconcile e a tf)) = RECONCILED"
  obtains st where "ce_states e (candle_instrument a, tf) = Some st"
    and "\<exists>c \<in> set (ts_incomplete st). identity_of_incomplete c = identity_of a tf"
    and "\<not> (\<exists>c \<in> set (ts_finalized st). identity_of c tf = identity_of a tf)"
    and "snd (reconcile e a tf) = e\<lparr>ce_states := (ce_states e)((candle_instrument a, tf) \<mapsto>
           apply_reconciliation (ce_window e) st a tf (identity_of a tf))\<rparr>"
    and "rr_candle (fst (reconcile e a tf)) = Some a"
proof (cases "ce_states e (candle_instrument a, tf)")
  case None
  with assms show ?thesis by (simp add: reconcile_def Let_def)
next
  case (Some st)
  with assms have m: "match_outcome a tf (ts_incomplete st) (ts_finalized st) = RECONCILED"
    by (auto simp: reconcile_def Let_def split: if_splits)
  show ?thesis
    by (rule that [OF Some]) (use m Some in \<open>simp_all add: match_outcome_RECONCILED_iff reconcile_def Let_def\<close>)
qed

text \<open>
  Reconciliation replaces by exact identity only and is idempotent on the engine. When it
  reports RECONCILED, some incomplete candle had exactly that identity and no finalized one had;
  afterwards no incomplete candle of the stream has it, every incomplete candle with another
  identity and the partial candle are as before, and the authoritative candle is the newest-window
  member of the chronological finalized list. Any other outcome leaves the engine unchanged, and a
  second call never changes the engine again.
\<close>

lemma reconcile_replaces_exact_identity:
  assumes "wf_engine e"
  shows "(rr_outcome (fst (reconcile e a tf)) \<noteq> RECONCILED \<longrightarrow> snd (reconcile e a tf) = e)
    \<and> (rr_outcome (fst (reconcile e a tf)) = RECONCILED \<longrightarrow>
         (\<exists>st st'. ce_states e (candle_instrument a, tf) = Some st
            \<and> ce_states (snd (reconcile e a tf)) (candle_instrument a, tf) = Some st'
            \<and> ts_incomplete st' = filter (\<lambda>c. identity_of_incomplete c \<noteq> identity_of a tf) (ts_incomplete st)
            \<and> ts_incomplete st' \<noteq> ts_incomplete st
            \<and> ts_finalized st' = last_n (ce_window e) (sort_key candle_start (ts_finalized st @ [a]))
            \<and> ts_partial st' = ts_partial st))
    \<and> snd (reconcile (snd (reconcile e a tf)) a tf) = snd (reconcile e a tf)"
proof (cases "rr_outcome (fst (reconcile e a tf)) = RECONCILED")
  case False
  then show ?thesis using reconcile_changes_only_reconciled [OF False] by simp
next
  case True
  obtain st where st: "ce_states e (candle_instrument a, tf) = Some st"
    and inc: "\<exists>c \<in> set (ts_incomplete st). identity_of_incomplete c = identity_of a tf"
    and fin: "\<not> (\<exists>c \<in> set (ts_finalized st). identity_of c tf = identity_of a tf)"
    and eq: "snd (reconcile e a tf) = e\<lparr>ce_states := (ce_states e)((candle_instrument a, tf) \<mapsto>
           apply_reconciliation (ce_window e) st a tf (identity_of a tf))\<rparr>"
    using reconcile_RECONCILED [OF True] by metis
  define st' where "st' = apply_reconciliation (ce_window e) st a tf (identity_of a tf)"
  have len: "length (ts_incomplete st) \<le> ce_window e" using wf_engineD [OF assms st] by (simp add: wf_state_def)
  then have inc': "ts_incomplete st' = filter (\<lambda>c. identity_of_incomplete c \<noteq> identity_of a tf) (ts_incomplete st)"
    using le_trans [OF length_filter_le len] by (simp add: st'_def apply_reconciliation_def Let_def)
  have "filter (\<lambda>c. identity_of c tf \<noteq> identity_of a tf) (ts_finalized st) = ts_finalized st"
    using fin by (auto simp: filter_id_conv)
  then have fin': "ts_finalized st' = last_n (ce_window e) (sort_key candle_start (ts_finalized st @ [a]))"
    by (simp add: st'_def apply_reconciliation_def Let_def)
  have part: "ts_partial st' = ts_partial st" by (simp add: st'_def apply_reconciliation_def Let_def)
  have changed: "ts_incomplete st' \<noteq> ts_incomplete st" unfolding inc' using inc by (auto simp: filter_id_conv)
  have at: "ce_states (snd (reconcile e a tf)) (candle_instrument a, tf) = Some st'"
    by (simp add: eq st'_def)
  have "rr_outcome (fst (reconcile (snd (reconcile e a tf)) a tf)) \<noteq> RECONCILED"
  proof
    assume "rr_outcome (fst (reconcile (snd (reconcile e a tf)) a tf)) = RECONCILED"
    then obtain st2 where "ce_states (snd (reconcile e a tf)) (candle_instrument a, tf) = Some st2"
      "\<exists>c \<in> set (ts_incomplete st2). identity_of_incomplete c = identity_of a tf"
      using reconcile_RECONCILED by metis
    with at inc' show False by auto
  qed
  from reconcile_changes_only_reconciled [OF this] True st at inc' changed fin' part show ?thesis by blast
qed

text \<open>An official one-minute candle for the bucket of the open demo engine.\<close>

definition demo_candle :: candle where
  "demo_candle = \<lparr>candle_instrument = cash_equity ''NSE'' ''TCS'',
     candle_start = 1728013500000000, candle_end = 1728013560000000, candle_open = 100, candle_high = 103,
     candle_low = 99, candle_close = 101, candle_quantity = 12\<rparr>"

lemma demo_flush_reconciles:
  "rr_outcome (fst (reconcile (flush demo_open_engine 1728013560000000) demo_candle one_minute)) = RECONCILED"
  by (simp add: reconcile_def flush_def flush_state_def finalize_partial_def demo_open_engine_def demo_engine_def demo_key_def
      demo_stream_def demo_bucket_def demo_candle_def fresh_state_def push_bounded_def last_n_def to_incomplete_def
      identity_of_def identity_of_incomplete_def Let_def)

lemma reconcile_replaces_exact_identity_example:
  "rr_outcome (fst (reconcile (flush demo_open_engine 1728013560000000) demo_candle one_minute)) = RECONCILED
    \<and> snd (reconcile (snd (reconcile (flush demo_open_engine 1728013560000000) demo_candle one_minute)) demo_candle one_minute)
        = snd (reconcile (flush demo_open_engine 1728013560000000) demo_candle one_minute)"
  using reconcile_replaces_exact_identity [OF flush_wf [OF demo_open_engine_wf(1)],
      of 1728013560000000 demo_candle one_minute] demo_flush_reconciles by blast

section \<open>Feed continuity\<close>

text \<open>
  Every registered stream of the instrument has traded today, the instrument carries the
  continuity taint, and no bucket in progress is offered as better than a gap.
\<close>

definition tainted_on :: "instrument \<Rightarrow> date \<Rightarrow> candle_engine \<Rightarrow> bool" where
  "tainted_on i d e \<longleftrightarrow> i \<in> ce_continuity_broken e
     \<and> (\<forall>tf \<in> set (ce_timeframes e). \<exists>st. ce_states e (i, tf) = Some st \<and> ts_instrument st = i
          \<and> ts_trading_date st = Some d
          \<and> (\<forall>b. ts_partial st = Some b \<longrightarrow> quality_for b \<in> {FEED_GAP, INCOMPLETE_OHLC}))"

lemma open_bucket_broken: "ts_instrument st \<in> br \<Longrightarrow> quality_for (open_bucket br st k a z t) = FEED_GAP"
  by (simp add: quality_for_def open_bucket_def Let_def)

lemma quality_apply_tick [simp]: "quality_for (apply_tick b t) = quality_for b"
  by (simp add: quality_for_def)

lemma place_tick_partial: "\<exists>b. ts_partial (place_tick w br st bspan t) = Some b"
  by (cases bspan) (simp add: place_tick_def Let_def split: option.splits)

lemma place_tick_broken:
  assumes "ts_instrument st \<in> br" "\<forall>b. ts_partial st = Some b \<longrightarrow> quality_for b \<in> {FEED_GAP, INCOMPLETE_OHLC}"
  shows "ts_instrument (place_tick w br st bspan t) = ts_instrument st
    \<and> ts_trading_date (place_tick w br st bspan t) = ts_trading_date st
    \<and> (\<forall>b. ts_partial (place_tick w br st bspan t) = Some b \<longrightarrow> quality_for b \<in> {FEED_GAP, INCOMPLETE_OHLC})"
  using assms by (cases bspan) (auto simp: place_tick_def Let_def open_bucket_broken split: option.splits)

lemma state_for_stream_instrument: "wf_engine e \<Longrightarrow> ts_instrument (state_for_stream e i tf) = i"
  using wf_engineD [of e "(i, tf)"] by (auto simp: state_for_stream_def wf_state_def fresh_state_def split: option.splits)

lemma update_timeframe_tainted:
  assumes "tainted_on i d e" "wf_engine e" "sc_trading_date s = d" "tf \<in> set (ce_timeframes e)"
  shows "tainted_on i d (update_timeframe t s e tf)"
proof (cases "tick_instrument t = i")
  case False
  then have "i \<in> ce_continuity_broken (update_timeframe t s e tf)"
    using assms(1) state_for_stream_instrument [OF assms(2)] by (simp add: tainted_on_def update_timeframe_def Let_def)
  then show ?thesis using assms(1) False by (simp add: tainted_on_def)
next
  case True
  from assms obtain st where st: "ce_states e (i, tf) = Some st" "ts_instrument st = i" "ts_trading_date st = Some d"
    "\<forall>b. ts_partial st = Some b \<longrightarrow> quality_for b \<in> {FEED_GAP, INCOMPLETE_OHLC}" and br: "i \<in> ce_continuity_broken e"
    unfolding tainted_on_def by blast
  have "ts_instrument st \<in> ce_continuity_broken e" using st(2) br by simp
  from place_tick_broken [OF this st(4)] st True assms show ?thesis
    by (auto simp: tainted_on_def update_timeframe_def Let_def state_for_stream_def)
qed

lemma update_tainted:
  assumes "tainted_on i d e" "wf_engine e" "wf_tick t" "sc_trading_date s = d"
  shows "tainted_on i d (update e t s)"
proof -
  have "tainted_on i d (foldl (update_timeframe t s) e tfs)" if "set tfs \<subseteq> set (ce_timeframes e)" for tfs
    using that assms(1,2)
  proof (induction tfs arbitrary: e)
    case (Cons tf tfs)
    then show ?case
      using update_timeframe_tainted [OF _ _ assms(4)] update_timeframe_wf [OF _ assms(3)] by simp
  qed simp
  then show ?thesis using assms(1) by (simp add: update_def)
qed

lemma ticks_tainted:
  assumes "tainted_on i d e" "wf_engine e" "list_all wf_tick ts" "sc_trading_date s = d"
  shows "tainted_on i d (foldl (\<lambda>e t. update e t s) e ts)"
  using assms
proof (induction ts arbitrary: e)
  case (Cons t ts)
  then show ?case using update_tainted update_wf by simp
qed simp

lemma continuity_loss_taints:
  assumes "wf_engine e" "continuity_status ev \<in> continuity_loss" "ce_timeframes e \<noteq> []"
    and "\<forall>tf \<in> set (ce_timeframes e). \<exists>st. ce_states e (i, tf) = Some st \<and> ts_trading_date st = Some d"
  shows "tainted_on i d (record_continuity e ev)"
proof -
  have "i \<in> ce_continuity_broken (record_continuity e ev)"
    using assms(2-4) by (cases "ce_timeframes e") (force simp: record_continuity_def dom_def)+
  moreover have "ts_instrument st = i" if "ce_states e (i, tf) = Some st" for tf st
    using wf_engineD [OF assms(1) that] by (simp add: wf_state_def)
  ultimately show ?thesis
    using assms(2,4) by (fastforce simp: tainted_on_def record_continuity_def taint_def quality_for_def)
qed

text \<open>
  After a loss of feed continuity no candle of an instrument is offered as continuous for the
  rest of its trading date: for an instrument whose registered timeframes have all traded
  today, whatever valid ticks of whatever instruments follow in today's session, every bucket in
  progress is marked FEED\_GAP or INCOMPLETE\_OHLC.
\<close>

lemma continuity_loss_lasts_for_the_session:
  assumes "wf_engine e" "continuity_status ev \<in> continuity_loss" "tf \<in> set (ce_timeframes e)"
    and "\<forall>tf \<in> set (ce_timeframes e). \<exists>st. ce_states e (i, tf) = Some st \<and> ts_trading_date st = Some (sc_trading_date s)"
    and "list_all wf_tick ts"
    and "ce_states (foldl (\<lambda>e t. update e t s) (record_continuity e ev) ts) (i, tf) = Some st" "ts_partial st = Some b"
  shows "pc_quality (partial_view b) \<in> {FEED_GAP, INCOMPLETE_OHLC}"
proof -
  have "ce_timeframes e \<noteq> []" using assms(3) by auto
  from ticks_tainted [OF continuity_loss_taints [OF assms(1,2) this assms(4)] record_continuity_wf [OF assms(1)] assms(5)]
  have "tainted_on i (sc_trading_date s) (foldl (\<lambda>e t. update e t s) (record_continuity e ev) ts)" by simp
  moreover have "tf \<in> set (ce_timeframes (foldl (\<lambda>e t. update e t s) (record_continuity e ev) ts))"
  proof -
    have "ce_timeframes (foldl (\<lambda>e t. update e t s) e' ts) = ce_timeframes e'" for e'
      by (induction ts arbitrary: e') simp_all
    then show ?thesis using assms(3) by (simp add: record_continuity_def)
  qed
  ultimately show ?thesis using assms(6,7) by (fastforce simp: tainted_on_def partial_view_def)
qed

definition demo_loss :: feed_continuity_event where
  "demo_loss = \<lparr>continuity_status = DISCONNECTED, continuity_observed_at = 1728013530000000\<rparr>"

lemma continuity_loss_lasts_for_the_session_example:
  "\<exists>st b. ce_states (foldl (\<lambda>e t. update e t demo_session) (record_continuity demo_open_engine demo_loss) [demo_tick 70 102 15])
       demo_key = Some st \<and> ts_partial st = Some b \<and> pc_quality (partial_view b) \<in> {FEED_GAP, INCOMPLETE_OHLC}"
proof -
  let ?e = "record_continuity demo_open_engine demo_loss"
  have loss: "continuity_status demo_loss \<in> continuity_loss" by (simp add: demo_loss_def continuity_loss_def)
  have reg: "one_minute \<in> set (ce_timeframes demo_open_engine)" by (simp add: demo_open_engine_def demo_engine_def)
  have traded: "\<forall>tf \<in> set (ce_timeframes demo_open_engine). \<exists>st. ce_states demo_open_engine (cash_equity ''NSE'' ''TCS'', tf) = Some st
      \<and> ts_trading_date st = Some (sc_trading_date demo_session)"
    by (simp add: demo_open_engine_def demo_engine_def demo_key_def demo_stream_def demo_session_def)
  have ticks: "list_all wf_tick [demo_tick 70 102 15]" by (simp add: demo_tick_def wf_tick_def)
  obtain st b where st: "ce_states (update ?e (demo_tick 70 102 15) demo_session) (cash_equity ''NSE'' ''TCS'', one_minute) = Some st"
    "ts_partial st = Some b"
  proof -
    have "distinct (ce_timeframes ?e)" "one_minute \<in> set (ce_timeframes ?e)"
      by (simp_all add: record_continuity_def demo_open_engine_def demo_engine_def)
    from update_here [OF this, of demo_session "demo_tick 70 102 15"] obtain br where
      "ce_states (update ?e (demo_tick 70 102 15) demo_session) (cash_equity ''NSE'' ''TCS'', one_minute) =
         Some (place_tick (ce_window ?e) br (rolled_state (ce_window ?e)
           (state_for_stream ?e (cash_equity ''NSE'' ''TCS'') one_minute) (sc_trading_date demo_session))
           (stream_bucket ?e one_minute demo_session (demo_tick 70 102 15)) (demo_tick 70 102 15))"
      by (auto simp: demo_session_def demo_tick_def)
    with place_tick_partial that show ?thesis by metis
  qed
  then show ?thesis
    using continuity_loss_lasts_for_the_session [OF demo_open_engine_wf(1) loss reg traded ticks, of st b]
    by (auto simp: demo_key_def)
qed

text \<open>
  The taint does not always last: when a live tick reaches a registered timeframe that has no
  state for the instrument yet, such as one added by \<^verbatim>\<open>set_required_timeframes\<close> during the session,
  the reset of that fresh state discards the taint of the instrument for all its timeframes.
\<close>

lemma new_timeframe_clears_taint:
  assumes "sc_market_state s = LIVE_SESSION" "tf \<in> set (ce_timeframes e)"
    and "ce_states e (tick_instrument t, tf) = None"
  shows "tick_instrument t \<notin> ce_continuity_broken (update e t s)"
proof -
  have gone: "tick_instrument t \<notin> ce_continuity_broken (foldl (update_timeframe t s) e' tfs)"
    if "tick_instrument t \<notin> ce_continuity_broken e'" for e' tfs
    using that by (induction tfs arbitrary: e') (simp_all add: update_timeframe_def Let_def)
  have "tick_instrument t \<notin> ce_continuity_broken (foldl (update_timeframe t s) e tfs)" if "tf \<in> set tfs" for tfs
    using that assms(3)
  proof (induction tfs arbitrary: e)
    case (Cons x tfs)
    show ?case
    proof (cases "x = tf")
      case True
      then have "tick_instrument t \<notin> ce_continuity_broken (update_timeframe t s e x)"
        using Cons.prems by (simp add: update_timeframe_def Let_def state_for_stream_def fresh_state_def)
      then show ?thesis using gone by simp
    next
      case False
      then show ?thesis using Cons by simp
    qed
  qed simp
  then show ?thesis using assms(1,2) by (simp add: update_def)
qed

text \<open>The tainted demo engine after the five-minute timeframe has been added.\<close>

definition demo_extended_engine :: candle_engine where
  "demo_extended_engine = (record_continuity demo_open_engine demo_loss)\<lparr>ce_timeframes := [one_minute, five_minutes]\<rparr>"

lemma new_timeframe_clears_taint_example:
  "cash_equity ''NSE'' ''TCS'' \<in> ce_continuity_broken demo_extended_engine
    \<and> cash_equity ''NSE'' ''TCS'' \<notin> ce_continuity_broken (update demo_extended_engine (demo_tick 40 102 12) demo_session)"
proof -
  have "cash_equity ''NSE'' ''TCS'' \<in> ce_continuity_broken demo_extended_engine"
    by (simp add: demo_extended_engine_def record_continuity_def demo_loss_def continuity_loss_def demo_open_engine_def demo_key_def)
  moreover have "five_minutes \<noteq> one_minute" by (simp add: five_minutes_def one_minute_def)
  then have "ce_states demo_extended_engine (tick_instrument (demo_tick 40 102 12), five_minutes) = None"
    by (simp add: demo_extended_engine_def record_continuity_def demo_loss_def continuity_loss_def demo_open_engine_def demo_key_def
        demo_tick_def demo_engine_def)
  ultimately show ?thesis
    using new_timeframe_clears_taint [of demo_session five_minutes demo_extended_engine "demo_tick 40 102 12"]
    by (simp add: demo_session_def demo_extended_engine_def demo_tick_def)
qed

end
