(* ===== verification/Tick_Properties.thy ===== *)
theory Tick_Properties
  imports Tick_Engine Candle_Properties
begin

text \<open>
  What the tick engine guarantees: rejected events change nothing but the counters, accepted
  events advance exactly one instrument by one version, versions and sequence numbers of the
  published contexts are gapless over any run, the decision counters add up, and what happens
  when a subscriber raises.
\<close>

section \<open>One accepted event\<close>

lemma ensure_fields:
  "reg_known (snd (ensure r i)) = reg_known r"
  "reg_states (snd (ensure r i)) = (reg_states r)(i \<mapsto> fst (ensure r i))"
  "fst (ensure r i) = (case reg_states r i of None \<Rightarrow> empty_state i | Some st \<Rightarrow> st)"
  by (auto simp: ensure_def put_state_def fun_eq_iff split: option.splits)

definition prior_context :: "tick_engine \<Rightarrow> instrument \<Rightarrow> market_context option" where
  "prior_context e i = Option.bind (reg_states (te_registry e) i) is_context"

definition following_version :: "market_context option \<Rightarrow> int" where
  "following_version prior = (case prior of None \<Rightarrow> 1 | Some c \<Rightarrow> mc_version c + 1)"

lemma prior_context_ensure: "is_context (fst (ensure (te_registry e) i)) = prior_context e i"
  by (simp add: prior_context_def ensure_fields empty_state_def split: option.splits)

lemma publish_event_fields [simp]:
  "te_registry (fst (publish_event raises e ev)) = te_registry e"
  "te_bus (fst (publish_event raises e ev)) = te_bus e"
  "te_sequence (fst (publish_event raises e ev)) = te_sequence e"
  "te_candles (fst (publish_event raises e ev)) = te_candles e"
  "te_session (fst (publish_event raises e ev)) = te_session e"
  "te_authority (fst (publish_event raises e ev)) = te_authority e"
  "te_halt_active (fst (publish_event raises e ev)) = te_halt_active e"
  "te_counters (fst (publish_event raises e ev)) = te_counters e"
  "te_published (fst (publish_event raises e ev)) = te_published e @ [ev]"
  by (simp_all add: publish_event_def split: prod.splits)

lemma publish_event_failed:
  "snd (publish_event raises e ev) \<longleftrightarrow> (\<exists>h \<in> set (handlers_of (te_bus e) (context_event_type_of ev)). raises h ev)"
  by (simp add: publish_event_def publish_eq dispatch_failed_iff split: prod.splits)
    (metis dispatch_failed_iff snd_conv)

text \<open>
  What every accepted event does, whatever its kind: one context of the next version and the next
  sequence number is published; without a raising handler it is stored, with one nothing of the
  instrument's state changes.
\<close>

definition advances_one :: "tick_engine \<Rightarrow> instrument \<Rightarrow> market_context \<Rightarrow> tick_engine \<Rightarrow> bool" where
  "advances_one e i c e' \<longleftrightarrow>
     mc_instrument c = (case prior_context e i of None \<Rightarrow> i | Some p \<Rightarrow> mc_instrument p)
     \<and> mc_version c = following_version (prior_context e i)
     \<and> mc_sequence c = seq_current (te_sequence e) + 1
     \<and> te_sequence e' = \<lparr>seq_current = seq_current (te_sequence e) + 1\<rparr>
     \<and> (\<exists>m. te_published e' = te_published e @ [m] \<and> event_context m = c)
     \<and> (\<forall>j. j \<noteq> i \<longrightarrow> reg_states (te_registry e') j = reg_states (te_registry e) j)
     \<and> reg_known (te_registry e') = reg_known (te_registry e)"

lemma sequence_record [simp]: "s\<lparr>seq_current := n\<rparr> = \<lparr>seq_current = n\<rparr>" for s :: monotonic_sequence
  by (cases s) simp

lemma accept_shape:
  assumes "accept raises e observed_at ev = (e', r)" "i = event_instrument ev"
  obtains c where "advances_one e i c e'" "mc_event_timestamp c = event_timestamp ev"
    "mc_latest_tick c = fst (merge ev (fst (ensure (te_registry e) i)))"
    "mc_latest_quote c = snd (merge ev (fst (ensure (te_registry e) i)))"
    "te_counters e' = te_counters e"
    "te_candles e' = snd (candle_step (te_candles e) ev (session_for e ev))"
    "(r = Inl handler_error \<and> reg_states (te_registry e') i = Some (fst (ensure (te_registry e) i)))
      \<or> (\<exists>st. r = Inr \<lparr>pr_outcome = ACCEPT, pr_context = Some c\<rparr> \<and> reg_states (te_registry e') i = Some st
           \<and> is_context st = Some c \<and> is_last_event_timestamp st = Some (event_timestamp ev)
           \<and> is_latest_tick st = mc_latest_tick c \<and> is_latest_quote st = mc_latest_quote c)"
proof -
  obtain st reg where en: "ensure (te_registry e) i = (st, reg)" by fastforce
  obtain t q where mg: "merge ev st = (t, q)" by fastforce
  obtain cs ce where ca: "candle_step (te_candles e) ev (session_for e ev) = (cs, ce)" by fastforce
  obtain ss sg where ssg: "session_statistics_for e ev (session_for e ev) st = (ss, sg)" by fastforce
  have reg: "reg_states reg = (reg_states (te_registry e))(i \<mapsto> st)" "reg_known reg = reg_known (te_registry e)"
    using ensure_fields(1,2) [of "te_registry e" i] en by simp_all
  have prior: "is_context st = prior_context e i" using prior_context_ensure [of e i] en by simp
  define args where "args = no_observations\<lparr>arg_latest_tick := t, arg_latest_quote := q, arg_candle_sets := cs,
      arg_session := session_for e ev, arg_historical := is_historical st, arg_session_statistics := ss\<rparr>"
  define c where "c = (case is_context st of
      None \<Rightarrow> initial_context i (seq_current (te_sequence e) + 1) (event_timestamp ev) observed_at args
    | Some p \<Rightarrow> with_update p (seq_current (te_sequence e) + 1) (event_timestamp ev) observed_at
        (args\<lparr>arg_previous_close := carried_previous_close p (session_for e ev)\<rparr>))"
  define m where "m = (case is_context st of None \<Rightarrow> MarketContextCreated c | Some p \<Rightarrow> MarketContextUpdated c (mc_version p))"
  let ?e1 = "e\<lparr>te_registry := reg, te_sequence := \<lparr>seq_current = seq_current (te_sequence e) + 1\<rparr>, te_candles := ce\<rparr>"
  obtain e2 failed where pub: "publish_event raises ?e1 m = (e2, failed)" by fastforce
  have e2: "e2 = fst (publish_event raises ?e1 m)" by (simp add: pub)
  have eq: "(e', r) = (if failed then (e2, Inl handler_error)
     else (e2\<lparr>te_registry := put_state reg i (st\<lparr>is_latest_tick := t, is_latest_quote := q,
             is_last_event_timestamp := Some (event_timestamp ev), is_last_sequence := Some (seq_current (te_sequence e) + 1),
             is_context := Some c, is_session_statistics := ss, is_staged := sg\<rparr>)\<rparr>,
           Inr \<lparr>pr_outcome = ACCEPT, pr_context = Some c\<rparr>))"
    using pub unfolding assms(1) [symmetric] accept_def assms(2) [symmetric] m_def c_def args_def
    by (cases "is_context st") (simp_all add: en mg ca ssg next_value_def Let_def)
  have ec: "event_context m = c" by (simp add: m_def event_context_def split: option.splits)
  have c: "mc_instrument c = (case prior_context e i of None \<Rightarrow> i | Some p \<Rightarrow> mc_instrument p)"
    "mc_version c = following_version (prior_context e i)" "mc_sequence c = seq_current (te_sequence e) + 1"
    "mc_event_timestamp c = event_timestamp ev" "mc_latest_tick c = t" "mc_latest_quote c = q"
    by (simp_all add: c_def prior following_version_def args_def initial_context_def with_update_def split: option.splits)
  have adv: "advances_one e i c e'"
    using eq c ec reg by (auto simp: advances_one_def e2 put_state_def split: if_splits)
  show thesis
    by (rule that [OF adv]) (use eq c reg en mg ca in \<open>auto simp: e2 put_state_def split: if_splits\<close>)
qed

lemma accept_reference_shape:
  assumes "accept_reference raises e now ref = (e', r)" "i = ref_instrument ref"
  obtains "\<not> is_known (te_registry e) i" "e' = e" "r = Inr \<lparr>pr_outcome = INVALID, pr_context = None\<rparr>"
  | c where "is_known (te_registry e) i" "advances_one e i c e'" "mc_previous_close c = Some (ref_previous_close ref)"
    "te_counters e' = te_counters e" "te_candles e' = te_candles e"
    "(r = Inl handler_error \<and> reg_states (te_registry e') i = Some (fst (ensure (te_registry e) i)))
      \<or> (\<exists>n. r = Inr \<lparr>pr_outcome = ACCEPT, pr_context = Some c\<rparr>
           \<and> reg_states (te_registry e') i = Some ((fst (ensure (te_registry e) i))\<lparr>is_last_sequence := Some n, is_context := Some c\<rparr>))"
proof (cases "is_known (te_registry e) i")
  case False
  then have "accept_reference raises e now ref = (e, Inr \<lparr>pr_outcome = INVALID, pr_context = None\<rparr>)"
    unfolding accept_reference_def assms(2) by (simp add: Let_def)
  with False show thesis using assms(1) that(1) by simp
next
  case True
  obtain st reg where en: "ensure (te_registry e) i = (st, reg)" by fastforce
  have reg: "reg_states reg = (reg_states (te_registry e))(i \<mapsto> st)" "reg_known reg = reg_known (te_registry e)"
    using ensure_fields(1,2) [of "te_registry e" i] en by simp_all
  have prior: "is_context st = prior_context e i" using prior_context_ensure [of e i] en by simp
  define session where "session = map_option (\<lambda>cl. classify_session cl now (te_halt_active e)) (te_session e)"
  define c where "c = (case is_context st of
      None \<Rightarrow> initial_context i (seq_current (te_sequence e) + 1) now now
        (no_observations\<lparr>arg_session := session, arg_historical := is_historical st,
           arg_previous_close := Some (ref_previous_close ref)\<rparr>)
    | Some p \<Rightarrow> with_update p (seq_current (te_sequence e) + 1) now now
        (no_observations\<lparr>arg_latest_tick := is_latest_tick st, arg_latest_quote := is_latest_quote st,
           arg_candle_sets := mc_candle_sets p, arg_session := (case session of Some s \<Rightarrow> Some s | None \<Rightarrow> mc_session p),
           arg_historical := is_historical st, arg_session_statistics := is_session_statistics st,
           arg_previous_close := Some (ref_previous_close ref)\<rparr>))"
  define m where "m = (case is_context st of None \<Rightarrow> MarketContextCreated c | Some p \<Rightarrow> MarketContextUpdated c (mc_version p))"
  let ?e1 = "e\<lparr>te_registry := reg, te_sequence := \<lparr>seq_current = seq_current (te_sequence e) + 1\<rparr>\<rparr>"
  obtain e2 failed where pub: "publish_event raises ?e1 m = (e2, failed)" by fastforce
  have e2: "e2 = fst (publish_event raises ?e1 m)" by (simp add: pub)
  have eq: "(e', r) = (if failed then (e2, Inl handler_error)
     else (e2\<lparr>te_registry := put_state reg i
             (st\<lparr>is_last_sequence := Some (seq_current (te_sequence e) + 1), is_context := Some c\<rparr>)\<rparr>,
           Inr \<lparr>pr_outcome = ACCEPT, pr_context = Some c\<rparr>))"
    using pub True unfolding assms(1) [symmetric] accept_reference_def assms(2) [symmetric] m_def c_def session_def
    by (cases "is_context st") (simp_all add: en next_value_def Let_def)
  have ec: "event_context m = c" by (simp add: m_def event_context_def split: option.splits)
  have c: "mc_instrument c = (case prior_context e i of None \<Rightarrow> i | Some p \<Rightarrow> mc_instrument p)"
    "mc_version c = following_version (prior_context e i)" "mc_sequence c = seq_current (te_sequence e) + 1"
    "mc_previous_close c = Some (ref_previous_close ref)"
    by (simp_all add: c_def prior following_version_def initial_context_def with_update_def split: option.splits)
  have adv: "advances_one e i c e'"
    using eq c ec reg by (auto simp: advances_one_def e2 put_state_def split: if_splits)
  show thesis
    by (rule that(2) [OF True adv c(4)]) (use eq reg en in \<open>auto simp: e2 put_state_def split: if_splits\<close>)
qed

section \<open>Runs of the engine\<close>

datatype engine_op =
    OpDatum instant instant datum_event
  | OpReference instant market_reference
  | OpHalt bool
  | OpContinuity feed_continuity_event
  | OpInstall instrument historical_context
  | OpStage instrument session_statistics_observation

text \<open>The engine after one call; a call that raises keeps the effects it had made.\<close>

definition registry_step :: "tick_engine \<Rightarrow> state_registry res \<Rightarrow> tick_engine" where
  "registry_step e r = (case r of Inl _ \<Rightarrow> e | Inr reg \<Rightarrow> e\<lparr>te_registry := reg\<rparr>)"

fun run_op :: "(handler \<Rightarrow> context_event \<Rightarrow> bool) \<Rightarrow> tick_engine \<Rightarrow> engine_op \<Rightarrow> tick_engine" where
  "run_op raises e (OpDatum now observed_at ev) = fst (process_datum raises e now observed_at ev)"
| "run_op raises e (OpReference now ref) = fst (process_reference raises e now ref)"
| "run_op raises e (OpHalt active) = set_halt e active"
| "run_op raises e (OpContinuity ev) = on_feed_continuity e ev"
| "run_op raises e (OpInstall i h) = registry_step e (install_historical (te_registry e) i h)"
| "run_op raises e (OpStage i ob) = registry_step e (stage_session_statistics_observation (te_registry e) i ob)"

definition contexts_of :: "tick_engine \<Rightarrow> instrument \<Rightarrow> market_context list" where
  "contexts_of e i = filter (\<lambda>c. mc_instrument c = i) (map event_context (te_published e))"

text \<open>The invariant: gapless sequence numbers, gapless versions, and the registry holds the newest context.\<close>

definition gapless :: "tick_engine \<Rightarrow> bool" where
  "gapless e \<longleftrightarrow>
     map (mc_sequence \<circ> event_context) (te_published e) = [1 .. seq_current (te_sequence e)]
     \<and> seq_current (te_sequence e) = int (length (te_published e))
     \<and> (\<forall>i. map mc_version (contexts_of e i) = [1 .. int (length (contexts_of e i))]
          \<and> prior_context e i = (if contexts_of e i = [] then None else Some (last (contexts_of e i))))"

lemma gapless_frame:
  assumes "gapless e" "te_published e' = te_published e" "te_sequence e' = te_sequence e"
    "\<And>i. prior_context e' i = prior_context e i"
  shows "gapless e'"
  using assms by (simp add: gapless_def contexts_of_def)

lemma gapless_advance:
  assumes "gapless e" "advances_one e i c e'" "prior_context e' i = Some c"
  shows "gapless e'"
proof -
  from assms(2) obtain m where pub: "te_published e' = te_published e @ [m]" "event_context m = c"
    unfolding advances_one_def by blast
  have prior: "prior_context e i = (if contexts_of e i = [] then None else Some (last (contexts_of e i)))"
    and versions: "map mc_version (contexts_of e j) = [1 .. int (length (contexts_of e j))]" for j
    using assms(1) by (simp_all add: gapless_def)
  have inst: "mc_instrument c = i"
  proof (cases "contexts_of e i = []")
    case False
    then have "last (contexts_of e i) \<in> set (contexts_of e i)" by simp
    then have "mc_instrument (last (contexts_of e i)) = i" by (simp add: contexts_of_def del: last_in_set)
    with False show ?thesis using assms(2) prior by (simp add: advances_one_def)
  qed (use assms(2) prior in \<open>simp add: advances_one_def\<close>)
  have ver: "mc_version c = int (length (contexts_of e i)) + 1"
  proof (cases "contexts_of e i = []")
    case False
    then have "mc_version (last (contexts_of e i)) = last [1 .. int (length (contexts_of e i))]"
      using versions [of i] by (metis last_map)
    also have "\<dots> = int (length (contexts_of e i))" using False by (simp add: upto_rec2 Suc_le_eq)
    finally show ?thesis using False assms(2) prior by (simp add: advances_one_def following_version_def)
  qed (use assms(2) prior in \<open>simp add: advances_one_def following_version_def\<close>)
  have ctx: "contexts_of e' j = (if j = i then contexts_of e i @ [c] else contexts_of e j)" for j
    using inst pub by (simp add: contexts_of_def)
  have "prior_context e' j = (if contexts_of e' j = [] then None else Some (last (contexts_of e' j)))" for j
    using assms ctx by (cases "j = i") (simp_all add: gapless_def advances_one_def prior_context_def)
  moreover have "map mc_version (contexts_of e' j) = [1 .. int (length (contexts_of e' j))]" for j
    using versions [of i] versions [of j] ver by (auto simp: ctx upto_rec2 add.commute)
  moreover have "map (mc_sequence \<circ> event_context) (te_published e') = [1 .. seq_current (te_sequence e')]
      \<and> seq_current (te_sequence e') = int (length (te_published e'))"
    using assms(1,2) pub by (simp add: gapless_def advances_one_def upto_rec2)
  ultimately show ?thesis by (simp add: gapless_def)
qed

lemma accept_gapless:
  assumes "gapless e" "accept raises e ob ev = (e', Inr r)"
  shows "gapless e'"
proof -
  obtain c where "advances_one e (event_instrument ev) c e'" "prior_context e' (event_instrument ev) = Some c"
    using accept_shape [OF assms(2) refl] by (metis Inl_Inr_False bind.bind_lunit prior_context_def)
  with assms(1) show ?thesis by (rule gapless_advance)
qed

lemma accept_reference_gapless:
  assumes "gapless e" "accept_reference raises e now ref = (e', Inr r)"
  shows "gapless e'"
  using assms(2) refl
proof (rule accept_reference_shape)
  fix c
  assume adv: "advances_one e (ref_instrument ref) c e'"
    and "Inr r = Inl handler_error \<and> reg_states (te_registry e') (ref_instrument ref) = Some (fst (ensure (te_registry e) (ref_instrument ref)))
      \<or> (\<exists>n. Inr r = Inr \<lparr>pr_outcome = ACCEPT, pr_context = Some c\<rparr>
           \<and> reg_states (te_registry e') (ref_instrument ref) =
               Some ((fst (ensure (te_registry e) (ref_instrument ref)))\<lparr>is_last_sequence := Some n, is_context := Some c\<rparr>))"
  then have "prior_context e' (ref_instrument ref) = Some c" by (auto simp: prior_context_def)
  with assms(1) adv show ?thesis by (rule gapless_advance)
qed (use assms(1) in simp)

text \<open>Without a raising handler no step fails.\<close>

lemma accept_ok:
  assumes "\<forall>h m. \<not> raises h m"
  shows "\<exists>e' r. accept raises e ob ev = (e', Inr r)"
  using assms unfolding accept_def
  by (auto simp: publish_event_def publish_eq Let_def split: prod.splits) (metis dispatch_failed_iff snd_conv)+

lemma accept_reference_ok:
  assumes "\<forall>h m. \<not> raises h m"
  shows "\<exists>e' r. accept_reference raises e now ref = (e', Inr r)"
  using assms unfolding accept_reference_def
  by (auto simp: publish_event_def publish_eq Let_def split: prod.splits) (metis dispatch_failed_iff snd_conv)+

lemma accepted_advances:
  assumes "process_datum raises e now ob ev = (e', Inr r)" "pr_outcome r = ACCEPT"
  obtains c where "advances_one e (event_instrument ev) c e'"
proof -
  let ?e = "e\<lparr>te_counters := record_tick (te_counters e) ACCEPT (event_timestamp ev) now\<rparr>"
  have "accept raises ?e ob ev = (e', Inr r)"
    using assms by (auto simp: process_datum_def Let_def split: if_splits)
  then obtain c where "advances_one ?e (event_instrument ev) c e'" using accept_shape [OF _ refl] by metis
  then have "advances_one e (event_instrument ev) c e'" by (simp add: advances_one_def prior_context_def)
  then show thesis by (rule that)
qed

lemma registry_step_prior:
  "prior_context (registry_step e (install_historical (te_registry e) i h)) j = prior_context e j"
  "prior_context (registry_step e (stage_session_statistics_observation (te_registry e) i ob)) j = prior_context e j"
  by (auto simp: registry_step_def install_historical_def stage_session_statistics_observation_def prior_context_def
      ensure_def put_state_def empty_state_def split: option.splits if_splits)

lemma registry_step_fields [simp]:
  "te_published (registry_step e r) = te_published e"
  "te_sequence (registry_step e r) = te_sequence e"
  "te_counters (registry_step e r) = te_counters e"
  "te_candles (registry_step e r) = te_candles e"
  by (simp_all add: registry_step_def split: sum.splits)

lemma counters_gapless [simp]: "gapless (e\<lparr>te_counters := c\<rparr>) = gapless e"
  by (simp add: gapless_def contexts_of_def prior_context_def)

lemma run_op_gapless:
  assumes "gapless e" "\<forall>h m. \<not> raises h m"
  shows "gapless (run_op raises e op)"
proof (cases op)
  case (OpDatum now ob ev)
  let ?e = "\<lambda>out. e\<lparr>te_counters := record_tick (te_counters e) out (event_timestamp ev) now\<rparr>"
  have "gapless (fst (accept raises (?e out) ob ev))" for out
  proof -
    obtain e' r where "accept raises (?e out) ob ev = (e', Inr r)" using accept_ok [OF assms(2)] by blast
    then show ?thesis using accept_gapless [of "?e out" raises ob ev e' r] assms(1) by simp
  qed
  with OpDatum assms(1) show ?thesis by (simp add: process_datum_def Let_def)
next
  case (OpReference now ref)
  obtain e' r where "accept_reference raises e now ref = (e', Inr r)" using accept_reference_ok [OF assms(2)] by blast
  with OpReference show ?thesis
    using accept_reference_gapless [OF assms(1)] by (simp add: process_reference_def)
next
  case (OpHalt active)
  then show ?thesis using assms(1) by (auto intro: gapless_frame simp: set_halt_def prior_context_def)
next
  case (OpContinuity ev)
  then show ?thesis using assms(1) by (auto intro: gapless_frame simp: on_feed_continuity_def prior_context_def)
next
  case (OpInstall i h)
  then show ?thesis using assms(1) by (auto intro!: gapless_frame [OF assms(1)] simp: registry_step_prior)
next
  case (OpStage i ob)
  then show ?thesis using assms(1) by (auto intro!: gapless_frame [OF assms(1)] simp: registry_step_prior)
qed

lemma run_gapless:
  assumes "gapless e" "\<forall>h m. \<not> raises h m"
  shows "gapless (foldl (run_op raises) e ops)"
  using assms(1) by (induction ops arbitrary: e) (auto intro: run_op_gapless [OF _ assms(2)])

lemma fresh_gapless: "gapless (mk_tick_engine (mk_registry known) bus session candles authority)"
  by (simp add: gapless_def mk_tick_engine_def mk_registry_def contexts_of_def prior_context_def)

section \<open>Properties\<close>

text \<open>
  A rejected tick or quote (unknown instrument, implausibly far in the future, duplicate or older
  than the accepted state) has no effect but its count: the registry, the candles, the sequence
  and everything published stay as they were and no context is returned.
\<close>

lemma rejected_event_changes_nothing:
  assumes "process_datum raises e now observed_at ev = (e', Inr r)" "pr_outcome r \<noteq> ACCEPT"
  shows "pr_context r = None
    \<and> e' = e\<lparr>te_counters := record_tick (te_counters e) (pr_outcome r) (event_timestamp ev) now\<rparr>"
proof -
  let ?out = "classify ev (is_known (te_registry e) (event_instrument ev)) (reg_states (te_registry e) (event_instrument ev)) now"
  let ?e = "e\<lparr>te_counters := record_tick (te_counters e) ?out (event_timestamp ev) now\<rparr>"
  show ?thesis
  proof (cases "?out = ACCEPT")
    case True
    with assms(1) have "accept raises ?e observed_at ev = (e', Inr r)" by (simp add: process_datum_def Let_def)
    then have "pr_outcome r = ACCEPT" using accept_shape [OF _ refl] by (metis Inl_Inr_False process_result.select_convs(1) sum.inject(2))
    with assms(2) show ?thesis by simp
  next
    case False
    with assms(1) show ?thesis by (auto simp: process_datum_def Let_def)
  qed
qed

text \<open>An engine for one instrument, without candles, and trades of it.\<close>

definition demo_tick_engine :: tick_engine where
  "demo_tick_engine = mk_tick_engine (mk_registry [cash_equity ''NSE'' ''TCS'']) empty_bus (Some nse_classifier) None disabled_authority"

definition demo_trade :: "int \<Rightarrow> datum_event" where
  "demo_trade n = TickEvent (demo_tick n 100 (5 + n))"

lemmas demo_engine_simps =
  demo_tick_engine_def demo_trade_def demo_tick_def mk_tick_engine_def mk_registry_def process_datum_def classify_def
  is_known_def event_instrument_def event_timestamp_def max_future_skew_def accept_def ensure_def empty_state_def
  put_state_def next_value_def candle_step_def publish_event_def publish_def merge_def empty_bus_def

lemma rejected_event_changes_nothing_example:
  "fst (process_datum (\<lambda>_ _. False) demo_tick_engine 1728013500000000 1728013500000000 (demo_trade 61)) =
     demo_tick_engine\<lparr>te_counters := record_tick new_counters INVALID 1728013561000000 1728013500000000\<rparr>"
proof -
  have "process_datum (\<lambda>_ _. False) demo_tick_engine 1728013500000000 1728013500000000 (demo_trade 61) =
      (demo_tick_engine\<lparr>te_counters := record_tick new_counters INVALID 1728013561000000 1728013500000000\<rparr>,
       Inr \<lparr>pr_outcome = INVALID, pr_context = None\<rparr>)"
    by (simp add: demo_engine_simps Let_def)
  from rejected_event_changes_nothing [OF this] this show ?thesis by simp
qed

text \<open>
  An accepted tick or quote advances exactly its own instrument by exactly one version: the
  context it returns has the next version and the next sequence number, is published once and is
  the stored context; its event time is not older than the last accepted one and at most a minute
  ahead of the clock; the latest observation of the other kind is kept; the states of all other
  instruments are untouched.
\<close>

lemma accepted_event_advances_one_version:
  assumes "process_datum raises e now observed_at ev = (e', Inr r)" "pr_outcome r = ACCEPT"
  shows "\<exists>c st. pr_context r = Some c \<and> advances_one e (event_instrument ev) c e'
    \<and> reg_states (te_registry e') (event_instrument ev) = Some st \<and> is_context st = Some c
    \<and> is_last_event_timestamp st = Some (event_timestamp ev) \<and> event_timestamp ev \<le> now + MINUTE
    \<and> (\<forall>st0 ts. reg_states (te_registry e) (event_instrument ev) = Some st0 \<and> is_last_event_timestamp st0 = Some ts
          \<longrightarrow> ts \<le> event_timestamp ev)
    \<and> (case ev of TickEvent t \<Rightarrow> mc_latest_tick c = Some t
         \<and> (\<forall>st0. reg_states (te_registry e) (event_instrument ev) = Some st0 \<longrightarrow> mc_latest_quote c = is_latest_quote st0)
       | QuoteEvent q \<Rightarrow> mc_latest_quote c = Some q
         \<and> (\<forall>st0. reg_states (te_registry e) (event_instrument ev) = Some st0 \<longrightarrow> mc_latest_tick c = is_latest_tick st0))"
proof -
  let ?i = "event_instrument ev"
  let ?out = "classify ev (is_known (te_registry e) ?i) (reg_states (te_registry e) ?i) now"
  let ?e = "e\<lparr>te_counters := record_tick (te_counters e) ?out (event_timestamp ev) now\<rparr>"
  have out: "?out = ACCEPT" using assms by (auto simp: process_datum_def Let_def split: if_splits)
  with assms(1) have acc: "accept raises ?e observed_at ev = (e', Inr r)" by (simp add: process_datum_def Let_def)
  obtain c st where c: "advances_one ?e ?i c e'" "mc_latest_tick c = fst (merge ev (fst (ensure (te_registry e) ?i)))"
      "mc_latest_quote c = snd (merge ev (fst (ensure (te_registry e) ?i)))"
    and st: "r = \<lparr>pr_outcome = ACCEPT, pr_context = Some c\<rparr>" "reg_states (te_registry e') ?i = Some st"
      "is_context st = Some c" "is_last_event_timestamp st = Some (event_timestamp ev)"
  proof (rule accept_shape [OF acc refl])
    fix c
    assume c: "advances_one ?e ?i c e'" "mc_latest_tick c = fst (merge ev (fst (ensure (te_registry ?e) ?i)))"
        "mc_latest_quote c = snd (merge ev (fst (ensure (te_registry ?e) ?i)))"
      and "(Inr r = Inl handler_error \<and> reg_states (te_registry e') ?i = Some (fst (ensure (te_registry ?e) ?i)))
      \<or> (\<exists>st. Inr r = Inr \<lparr>pr_outcome = ACCEPT, pr_context = Some c\<rparr> \<and> reg_states (te_registry e') ?i = Some st
           \<and> is_context st = Some c \<and> is_last_event_timestamp st = Some (event_timestamp ev)
           \<and> is_latest_tick st = mc_latest_tick c \<and> is_latest_quote st = mc_latest_quote c)"
    then obtain st where "r = \<lparr>pr_outcome = ACCEPT, pr_context = Some c\<rparr>" "reg_states (te_registry e') ?i = Some st"
      "is_context st = Some c" "is_last_event_timestamp st = Some (event_timestamp ev)" by blast
    with c show thesis by (intro that [of c st]) simp_all
  qed
  have adv: "advances_one e ?i c e'" using c(1) by (simp add: advances_one_def prior_context_def)
  have front: "event_timestamp ev \<le> now + MINUTE"
    "\<forall>st0 ts. reg_states (te_registry e) ?i = Some st0 \<and> is_last_event_timestamp st0 = Some ts \<longrightarrow> ts \<le> event_timestamp ev"
    using out by (auto simp: classify_def max_future_skew_def split: if_splits option.splits)
  have "case ev of TickEvent t \<Rightarrow> mc_latest_tick c = Some t
         \<and> (\<forall>st0. reg_states (te_registry e) ?i = Some st0 \<longrightarrow> mc_latest_quote c = is_latest_quote st0)
       | QuoteEvent q \<Rightarrow> mc_latest_quote c = Some q
         \<and> (\<forall>st0. reg_states (te_registry e) ?i = Some st0 \<longrightarrow> mc_latest_tick c = is_latest_tick st0)"
    using c(2,3) by (cases ev) (auto simp: merge_def ensure_fields)
  with adv st front show ?thesis by (intro exI [of _ c] exI [of _ st]) simp
qed

lemma demo_accepts:
  "\<exists>e' r. process_datum (\<lambda>_ _. False) demo_tick_engine 1728013500000000 1728013500000000 (demo_trade 1) = (e', Inr r)
    \<and> pr_outcome r = ACCEPT"
proof -
  have "classify (demo_trade 1) (is_known (te_registry demo_tick_engine) (event_instrument (demo_trade 1)))
      (reg_states (te_registry demo_tick_engine) (event_instrument (demo_trade 1))) 1728013500000000 = ACCEPT"
    by (simp add: demo_engine_simps)
  then obtain e' r where er: "process_datum (\<lambda>_ _. False) demo_tick_engine 1728013500000000 1728013500000000 (demo_trade 1) = (e', Inr r)"
    "accept (\<lambda>_ _. False) (demo_tick_engine\<lparr>te_counters := record_tick (te_counters demo_tick_engine) ACCEPT
        (event_timestamp (demo_trade 1)) 1728013500000000\<rparr>) 1728013500000000 (demo_trade 1) = (e', Inr r)"
    using accept_ok [of "\<lambda>_ _. False"] by (fastforce simp: process_datum_def Let_def)
  then have "pr_outcome r = ACCEPT"
    using accept_shape [OF er(2) refl] by (metis Inl_Inr_False process_result.select_convs(1) sum.inject(2))
  with er(1) show ?thesis by blast
qed

lemma accepted_event_advances_one_version_example:
  "\<exists>e' r c. process_datum (\<lambda>_ _. False) demo_tick_engine 1728013500000000 1728013500000000 (demo_trade 1) = (e', Inr r)
    \<and> pr_context r = Some c \<and> mc_version c = 1 \<and> mc_sequence c = 1"
proof -
  obtain e' r where er: "process_datum (\<lambda>_ _. False) demo_tick_engine 1728013500000000 1728013500000000 (demo_trade 1) = (e', Inr r)"
    "pr_outcome r = ACCEPT" using demo_accepts by blast
  from accepted_event_advances_one_version [OF er] obtain c where
    "pr_context r = Some c" "advances_one demo_tick_engine (event_instrument (demo_trade 1)) c e'" by blast
  moreover have "prior_context demo_tick_engine (event_instrument (demo_trade 1)) = None" "seq_current (te_sequence demo_tick_engine) = 0"
    by (simp_all add: prior_context_def demo_tick_engine_def mk_tick_engine_def mk_registry_def)
  ultimately show ?thesis using er(1) by (auto simp: advances_one_def following_version_def)
qed

text \<open>
  C3. Over any run of ticks, quotes, references, halts, continuity facts, historical installations
  and staged observations (and handlers that do not raise) the published contexts carry the
  sequence numbers 1, 2, 3 and so on without gap, the contexts of each instrument carry the
  versions 1, 2, 3 and so on, and the registry holds the newest one.
\<close>

theorem published_versions_gapless:
  assumes "\<forall>h m. \<not> raises h m"
    and "e = foldl (run_op raises) (mk_tick_engine (mk_registry known) bus session candles authority) ops"
  shows "map (mc_sequence \<circ> event_context) (te_published e) = [1 .. int (length (te_published e))]
    \<and> map mc_version (contexts_of e i) = [1 .. int (length (contexts_of e i))]
    \<and> prior_context e i = (if contexts_of e i = [] then None else Some (last (contexts_of e i)))"
proof -
  have "gapless e" unfolding assms(2) by (rule run_gapless [OF fresh_gapless assms(1)])
  then show ?thesis by (simp add: gapless_def)
qed

theorem published_versions_gapless_witness:
  "map mc_version (contexts_of (foldl (run_op (\<lambda>_ _. False)) demo_tick_engine
       [OpDatum 1728013501000000 1728013501000000 (demo_trade 1), OpDatum 1728013502000000 1728013502000000 (demo_trade 2)])
       (cash_equity ''NSE'' ''TCS''))
    = [1 .. int (length (contexts_of (foldl (run_op (\<lambda>_ _. False)) demo_tick_engine
       [OpDatum 1728013501000000 1728013501000000 (demo_trade 1), OpDatum 1728013502000000 1728013502000000 (demo_trade 2)])
       (cash_equity ''NSE'' ''TCS'')))]"
  unfolding demo_tick_engine_def
  using published_versions_gapless [of "\<lambda>_ _. False", OF _ refl] by blast

section \<open>Counters\<close>

definition counters_consistent :: "decision_counters \<Rightarrow> bool" where
  "counters_consistent c \<longleftrightarrow>
     ticks_received c = ticks_accepted c + by_reason c INVALID + by_reason c DUPLICATE + by_reason c STALE
     \<and> by_reason c ACCEPT = 0 \<and> 0 \<le> ticks_accepted c
     \<and> references_received c = references_accepted c + references_rejected c"

lemma record_tick_consistent: "counters_consistent c \<Longrightarrow> counters_consistent (record_tick c out ts now)"
  by (cases out) (simp_all add: counters_consistent_def record_tick_def Let_def)

lemma record_reference_consistent: "counters_consistent c \<Longrightarrow> counters_consistent (record_reference c out)"
  by (simp add: counters_consistent_def record_reference_def Let_def)

lemma accept_counters: "te_counters (fst (accept raises e ob ev)) = te_counters e"
  by (metis accept_shape eq_fst_iff)

lemma accept_reference_counters: "te_counters (fst (accept_reference raises e now ref)) = te_counters e"
  by (metis accept_reference_shape eq_fst_iff)

lemma run_op_counters:
  assumes "counters_consistent (te_counters e)"
  shows "counters_consistent (te_counters (run_op raises e op))"
proof (cases op)
  case (OpReference now ref)
  then show ?thesis
    using assms accept_reference_counters [of raises e now ref] record_reference_consistent
    by (auto simp: process_reference_def split: prod.splits sum.splits)
qed (use assms in \<open>auto simp: process_datum_def Let_def accept_counters set_halt_def on_feed_continuity_def intro: record_tick_consistent\<close>)

text \<open>
  The decision counters always add up, also across raising handlers: after any run the reported
  number of rejected ticks is the sum of the rejections by reason, none is booked under
  acceptance, and references are counted apart and completely.
\<close>

lemma decision_counters_add_up:
  "counters_consistent (te_counters (foldl (run_op raises) (mk_tick_engine r bus session candles authority) ops))
    \<and> (let d = snapshot (te_counters (foldl (run_op raises) (mk_tick_engine r bus session candles authority) ops))
       in diag_ticks_rejected_total d =
            diag_rejected_by_reason d INVALID + diag_rejected_by_reason d DUPLICATE + diag_rejected_by_reason d STALE)"
proof -
  have "counters_consistent (te_counters (foldl (run_op raises) e ops))" if "counters_consistent (te_counters e)" for e
    using that by (induction ops arbitrary: e) (auto intro: run_op_counters)
  moreover have "counters_consistent (te_counters (mk_tick_engine r bus session candles authority))"
    by (simp add: mk_tick_engine_def counters_consistent_def new_counters_def)
  ultimately have "counters_consistent (te_counters (foldl (run_op raises) (mk_tick_engine r bus session candles authority) ops))" by blast
  then show ?thesis by (simp add: snapshot_def counters_consistent_def Let_def)
qed

section \<open>A raising subscriber\<close>

text \<open>
  C39. When a subscriber raises, the context has been published and the tick has been aggregated into
  the candles, but the registry keeps the old context: the next accepted event of the instrument
  publishes a second context with the same version.
\<close>

theorem raising_subscriber_repeats_version:
  assumes "process_datum raises e now ob ev = (e1, Inl err)"
    and "process_datum raises' e1 now' ob' ev' = (e2, Inr r)" "pr_outcome r = ACCEPT"
    and "event_instrument ev' = event_instrument ev"
  shows "\<exists>m1 m2. te_published e2 = te_published e @ [m1, m2]
    \<and> mc_version (event_context m1) = mc_version (event_context m2)
    \<and> mc_instrument (event_context m1) = mc_instrument (event_context m2)
    \<and> mc_sequence (event_context m2) = mc_sequence (event_context m1) + 1
    \<and> te_candles e1 = snd (candle_step (te_candles e) ev (session_for e ev))"
proof -
  let ?i = "event_instrument ev"
  let ?e = "e\<lparr>te_counters := record_tick (te_counters e) ACCEPT (event_timestamp ev) now\<rparr>"
  have acc: "accept raises ?e ob ev = (e1, Inl err)"
    using assms(1) by (auto simp: process_datum_def Let_def split: if_splits)
  obtain c1 where adv1: "advances_one ?e ?i c1 e1" and ca: "te_candles e1 = snd (candle_step (te_candles ?e) ev (session_for ?e ev))"
    and kept: "reg_states (te_registry e1) ?i = Some (fst (ensure (te_registry ?e) ?i))"
    by (rule accept_shape [OF acc refl]) (auto simp: that)
  have prior: "prior_context e1 ?i = prior_context e ?i"
    using kept prior_context_ensure [of e ?i] by (simp add: prior_context_def [of e1])
  obtain c2 where adv2: "advances_one e1 ?i c2 e2"
    using accepted_advances [OF assms(2,3)] assms(4) by metis
  obtain m1 m2 where m: "te_published e1 = te_published e @ [m1]" "event_context m1 = c1"
    "te_published e2 = te_published e1 @ [m2]" "event_context m2 = c2"
    using adv1 adv2 by (auto simp: advances_one_def)
  have s: "session_for ?e ev = session_for e ev" by (simp add: session_for_def)
  show ?thesis
    using adv1 adv2 m prior ca
    by (intro exI [of _ m1] exI [of _ m2]) (simp add: advances_one_def s prior_context_def [of ?e] prior_context_def [of e])
qed

definition demo_watched_engine :: tick_engine where
  "demo_watched_engine = demo_tick_engine\<lparr>te_bus := fst (subscribe empty_bus Created 0)\<rparr>"

lemma demo_raises:
  "\<exists>e1. process_datum (\<lambda>_ _. True) demo_watched_engine 1728013501000000 1728013501000000 (demo_trade 1) = (e1, Inl handler_error)"
  by (simp add: demo_watched_engine_def demo_engine_simps subscribe_def context_event_type_of_def Let_def split: prod.splits)

lemma demo_recovers:
  assumes "process_datum (\<lambda>_ _. True) demo_watched_engine 1728013501000000 1728013501000000 (demo_trade 1) = (e1, Inl handler_error)"
  shows "\<exists>e2 r. process_datum (\<lambda>_ _. False) e1 1728013502000000 1728013502000000 (demo_trade 2) = (e2, Inr r) \<and> pr_outcome r = ACCEPT"
proof -
  let ?e = "demo_watched_engine\<lparr>te_counters := record_tick (te_counters demo_watched_engine) ACCEPT (event_timestamp (demo_trade 1)) 1728013501000000\<rparr>"
  have acc: "accept (\<lambda>_ _. True) ?e 1728013501000000 (demo_trade 1) = (e1, Inl handler_error)"
    using assms by (auto simp: process_datum_def Let_def split: if_splits)
  have "reg_states (te_registry e1) (event_instrument (demo_trade 1)) = Some (empty_state (event_instrument (demo_trade 1)))
      \<and> reg_known (te_registry e1) = {event_instrument (demo_trade 1)}"
    by (rule accept_shape [OF acc refl])
      (auto simp: advances_one_def demo_watched_engine_def demo_tick_engine_def mk_tick_engine_def mk_registry_def ensure_def
        event_instrument_def demo_trade_def demo_tick_def)
  then have "classify (demo_trade 2) (is_known (te_registry e1) (event_instrument (demo_trade 2)))
      (reg_states (te_registry e1) (event_instrument (demo_trade 2))) 1728013502000000 = ACCEPT"
    by (simp add: classify_def is_known_def is_duplicate_def empty_state_def demo_trade_def event_instrument_def event_timestamp_def
        demo_tick_def max_future_skew_def)
  then obtain e2 r where er: "process_datum (\<lambda>_ _. False) e1 1728013502000000 1728013502000000 (demo_trade 2) = (e2, Inr r)"
    "accept (\<lambda>_ _. False) (e1\<lparr>te_counters := record_tick (te_counters e1) ACCEPT (event_timestamp (demo_trade 2)) 1728013502000000\<rparr>)
       1728013502000000 (demo_trade 2) = (e2, Inr r)"
    using accept_ok [of "\<lambda>_ _. False"] by (fastforce simp: process_datum_def Let_def)
  then show ?thesis
    using accept_shape [OF er(2) refl] by (metis Inl_Inr_False process_result.select_convs(1) sum.inject(2))
qed

theorem raising_subscriber_repeats_version_witness:
  "\<exists>e1 e2 m1 m2. process_datum (\<lambda>_ _. True) demo_watched_engine 1728013501000000 1728013501000000 (demo_trade 1) = (e1, Inl handler_error)
    \<and> fst (process_datum (\<lambda>_ _. False) e1 1728013502000000 1728013502000000 (demo_trade 2)) = e2
    \<and> te_published e2 = [m1, m2] \<and> mc_version (event_context m1) = mc_version (event_context m2)"
proof -
  obtain e1 where e1: "process_datum (\<lambda>_ _. True) demo_watched_engine 1728013501000000 1728013501000000 (demo_trade 1) = (e1, Inl handler_error)"
    using demo_raises by blast
  obtain e2 r where e2: "process_datum (\<lambda>_ _. False) e1 1728013502000000 1728013502000000 (demo_trade 2) = (e2, Inr r)" "pr_outcome r = ACCEPT"
    using demo_recovers [OF e1] by blast
  have "event_instrument (demo_trade 2) = event_instrument (demo_trade 1)" "te_published demo_watched_engine = []"
    by (simp_all add: event_instrument_def demo_trade_def demo_tick_def demo_watched_engine_def demo_tick_engine_def mk_tick_engine_def)
  with raising_subscriber_repeats_version [OF e1 e2] e1 e2(1) show ?thesis by auto
qed

section \<open>Staged observations\<close>

definition staged_in :: "state_registry \<Rightarrow> instrument \<Rightarrow> session_statistics_observation option" where
  "staged_in r i = Option.bind (reg_states r i) is_staged"

text \<open>Staging a list of observations for one instrument, stopping at the first error.\<close>

fun stage_all :: "state_registry \<Rightarrow> instrument \<Rightarrow> session_statistics_observation list \<Rightarrow> state_registry res" where
  "stage_all r i [] = Inr r"
| "stage_all r i (ob # obs) = res_bind (stage_session_statistics_observation r i ob) (\<lambda>r'. stage_all r' i obs)"

lemma stage_spec:
  assumes "stage_session_statistics_observation r i ob = Inr r'"
  shows "staged_in r' i = Some (case staged_in r i of None \<Rightarrow> ob
      | Some cur \<Rightarrow> if obs_observed_at ob < obs_observed_at cur then cur else ob)"
    "j \<noteq> i \<Longrightarrow> reg_states r' j = reg_states r j"
    "map_option is_context (reg_states r' i) = Some (Option.bind (reg_states r i) is_context)"
    "reg_known r' = reg_known r"
  using assms
  by (auto simp: stage_session_statistics_observation_def staged_in_def ensure_def put_state_def empty_state_def
      split: if_splits option.splits)

lemma stage_all_newest:
  assumes "stage_all r i obs = Inr r'" "staged_in r i = Some cur"
  shows "\<exists>best. staged_in r' i = Some best \<and> best \<in> set (cur # obs)
    \<and> obs_observed_at best = Max (obs_observed_at ` set (cur # obs))"
  using assms
proof (induction obs arbitrary: r cur)
  case (Cons ob obs)
  from Cons.prems(1) obtain r1 where r1: "stage_session_statistics_observation r i ob = Inr r1" "stage_all r1 i obs = Inr r'" by auto
  let ?w = "if obs_observed_at ob < obs_observed_at cur then cur else ob"
  have "staged_in r1 i = Some ?w" using stage_spec(1) [OF r1(1)] Cons.prems(2) by simp
  from Cons.IH [OF r1(2) this] obtain best where best: "staged_in r' i = Some best" "best \<in> set (?w # obs)"
    "obs_observed_at best = Max (obs_observed_at ` set (?w # obs))" by blast
  have "Max (insert (max a b) X) = Max (insert a (insert b X))" if "finite X" for a b :: instant and X
    using that by (cases "X = {}") (simp_all add: max.assoc)
  from this [of "obs_observed_at ` set obs" "obs_observed_at cur" "obs_observed_at ob"]
  have "Max (obs_observed_at ` set (?w # obs)) = Max (obs_observed_at ` set (cur # ob # obs))"
    by (auto simp: max_def split: if_splits)
  with best show ?case by (intro exI [of _ best]) (auto split: if_splits)
qed simp

text \<open>
  Staging never regresses: after any accepted list of observations for an instrument the pending
  one is a newest of them, whatever order they came in; staging touches no other instrument and
  no context. Only an observation of another instrument, or a different one of the same instant
  as the pending one, is refused.
\<close>

lemma staged_observation_is_newest:
  assumes "stage_all (mk_registry known) i obs = Inr r'" "obs \<noteq> []"
  shows "\<exists>best. staged_in r' i = Some best \<and> best \<in> set obs
    \<and> obs_observed_at best = Max (obs_observed_at ` set obs)
    \<and> (\<forall>j. j \<noteq> i \<longrightarrow> reg_states r' j = None)
    \<and> (\<forall>ob e. stage_session_statistics_observation r' i ob = Inl e \<longleftrightarrow>
          (obs_instrument ob \<noteq> i \<and> e = ValueError ''session statistics observation instrument must match the target'')
          \<or> (obs_instrument ob = i \<and> obs_observed_at ob = obs_observed_at best \<and> ob \<noteq> best
              \<and> e = ValueError ''conflicting session statistics observation at the same instant''))"
proof -
  obtain ob rest where obs: "obs = ob # rest" using assms(2) by (cases obs) simp_all
  from assms(1) obtain r1 where r1: "stage_session_statistics_observation (mk_registry known) i ob = Inr r1" "stage_all r1 i rest = Inr r'"
    by (auto simp: obs)
  have "staged_in r1 i = Some ob" using stage_spec(1) [OF r1(1)] by (simp add: staged_in_def mk_registry_def)
  from stage_all_newest [OF r1(2) this] obtain best where best: "staged_in r' i = Some best" "best \<in> set obs"
    "obs_observed_at best = Max (obs_observed_at ` set obs)" by (auto simp: obs)
  have frame: "reg_states r2 j = reg_states r j" if "stage_all r i xs = Inr r2" "j \<noteq> i" for xs r r2 j
    using that by (induction xs arbitrary: r) (auto dest: stage_spec(2))
  have others: "\<forall>j. j \<noteq> i \<longrightarrow> reg_states r' j = None" using frame [OF assms(1)] by (simp add: mk_registry_def)
  obtain st where st: "reg_states r' i = Some st" "is_staged st = Some best"
    using best(1) by (auto simp: staged_in_def bind_eq_Some_conv)
  have "stage_session_statistics_observation r' i ob = Inl e \<longleftrightarrow>
          (obs_instrument ob \<noteq> i \<and> e = ValueError ''session statistics observation instrument must match the target'')
          \<or> (obs_instrument ob = i \<and> obs_observed_at ob = obs_observed_at best \<and> ob \<noteq> best
              \<and> e = ValueError ''conflicting session statistics observation at the same instant'')" for ob e
    using st by (auto simp: stage_session_statistics_observation_def ensure_def)
  with best others show ?thesis by (intro exI [of _ best]) blast
qed

definition demo_observation :: "instant \<Rightarrow> session_statistics_observation" where
  "demo_observation t = \<lparr>obs_instrument = cash_equity ''NSE'' ''TCS'', obs_trading_date = 20000, obs_observed_at = t, obs_session_ohlc = example_ohlc\<rparr>"

lemma staged_observation_is_newest_example:
  "\<exists>r' best. stage_all (mk_registry [cash_equity ''NSE'' ''TCS'']) (cash_equity ''NSE'' ''TCS'') [demo_observation 9, demo_observation 4] = Inr r'
    \<and> staged_in r' (cash_equity ''NSE'' ''TCS'') = Some best \<and> obs_observed_at best = 9"
proof -
  obtain r' where r': "stage_all (mk_registry [cash_equity ''NSE'' ''TCS'']) (cash_equity ''NSE'' ''TCS'') [demo_observation 9, demo_observation 4] = Inr r'"
    by (simp add: stage_session_statistics_observation_def demo_observation_def mk_registry_def ensure_def put_state_def empty_state_def)
  from staged_observation_is_newest [OF this] show ?thesis using r' by (auto simp: demo_observation_def)
qed

end
