(* ===== verification/Ipc_Envelope.thy ===== *)
theory Ipc_Envelope
  imports Market_Data
begin

text \<open>
  The wire contract of the market-data IPC: event kinds and priorities (\<^verbatim>\<open>market_ipc/events.py\<close>), the
  versioned envelope with its validators (\<^verbatim>\<open>market_ipc/envelope.py\<close>), the bounded configuration
  (\<^verbatim>\<open>market_ipc/config.py\<close>) and the bounded deduplicator (\<^verbatim>\<open>market_ipc/dedup.py\<close>). JSON serialisation is
  pydantic's: \<open>encode_json\<close> stands for \<^verbatim>\<open>model_dump_json\<close> of a payload and is a parameter. Text is a
  list of single-byte characters, so that its length is its encoded size.
\<close>

section \<open>Event kinds\<close>

datatype ipc_payload =
    TickPayload tick
  | QuotePayload quote
  | ReferencePayload market_reference
  | ContinuityPayload feed_continuity_event

datatype event_kind = TICK | QUOTE | MARKET_REFERENCE | FEED_CONTINUITY

datatype event_priority = CORRECTNESS_CRITICAL | HIGH_FREQUENCY

definition event_kind_for :: "ipc_payload \<Rightarrow> event_kind" where
  "event_kind_for p =
     (case p of
        TickPayload _ \<Rightarrow> TICK
      | QuotePayload _ \<Rightarrow> QUOTE
      | ReferencePayload _ \<Rightarrow> MARKET_REFERENCE
      | ContinuityPayload _ \<Rightarrow> FEED_CONTINUITY)"

definition priority_for :: "event_kind \<Rightarrow> event_priority" where
  "priority_for k =
     (case k of
        MARKET_REFERENCE \<Rightarrow> CORRECTNESS_CRITICAL
      | FEED_CONTINUITY \<Rightarrow> CORRECTNESS_CRITICAL
      | TICK \<Rightarrow> HIGH_FREQUENCY
      | QUOTE \<Rightarrow> HIGH_FREQUENCY)"

definition all_kinds :: "event_kind list" where
  "all_kinds = [TICK, QUOTE, MARKET_REFERENCE, FEED_CONTINUITY]"

section \<open>The envelope\<close>

record market_event_envelope =
  schema_version :: int
  producer_id :: string
  producer_epoch :: int
  producer_sequence :: int
  produced_at :: instant
  env_event_kind :: event_kind
  env_trading_date :: date
  universe_version :: int
  instrument_identity :: string
  payload :: string

definition supported_schema_versions :: "int set" where
  "supported_schema_versions = {1}"

definition max_payload_bytes_ceiling :: int where
  "max_payload_bytes_ceiling = 262144"

text \<open>\<^verbatim>\<open>value.partition(":")\<close>: the text before the first colon, whether there is one, and the text after it.\<close>

definition partition_colon :: "string \<Rightarrow> string \<times> bool \<times> string" where
  "partition_colon s =
     (let before = takeWhile (\<lambda>c. c \<noteq> CHR '':'') s; rest = dropWhile (\<lambda>c. c \<noteq> CHR '':'') s
      in (before, rest \<noteq> [], tl rest))"

definition well_formed_identity :: "string \<Rightarrow> bool" where
  "well_formed_identity s =
     (case partition_colon s of (before, sep, after) \<Rightarrow> sep \<and> before \<noteq> [] \<and> after \<noteq> [])"

definition bounded_text :: "string \<Rightarrow> bool" where
  "bounded_text s \<longleftrightarrow> 1 \<le> length s \<and> length s \<le> 128"

text \<open>The field constraints and validators of the model, in the order of its fields.\<close>

definition validate_envelope :: "market_event_envelope \<Rightarrow> market_event_envelope res" where
  "validate_envelope e =
     (if schema_version e \<notin> supported_schema_versions then Inl (ValidationError ''unsupported schema_version'')
      else if \<not> bounded_text (producer_id e) then Inl (ValidationError ''producer_id length'')
      else if producer_epoch e < 0 then Inl (ValidationError ''producer_epoch ge 0'')
      else if producer_sequence e < 0 then Inl (ValidationError ''producer_sequence ge 0'')
      else if universe_version e < 0 then Inl (ValidationError ''universe_version ge 0'')
      else if \<not> bounded_text (instrument_identity e) then Inl (ValidationError ''instrument_identity length'')
      else if \<not> well_formed_identity (instrument_identity e)
      then Inl (ValidationError ''instrument_identity must be EXCHANGE:SYMBOL'')
      else if payload e = [] then Inl (ValidationError ''payload min_length'')
      else if max_payload_bytes_ceiling < int (length (payload e))
      then Inl (ValidationError ''payload exceeds maximum permitted size'')
      else Inr e)"

definition feed_wide_identity :: string where
  "feed_wide_identity = ''*:*''"

definition payload_instrument :: "ipc_payload \<Rightarrow> instrument option" where
  "payload_instrument p =
     (case p of
        TickPayload t \<Rightarrow> Some (tick_instrument t)
      | QuotePayload q \<Rightarrow> Some (quote_instrument q)
      | ReferencePayload r \<Rightarrow> Some (ref_instrument r)
      | ContinuityPayload _ \<Rightarrow> None)"

definition identity_string_for :: "ipc_payload \<Rightarrow> string" where
  "identity_string_for p =
     (case payload_instrument p of
        None \<Rightarrow> feed_wide_identity
      | Some i \<Rightarrow> exchange i @ '':'' @ symbol i)"

definition build_envelope ::
  "(ipc_payload \<Rightarrow> string) \<Rightarrow> ipc_payload \<Rightarrow> string \<Rightarrow> int \<Rightarrow> int \<Rightarrow> instant \<Rightarrow> date \<Rightarrow> int \<Rightarrow> market_event_envelope res" where
  "build_envelope encode_json p pid epoch sequence now d universe =
     validate_envelope
       \<lparr>schema_version = 1, producer_id = pid, producer_epoch = epoch, producer_sequence = sequence, produced_at = now,
        env_event_kind = event_kind_for p, env_trading_date = d, universe_version = universe,
        instrument_identity = identity_string_for p, payload = encode_json p\<rparr>"

text \<open>\<open>dump\<close> is \<^verbatim>\<open>envelope.model_dump_json().encode("utf-8")\<close>, \<open>parse\<close> the JSON and type part of \<^verbatim>\<open>model_validate_json\<close>.\<close>

definition encode_envelope :: "(market_event_envelope \<Rightarrow> string) \<Rightarrow> market_event_envelope \<Rightarrow> int \<Rightarrow> string res" where
  "encode_envelope dump e max_bytes =
     (let raw = dump e
      in if max_bytes < int (length raw) then Inl (ValueError ''encoded envelope exceeds max_bytes'') else Inr raw)"

definition decode_envelope :: "(string \<Rightarrow> market_event_envelope option) \<Rightarrow> string \<Rightarrow> market_event_envelope res" where
  "decode_envelope parse raw =
     (case parse raw of None \<Rightarrow> Inl (ValidationError ''malformed envelope'') | Some e \<Rightarrow> validate_envelope e)"

record event_identity =
  eid_producer :: string
  eid_epoch :: int
  eid_sequence :: int

definition identity_from_envelope :: "market_event_envelope \<Rightarrow> event_identity" where
  "identity_from_envelope e = \<lparr>eid_producer = producer_id e, eid_epoch = producer_epoch e, eid_sequence = producer_sequence e\<rparr>"

datatype universe_version_comparison = MATCH | OLDER | NEWER | UNKNOWN

definition compare_universe_version :: "int \<Rightarrow> int option \<Rightarrow> universe_version_comparison" where
  "compare_universe_version event_version current_version =
     (case current_version of
        None \<Rightarrow> UNKNOWN
      | Some current \<Rightarrow>
          (if event_version = current then MATCH else if event_version < current then OLDER else NEWER))"

definition is_stale_trading_date :: "date \<Rightarrow> date option \<Rightarrow> bool" where
  "is_stale_trading_date event_date current = (case current of None \<Rightarrow> False | Some d \<Rightarrow> event_date < d)"

section \<open>Configuration\<close>

record market_ipc_config =
  cfg_enabled :: bool
  cfg_stream_name :: string
  cfg_consumer_group :: string
  cfg_consumer_name :: string
  cfg_reference_key_prefix :: string
  cfg_health_key :: string
  cfg_maxlen :: int
  cfg_read_count :: int
  cfg_block_ms :: int
  cfg_claim_idle_ms :: int
  cfg_dedup_max_entries :: int
  cfg_max_payload_bytes :: int
  cfg_reference_ttl_seconds :: int

definition default_ipc_config :: market_ipc_config where
  "default_ipc_config =
     \<lparr>cfg_enabled = False, cfg_stream_name = ''md:events'', cfg_consumer_group = ''backend'', cfg_consumer_name = ''backend-0'',
      cfg_reference_key_prefix = ''md:reference'', cfg_health_key = ''md:health'', cfg_maxlen = 100000, cfg_read_count = 100,
      cfg_block_ms = 5000, cfg_claim_idle_ms = 30000, cfg_dedup_max_entries = 100000, cfg_max_payload_bytes = 65536,
      cfg_reference_ttl_seconds = 604800\<rparr>"

definition within_limits :: "int \<Rightarrow> int \<Rightarrow> int \<Rightarrow> bool" where
  "within_limits lo hi v \<longleftrightarrow> lo \<le> v \<and> v \<le> hi"

text \<open>\<open>isspace\<close> is \<^verbatim>\<open>str.isspace\<close> on one character.\<close>

definition validate_ipc_config :: "(char \<Rightarrow> bool) \<Rightarrow> market_ipc_config \<Rightarrow> market_ipc_config res" where
  "validate_ipc_config isspace c =
     (let names = [cfg_stream_name c, cfg_consumer_group c, cfg_consumer_name c, cfg_reference_key_prefix c, cfg_health_key c]
      in if \<not> list_all bounded_text names then Inl (ValidationError ''name length'')
         else if list_ex (list_ex isspace) names
         then Inl (ValidationError ''Redis key/group/consumer names must not contain whitespace'')
         else if \<not> (within_limits 1000 10000000 (cfg_maxlen c) \<and> within_limits 1 10000 (cfg_read_count c)
                \<and> within_limits 0 60000 (cfg_block_ms c) \<and> within_limits 1000 600000 (cfg_claim_idle_ms c)
                \<and> within_limits 1000 10000000 (cfg_dedup_max_entries c) \<and> within_limits 256 262144 (cfg_max_payload_bytes c)
                \<and> within_limits 3600 2592000 (cfg_reference_ttl_seconds c))
         then Inl (ValidationError ''value out of bounds'')
         else Inr c)"

section \<open>Bounded deduplication\<close>

text \<open>The \<^verbatim>\<open>OrderedDict\<close> is its list of keys, oldest first.\<close>

record deduplicator =
  dd_max_entries :: nat
  dd_seen :: "event_identity list"

definition mk_deduplicator :: "int \<Rightarrow> deduplicator res" where
  "mk_deduplicator max_entries =
     (if max_entries < 1 then Inl (ValueError ''max_entries must be positive'')
      else Inr \<lparr>dd_max_entries = nat max_entries, dd_seen = []\<rparr>)"

definition evict :: "deduplicator \<Rightarrow> deduplicator" where
  "evict dd = (if dd_max_entries dd < length (dd_seen dd) then dd\<lparr>dd_seen := tl (dd_seen dd)\<rparr> else dd)"

definition dd_contains :: "deduplicator \<Rightarrow> event_identity \<Rightarrow> bool" where
  "dd_contains dd x \<longleftrightarrow> x \<in> set (dd_seen dd)"

definition dd_record :: "deduplicator \<Rightarrow> event_identity \<Rightarrow> deduplicator" where
  "dd_record dd x = evict (dd\<lparr>dd_seen := removeAll x (dd_seen dd) @ [x]\<rparr>)"

definition dd_is_duplicate :: "deduplicator \<Rightarrow> event_identity \<Rightarrow> bool \<times> deduplicator" where
  "dd_is_duplicate dd x =
     (if x \<in> set (dd_seen dd) then (True, dd\<lparr>dd_seen := removeAll x (dd_seen dd) @ [x]\<rparr>)
      else (False, evict (dd\<lparr>dd_seen := dd_seen dd @ [x]\<rparr>)))"

definition dd_seen_envelope :: "deduplicator \<Rightarrow> market_event_envelope \<Rightarrow> bool \<times> deduplicator" where
  "dd_seen_envelope dd e = dd_is_duplicate dd (identity_from_envelope e)"

section \<open>What the deduplicator remembers\<close>

text \<open>
  The contract its clients rely on: membership after recording, and that the memory is exact while
  it has not overflowed. \<open>recorded\<close> is the list of all identities recorded so far.
\<close>

locale dedup_window =
  fixes contains :: "'d \<Rightarrow> 'x \<Rightarrow> bool" and record_id :: "'d \<Rightarrow> 'x \<Rightarrow> 'd" and empty :: 'd and capacity :: nat
  assumes remembers: "contains (foldl record_id empty xs) x \<longleftrightarrow> x \<in> set (last_n capacity (remdups xs))"
begin

lemma no_false_positive: "contains (foldl record_id empty xs) x \<Longrightarrow> x \<in> set xs"
  unfolding remembers by (drule set_last_nD) simp

lemma exact_below_capacity:
  assumes "card (set xs) \<le> capacity"
  shows "contains (foldl record_id empty xs) x \<longleftrightarrow> x \<in> set xs"
proof -
  have "length (remdups xs) \<le> capacity" using assms by (simp add: length_remdups_card_conv)
  then have "last_n capacity (remdups xs) = remdups xs" by (simp add: last_n_def)
  then show ?thesis using remembers by simp
qed

lemma just_recorded: "0 < capacity \<Longrightarrow> contains (foldl record_id empty (xs @ [x])) x"
  unfolding remembers by (simp add: remdups_snoc last_n_append_one)

end

lemma dd_record_window:
  assumes "dd_seen dd = last_n (dd_max_entries dd) (remdups xs)" "0 < dd_max_entries dd"
  shows "dd_seen (dd_record dd x) = last_n (dd_max_entries dd) (remdups (xs @ [x]))"
proof -
  let ?n = "dd_max_entries dd" and ?r = "remdups xs"
  have snoc: "remdups (xs @ [x]) = removeAll x ?r @ [x]" by (rule remdups_snoc)
  have target: "last_n ?n (removeAll x ?r @ [x]) = last_n (?n - 1) (removeAll x ?r) @ [x]"
    using assms(2) by (rule last_n_append_one)
  show ?thesis
  proof (cases "x \<in> set (last_n ?n ?r)")
    case True
    then have "removeAll x (last_n ?n ?r) = last_n (?n - 1) (removeAll x ?r)" by (intro removeAll_last_n) simp_all
    moreover have "\<not> ?n < length (last_n (?n - 1) (removeAll x ?r) @ [x])" using assms(2) by auto
    ultimately show ?thesis
      using assms(1) by (simp only: dd_record_def evict_def snoc target) simp
  next
    case False
    then have same: "removeAll x (last_n ?n ?r) = last_n ?n ?r" by simp
    show ?thesis
    proof (cases "?n \<le> length ?r")
      case True
      then have "last_n ?n (removeAll x ?r) = last_n ?n ?r" "last_n (?n - 1) ?r = tl (last_n ?n ?r)"
        using False last_n_removeAll tl_last_n by metis+
      moreover have "last_n (?n - 1) (removeAll x ?r) = last_n (?n - 1) ?r"
      proof (rule last_n_removeAll)
        show "x \<notin> set (last_n (?n - 1) ?r)"
          using False True tl_last_n [OF True] by (metis list.set_sel(2) last_n_def empty_iff list.set(1) tl_Nil)
      qed (use True in simp)
      moreover have "last_n ?n ?r \<noteq> []" using True assms(2) by (metis length_last_n list.size(3) min.absorb1 not_less_zero)
      ultimately show ?thesis
        using assms True same by (simp add: dd_record_def evict_def snoc target)
    next
      case len: False
      then have "last_n ?n ?r = ?r" "last_n (?n - 1) (removeAll x ?r) = removeAll x ?r"
        using length_removeAll_less_eq [of x ?r] by (simp_all del: length_removeAll_less_eq)
      then show ?thesis
        using assms len same by (simp add: dd_record_def evict_def snoc target)
    qed
  qed
qed

lemma dd_max_record [simp]: "dd_max_entries (dd_record dd x) = dd_max_entries dd"
  by (simp add: dd_record_def evict_def)

lemma dd_records_window:
  "0 < n \<Longrightarrow> dd_seen (foldl dd_record \<lparr>dd_max_entries = n, dd_seen = []\<rparr> xs) = last_n n (remdups xs)
     \<and> dd_max_entries (foldl dd_record \<lparr>dd_max_entries = n, dd_seen = []\<rparr> xs) = n"
proof (induction xs rule: rev_induct)
  case (snoc x xs)
  then show ?case using dd_record_window [of "foldl dd_record \<lparr>dd_max_entries = n, dd_seen = []\<rparr> xs" xs x] by simp
qed simp

interpretation dd: dedup_window dd_contains dd_record "\<lparr>dd_max_entries = Suc n, dd_seen = []\<rparr>" "Suc n" for n
  by unfold_locales (simp add: dd_contains_def dd_records_window)

lemma dd_is_duplicate_eq:
  assumes "length (dd_seen dd) \<le> dd_max_entries dd" "distinct (dd_seen dd)"
  shows "dd_is_duplicate dd x = (dd_contains dd x, dd_record dd x)"
proof (cases "x \<in> set (dd_seen dd)")
  case True
  then have "length (removeAll x (dd_seen dd) @ [x]) = length (dd_seen dd)"
    using assms(2) length_pos_if_in_set [OF True] by (simp add: distinct_remove1_removeAll [symmetric] length_remove1)
  with True assms(1) show ?thesis by (simp add: dd_is_duplicate_def dd_contains_def dd_record_def evict_def)
qed (simp add: dd_is_duplicate_def dd_contains_def dd_record_def)

text \<open>
  The deduplicator is exactly a window over the most recently recorded identities: after any
  history of records it holds the newest \<open>max_entries\<close> distinct identities in order of their last
  record, so its size is bounded, it never reports an identity that was not recorded, it reports
  every identity still in the window, and the combined test-and-record call agrees with the
  separate test and record.
\<close>

lemma dedup_is_recency_window:
  assumes "mk_deduplicator max_entries = Inr dd0" "dd = foldl dd_record dd0 ids"
  shows "dd_seen dd = last_n (nat max_entries) (remdups ids)
    \<and> length (dd_seen dd) \<le> nat max_entries
    \<and> (dd_contains dd x \<longleftrightarrow> x \<in> set (last_n (nat max_entries) (remdups ids)))
    \<and> dd_is_duplicate dd x = (dd_contains dd x, dd_record dd x)"
proof -
  from assms(1) have n: "dd0 = \<lparr>dd_max_entries = nat max_entries, dd_seen = []\<rparr>" "0 < nat max_entries"
    by (auto simp: mk_deduplicator_def split: if_splits)
  have seen: "dd_seen dd = last_n (nat max_entries) (remdups ids)" "dd_max_entries dd = nat max_entries"
    using dd_records_window [OF n(2)] by (simp_all add: assms(2) n(1))
  have "distinct (last_n (nat max_entries) (remdups ids))" by (simp add: last_n_def)
  with seen show ?thesis using dd_is_duplicate_eq [of dd x] by (simp add: dd_contains_def)
qed

definition demo_identity :: "int \<Rightarrow> event_identity" where
  "demo_identity n = \<lparr>eid_producer = ''ingest'', eid_epoch = 1, eid_sequence = n\<rparr>"

lemma dedup_is_recency_window_example:
  "\<not> dd_contains (foldl dd_record \<lparr>dd_max_entries = 2, dd_seen = []\<rparr> (map demo_identity [1, 2, 1, 3])) (demo_identity 2)
    \<and> dd_contains (foldl dd_record \<lparr>dd_max_entries = 2, dd_seen = []\<rparr> (map demo_identity [1, 2, 1, 3])) (demo_identity 1)"
proof -
  have dd: "mk_deduplicator 2 = Inr \<lparr>dd_max_entries = 2, dd_seen = []\<rparr>" by (simp add: mk_deduplicator_def)
  show ?thesis
    using dedup_is_recency_window [OF dd refl, of "map demo_identity [1, 2, 1, 3]" "demo_identity 2"]
      dedup_is_recency_window [OF dd refl, of "map demo_identity [1, 2, 1, 3]" "demo_identity 1"]
    by (simp add: last_n_def demo_identity_def)
qed

end
