(* ===== verification/Ipc_Consumer.thy ===== *)
theory Ipc_Consumer
  imports Ipc_Envelope
begin

text \<open>
  The shadow consumer of the event stream (\<^verbatim>\<open>market_ipc/consumer.py\<close>): decode, gate, deduplicate, apply,
  acknowledge. JSON and pydantic are the record \<open>wire\<close>; what Redis, the sink, the clock and the
  two authorities answer during one entry is the record \<open>surroundings\<close>. An exception the handler
  does not catch is the error of its result.
\<close>

datatype message_outcome =
    APPLIED | DUPLICATE_MESSAGE | STALE_TRADING_DATE | FUTURE_TRADING_DATE | OLDER_UNIVERSE | NEWER_UNIVERSE
  | UNKNOWN_UNIVERSE | ENVELOPE_DECODE_FAILED | UNSUPPORTED_SCHEMA | PAYLOAD_DECODE_FAILED
  | EVENT_KIND_MISMATCH | SINK_FAILED | ACK_FAILED

definition terminal_ack_outcomes :: "message_outcome set" where
  "terminal_ack_outcomes =
     {APPLIED, DUPLICATE_MESSAGE, STALE_TRADING_DATE, FUTURE_TRADING_DATE, OLDER_UNIVERSE, NEWER_UNIVERSE,
      UNKNOWN_UNIVERSE, ENVELOPE_DECODE_FAILED, UNSUPPORTED_SCHEMA, PAYLOAD_DECODE_FAILED, EVENT_KIND_MISMATCH}"

text \<open>A parsed JSON value as far as the membership test of the schema version looks at it.\<close>

datatype json_value =
    JNull | JBool bool | JInt int | JFloat rat | JString string
  | JArray "json_value list" | JObject "(string \<times> json_value) list"

record wire =
  json_loads :: "string \<Rightarrow> json_value option"
  parse_envelope :: "string \<Rightarrow> market_event_envelope option"
  decode_payload :: "event_kind \<Rightarrow> string \<Rightarrow> ipc_payload option"

record surroundings =
  env_now :: instant
  env_current_date :: "date option"
  env_current_universe :: "int option"
  env_sink_raises :: bool
  env_ack_fails :: bool

record consumer_counters =
  cc_received :: int
  cc_claimed :: int
  cc_applied :: int
  cc_acked :: int
  cc_duplicate :: int
  cc_envelope_decode_failures :: int
  cc_payload_decode_failures :: int
  cc_unsupported_schema :: int
  cc_event_kind_mismatch :: int
  cc_stale_trading_date :: int
  cc_future_trading_date :: int
  cc_older_universe :: int
  cc_newer_universe :: int
  cc_unknown_universe :: int
  cc_sink_failures :: int
  cc_ack_failures :: int
  cc_read_failures :: int

definition new_consumer_counters :: consumer_counters where
  "new_consumer_counters =
     \<lparr>cc_received = 0, cc_claimed = 0, cc_applied = 0, cc_acked = 0, cc_duplicate = 0, cc_envelope_decode_failures = 0,
      cc_payload_decode_failures = 0, cc_unsupported_schema = 0, cc_event_kind_mismatch = 0, cc_stale_trading_date = 0,
      cc_future_trading_date = 0, cc_older_universe = 0, cc_newer_universe = 0, cc_unknown_universe = 0,
      cc_sink_failures = 0, cc_ack_failures = 0, cc_read_failures = 0\<rparr>"

text \<open>
  The consumer; \<open>co_applied\<close> lists what the sink has been handed successfully and \<open>co_acks\<close> the
  message ids acknowledged, both oldest first.
\<close>

record event_consumer =
  co_dedup :: deduplicator
  co_counters :: consumer_counters
  co_running :: bool
  co_last_received_at :: "instant option"
  co_last_applied_at :: "instant option"
  co_last_ack_at :: "instant option"
  co_last_error_at :: "instant option"
  co_last_event_age :: "timedelta option"
  co_applied :: "(market_event_envelope \<times> ipc_payload) list"
  co_acks :: "string list"

definition blank_consumer :: "deduplicator \<Rightarrow> event_consumer" where
  "blank_consumer dd =
     \<lparr>co_dedup = dd, co_counters = new_consumer_counters, co_running = False, co_last_received_at = None,
      co_last_applied_at = None, co_last_ack_at = None, co_last_error_at = None, co_last_event_age = None,
      co_applied = [], co_acks = []\<rparr>"

definition mk_consumer :: "market_ipc_config \<Rightarrow> event_consumer res" where
  "mk_consumer c = res_bind (mk_deduplicator (cfg_dedup_max_entries c)) (\<lambda>dd. Inr (blank_consumer dd))"

definition consumer_start :: "event_consumer \<Rightarrow> event_consumer" where
  "consumer_start c = c\<lparr>co_running := True\<rparr>"

definition finalize ::
  "surroundings \<Rightarrow> event_consumer \<Rightarrow> string \<Rightarrow> message_outcome \<Rightarrow> message_outcome \<times> event_consumer" where
  "finalize s c message_id outcome =
     (if outcome \<notin> terminal_ack_outcomes then (outcome, c)
      else if env_ack_fails s
      then (ACK_FAILED,
            c\<lparr>co_counters := (co_counters c)\<lparr>cc_ack_failures := cc_ack_failures (co_counters c) + 1\<rparr>,
              co_last_error_at := Some (env_now s)\<rparr>)
      else (outcome,
            c\<lparr>co_counters := (co_counters c)\<lparr>cc_acked := cc_acked (co_counters c) + 1\<rparr>,
              co_last_ack_at := Some (env_now s), co_acks := co_acks c @ [message_id]\<rparr>))"

text \<open>
  \<^verbatim>\<open>version not in SUPPORTED_SCHEMA_VERSIONS\<close>: membership in a frozenset hashes the value, which
  raises for lists and dicts; \<^verbatim>\<open>True\<close> and \<^verbatim>\<open>1.0\<close> are equal to 1.
\<close>

definition version_supported :: "json_value \<Rightarrow> bool res" where
  "version_supported v =
     (case v of
        JArray _ \<Rightarrow> Inl (TypeError ''unhashable type: list'')
      | JObject _ \<Rightarrow> Inl (TypeError ''unhashable type: dict'')
      | JInt n \<Rightarrow> Inr (n \<in> supported_schema_versions)
      | JBool b \<Rightarrow> Inr ((if b then 1 else 0) \<in> supported_schema_versions)
      | JFloat q \<Rightarrow> Inr (\<exists>n \<in> supported_schema_versions. q = of_int n)
      | _ \<Rightarrow> Inr False)"

definition bump_envelope_failure :: "event_consumer \<Rightarrow> event_consumer" where
  "bump_envelope_failure c =
     c\<lparr>co_counters := (co_counters c)\<lparr>cc_envelope_decode_failures := cc_envelope_decode_failures (co_counters c) + 1\<rparr>\<rparr>"

definition bump_unsupported_schema :: "event_consumer \<Rightarrow> event_consumer" where
  "bump_unsupported_schema c =
     c\<lparr>co_counters := (co_counters c)\<lparr>cc_unsupported_schema := cc_unsupported_schema (co_counters c) + 1\<rparr>\<rparr>"

text \<open>\<^verbatim>\<open>_decode_envelope\<close>: the envelope or the outcome that rejects the entry, with the counter it bumps.\<close>

definition consumer_decode_envelope ::
  "wire \<Rightarrow> event_consumer \<Rightarrow> string option \<Rightarrow> ((market_event_envelope option \<times> message_outcome) res \<times> event_consumer)" where
  "consumer_decode_envelope w c raw =
     (case raw of
        None \<Rightarrow> (Inr (None, ENVELOPE_DECODE_FAILED), bump_envelope_failure c)
      | Some bytes \<Rightarrow>
          (case json_loads w bytes of
             None \<Rightarrow> (Inr (None, ENVELOPE_DECODE_FAILED), bump_envelope_failure c)
           | Some parsed \<Rightarrow>
               (let version = (case parsed of JObject members \<Rightarrow> map_of members ''schema_version'' | _ \<Rightarrow> None);
                    supported = (case version of None \<Rightarrow> Inr True | Some JNull \<Rightarrow> Inr True | Some v \<Rightarrow> version_supported v)
                in case supported of
                     Inl err \<Rightarrow> (Inl err, c)
                   | Inr False \<Rightarrow> (Inr (None, UNSUPPORTED_SCHEMA), bump_unsupported_schema c)
                   | Inr True \<Rightarrow>
                       (case decode_envelope (parse_envelope w) bytes of
                          Inr e \<Rightarrow> (Inr (Some e, APPLIED), c)
                        | Inl _ \<Rightarrow> (Inr (None, ENVELOPE_DECODE_FAILED), bump_envelope_failure c)))))"

definition count_universe :: "event_consumer \<Rightarrow> universe_version_comparison \<Rightarrow> message_outcome \<times> event_consumer" where
  "count_universe c comparison =
     (let cc = co_counters c
      in if comparison = OLDER then (OLDER_UNIVERSE, c\<lparr>co_counters := cc\<lparr>cc_older_universe := cc_older_universe cc + 1\<rparr>\<rparr>)
         else if comparison = NEWER then (NEWER_UNIVERSE, c\<lparr>co_counters := cc\<lparr>cc_newer_universe := cc_newer_universe cc + 1\<rparr>\<rparr>)
         else (UNKNOWN_UNIVERSE, c\<lparr>co_counters := cc\<lparr>cc_unknown_universe := cc_unknown_universe cc + 1\<rparr>\<rparr>))"

definition universe_gate ::
  "surroundings \<Rightarrow> event_consumer \<Rightarrow> market_event_envelope \<Rightarrow> message_outcome option \<times> event_consumer" where
  "universe_gate s c e =
     (let comparison = compare_universe_version (universe_version e) (env_current_universe s)
      in if comparison = MATCH then (None, c)
         else case count_universe c comparison of (out, c') \<Rightarrow> (Some out, c'))"

definition gate ::
  "surroundings \<Rightarrow> event_consumer \<Rightarrow> market_event_envelope \<Rightarrow> message_outcome option \<times> event_consumer" where
  "gate s c e =
     (let cc = co_counters c
      in case env_current_date s of
           None \<Rightarrow> universe_gate s c e
         | Some d \<Rightarrow>
             (if env_trading_date e < d
              then (Some STALE_TRADING_DATE, c\<lparr>co_counters := cc\<lparr>cc_stale_trading_date := cc_stale_trading_date cc + 1\<rparr>\<rparr>)
              else if d < env_trading_date e
              then (Some FUTURE_TRADING_DATE, c\<lparr>co_counters := cc\<lparr>cc_future_trading_date := cc_future_trading_date cc + 1\<rparr>\<rparr>)
              else universe_gate s c e))"

definition decodes_under_other_kind :: "wire \<Rightarrow> market_event_envelope \<Rightarrow> bool" where
  "decodes_under_other_kind w e =
     list_ex (\<lambda>other. other \<noteq> env_event_kind e \<and> decode_payload w other (payload e) \<noteq> None) all_kinds"

definition consumer_decode_payload ::
  "wire \<Rightarrow> event_consumer \<Rightarrow> market_event_envelope \<Rightarrow> ipc_payload option \<times> message_outcome \<times> event_consumer" where
  "consumer_decode_payload w c e =
     (let cc = co_counters c
      in case decode_payload w (env_event_kind e) (payload e) of
           Some p \<Rightarrow> (Some p, APPLIED, c)
         | None \<Rightarrow>
             (if decodes_under_other_kind w e
              then (None, EVENT_KIND_MISMATCH, c\<lparr>co_counters := cc\<lparr>cc_event_kind_mismatch := cc_event_kind_mismatch cc + 1\<rparr>\<rparr>)
              else (None, PAYLOAD_DECODE_FAILED,
                    c\<lparr>co_counters := cc\<lparr>cc_payload_decode_failures := cc_payload_decode_failures cc + 1\<rparr>\<rparr>)))"

definition apply_and_ack ::
  "surroundings \<Rightarrow> event_consumer \<Rightarrow> string \<Rightarrow> market_event_envelope \<Rightarrow> ipc_payload \<Rightarrow> event_identity \<Rightarrow>
   message_outcome \<times> event_consumer" where
  "apply_and_ack s c message_id e p ident =
     (let cc = co_counters c
      in if env_sink_raises s
         then (SINK_FAILED, c\<lparr>co_counters := cc\<lparr>cc_sink_failures := cc_sink_failures cc + 1\<rparr>, co_last_error_at := Some (env_now s)\<rparr>)
         else finalize s
                (c\<lparr>co_applied := co_applied c @ [(e, p)], co_dedup := dd_record (co_dedup c) ident,
                   co_counters := cc\<lparr>cc_applied := cc_applied cc + 1\<rparr>, co_last_applied_at := Some (env_now s)\<rparr>)
                message_id APPLIED)"

definition handle ::
  "wire \<Rightarrow> surroundings \<Rightarrow> event_consumer \<Rightarrow> string \<times> string option \<Rightarrow> bool \<Rightarrow> message_outcome res \<times> event_consumer" where
  "handle w s c entry claimed =
     (case entry of (message_id, raw) \<Rightarrow>
        (let cc = co_counters c;
             c1 = c\<lparr>co_counters := (if claimed then cc\<lparr>cc_claimed := cc_claimed cc + 1\<rparr> else cc\<lparr>cc_received := cc_received cc + 1\<rparr>),
                    co_last_received_at := Some (env_now s)\<rparr>;
             done = (\<lambda>(out, c'). (Inr out, c'))
         in case consumer_decode_envelope w c1 raw of
              (Inl err, c2) \<Rightarrow> (Inl err, c2)
            | (Inr (None, out), c2) \<Rightarrow> done (finalize s c2 message_id out)
            | (Inr (Some e, _), c2) \<Rightarrow>
                (let c3 = c2\<lparr>co_last_event_age := Some (env_now s - produced_at e)\<rparr>
                 in case gate s c3 e of
                      (Some out, c4) \<Rightarrow> done (finalize s c4 message_id out)
                    | (None, c4) \<Rightarrow>
                        (let ident = identity_from_envelope e; c4c = co_counters c4
                         in if dd_contains (co_dedup c4) ident
                            then done (finalize s (c4\<lparr>co_counters := c4c\<lparr>cc_duplicate := cc_duplicate c4c + 1\<rparr>\<rparr>)
                                         message_id DUPLICATE_MESSAGE)
                            else case consumer_decode_payload w c4 e of
                              (None, out, c5) \<Rightarrow> done (finalize s c5 message_id out)
                            | (Some p, _, c5) \<Rightarrow> done (apply_and_ack s c5 message_id e p ident)))))"

text \<open>
  One bounded cycle. The claim and the read either fail with a Redis error (\<open>None\<close>) or return
  entries, each with the surroundings it meets; an uncaught exception ends the cycle.
\<close>

definition record_read_failure :: "instant \<Rightarrow> event_consumer \<Rightarrow> event_consumer" where
  "record_read_failure now c =
     c\<lparr>co_counters := (co_counters c)\<lparr>cc_read_failures := cc_read_failures (co_counters c) + 1\<rparr>,
       co_last_error_at := Some now\<rparr>"

fun handle_all ::
  "wire \<Rightarrow> bool \<Rightarrow> event_consumer \<Rightarrow> (surroundings \<times> string \<times> string option) list \<Rightarrow> message_outcome list res \<times> event_consumer" where
  "handle_all w claimed c [] = (Inr [], c)"
| "handle_all w claimed c ((s, entry) # rest) =
     (case handle w s c entry claimed of
        (Inl err, c') \<Rightarrow> (Inl err, c')
      | (Inr out, c') \<Rightarrow>
          (case handle_all w claimed c' rest of
             (Inl err, c'') \<Rightarrow> (Inl err, c'')
           | (Inr outs, c'') \<Rightarrow> (Inr (out # outs), c'')))"

definition poll_once ::
  "wire \<Rightarrow> instant \<Rightarrow> event_consumer \<Rightarrow> (surroundings \<times> string \<times> string option) list option \<Rightarrow>
   (surroundings \<times> string \<times> string option) list option \<Rightarrow> unit res \<times> event_consumer" where
  "poll_once w now c claim_page new_entries =
     (case claim_page of
        None \<Rightarrow> (Inr (), record_read_failure now c)
      | Some claimed \<Rightarrow>
          (case handle_all w True c claimed of
             (Inl err, c') \<Rightarrow> (Inl err, c')
           | (Inr _, c') \<Rightarrow>
               (case new_entries of
                  None \<Rightarrow> (Inr (), record_read_failure now c')
                | Some entries \<Rightarrow>
                    (case handle_all w False c' entries of
                       (Inl err, c'') \<Rightarrow> (Inl err, c'')
                     | (Inr _, c'') \<Rightarrow> (Inr (), c'')))))"

section \<open>The reference sink\<close>

record recording_sink =
  rs_max_entries :: nat
  rs_events :: "(market_event_envelope \<times> ipc_payload) list"
  rs_applied_total :: int

definition sink_apply :: "recording_sink \<Rightarrow> market_event_envelope \<Rightarrow> ipc_payload \<Rightarrow> recording_sink" where
  "sink_apply rs e p =
     rs\<lparr>rs_events := push_bounded (rs_max_entries rs) (e, p) (rs_events rs), rs_applied_total := rs_applied_total rs + 1\<rparr>"

section \<open>The effect of one entry\<close>

text \<open>
  The part of the consumer that decides what is lost or repeated (what is remembered, applied and
  acknowledged), and the specification of one entry on it.
\<close>

type_synonym delivery_memory = "deduplicator \<times> (market_event_envelope \<times> ipc_payload) list \<times> string list"

definition memory :: "event_consumer \<Rightarrow> delivery_memory" where
  "memory c = (co_dedup c, co_applied c, co_acks c)"

definition decode_entry :: "wire \<Rightarrow> string option \<Rightarrow> (market_event_envelope option \<times> message_outcome) res" where
  "decode_entry w raw = fst (consumer_decode_envelope w (blank_consumer \<lparr>dd_max_entries = 0, dd_seen = []\<rparr>) raw)"

definition in_session :: "surroundings \<Rightarrow> market_event_envelope \<Rightarrow> bool" where
  "in_session s e \<longleftrightarrow>
     (case env_current_date s of None \<Rightarrow> True | Some d \<Rightarrow> env_trading_date e = d)
     \<and> env_current_universe s = Some (universe_version e)"

definition entry_spec :: "wire \<Rightarrow> surroundings \<Rightarrow> string \<times> string option \<Rightarrow> delivery_memory \<Rightarrow> delivery_memory" where
  "entry_spec w s entry m =
     (case (entry, m) of ((mid, raw), (dd, applied, acks)) \<Rightarrow>
        (let acked = (if env_ack_fails s then acks else acks @ [mid])
         in case decode_entry w raw of
              Inl _ \<Rightarrow> m
            | Inr (None, _) \<Rightarrow> (dd, applied, acked)
            | Inr (Some e, _) \<Rightarrow>
                (if \<not> in_session s e \<or> dd_contains dd (identity_from_envelope e) then (dd, applied, acked)
                 else case decode_payload w (env_event_kind e) (payload e) of
                   None \<Rightarrow> (dd, applied, acked)
                 | Some p \<Rightarrow> (if env_sink_raises s then m
                              else (dd_record dd (identity_from_envelope e), applied @ [(e, p)], acked)))))"

text \<open>Arrivals, decided entries, sink failures and acknowledgement attempts.\<close>

definition tally :: "consumer_counters \<Rightarrow> int \<times> int \<times> int \<times> int" where
  "tally cc =
     (cc_received cc + cc_claimed cc,
      cc_applied cc + cc_duplicate cc + cc_envelope_decode_failures cc + cc_payload_decode_failures cc + cc_unsupported_schema cc
        + cc_event_kind_mismatch cc + cc_stale_trading_date cc + cc_future_trading_date cc + cc_older_universe cc
        + cc_newer_universe cc + cc_unknown_universe cc,
      cc_sink_failures cc, cc_acked cc + cc_ack_failures cc)"

definition decided_once :: "event_consumer \<Rightarrow> event_consumer \<Rightarrow> bool" where
  "decided_once c c' \<longleftrightarrow> (case tally (co_counters c) of (a, h, f, k) \<Rightarrow> tally (co_counters c') = (a, h + 1, f, k))"

definition arrived_once :: "event_consumer \<Rightarrow> event_consumer \<Rightarrow> bool" where
  "arrived_once c c' \<longleftrightarrow> (case tally (co_counters c) of (a, h, f, k) \<Rightarrow> tally (co_counters c') = (a + 1, h, f, k))"

lemma decode_envelope_shape:
  assumes "consumer_decode_envelope w c raw = (r, c')"
  shows "r = decode_entry w raw" "memory c' = memory c"
    and "r = Inr (None, out) \<Longrightarrow> out \<in> terminal_ack_outcomes" "r = Inr (Some e, out) \<Longrightarrow> c' = c"
    and "r = Inr (None, out) \<Longrightarrow> decided_once c c'" "r = Inl err \<Longrightarrow> c' = c"
  using assms
  by (auto simp: decode_entry_def memory_def decided_once_def tally_def consumer_decode_envelope_def bump_envelope_failure_def bump_unsupported_schema_def
      terminal_ack_outcomes_def Let_def split: option.splits sum.splits bool.splits)

lemma gate_shape:
  assumes "gate s c e = (r, c')"
  shows "memory c' = memory c" "r = None \<longleftrightarrow> in_session s e" "r = Some out \<Longrightarrow> out \<in> terminal_ack_outcomes" "r = None \<Longrightarrow> c' = c"
    "r = Some out \<Longrightarrow> decided_once c c'"
  using assms
  by (auto simp: decided_once_def tally_def gate_def universe_gate_def count_universe_def compare_universe_version_def memory_def in_session_def
      terminal_ack_outcomes_def Let_def split: option.splits if_splits prod.splits)

lemma decode_payload_shape:
  assumes "consumer_decode_payload w c e = (p, out, c')"
  shows "memory c' = memory c" "p = decode_payload w (env_event_kind e) (payload e)" "p = None \<Longrightarrow> out \<in> terminal_ack_outcomes"
    "p \<noteq> None \<Longrightarrow> c' = c" "p = None \<Longrightarrow> decided_once c c'"
  using assms
  by (cases "decode_payload w (env_event_kind e) (payload e)";
      auto simp: consumer_decode_payload_def memory_def decided_once_def tally_def terminal_ack_outcomes_def Let_def split: if_splits)+

lemma finalize_memory:
  assumes "out \<in> terminal_ack_outcomes"
  shows "co_dedup (snd (finalize s c mid out)) = co_dedup c" "co_applied (snd (finalize s c mid out)) = co_applied c"
    "co_acks (snd (finalize s c mid out)) = (if env_ack_fails s then co_acks c else co_acks c @ [mid])"
  using assms by (simp_all add: finalize_def)

lemma apply_and_ack_memory:
  "memory (snd (apply_and_ack s c mid e p ident)) =
     (if env_sink_raises s then memory c
      else (dd_record (co_dedup c) ident, co_applied c @ [(e, p)], if env_ack_fails s then co_acks c else co_acks c @ [mid]))"
  by (simp add: apply_and_ack_def finalize_memory terminal_ack_outcomes_def memory_def Let_def)

definition reaches_sink :: "wire \<Rightarrow> surroundings \<Rightarrow> string option \<Rightarrow> deduplicator \<Rightarrow> market_event_envelope \<Rightarrow> ipc_payload \<Rightarrow> bool" where
  "reaches_sink w s raw dd e p \<longleftrightarrow>
     (\<exists>out. decode_entry w raw = Inr (Some e, out)) \<and> in_session s e \<and> \<not> dd_contains dd (identity_from_envelope e)
     \<and> decode_payload w (env_event_kind e) (payload e) = Some p"

text \<open>An entry either escapes with an exception, is rejected with a terminal outcome, or reaches the sink.\<close>

lemma handle_cases:
  obtains (crash) err c' where "decode_entry w raw = Inl err" "handle w s c (mid, raw) claimed = (Inl err, c')" "memory c' = memory c"
  | (rejected) out c' where "handle w s c (mid, raw) claimed = (Inr (fst (finalize s c' mid out)), snd (finalize s c' mid out))"
      "out \<in> terminal_ack_outcomes" "memory c' = memory c" "\<not> (\<exists>e p. reaches_sink w s raw (co_dedup c) e p)"
      "\<not> (\<exists>err. decode_entry w raw = Inl err)" "\<exists>c1. arrived_once c c1 \<and> decided_once c1 c'"
  | (sink) e p c' where "handle w s c (mid, raw) claimed =
        (Inr (fst (apply_and_ack s c' mid e p (identity_from_envelope e))), snd (apply_and_ack s c' mid e p (identity_from_envelope e)))"
      "memory c' = memory c" "reaches_sink w s raw (co_dedup c) e p" "arrived_once c c'"
proof -
  define c1 where "c1 = c\<lparr>co_counters := (if claimed then (co_counters c)\<lparr>cc_claimed := cc_claimed (co_counters c) + 1\<rparr>
        else (co_counters c)\<lparr>cc_received := cc_received (co_counters c) + 1\<rparr>), co_last_received_at := Some (env_now s)\<rparr>"
  have m1: "memory c1 = memory c" by (simp add: c1_def memory_def)
  have a1: "arrived_once c c1" by (simp add: c1_def arrived_once_def tally_def)
  obtain r c2 where dec: "consumer_decode_envelope w c1 raw = (r, c2)" by fastforce
  note D = decode_envelope_shape [OF dec]
  show thesis
  proof (cases r)
    case (Inl err)
    show thesis
      by (rule crash [of err c2]) (use Inl dec D(1,2) m1 in \<open>simp_all add: handle_def c1_def [symmetric] Let_def\<close>)
  next
    case (Inr q)
    obtain eo out where q: "q = (eo, out)" by fastforce
    have de: "decode_entry w raw = Inr (eo, out)" using D(1) Inr q by simp
    show thesis
    proof (cases eo)
      case None
      show thesis
        by (rule rejected [of c2 out])
          (use None dec Inr q D m1 a1 de in \<open>auto simp: handle_def c1_def [symmetric] case_prod_unfold Let_def reaches_sink_def\<close>)
    next
      case (Some e)
      then have c2: "c2 = c1" using D(4) Inr q by simp
      define c3 where "c3 = c2\<lparr>co_last_event_age := Some (env_now s - produced_at e)\<rparr>"
      have m3: "memory c3 = memory c" using m1 c2 by (simp add: c3_def memory_def)
      then have dd3: "co_dedup c3 = co_dedup c" by (simp add: memory_def)
      have a3: "arrived_once c c3" using a1 c2 by (simp add: c3_def arrived_once_def)
      obtain g c4 where g: "gate s c3 e = (g, c4)" by fastforce
      note G = gate_shape [OF g]
      have H: "handle w s c (mid, raw) claimed =
          (case gate s c3 e of
             (Some out, c4) \<Rightarrow> (\<lambda>(out, c'). (Inr out, c')) (finalize s c4 mid out)
           | (None, c4) \<Rightarrow>
               (if dd_contains (co_dedup c4) (identity_from_envelope e)
                then (\<lambda>(out, c'). (Inr out, c')) (finalize s
                  (c4\<lparr>co_counters := (co_counters c4)\<lparr>cc_duplicate := cc_duplicate (co_counters c4) + 1\<rparr>\<rparr>) mid DUPLICATE_MESSAGE)
                else case consumer_decode_payload w c4 e of
                  (None, out, c5) \<Rightarrow> (\<lambda>(out, c'). (Inr out, c')) (finalize s c5 mid out)
                | (Some p, _, c5) \<Rightarrow> (\<lambda>(out, c'). (Inr out, c')) (apply_and_ack s c5 mid e p (identity_from_envelope e))))"
        using dec Inr q Some unfolding handle_def Let_def prod.case c1_def [symmetric] by (simp add: c3_def [symmetric])
      show thesis
      proof (cases g)
        case (Some gout)
        then have "\<not> in_session s e" using G(2) by simp
        then show thesis
          by (intro rejected [of c4 gout])
            (use H g G(1) G(3,5) [OF Some] Some a3 m3 de \<open>eo = Some e\<close> in \<open>auto simp: case_prod_unfold reaches_sink_def\<close>)
      next
        case None
        then have c4: "c4 = c3" and sess: "in_session s e" using G(2,4) by simp_all
        show thesis
        proof (cases "dd_contains (co_dedup c) (identity_from_envelope e)")
          case True
          show thesis
            by (rule rejected [of "c3\<lparr>co_counters := (co_counters c3)\<lparr>cc_duplicate := cc_duplicate (co_counters c3) + 1\<rparr>\<rparr>" DUPLICATE_MESSAGE])
              (use H g None c4 True dd3 m3 a3 de \<open>eo = Some e\<close> in
                \<open>auto simp: case_prod_unfold reaches_sink_def terminal_ack_outcomes_def memory_def decided_once_def tally_def\<close>)
        next
          case False
          obtain p pout c5 where dp: "consumer_decode_payload w c3 e = (p, pout, c5)" by (metis prod_cases3)
          note P = decode_payload_shape [OF dp]
          show thesis
          proof (cases p)
            case None
            show thesis
              by (rule rejected [of c5 pout])
                (use H g \<open>g = None\<close> c4 False dd3 dp None P(1) P(2) [symmetric] P(3,5) [OF None] m3 a3 de \<open>eo = Some e\<close> in
                  \<open>auto simp: case_prod_unfold reaches_sink_def\<close>)
          next
            case (Some pl)
            show thesis
              by (rule sink [of c5 e pl])
                (use H g \<open>g = None\<close> c4 False dd3 dp Some P(1) P(2) [symmetric] P(4) m3 a3 de sess \<open>eo = Some e\<close> in
                  \<open>simp_all add: case_prod_unfold reaches_sink_def\<close>)
          qed
        qed
      qed
    qed
  qed
qed

lemma entry_spec_crash: "decode_entry w raw = Inl err \<Longrightarrow> entry_spec w s (mid, raw) m = m"
  by (cases m) (simp add: entry_spec_def Let_def)

lemma entry_spec_sink:
  "reaches_sink w s raw dd e p \<Longrightarrow> entry_spec w s (mid, raw) (dd, applied, acks) =
     (if env_sink_raises s then (dd, applied, acks)
      else (dd_record dd (identity_from_envelope e), applied @ [(e, p)], if env_ack_fails s then acks else acks @ [mid]))"
  by (auto simp: entry_spec_def reaches_sink_def Let_def)

lemma entry_spec_rejected:
  assumes "\<not> (\<exists>e p. reaches_sink w s raw dd e p)" "\<not> (\<exists>err. decode_entry w raw = Inl err)"
  shows "entry_spec w s (mid, raw) (dd, applied, acks) = (dd, applied, if env_ack_fails s then acks else acks @ [mid])"
proof -
  obtain eo out where de: "decode_entry w raw = Inr (eo, out)" using assms(2) by (metis obj_sumE surj_pair)
  show ?thesis
  proof (cases eo)
    case None
    then show ?thesis using de by (simp add: entry_spec_def Let_def)
  next
    case (Some e)
    then have "\<not> in_session s e \<or> dd_contains dd (identity_from_envelope e) \<or> decode_payload w (env_event_kind e) (payload e) = None"
      using assms(1) de by (auto simp: reaches_sink_def)
    then show ?thesis using de Some by (auto simp: entry_spec_def Let_def)
  qed
qed

lemma handle_memory: "memory (snd (handle w s c (mid, raw) claimed)) = entry_spec w s (mid, raw) (memory c)"
proof (rule handle_cases [of w raw s c mid claimed])
  fix e p c'
  assume *: "handle w s c (mid, raw) claimed =
        (Inr (fst (apply_and_ack s c' mid e p (identity_from_envelope e))), snd (apply_and_ack s c' mid e p (identity_from_envelope e)))"
      "memory c' = memory c" "reaches_sink w s raw (co_dedup c) e p"
  from entry_spec_sink [OF *(3), of mid "co_applied c" "co_acks c"] *(1,2)
    apply_and_ack_memory [of s c' mid e p "identity_from_envelope e"]
  show ?thesis by (simp add: memory_def split: if_splits)
qed (simp_all add: entry_spec_crash memory_def entry_spec_rejected finalize_memory)

lemma handle_sink_failed:
  "fst (handle w s c (mid, raw) claimed) = Inr SINK_FAILED \<longleftrightarrow> env_sink_raises s \<and> (\<exists>e p. reaches_sink w s raw (co_dedup c) e p)"
proof (rule handle_cases [of w raw s c mid claimed])
  fix err c'
  assume "decode_entry w raw = Inl err" "handle w s c (mid, raw) claimed = (Inl err, c')"
  then show ?thesis by (auto simp: reaches_sink_def)
next
  fix out c'
  assume "handle w s c (mid, raw) claimed = (Inr (fst (finalize s c' mid out)), snd (finalize s c' mid out))"
    "out \<in> terminal_ack_outcomes" "\<not> (\<exists>e p. reaches_sink w s raw (co_dedup c) e p)"
  then show ?thesis by (auto simp: finalize_def terminal_ack_outcomes_def)
next
  fix e p c'
  assume "handle w s c (mid, raw) claimed =
        (Inr (fst (apply_and_ack s c' mid e p (identity_from_envelope e))), snd (apply_and_ack s c' mid e p (identity_from_envelope e)))"
      "reaches_sink w s raw (co_dedup c) e p"
  then show ?thesis by (auto simp: apply_and_ack_def finalize_def terminal_ack_outcomes_def Let_def)
qed

section \<open>Runs of the consumer\<close>

text \<open>Any sequence of deliveries, redeliveries included, each under its own surroundings.\<close>

type_synonym delivery = "surroundings \<times> (string \<times> string option) \<times> bool"

definition deliver :: "wire \<Rightarrow> event_consumer \<Rightarrow> delivery \<Rightarrow> event_consumer" where
  "deliver w c d = (case d of (s, entry, claimed) \<Rightarrow> snd (handle w s c entry claimed))"

definition applied_identities :: "event_consumer \<Rightarrow> event_identity list" where
  "applied_identities c = map (identity_from_envelope \<circ> fst) (co_applied c)"

lemma deliver_memory: "memory (deliver w c (s, entry, claimed)) = entry_spec w s entry (memory c)"
  by (cases entry) (simp add: deliver_def handle_memory)

lemma entry_spec_cases:
  assumes "entry_spec w s (mid, raw) (dd, applied, acks) = (dd', applied', acks')"
  obtains (idle) "dd' = dd" "applied' = applied"
  | (applies) e p where "reaches_sink w s raw dd e p" "dd' = dd_record dd (identity_from_envelope e)" "applied' = applied @ [(e, p)]"
proof (cases "\<exists>e p. reaches_sink w s raw dd e p")
  case True
  then obtain e p where r: "reaches_sink w s raw dd e p" by blast
  from entry_spec_sink [OF r, of mid applied acks] assms idle applies [OF r] show thesis by (simp split: if_splits)
next
  case False
  show thesis
  proof (cases "\<exists>err. decode_entry w raw = Inl err")
    case True
    then show thesis using entry_spec_crash [of w raw _ s mid "(dd, applied, acks)"] assms idle by auto
  next
    case ok: False
    from entry_spec_rejected [OF False ok, of mid applied acks] assms idle show thesis by simp
  qed
qed

text \<open>The dedup window always holds exactly what recording the applied identities gives.\<close>

definition window_faithful :: "deduplicator \<Rightarrow> event_consumer \<Rightarrow> bool" where
  "window_faithful dd0 c \<longleftrightarrow> co_dedup c = foldl dd_record dd0 (applied_identities c)"

lemma deliver_window:
  assumes "window_faithful dd0 c"
  shows "window_faithful dd0 (deliver w c d)"
    and "\<exists>ids. applied_identities (deliver w c d) = applied_identities c @ ids
      \<and> (ids = [] \<or> (\<exists>x. ids = [x] \<and> \<not> dd_contains (co_dedup c) x))"
proof -
  obtain s mid raw claimed where d: "d = (s, (mid, raw), claimed)" by (metis prod_cases3 prod.collapse)
  let ?c = "deliver w c d"
  have eq: "entry_spec w s (mid, raw) (co_dedup c, co_applied c, co_acks c) = (co_dedup ?c, co_applied ?c, co_acks ?c)"
    using deliver_memory [of w c s "(mid, raw)" claimed] by (simp add: d memory_def)
  show "window_faithful dd0 ?c"
    using eq by (rule entry_spec_cases) (use assms in \<open>simp_all add: window_faithful_def applied_identities_def\<close>)
  show "\<exists>ids. applied_identities ?c = applied_identities c @ ids \<and> (ids = [] \<or> (\<exists>x. ids = [x] \<and> \<not> dd_contains (co_dedup c) x))"
    using eq by (rule entry_spec_cases) (simp_all add: applied_identities_def reaches_sink_def)
qed

lemma run_window:
  assumes "window_faithful dd0 c"
  shows "window_faithful dd0 (foldl (deliver w) c ds)"
    and "\<exists>ids. applied_identities (foldl (deliver w) c ds) = applied_identities c @ ids"
proof -
  show "window_faithful dd0 (foldl (deliver w) c ds)"
    using assms by (induction ds arbitrary: c) (simp_all add: deliver_window(1))
  show "\<exists>ids. applied_identities (foldl (deliver w) c ds) = applied_identities c @ ids"
    using assms
  proof (induction ds arbitrary: c)
    case (Cons d ds)
    then show ?case using deliver_window [OF Cons.prems, of w d] by fastforce
  qed simp
qed

lemma run_distinct:
  assumes "window_faithful \<lparr>dd_max_entries = Suc n, dd_seen = []\<rparr> c" "distinct (applied_identities c)"
    and "card (set (applied_identities (foldl (deliver w) c ds))) \<le> Suc n"
  shows "distinct (applied_identities (foldl (deliver w) c ds))"
  using assms
proof (induction ds arbitrary: c)
  case (Cons d ds)
  let ?c = "deliver w c d"
  note W = deliver_window [OF Cons.prems(1), of w d]
  obtain rest where rest: "applied_identities (foldl (deliver w) ?c ds) = applied_identities ?c @ rest"
    using run_window(2) [OF W(1)] by blast
  obtain ids where ids: "applied_identities ?c = applied_identities c @ ids"
    "ids = [] \<or> (\<exists>x. ids = [x] \<and> \<not> dd_contains (co_dedup c) x)" using W(2) by blast
  have "set (applied_identities c) \<subseteq> set (applied_identities (foldl (deliver w) c (d # ds)))"
    using rest ids(1) by simp
  then have "card (set (applied_identities c)) \<le> Suc n"
    using Cons.prems(3) card_mono by (meson List.finite_set order_trans)
  then have "dd_contains (co_dedup c) x \<longleftrightarrow> x \<in> set (applied_identities c)" for x
    using dd.exact_below_capacity Cons.prems(1) by (simp add: window_faithful_def)
  then have "distinct (applied_identities ?c)" using ids Cons.prems(2) by auto
  then show ?case using Cons.IH [OF W(1)] Cons.prems(3) by simp
qed simp

definition tally_balanced :: "event_consumer \<Rightarrow> bool" where
  "tally_balanced c \<longleftrightarrow> (case tally (co_counters c) of (arrivals, decided, sink_failed, settled) \<Rightarrow>
     arrivals = decided + sink_failed \<and> settled = decided)"

lemma finalize_tally:
  "out \<in> terminal_ack_outcomes \<Longrightarrow>
     (case tally (co_counters c) of (a, h, f, k) \<Rightarrow> tally (co_counters (snd (finalize s c mid out))) = (a, h, f, k + 1))"
  by (simp add: finalize_def tally_def)

lemma apply_and_ack_tally:
  "(case tally (co_counters c) of (a, h, f, k) \<Rightarrow>
      tally (co_counters (snd (apply_and_ack s c mid e p ident))) = (if env_sink_raises s then (a, h, f + 1, k) else (a, h + 1, f, k + 1)))"
  by (simp add: apply_and_ack_def finalize_def tally_def terminal_ack_outcomes_def Let_def)

lemma handle_balanced:
  assumes "tally_balanced c" "\<not> (\<exists>err. decode_entry w raw = Inl err)"
  shows "tally_balanced (snd (handle w s c (mid, raw) claimed))"
proof (rule handle_cases [of w raw s c mid claimed])
  fix err c'
  assume "decode_entry w raw = Inl err"
  with assms(2) show ?thesis by blast
next
  fix out c'
  assume h: "handle w s c (mid, raw) claimed = (Inr (fst (finalize s c' mid out)), snd (finalize s c' mid out))"
    "out \<in> terminal_ack_outcomes" "\<exists>c1. arrived_once c c1 \<and> decided_once c1 c'"
  obtain c1 where c1: "arrived_once c c1" "decided_once c1 c'" using h(3) by blast
  show ?thesis
    using assms(1) c1 finalize_tally [OF h(2), where c = c' and s = s and mid = mid] h(1)
    by (auto simp: tally_balanced_def arrived_once_def decided_once_def split: prod.splits)
next
  fix e p c'
  assume h: "handle w s c (mid, raw) claimed =
        (Inr (fst (apply_and_ack s c' mid e p (identity_from_envelope e))), snd (apply_and_ack s c' mid e p (identity_from_envelope e)))"
      "arrived_once c c'"
  show ?thesis
    using assms(1) h apply_and_ack_tally [where c = c' and s = s and mid = mid and e = e and p = p and ident = "identity_from_envelope e"]
    by (auto simp: tally_balanced_def arrived_once_def split: prod.splits if_splits)
qed

section \<open>Properties\<close>

text \<open>
  Within the deduplication window every event is applied at most once: however often entries are
  delivered, redelivered or claimed, and however the sink and the acknowledgements fail in
  between, the identities applied are pairwise distinct as long as they are no more than the
  window holds.
\<close>

lemma applied_at_most_once_within_window:
  assumes "mk_consumer cfg = Inr c0"
    and "int (card (set (applied_identities (foldl (deliver w) c0 ds)))) \<le> cfg_dedup_max_entries cfg"
  shows "distinct (applied_identities (foldl (deliver w) c0 ds))"
proof -
  from assms(1) have c0: "c0 = blank_consumer \<lparr>dd_max_entries = nat (cfg_dedup_max_entries cfg), dd_seen = []\<rparr>" "0 < nat (cfg_dedup_max_entries cfg)"
    by (auto simp: mk_consumer_def mk_deduplicator_def split: if_splits)
  obtain n where n: "nat (cfg_dedup_max_entries cfg) = Suc n" using c0(2) gr0_conv_Suc by blast
  show ?thesis
    by (rule run_distinct [where n = n])
      (use assms(2) n c0 in \<open>simp_all add: window_faithful_def applied_identities_def blank_consumer_def\<close>)
qed

text \<open>A wire that carries a single quoted event, for the examples.\<close>

definition demo_reference :: market_reference where
  "demo_reference = \<lparr>ref_instrument = cash_equity ''NSE'' ''TCS'', ref_previous_close = 100\<rparr>"

definition demo_envelope :: market_event_envelope where
  "demo_envelope = \<lparr>schema_version = 1, producer_id = ''ingest'', producer_epoch = 1, producer_sequence = 7, produced_at = 5,
     env_event_kind = MARKET_REFERENCE, env_trading_date = 20000, universe_version = 3,
     instrument_identity = ''NSE:TCS'', payload = ''P''\<rparr>"

definition demo_wire :: wire where
  "demo_wire =
     \<lparr>json_loads = (\<lambda>raw. if raw = ''E'' then Some (JObject [(''schema_version'', JInt 1)])
                        else if raw = ''X'' then Some (JObject [(''schema_version'', JArray [])]) else None),
      parse_envelope = (\<lambda>raw. if raw = ''E'' then Some demo_envelope else None),
      decode_payload = (\<lambda>k raw. if k = MARKET_REFERENCE \<and> raw = ''P'' then Some (ReferencePayload demo_reference) else None)\<rparr>"

definition demo_surroundings :: "bool \<Rightarrow> surroundings" where
  "demo_surroundings sink_raises =
     \<lparr>env_now = 9, env_current_date = Some 20000, env_current_universe = Some 3, env_sink_raises = sink_raises, env_ack_fails = False\<rparr>"

definition demo_config :: market_ipc_config where
  "demo_config = default_ipc_config\<lparr>cfg_dedup_max_entries := 1000\<rparr>"

definition demo_consumer :: event_consumer where
  "demo_consumer = blank_consumer \<lparr>dd_max_entries = 1000, dd_seen = []\<rparr>"

lemma demo_decodes: "decode_entry demo_wire (Some ''E'') = Inr (Some demo_envelope, APPLIED)"
proof -
  have "validate_envelope demo_envelope = Inr demo_envelope"
    by (simp add: demo_envelope_def validate_envelope_def supported_schema_versions_def bounded_text_def well_formed_identity_def
        partition_colon_def max_payload_bytes_ceiling_def Let_def)
  then show ?thesis
    by (simp add: decode_entry_def consumer_decode_envelope_def demo_wire_def version_supported_def supported_schema_versions_def
        decode_envelope_def Let_def)
qed

lemma demo_reaches:
  "reaches_sink demo_wire (demo_surroundings b) (Some ''E'') \<lparr>dd_max_entries = 1000, dd_seen = []\<rparr> demo_envelope (ReferencePayload demo_reference)"
  by (simp add: reaches_sink_def demo_decodes) (simp add: demo_surroundings_def in_session_def demo_envelope_def dd_contains_def demo_wire_def)

lemma applied_at_most_once_within_window_example:
  "distinct (applied_identities (foldl (deliver demo_wire) demo_consumer
     [(demo_surroundings False, (''1-0'', Some ''E''), False), (demo_surroundings False, (''1-0'', Some ''E''), True)]))"
proof (rule applied_at_most_once_within_window)
  show "mk_consumer demo_config = Inr demo_consumer"
    by (simp add: mk_consumer_def mk_deduplicator_def demo_config_def default_ipc_config_def demo_consumer_def)
  let ?ds = "[(demo_surroundings False, (''1-0'', Some ''E''), False), (demo_surroundings False, (''1-0'', Some ''E''), True)]"
  have fresh: "applied_identities demo_consumer = []"
    by (simp add: demo_consumer_def blank_consumer_def applied_identities_def)
  have step: "length (applied_identities (deliver demo_wire c d)) \<le> Suc (length (applied_identities c))" for c d
  proof (cases d)
    case (fields s en cl)
    obtain mid raw where en: "en = (mid, raw)" by fastforce
    have "entry_spec demo_wire s (mid, raw) (co_dedup c, co_applied c, co_acks c) =
        (co_dedup (deliver demo_wire c d), co_applied (deliver demo_wire c d), co_acks (deliver demo_wire c d))"
      using deliver_memory [of demo_wire c s "(mid, raw)" cl] by (simp add: fields en memory_def)
    then show ?thesis by (rule entry_spec_cases) (simp_all add: applied_identities_def)
  qed
  have "length (applied_identities (foldl (deliver demo_wire) demo_consumer ?ds)) \<le> 2"
    using step [of demo_consumer "(demo_surroundings False, (''1-0'', Some ''E''), False)"]
      step [of "deliver demo_wire demo_consumer (demo_surroundings False, (''1-0'', Some ''E''), False)" "(demo_surroundings False, (''1-0'', Some ''E''), True)"]
      fresh by simp
  then have "card (set (applied_identities (foldl (deliver demo_wire) demo_consumer ?ds))) \<le> 2"
    using card_length order_trans by blast
  then show "int (card (set (applied_identities (foldl (deliver demo_wire) demo_consumer ?ds)))) \<le> cfg_dedup_max_entries demo_config"
    by (simp add: demo_config_def)
qed

text \<open>
  A failed application is never lost: when the sink raises, the entry is neither remembered as
  seen nor acknowledged, so it stays pending, and a later delivery of the same entry under which
  the sink succeeds applies exactly its decoded event.
\<close>

lemma failed_application_is_retried:
  assumes "handle w s c (mid, raw) claimed = (Inr SINK_FAILED, c')"
    and "env_current_date s' = env_current_date s" "env_current_universe s' = env_current_universe s" "\<not> env_sink_raises s'"
  shows "co_dedup c' = co_dedup c \<and> co_applied c' = co_applied c \<and> co_acks c' = co_acks c
    \<and> (\<exists>e p out. decode_entry w raw = Inr (Some e, out) \<and> decode_payload w (env_event_kind e) (payload e) = Some p
         \<and> co_applied (snd (handle w s' c' (mid, raw) True)) = co_applied c @ [(e, p)])"
proof -
  obtain e p where sk: "env_sink_raises s" "reaches_sink w s raw (co_dedup c) e p"
    using handle_sink_failed [of w s c mid raw claimed] assms(1) by auto
  have same: "co_dedup c' = co_dedup c" "co_applied c' = co_applied c" "co_acks c' = co_acks c"
    using handle_memory [of w s c mid raw claimed] entry_spec_sink [OF sk(2), of mid "co_applied c" "co_acks c"] sk(1) assms(1)
    by (simp_all add: memory_def)
  have "reaches_sink w s' raw (co_dedup c') e p"
    using sk(2) assms(2,3) same(1) by (simp add: reaches_sink_def in_session_def)
  from entry_spec_sink [OF this, of mid "co_applied c'" "co_acks c'"] handle_memory [of w s' c' mid raw True] assms(4)
  have "co_applied (snd (handle w s' c' (mid, raw) True)) = co_applied c' @ [(e, p)]" by (simp add: memory_def)
  with same sk(2) show ?thesis by (auto simp: reaches_sink_def)
qed

lemma failed_application_is_retried_example:
  "fst (handle demo_wire (demo_surroundings True) demo_consumer (''1-0'', Some ''E'') False) = Inr SINK_FAILED
    \<and> co_applied (snd (handle demo_wire (demo_surroundings False)
         (snd (handle demo_wire (demo_surroundings True) demo_consumer (''1-0'', Some ''E'') False)) (''1-0'', Some ''E'') True))
       = [(demo_envelope, ReferencePayload demo_reference)]"
proof -
  let ?r = "handle demo_wire (demo_surroundings True) demo_consumer (''1-0'', Some ''E'') False"
  have failed: "fst ?r = Inr SINK_FAILED"
    using handle_sink_failed [of demo_wire "demo_surroundings True" demo_consumer "''1-0''" "Some ''E''" False] demo_reaches [of True]
    by (auto simp: demo_consumer_def blank_consumer_def demo_surroundings_def)
  then have eq: "?r = (Inr SINK_FAILED, snd ?r)" by (metis prod.collapse)
  have "env_current_date (demo_surroundings False) = env_current_date (demo_surroundings True)"
    "env_current_universe (demo_surroundings False) = env_current_universe (demo_surroundings True)"
    "\<not> env_sink_raises (demo_surroundings False)" by (simp_all add: demo_surroundings_def)
  from failed_application_is_retried [OF eq this] show ?thesis
    using failed demo_decodes by (auto simp: demo_consumer_def blank_consumer_def demo_wire_def demo_envelope_def)
qed

text \<open>
  The consumer's counters account for every entry: after any sequence of deliveries none of which
  escapes with an exception, arrivals are exactly the decided entries plus the sink failures, and
  every decided entry has had exactly one acknowledgement attempt.
\<close>

lemma consumer_counters_balance:
  assumes "mk_consumer cfg = Inr c0"
    and "list_all (\<lambda>(s, (mid, raw), claimed). \<not> (\<exists>err. decode_entry w raw = Inl err)) ds"
  shows "tally_balanced (foldl (deliver w) c0 ds)"
proof -
  have "tally_balanced (foldl (deliver w) c ds)" if "tally_balanced c" for c
    using that assms(2)
  proof (induction ds arbitrary: c)
    case (Cons d ds)
    obtain s mid raw claimed where d: "d = (s, (mid, raw), claimed)" by (metis prod_cases3 prod.collapse)
    then have "tally_balanced (deliver w c d)"
      using handle_balanced [of c w raw s mid claimed] Cons.prems by (simp add: deliver_def)
    then show ?case using Cons by simp
  qed simp
  moreover have "tally_balanced c0"
    using assms(1) by (auto simp: mk_consumer_def blank_consumer_def tally_balanced_def tally_def new_consumer_counters_def)
  ultimately show ?thesis by blast
qed

lemma consumer_counters_balance_example:
  "tally_balanced (foldl (deliver demo_wire) demo_consumer [(demo_surroundings True, (''1-0'', Some ''E''), False)])"
proof (rule consumer_counters_balance)
  show "mk_consumer demo_config = Inr demo_consumer"
    by (simp add: mk_consumer_def mk_deduplicator_def demo_config_def default_ipc_config_def demo_consumer_def)
qed (simp add: demo_decodes)

text \<open>
  C40. One class of malformed entries does escape: an envelope whose schema version is a JSON list or
  object makes the membership test raise TypeError, which nothing catches. The cycle ends with the
  exception, the entry is not acknowledged and no later entry of the cycle is handled, so the
  entry is claimed again first in the next cycle.
\<close>

theorem unhashable_schema_version_escapes:
  assumes "json_loads w bytes = Some (JObject members)"
    and "map_of members ''schema_version'' = Some (JArray xs) \<or> map_of members ''schema_version'' = Some (JObject ms)"
  shows "\<exists>msg. fst (poll_once w now c (Some ((s, mid, Some bytes) # claimed)) new_entries) = Inl (TypeError msg)
    \<and> co_acks (snd (poll_once w now c (Some ((s, mid, Some bytes) # claimed)) new_entries)) = co_acks c
    \<and> co_applied (snd (poll_once w now c (Some ((s, mid, Some bytes) # claimed)) new_entries)) = co_applied c"
proof -
  obtain msg where crash: "decode_entry w (Some bytes) = Inl (TypeError msg)"
    using assms by (auto simp: decode_entry_def consumer_decode_envelope_def version_supported_def Let_def)
  show ?thesis
  proof (rule handle_cases [of w "Some bytes" s c mid True])
    fix err c'
    assume "decode_entry w (Some bytes) = Inl err" "handle w s c (mid, Some bytes) True = (Inl err, c')" "memory c' = memory c"
    then show ?thesis using crash by (auto simp: poll_once_def memory_def)
  qed (use crash in \<open>auto simp: reaches_sink_def\<close>)
qed

theorem unhashable_schema_version_escapes_witness:
  "\<exists>msg. fst (poll_once demo_wire 9 demo_consumer
      (Some [(demo_surroundings False, ''1-0'', Some ''X''), (demo_surroundings False, ''2-0'', Some ''E'')]) (Some [])) = Inl (TypeError msg)"
proof -
  have "json_loads demo_wire ''X'' = Some (JObject [(''schema_version'', JArray [])])" by (simp add: demo_wire_def)
  from unhashable_schema_version_escapes [OF this, of "[]" "[]"] show ?thesis by auto
qed

end
