(* ===== verification/Ipc_Publisher.thy ===== *)
theory Ipc_Publisher
  imports Ipc_Consumer
begin

text \<open>
  The shadow publisher (\<^verbatim>\<open>market_ipc/publisher.py\<close>) over the Redis stream (\<^verbatim>\<open>market_ipc/transport.py\<close>,
  \<^verbatim>\<open>publish\<close>) and the epoch allocator (\<^verbatim>\<open>market_ipc/epoch.py\<close>). Serialisation (\<open>encode_json\<close>, \<open>dump\<close>) and the
  Redis counter (\<open>incr\<close>) are parameters; the stream has a configuration of its own; what the clock, the date
  and universe sources and Redis answer during one call is the record \<open>publish_surroundings\<close>. \<open>pu_sent\<close> lists the envelopes Redis
  accepted, oldest first.
\<close>

datatype publish_outcome =
    PUBLISHED | FAILED_UNSUPPORTED | FAILED_OVERSIZE | FAILED_SERIALIZATION | FAILED_TRANSPORT

datatype publishable = MarketDatum market_data | Continuity feed_continuity_event

record publish_counters =
  pc_attempted :: int
  pc_published :: int
  pc_publish_failures :: int
  pc_serialization :: int
  pc_oversize :: int
  pc_unsupported :: int

record event_publisher =
  pu_config :: market_ipc_config
  pu_stream_config :: market_ipc_config
  pu_producer_id :: string
  pu_epoch :: "int option"
  pu_sequence :: int
  pu_counters :: publish_counters
  pu_last_publish_at :: "instant option"
  pu_sent :: "market_event_envelope list"

text \<open>\<open>ps_stamps\<close>: the reading of the clock, the trading date and the universe version, or what they raise.\<close>

record publish_surroundings =
  ps_stamps :: "(instant \<times> date \<times> int) res"
  ps_xadd_fails :: bool
  ps_now_after :: instant

definition mk_publisher :: "market_ipc_config \<Rightarrow> market_ipc_config \<Rightarrow> string \<Rightarrow> event_publisher res" where
  "mk_publisher cfg stream_cfg pid =
     (if pid = [] then Inl (ValueError ''producer_id must be non-empty'')
      else Inr \<lparr>pu_config = cfg, pu_stream_config = stream_cfg, pu_producer_id = pid, pu_epoch = None, pu_sequence = 0,
                pu_counters = \<lparr>pc_attempted = 0, pc_published = 0, pc_publish_failures = 0, pc_serialization = 0,
                               pc_oversize = 0, pc_unsupported = 0\<rparr>,
                pu_last_publish_at = None, pu_sent = []\<rparr>)"

definition is_running :: "event_publisher \<Rightarrow> bool" where
  "is_running pu \<longleftrightarrow> pu_epoch pu \<noteq> None"

definition static_universe_version :: "int \<Rightarrow> int res" where
  "static_universe_version version =
     (if version < 0 then Inl (ValueError ''universe_version must be non-negative'') else Inr version)"

text \<open>
  \<^verbatim>\<open>RedisEpochAllocator.allocate\<close> with Redis \<^verbatim>\<open>INCR\<close> as \<open>incr\<close>, which answers or raises and leaves the store \<open>'r\<close>.
\<close>

definition epoch_key :: "string \<Rightarrow> string" where
  "epoch_key pid = ''md:producer:epoch:'' @ pid"

definition allocate :: "('r \<Rightarrow> string \<Rightarrow> int res \<times> 'r) \<Rightarrow> 'r \<Rightarrow> string \<Rightarrow> int res \<times> 'r" where
  "allocate incr r pid =
     (if pid = [] then (Inl (ValueError ''producer_id must be non-empty''), r) else incr r (epoch_key pid))"

text \<open>
  \<^verbatim>\<open>start\<close> over an \<^verbatim>\<open>EpochAllocator\<close> \<open>alloc\<close>; \<open>grouped\<close> is the outcome of \<^verbatim>\<open>ensure_group\<close>. The epoch is kept only
  when both succeed, but the allocation stays spent.
\<close>

definition publisher_start ::
  "('r \<Rightarrow> string \<Rightarrow> int res \<times> 'r) \<Rightarrow> 'r \<Rightarrow> unit res \<Rightarrow> event_publisher \<Rightarrow> unit res \<times> event_publisher \<times> 'r" where
  "publisher_start alloc r grouped pu =
     (if pu_epoch pu \<noteq> None then (Inr (), pu, r)
      else case alloc r (pu_producer_id pu) of
        (Inl err, r') \<Rightarrow> (Inl err, pu, r')
      | (Inr epoch, r') \<Rightarrow>
          (case grouped of
             Inl err \<Rightarrow> (Inl err, pu, r')
           | Inr _ \<Rightarrow> (Inr (), pu\<lparr>pu_epoch := Some epoch, pu_sequence := 0\<rparr>, r')))"

definition as_ipc_payload :: "publishable \<Rightarrow> ipc_payload res" where
  "as_ipc_payload d =
     (case d of
        MarketDatum (TickData t) \<Rightarrow> Inr (TickPayload t)
      | MarketDatum (QuoteData q) \<Rightarrow> Inr (QuotePayload q)
      | MarketDatum (ReferenceData r) \<Rightarrow> Inr (ReferencePayload r)
      | Continuity e \<Rightarrow> Inr (ContinuityPayload e)
      | _ \<Rightarrow> Inl (ValueError ''unsupported IPC payload type''))"

definition stream_publish ::
  "(market_event_envelope \<Rightarrow> string) \<Rightarrow> market_ipc_config \<Rightarrow> bool \<Rightarrow> market_event_envelope \<Rightarrow> unit res" where
  "stream_publish dump cfg xadd_fails e =
     res_bind (encode_envelope dump e (cfg_max_payload_bytes cfg)) (\<lambda>raw.
       if xadd_fails then Inl (RuntimeError ''RedisPublishError'') else Inr ())"

text \<open>The first \<^verbatim>\<open>try\<close> of \<^verbatim>\<open>publish\<close>: stamp, build and size-check the envelope.\<close>

definition prepare ::
  "(ipc_payload \<Rightarrow> string) \<Rightarrow> (market_event_envelope \<Rightarrow> string) \<Rightarrow> publish_surroundings \<Rightarrow> event_publisher \<Rightarrow> int \<Rightarrow>
   ipc_payload \<Rightarrow> market_event_envelope res" where
  "prepare encode_json dump s pu epoch p =
     res_bind (ps_stamps s) (\<lambda>(now, d, universe).
     res_bind (build_envelope encode_json p (pu_producer_id pu) epoch (pu_sequence pu) now d universe) (\<lambda>e.
     res_bind (encode_envelope dump e (cfg_max_payload_bytes (pu_config pu))) (\<lambda>_. Inr e)))"

text \<open>\<^verbatim>\<open>pydantic.ValidationError\<close> is a subclass of \<^verbatim>\<open>ValueError\<close>.\<close>

definition is_value_error :: "py_error \<Rightarrow> bool" where
  "is_value_error err = (case err of ValueError _ \<Rightarrow> True | ValidationError _ \<Rightarrow> True | _ \<Rightarrow> False)"

definition publish_datum ::
  "(ipc_payload \<Rightarrow> string) \<Rightarrow> (market_event_envelope \<Rightarrow> string) \<Rightarrow> publish_surroundings \<Rightarrow> event_publisher \<Rightarrow> publishable \<Rightarrow>
   publish_outcome res \<times> event_publisher" where
  "publish_datum encode_json dump s pu datum =
     (case pu_epoch pu of
        None \<Rightarrow> (Inl (RuntimeError ''publisher.publish called before start()''), pu)
      | Some epoch \<Rightarrow>
          (let pu1 = pu\<lparr>pu_counters := (pu_counters pu)\<lparr>pc_attempted := pc_attempted (pu_counters pu) + 1\<rparr>\<rparr>; pc = pu_counters pu1
           in case as_ipc_payload datum of
                Inl _ \<Rightarrow> (Inr FAILED_UNSUPPORTED, pu1\<lparr>pu_counters := pc\<lparr>pc_unsupported := pc_unsupported pc + 1\<rparr>\<rparr>)
              | Inr p \<Rightarrow>
                  (let pu2 = pu1\<lparr>pu_sequence := pu_sequence pu1 + 1\<rparr>
                   in case prepare encode_json dump s pu2 epoch p of
                        Inl err \<Rightarrow>
                          (if is_value_error err
                           then (Inr FAILED_OVERSIZE, pu2\<lparr>pu_counters := pc\<lparr>pc_oversize := pc_oversize pc + 1\<rparr>\<rparr>)
                           else (Inr FAILED_SERIALIZATION, pu2\<lparr>pu_counters := pc\<lparr>pc_serialization := pc_serialization pc + 1\<rparr>\<rparr>))
                      | Inr e \<Rightarrow>
                          (case stream_publish dump (pu_stream_config pu) (ps_xadd_fails s) e of
                             Inl (RuntimeError _) \<Rightarrow>
                               (Inr FAILED_TRANSPORT, pu2\<lparr>pu_counters := pc\<lparr>pc_publish_failures := pc_publish_failures pc + 1\<rparr>\<rparr>)
                           | Inl err \<Rightarrow> (Inl err, pu2)
                           | Inr _ \<Rightarrow>
                               (Inr PUBLISHED,
                                pu2\<lparr>pu_counters := pc\<lparr>pc_published := pc_published pc + 1\<rparr>,
                                    pu_last_publish_at := Some (ps_now_after s), pu_sent := pu_sent pu2 @ [e]\<rparr>)))))"

section \<open>One call\<close>

lemma prepare_Inr:
  assumes "prepare encode_json dump s pu epoch p = Inr e"
  shows "producer_id e = pu_producer_id pu" "producer_epoch e = epoch" "producer_sequence e = pu_sequence pu"
    "env_event_kind e = event_kind_for p" "payload e = encode_json p" "validate_envelope e = Inr e"
    "int (length (dump e)) \<le> cfg_max_payload_bytes (pu_config pu)"
  using assms
  by (auto simp: prepare_def build_envelope_def validate_envelope_def encode_envelope_def Let_def split: if_splits prod.splits)

lemma prepare_identity:
  "prepare encode_json dump s pu epoch p = Inr e \<Longrightarrow>
   producer_id e = pu_producer_id pu \<and> producer_epoch e = epoch \<and> producer_sequence e = pu_sequence pu"
  by (intro conjI; erule prepare_Inr)

lemma stream_publish_prepared:
  assumes "prepare encode_json dump s pu epoch p = Inr e" "cfg_max_payload_bytes (pu_config pu) \<le> cfg_max_payload_bytes cfg"
  shows "stream_publish dump cfg fails e = (if fails then Inl (RuntimeError ''RedisPublishError'') else Inr ())"
  using prepare_Inr(7) [OF assms(1)] assms(2) by (simp add: stream_publish_def encode_envelope_def Let_def)

definition supported :: "publishable \<Rightarrow> bool" where
  "supported d \<longleftrightarrow> is_ok (as_ipc_payload d)"

definition counters_total :: "publish_counters \<Rightarrow> int" where
  "counters_total pc = pc_published pc + pc_publish_failures pc + pc_serialization pc + pc_oversize pc + pc_unsupported pc"

definition stream_accepts_limit :: "event_publisher \<Rightarrow> bool" where
  "stream_accepts_limit pu \<longleftrightarrow> cfg_max_payload_bytes (pu_config pu) \<le> cfg_max_payload_bytes (pu_stream_config pu)"

lemma publish_step:
  assumes "pu_epoch pu = Some epoch" "stream_accepts_limit pu" "publish_datum encode_json dump s pu d = (r, pu')"
  obtains out where "r = Inr out" "pu_epoch pu' = Some epoch" "pu_producer_id pu' = pu_producer_id pu" "pu_config pu' = pu_config pu" "pu_stream_config pu' = pu_stream_config pu"
    "pu_sequence pu' = pu_sequence pu + (if supported d then 1 else 0)"
    "pc_attempted (pu_counters pu') = pc_attempted (pu_counters pu) + 1"
    "counters_total (pu_counters pu') = counters_total (pu_counters pu) + 1"
    "out = PUBLISHED \<and> (\<exists>e. pu_sent pu' = pu_sent pu @ [e] \<and> producer_id e = pu_producer_id pu \<and> producer_epoch e = epoch
        \<and> producer_sequence e = pu_sequence pu') \<and> supported d
      \<or> out \<noteq> PUBLISHED \<and> pu_sent pu' = pu_sent pu"
proof (cases "as_ipc_payload d")
  case (Inl err)
  show thesis
    by (rule that [of FAILED_UNSUPPORTED])
      (use Inl assms in \<open>auto simp: publish_datum_def Let_def supported_def counters_total_def\<close>)
next
  case (Inr p)
  let ?pu = "pu\<lparr>pu_counters := (pu_counters pu)\<lparr>pc_attempted := pc_attempted (pu_counters pu) + 1\<rparr>, pu_sequence := pu_sequence pu + 1\<rparr>"
  show thesis
  proof (cases "prepare encode_json dump s ?pu epoch p")
    case (Inl err)
    show thesis
      by (rule that [of "if is_value_error err then FAILED_OVERSIZE else FAILED_SERIALIZATION"])
        (use Inl Inr assms in \<open>auto simp: publish_datum_def Let_def supported_def counters_total_def split: if_splits\<close>)
  next
    case e: (Inr e)
    note sp = stream_publish_prepared [OF e, of "pu_stream_config pu" "ps_xadd_fails s"]
    show thesis
      by (rule that [of "if ps_xadd_fails s then FAILED_TRANSPORT else PUBLISHED"])
        (use e Inr assms sp prepare_Inr(1-3) [OF e] in
          \<open>auto simp: publish_datum_def Let_def supported_def counters_total_def stream_accepts_limit_def split: if_splits\<close>)
  qed
qed

section \<open>Producers side by side\<close>

text \<open>
  A fleet is the shared store and every publisher process constructed so far, crashed ones included (a crash is a
  publisher that is never called again, a restart a new process with the same producer id). Steps interleave freely.
\<close>

datatype fleet_event =
    Spawn market_ipc_config market_ipc_config string
  | Start nat "unit res"
  | Publish nat publish_surroundings publishable

type_synonym 'r fleet = "'r \<times> event_publisher list"

fun fleet_step ::
  "('r \<Rightarrow> string \<Rightarrow> int res \<times> 'r) \<Rightarrow> (ipc_payload \<Rightarrow> string) \<Rightarrow> (market_event_envelope \<Rightarrow> string) \<Rightarrow>
   fleet_event \<Rightarrow> 'r fleet \<Rightarrow> 'r fleet" where
  "fleet_step alloc encode_json dump (Spawn cfg stream_cfg pid) (r, ps) =
     (case mk_publisher cfg stream_cfg pid of Inl _ \<Rightarrow> (r, ps) | Inr pu \<Rightarrow> (r, ps @ [pu]))"
| "fleet_step alloc encode_json dump (Start i grouped) (r, ps) =
     (if i < length ps then case publisher_start alloc r grouped (ps ! i) of (_, pu, r') \<Rightarrow> (r', ps[i := pu]) else (r, ps))"
| "fleet_step alloc encode_json dump (Publish i s d) (r, ps) =
     (if i < length ps then (r, ps[i := snd (publish_datum encode_json dump s (ps ! i) d)]) else (r, ps))"

definition accepted_by_redis :: "'r fleet \<Rightarrow> market_event_envelope list" where
  "accepted_by_redis f = concat (map pu_sent (snd f))"

text \<open>What one publisher has sent carries its own producer id and epoch and its own growing sequence.\<close>

definition log_ok :: "event_publisher \<Rightarrow> bool" where
  "log_ok pu \<longleftrightarrow>
     pu_producer_id pu \<noteq> [] \<and> sorted_wrt (<) (map producer_sequence (pu_sent pu))
     \<and> (\<forall>e \<in> set (pu_sent pu). producer_id e = pu_producer_id pu \<and> Some (producer_epoch e) = pu_epoch pu
          \<and> 0 < producer_sequence e \<and> producer_sequence e \<le> pu_sequence pu)
     \<and> 0 \<le> pu_sequence pu"

lemma mk_publisher_log_ok: "mk_publisher cfg stream_cfg pid = Inr pu \<Longrightarrow> log_ok pu \<and> pu_epoch pu = None"
  by (auto simp: mk_publisher_def log_ok_def split: if_splits)

lemma log_ok_distinct: "log_ok pu \<Longrightarrow> distinct (map identity_from_envelope (pu_sent pu))"
  unfolding log_ok_def sorted_wrt_map
  by (auto simp: distinct_conv_nth sorted_wrt_iff_nth_less identity_from_envelope_def) (metis less_irrefl linorder_neqE_nat)

lemma start_effect:
  assumes "publisher_start alloc r grouped pu = (res, pu', r')" "log_ok pu"
  shows "log_ok pu'" "pu_producer_id pu' = pu_producer_id pu"
    "pu' = pu \<and> (r' = r \<or> (\<exists>x. alloc r (pu_producer_id pu) = (x, r')))
     \<or> pu_epoch pu = None \<and> (\<exists>epoch. pu_epoch pu' = Some epoch \<and> alloc r (pu_producer_id pu) = (Inr epoch, r'))"
  using assms by (auto simp: publisher_start_def log_ok_def split: if_splits sum.splits prod.splits)

lemma publish_effect:
  assumes "publish_datum encode_json dump s pu d = (res, pu')"
  shows "pu_epoch pu' = pu_epoch pu" "pu_producer_id pu' = pu_producer_id pu" "pu_sequence pu \<le> pu_sequence pu'"
    "pu_sent pu' = pu_sent pu
     \<or> (\<exists>e. pu_sent pu' = pu_sent pu @ [e] \<and> producer_id e = pu_producer_id pu \<and> Some (producer_epoch e) = pu_epoch pu
          \<and> producer_sequence e = pu_sequence pu' \<and> pu_sequence pu' = pu_sequence pu + 1)"
  using assms by (auto simp: publish_datum_def Let_def dest!: prepare_identity split: option.splits sum.splits if_splits py_error.splits)

lemma publish_log_ok:
  assumes "publish_datum encode_json dump s pu d = (res, pu')" "log_ok pu"
  shows "log_ok pu'"
  using publish_effect [OF assms(1)] assms(2) by (fastforce simp: log_ok_def sorted_wrt_append)

text \<open>The contract of \<^verbatim>\<open>EpochAllocator\<close>: \<open>issued\<close> is the last epoch a producer was given.\<close>

locale epoch_allocator =
  fixes alloc :: "'r \<Rightarrow> string \<Rightarrow> int res \<times> 'r" and issued :: "'r \<Rightarrow> string \<Rightarrow> int"
  assumes fresh_epoch: "alloc r pid = (Inr epoch, r') \<Longrightarrow> issued r pid < epoch \<and> epoch \<le> issued r' pid"
    and issued_grows: "alloc r pid = (x, r') \<Longrightarrow> issued r q \<le> issued r' q"
begin

definition epochs_ok :: "'r fleet \<Rightarrow> bool" where
  "epochs_ok f \<longleftrightarrow>
     list_all log_ok (snd f)
     \<and> (\<forall>i < length (snd f). \<forall>epoch. pu_epoch (snd f ! i) = Some epoch \<longrightarrow> epoch \<le> issued (fst f) (pu_producer_id (snd f ! i)))
     \<and> (\<forall>i < length (snd f). \<forall>j < i. pu_epoch (snd f ! i) \<noteq> None \<and> pu_producer_id (snd f ! i) = pu_producer_id (snd f ! j)
          \<longrightarrow> pu_epoch (snd f ! i) \<noteq> pu_epoch (snd f ! j))"

lemma epochs_ok_update:
  assumes ok: "epochs_ok (r, ps)" and i: "i < length ps" and pu': "log_ok pu'" "pu_producer_id pu' = pu_producer_id (ps ! i)"
    and grows: "\<And>q. issued r q \<le> issued r' q"
    and epoch: "pu_epoch pu' = pu_epoch (ps ! i)
      \<or> (\<exists>epoch. pu_epoch pu' = Some epoch \<and> issued r (pu_producer_id pu') < epoch \<and> epoch \<le> issued r' (pu_producer_id pu'))"
  shows "epochs_ok (r', ps[i := pu'])"
  unfolding epochs_ok_def
proof (intro conjI allI impI)
  show "list_all log_ok (snd (r', ps[i := pu']))"
    using ok pu'(1) by (auto simp: epochs_ok_def list_all_iff dest!: set_update_subset_insert [THEN subsetD])
  have old: "epoch \<le> issued r (pu_producer_id (ps ! k))" if "k < length ps" "pu_epoch (ps ! k) = Some epoch" for k epoch
    using ok that by (auto simp: epochs_ok_def)
  show "epoch \<le> issued (fst (r', ps[i := pu'])) (pu_producer_id (snd (r', ps[i := pu']) ! k))"
    if "k < length (snd (r', ps[i := pu']))" "pu_epoch (snd (r', ps[i := pu']) ! k) = Some epoch" for k epoch
    using that epoch old [of k epoch] grows [of "pu_producer_id (ps ! k)"] pu'(2) i by (cases "k = i") auto
  show "pu_epoch (snd (r', ps[i := pu']) ! k) \<noteq> pu_epoch (snd (r', ps[i := pu']) ! j)"
    if "k < length (snd (r', ps[i := pu']))" "j < k"
      "pu_epoch (snd (r', ps[i := pu']) ! k) \<noteq> None \<and> pu_producer_id (snd (r', ps[i := pu']) ! k) = pu_producer_id (snd (r', ps[i := pu']) ! j)" for k j
  proof -
    have pair: "pu_epoch (ps ! k) \<noteq> None \<and> pu_producer_id (ps ! k) = pu_producer_id (ps ! j) \<longrightarrow> pu_epoch (ps ! k) \<noteq> pu_epoch (ps ! j)"
      using ok that(1,2) by (auto simp: epochs_ok_def)
    show ?thesis
      using that pair epoch pu'(2) old [of j] old [of k] i by (cases "k = i"; cases "j = i") (auto, (force+)?)
  qed
qed

lemma epochs_ok_step:
  assumes ok: "epochs_ok f"
  shows "epochs_ok (fleet_step alloc encode_json dump st f)"
proof (cases f)
  case (Pair r ps)
  have logs: "log_ok (ps ! i)" if "i < length ps" for i
    using ok that by (auto simp: epochs_ok_def Pair list_all_length)
  show ?thesis
  proof (cases st)
    case (Spawn cfg stream_cfg pid)
    then show ?thesis
      using ok mk_publisher_log_ok [of cfg stream_cfg pid]
      by (cases "mk_publisher cfg stream_cfg pid") (auto simp: Pair epochs_ok_def nth_append less_Suc_eq)
  next
    case (Start i grouped)
    obtain res pu' r' where st': "publisher_start alloc r grouped (ps ! i) = (res, pu', r')" by (cases "publisher_start alloc r grouped (ps ! i)")
    show ?thesis
    proof (cases "i < length ps")
      case True
      note eff = start_effect [OF st' logs [OF True]]
      have "epochs_ok (r', ps[i := pu'])"
      proof (rule epochs_ok_update [OF ok [unfolded Pair] True eff(1,2)])
        show "issued r q \<le> issued r' q" for q using eff(3) issued_grows by auto
        show "pu_epoch pu' = pu_epoch (ps ! i)
          \<or> (\<exists>epoch. pu_epoch pu' = Some epoch \<and> issued r (pu_producer_id pu') < epoch \<and> epoch \<le> issued r' (pu_producer_id pu'))"
          using eff(2,3) fresh_epoch by auto
      qed
      then show ?thesis using True st' by (simp add: Pair Start)
    qed (use ok in \<open>simp add: Pair Start\<close>)
  next
    case (Publish i s d)
    obtain res pu' where pub: "publish_datum encode_json dump s (ps ! i) d = (res, pu')" by (cases "publish_datum encode_json dump s (ps ! i) d")
    show ?thesis
    proof (cases "i < length ps")
      case True
      have "epochs_ok (r, ps[i := pu'])"
        by (rule epochs_ok_update [OF ok [unfolded Pair] True publish_log_ok [OF pub logs [OF True]]]) (simp_all add: publish_effect [OF pub])
      then show ?thesis using True pub by (simp add: Pair Publish)
    qed (use ok in \<open>simp add: Pair Publish\<close>)
  qed
qed

lemma epochs_ok_run: "epochs_ok f \<Longrightarrow> epochs_ok (fold (fleet_step alloc encode_json dump) steps f)"
  by (induction steps arbitrary: f) (simp_all add: epochs_ok_step)

lemma distinct_across:
  assumes ok: "epochs_ok (r, ps)" and i: "i < length ps" "j < i" and e: "e \<in> set (pu_sent (ps ! i))" "e' \<in> set (pu_sent (ps ! j))"
  shows "identity_from_envelope e \<noteq> identity_from_envelope e'"
proof -
  have "log_ok (ps ! i)" "log_ok (ps ! j)" using ok i by (auto simp: epochs_ok_def list_all_length)
  moreover have "pu_epoch (ps ! i) \<noteq> None \<and> pu_producer_id (ps ! i) = pu_producer_id (ps ! j) \<longrightarrow> pu_epoch (ps ! i) \<noteq> pu_epoch (ps ! j)"
    using ok i by (auto simp: epochs_ok_def)
  moreover have "producer_id e = pu_producer_id (ps ! i)" "Some (producer_epoch e) = pu_epoch (ps ! i)"
    "producer_id e' = pu_producer_id (ps ! j)" "Some (producer_epoch e') = pu_epoch (ps ! j)"
    using calculation(1,2) e by (simp_all add: log_ok_def)
  ultimately show ?thesis by (auto simp: identity_from_envelope_def dest: sym)
qed

lemma identities_distinct:
  assumes "epochs_ok (r, ps)"
  shows "distinct (map identity_from_envelope (accepted_by_redis (r, ps)))"
  using assms
proof (induction ps rule: rev_induct)
  case (snoc pu ps)
  have log: "log_ok pu" using snoc.prems by (simp add: epochs_ok_def)
  have "epochs_ok (r, ps)" using snoc.prems by (auto simp: epochs_ok_def nth_append list_all_length less_Suc_eq)
  moreover have "distinct (map identity_from_envelope (pu_sent pu))"
    using log by (rule log_ok_distinct)
  moreover have "identity_from_envelope e \<noteq> identity_from_envelope e'"
    if sent: "e \<in> set (pu_sent pu)" "q \<in> set ps" "e' \<in> set (pu_sent q)" for e q e'
  proof -
    obtain j where "j < length ps" "ps ! j = q" using sent(2) by (auto simp: in_set_conv_nth)
    then show ?thesis using distinct_across [OF snoc.prems, of "length ps" j e e'] sent by (simp add: nth_append)
  qed
  ultimately show ?case using snoc.IH by (fastforce simp: accepted_by_redis_def)
qed (simp add: accepted_by_redis_def)

end

text \<open>
  \<^verbatim>\<open>RedisEpochAllocator\<close> meets that contract over any store whose \<open>incr\<close> is Redis \<^verbatim>\<open>INCR\<close>: a successful call
  adds one to the counter of the key and returns it; no call, failed ones included, lowers a counter.
\<close>

definition redis_incr :: "('r \<Rightarrow> string \<Rightarrow> int res \<times> 'r) \<Rightarrow> ('r \<Rightarrow> string \<Rightarrow> int) \<Rightarrow> bool" where
  "redis_incr incr counter \<longleftrightarrow>
     (\<forall>r k n r'. incr r k = (Inr n, r') \<longrightarrow> n = counter r k + 1 \<and> counter r' k = n)
     \<and> (\<forall>r k k'. counter r k' \<le> counter (snd (incr r k)) k')"

lemma redis_epoch_allocator:
  assumes "redis_incr incr counter"
  shows "epoch_allocator (allocate incr) (\<lambda>r pid. counter r (epoch_key pid))"
proof
  show "counter r (epoch_key pid) < epoch \<and> epoch \<le> counter r' (epoch_key pid)" if "allocate incr r pid = (Inr epoch, r')" for r pid epoch r'
  proof -
    have "incr r (epoch_key pid) = (Inr epoch, r')" using that by (simp add: allocate_def split: if_splits)
    then have "epoch = counter r (epoch_key pid) + 1 \<and> counter r' (epoch_key pid) = epoch"
      using assms unfolding redis_incr_def by blast
    then show ?thesis by simp
  qed
  show "counter r (epoch_key q) \<le> counter r' (epoch_key q)" if "allocate incr r pid = (x, r')" for r pid x r' q
    using assms that by (auto simp: allocate_def redis_incr_def split: if_splits dest: spec) (metis snd_conv)
qed

text \<open>An in-process counter store, on which the contract is met.\<close>

definition local_incr :: "(string \<Rightarrow> int) \<Rightarrow> string \<Rightarrow> int res \<times> (string \<Rightarrow> int)" where
  "local_incr r k = (Inr (r k + 1), r(k := r k + 1))"

lemma local_incr_is_redis: "redis_incr local_incr (\<lambda>r. r)"
  by (simp add: redis_incr_def local_incr_def)

interpretation local: epoch_allocator "allocate local_incr" "\<lambda>r pid. r (epoch_key pid)"
  by (rule redis_epoch_allocator [OF local_incr_is_redis])

section \<open>Identities\<close>

lemma fleet_identities_distinct:
  assumes "redis_incr incr counter"
  shows "distinct (map identity_from_envelope
           (accepted_by_redis (fold (fleet_step (allocate incr) encode_json dump) steps (r, []))))"
proof -
  let ?ok = "epoch_allocator.epochs_ok (\<lambda>r pid. counter r (epoch_key pid))"
  note ea = redis_epoch_allocator [OF assms]
  have "?ok (r, [])" by (simp add: epoch_allocator.epochs_ok_def [OF ea])
  then have "?ok (fold (fleet_step (allocate incr) encode_json dump) steps (r, []))"
    by (rule epoch_allocator.epochs_ok_run [OF ea])
  then show ?thesis
    by (cases "fold (fleet_step (allocate incr) encode_json dump) steps (r, [])")
      (auto dest: epoch_allocator.identities_distinct [OF ea])
qed


definition demo_stamps :: publish_surroundings where
  "demo_stamps = \<lparr>ps_stamps = Inr (5, 20000, 3), ps_xadd_fails = False, ps_now_after = 6\<rparr>"

definition demo_steps :: "fleet_event list" where
  "demo_steps =
     [Spawn default_ipc_config default_ipc_config ''ingest'', Spawn default_ipc_config default_ipc_config ''ingest'',
      Start 0 (Inr ()), Start 1 (Inr ()),
      Publish 0 demo_stamps (MarketDatum (ReferenceData demo_reference)),
      Publish 1 demo_stamps (MarketDatum (ReferenceData demo_reference))]"

lemma demo_steps_accepted:
  "map identity_from_envelope
     (accepted_by_redis (fold (fleet_step (allocate local_incr) (\<lambda>_. ''P'') (\<lambda>_. ''E'')) demo_steps ((\<lambda>_. 0), []))) =
   [\<lparr>eid_producer = ''ingest'', eid_epoch = 1, eid_sequence = 1\<rparr>, \<lparr>eid_producer = ''ingest'', eid_epoch = 2, eid_sequence = 1\<rparr>]"
  by (simp add: demo_steps_def mk_publisher_def publisher_start_def allocate_def local_incr_def publish_datum_def Let_def as_ipc_payload_def
      prepare_def build_envelope_def validate_envelope_def encode_envelope_def stream_publish_def demo_stamps_def default_ipc_config_def
      supported_schema_versions_def bounded_text_def identity_string_for_def payload_instrument_def demo_reference_def
      well_formed_identity_def partition_colon_def max_payload_bytes_ceiling_def accepted_by_redis_def identity_from_envelope_def
      cash_equity_def)


section \<open>What is sent\<close>

definition sent_faithfully :: "(ipc_payload \<Rightarrow> string) \<Rightarrow> market_event_envelope \<Rightarrow> bool" where
  "sent_faithfully encode_json e \<longleftrightarrow>
     validate_envelope e = Inr e \<and> (\<exists>p. env_event_kind e = event_kind_for p \<and> payload e = encode_json p)"

lemma publish_sends:
  assumes "publish_datum encode_json dump s pu d = (res, pu')"
  shows "pu_sent pu' = pu_sent pu
    \<or> (\<exists>e p. pu_sent pu' = pu_sent pu @ [e] \<and> res = Inr PUBLISHED \<and> as_ipc_payload d = Inr p
         \<and> validate_envelope e = Inr e \<and> env_event_kind e = event_kind_for p \<and> payload e = encode_json p)"
  using assms
  by (auto simp: publish_datum_def Let_def split: option.splits sum.splits if_splits py_error.splits)
    (metis prepare_Inr(4-6))+

lemma fleet_sends_faithfully:
  assumes "list_all (sent_faithfully encode_json) (accepted_by_redis f)"
  shows "list_all (sent_faithfully encode_json) (accepted_by_redis (fold (fleet_step alloc encode_json dump) steps f))"
  using assms
proof (induction steps arbitrary: f)
  case (Cons st steps)
  obtain r ps where f: "f = (r, ps)" by fastforce
  have each: "list_all (sent_faithfully encode_json) (pu_sent pu)" if "pu \<in> set ps" for pu
    using Cons.prems that by (auto simp: f accepted_by_redis_def list_all_iff)
  have upd: "list_all (sent_faithfully encode_json) (accepted_by_redis (r', ps[i := pu]))"
    if "list_all (sent_faithfully encode_json) (pu_sent pu)" for r' i pu
    using that each set_update_subset_insert [of ps i pu] by (fastforce simp: accepted_by_redis_def list_all_iff)
  have "list_all (sent_faithfully encode_json) (accepted_by_redis (fleet_step alloc encode_json dump st f))"
  proof (cases st)
    case (Spawn cfg stream_cfg pid)
    then show ?thesis using Cons.prems
      by (auto simp: f accepted_by_redis_def mk_publisher_def)
  next
    case (Start i grouped)
    have "pu_sent (fst (snd (publisher_start alloc r grouped (ps ! i)))) = pu_sent (ps ! i)"
      by (auto simp: publisher_start_def split: sum.splits prod.splits)
    then show ?thesis using Cons.prems each Start by (auto simp: f split: prod.splits intro!: upd)
  next
    case (Publish i s d)
    obtain res pu' where pub: "publish_datum encode_json dump s (ps ! i) d = (res, pu')" by fastforce
    have "list_all (sent_faithfully encode_json) (pu_sent pu')" if "i < length ps"
      using publish_sends [OF pub] each [OF nth_mem [OF that]] by (auto simp: sent_faithfully_def)
    then show ?thesis using Cons.prems upd Publish pub by (auto simp: f)
  qed
  then show ?case using Cons.IH by simp
qed simp

text \<open>A run of publications by one started publisher, with the result of every call.\<close>

fun publish_run ::
  "(ipc_payload \<Rightarrow> string) \<Rightarrow> (market_event_envelope \<Rightarrow> string) \<Rightarrow> event_publisher \<Rightarrow> (publish_surroundings \<times> publishable) list \<Rightarrow>
   publish_outcome res list \<times> event_publisher" where
  "publish_run encode_json dump pu [] = ([], pu)"
| "publish_run encode_json dump pu ((s, d) # rest) =
     (case publish_datum encode_json dump s pu d of (res, pu') \<Rightarrow>
        (case publish_run encode_json dump pu' rest of (ress, pu'') \<Rightarrow> (res # ress, pu'')))"

definition published_payloads :: "(ipc_payload \<Rightarrow> string) \<Rightarrow> publishable list \<Rightarrow> publish_outcome res list \<Rightarrow> string list" where
  "published_payloads encode_json ds ress =
     concat (map (\<lambda>(d, res). if res = Inr PUBLISHED then case as_ipc_payload d of Inr p \<Rightarrow> [encode_json p] | Inl _ \<Rightarrow> [] else []) (zip ds ress))"

text \<open>
  The publisher accounts for every call and alters nothing: once started, over a stream that accepts whatever the
  publisher's own limit accepts, no call of any run raises, every call is counted in exactly one
  outcome counter, exactly the supported data consume one sequence number each, whatever their
  outcome, and Redis holds, in call order and each once, the serialised payloads of exactly the calls that
  reported success.
\<close>

lemma publisher_accounts_for_every_call:
  assumes "pu_epoch pu = Some epoch" "stream_accepts_limit pu" "publish_run encode_json dump pu calls = (ress, pu')"
  shows "list_all is_ok ress \<and> length ress = length calls
    \<and> pc_attempted (pu_counters pu') = pc_attempted (pu_counters pu) + int (length calls)
    \<and> counters_total (pu_counters pu') = counters_total (pu_counters pu) + int (length calls)
    \<and> pu_sequence pu' = pu_sequence pu + int (length (filter (supported \<circ> snd) calls))
    \<and> map payload (pu_sent pu') = map payload (pu_sent pu) @ published_payloads encode_json (map snd calls) ress"
  using assms
proof (induction calls arbitrary: pu ress)
  case (Cons c calls)
  obtain s d where c: "c = (s, d)" by fastforce
  obtain res pu1 where pub: "publish_datum encode_json dump s pu d = (res, pu1)" by fastforce
  obtain ress1 where rest: "publish_run encode_json dump pu1 calls = (ress1, pu')" "ress = res # ress1"
    using Cons.prems(3) by (auto simp: c pub split: prod.splits)
  obtain out where step: "res = Inr out" "pu_epoch pu1 = Some epoch" "pu_config pu1 = pu_config pu" "pu_stream_config pu1 = pu_stream_config pu"
    "pu_sequence pu1 = pu_sequence pu + (if supported d then 1 else 0)"
    "pc_attempted (pu_counters pu1) = pc_attempted (pu_counters pu) + 1"
    "counters_total (pu_counters pu1) = counters_total (pu_counters pu) + 1"
    "(out = PUBLISHED) = (pu_sent pu1 \<noteq> pu_sent pu)"
    using publish_step [OF Cons.prems(1,2) pub] by (metis append_self_conv not_Cons_self2)
  have sent: "map payload (pu_sent pu1) = map payload (pu_sent pu) @ published_payloads encode_json [d] [res]"
    using publish_sends [OF pub] step(1,8) by (auto simp: published_payloads_def)
  have "stream_accepts_limit pu1" using Cons.prems(2) step(3,4) by (simp add: stream_accepts_limit_def)
  note IH = Cons.IH [OF step(2) this rest(1)]
  then show ?case using step sent rest(2) by (simp add: c published_payloads_def)
qed (simp add: published_payloads_def)

definition demo_publisher :: event_publisher where
  "demo_publisher =
     \<lparr>pu_config = default_ipc_config, pu_stream_config = default_ipc_config, pu_producer_id = ''ingest'', pu_epoch = Some 1,
      pu_sequence = 0,
      pu_counters = \<lparr>pc_attempted = 0, pc_published = 0, pc_publish_failures = 0, pc_serialization = 0, pc_oversize = 0, pc_unsupported = 0\<rparr>,
      pu_last_publish_at = None, pu_sent = []\<rparr>"

definition demo_calls :: "(publish_surroundings \<times> publishable) list" where
  "demo_calls =
     [(demo_stamps, MarketDatum (ReferenceData demo_reference)),
      (demo_stamps\<lparr>ps_xadd_fails := True\<rparr>, MarketDatum (ReferenceData demo_reference)),
      (demo_stamps\<lparr>ps_stamps := Inl (RuntimeError ''no trading date'')\<rparr>, MarketDatum (ReferenceData demo_reference))]"

lemma publisher_accounts_for_every_call_example:
  "pc_attempted (pu_counters (snd (publish_run (\<lambda>_. ''P'') (\<lambda>_. ''E'') demo_publisher demo_calls))) = 3
   \<and> pu_sequence (snd (publish_run (\<lambda>_. ''P'') (\<lambda>_. ''E'') demo_publisher demo_calls)) = 3"
proof -
  have epoch: "pu_epoch demo_publisher = Some 1" by (simp add: demo_publisher_def)
  have limit: "stream_accepts_limit demo_publisher" by (simp add: demo_publisher_def stream_accepts_limit_def)
  obtain ress pu' where run: "publish_run (\<lambda>_. ''P'') (\<lambda>_. ''E'') demo_publisher demo_calls = (ress, pu')" by fastforce
  show ?thesis
    using publisher_accounts_for_every_call [OF epoch limit run] run
    by (simp add: demo_calls_def demo_publisher_def supported_def as_ipc_payload_def)
qed

text \<open>
  A publication raises exactly when the publisher was never started, or when the stream has a smaller limit
  than the publisher and the encoded envelope lies between the two; in every other case it returns an outcome.
\<close>

lemma publish_raises_exactly:
  "(\<not> is_ok (fst (publish_datum encode_json dump s pu d))) \<longleftrightarrow>
     pu_epoch pu = None
     \<or> (\<exists>epoch p e. pu_epoch pu = Some epoch \<and> as_ipc_payload d = Inr p
          \<and> prepare encode_json dump s (pu\<lparr>pu_sequence := pu_sequence pu + 1\<rparr>) epoch p = Inr e
          \<and> cfg_max_payload_bytes (pu_stream_config pu) < int (length (dump e)))"
proof -
  have prep: "prepare encode_json dump s (pu\<lparr>pu_counters := k, pu_sequence := n\<rparr>) epoch p =
      prepare encode_json dump s (pu\<lparr>pu_sequence := n\<rparr>) epoch p" for k n epoch p
    by (simp add: prepare_def)
  show ?thesis
    by (auto simp: publish_datum_def Let_def prep stream_publish_def encode_envelope_def split: option.splits sum.splits if_splits)
qed

end
