(* ===== verification/Ipc_Pipeline.thy ===== *)
theory Ipc_Pipeline
  imports Ipc_Publisher
begin

text \<open>
  The publisher and the consumer together: what any number of publishers put on the stream is what the consumer
  hands to its sink, whatever is redelivered. The JSON layer stays a parameter, of which only the round trip
  of the envelopes on the stream is assumed.
\<close>

definition serialises ::
  "wire \<Rightarrow> (ipc_payload \<Rightarrow> string) \<Rightarrow> (market_event_envelope \<Rightarrow> string) \<Rightarrow> market_event_envelope list \<Rightarrow> bool" where
  "serialises w encode_json dump es \<longleftrightarrow>
     (\<forall>e \<in> set es. parse_envelope w (dump e) = Some e
        \<and> (\<exists>members. json_loads w (dump e) = Some (JObject members) \<and> map_of members ''schema_version'' = Some (JInt (schema_version e)))
        \<and> (\<forall>p. event_kind_for p = env_event_kind e \<and> encode_json p = payload e
              \<longrightarrow> decode_payload w (env_event_kind e) (payload e) = Some p))"

lemma published_decodes:
  assumes "serialises w encode_json dump es" "e \<in> set es" "validate_envelope e = Inr e"
  shows "decode_entry w (Some (dump e)) = Inr (Some e, APPLIED)"
proof -
  have "schema_version e \<in> supported_schema_versions" using assms(3) by (auto simp: validate_envelope_def Let_def split: if_splits)
  then show ?thesis
    using assms by (auto simp: serialises_def decode_entry_def consumer_decode_envelope_def version_supported_def decode_envelope_def Let_def)
qed

text \<open>The deliveries of a run: each carries a published envelope, in the session the consumer is in.\<close>

definition delivers :: "(market_event_envelope \<Rightarrow> string) \<Rightarrow> market_event_envelope \<Rightarrow> delivery \<Rightarrow> bool" where
  "delivers dump e d \<longleftrightarrow> (case d of (s, (mid, raw), claimed) \<Rightarrow> raw = Some (dump e) \<and> in_session s e)"

definition sink_accepts :: "delivery \<Rightarrow> bool" where
  "sink_accepts d \<longleftrightarrow> \<not> env_sink_raises (fst d)"

definition carries :: "(ipc_payload \<Rightarrow> string) \<Rightarrow> market_event_envelope \<Rightarrow> ipc_payload \<Rightarrow> bool" where
  "carries encode_json e p \<longleftrightarrow> env_event_kind e = event_kind_for p \<and> payload e = encode_json p"

lemma carries_unique:
  assumes "serialises w encode_json dump es" "e \<in> set es" "carries encode_json e p"
  shows "decode_payload w (env_event_kind e) (payload e) = Some p" "carries encode_json e p' \<Longrightarrow> p' = p"
  using assms unfolding serialises_def carries_def by (metis option.inject)+

lemma deliver_published:
  assumes ser: "serialises w encode_json dump es" and e: "e \<in> set es" "validate_envelope e = Inr e"
    and p: "carries encode_json e p"
    and inj: "inj_on identity_from_envelope (set es)" and size: "length es \<le> Suc n"
    and win: "window_faithful \<lparr>dd_max_entries = Suc n, dd_seen = []\<rparr> c" and sub: "fst ` set (co_applied c) \<subseteq> set es"
    and d: "delivers dump e d"
  shows "co_applied (deliver w c d) =
    (if \<not> sink_accepts d \<or> e \<in> fst ` set (co_applied c) then co_applied c else co_applied c @ [(e, p)])"
proof -
  obtain s mid claimed where d': "d = (s, (mid, Some (dump e)), claimed)" and sess: "in_session s e"
    using d by (cases d) (auto simp: delivers_def)
  have dec: "decode_entry w (Some (dump e)) = Inr (Some e, APPLIED)" using published_decodes [OF ser e] .
  have pay: "decode_payload w (env_event_kind e) (payload e) = Some p" using carries_unique(1) [OF ser e(1) p] .
  have "card (set (applied_identities c)) \<le> card (set es)"
    using sub by (metis (no_types, lifting) applied_identities_def List.finite_set card_image_le card_mono image_comp list.set_map order_trans)
  then have "card (set (applied_identities c)) \<le> Suc n" using size card_length [of es] by linarith
  then have "dd_contains (co_dedup c) (identity_from_envelope e) \<longleftrightarrow> identity_from_envelope e \<in> set (applied_identities c)"
    using dd.exact_below_capacity win by (simp add: window_faithful_def)
  also have "\<dots> \<longleftrightarrow> e \<in> fst ` set (co_applied c)"
    using sub inj e(1) by (auto simp: applied_identities_def inj_on_def)
  finally have seen: "dd_contains (co_dedup c) (identity_from_envelope e) \<longleftrightarrow> e \<in> fst ` set (co_applied c)" .
  have "co_applied (deliver w c d) = fst (snd (entry_spec w s (mid, Some (dump e)) (memory c)))"
    using deliver_memory [of w c s "(mid, Some (dump e))" claimed] by (metis d' memory_def fst_conv snd_conv)
  also have "\<dots> = (if env_sink_raises s \<or> e \<in> fst ` set (co_applied c) then co_applied c else co_applied c @ [(e, p)])"
    using seen dec pay sess by (simp add: entry_spec_def memory_def Let_def)
  finally show ?thesis by (simp add: d' sink_accepts_def)
qed

lemma run_published:
  assumes ser: "serialises w encode_json dump es" and faith: "list_all (sent_faithfully encode_json) es"
    and dist: "distinct (map identity_from_envelope es)" and size: "length es \<le> Suc n"
    and ds: "\<forall>d \<in> set ds. \<exists>e \<in> set es. delivers dump e d"
    and c: "c = foldl (deliver w) (blank_consumer \<lparr>dd_max_entries = Suc n, dd_seen = []\<rparr>) ds"
  shows "window_faithful \<lparr>dd_max_entries = Suc n, dd_seen = []\<rparr> c" "distinct (map fst (co_applied c))"
    "set (co_applied c) = {(e, p). e \<in> set es \<and> carries encode_json e p
        \<and> (\<exists>d \<in> set ds. delivers dump e d \<and> sink_accepts d)}"
  using ds unfolding c
proof (induction ds rule: rev_induct)
  case Nil
  { case 1 show ?case by (simp add: window_faithful_def blank_consumer_def applied_identities_def) }
  { case 2 show ?case by (simp add: blank_consumer_def) }
  { case 3 show ?case by (simp add: blank_consumer_def) }
next
  case (snoc d ds)
  let ?start = "blank_consumer \<lparr>dd_max_entries = Suc n, dd_seen = []\<rparr>"
  let ?c = "foldl (deliver w) ?start ds"
  have IH: "window_faithful \<lparr>dd_max_entries = Suc n, dd_seen = []\<rparr> ?c" "distinct (map fst (co_applied ?c))"
    "set (co_applied ?c) = {(e, p). e \<in> set es \<and> carries encode_json e p
        \<and> (\<exists>d \<in> set ds. delivers dump e d \<and> sink_accepts d)}"
    if "\<forall>d \<in> set (ds @ [d]). \<exists>e \<in> set es. delivers dump e d"
    using snoc.IH that by simp_all
  have step: "co_applied (deliver w ?c d) =
      (if \<not> sink_accepts d \<or> e \<in> fst ` set (co_applied ?c) then co_applied ?c else co_applied ?c @ [(e, p)])"
    if all: "\<forall>d \<in> set (ds @ [d]). \<exists>e \<in> set es. delivers dump e d" and e: "e \<in> set es" "delivers dump e d"
      "carries encode_json e p" for e p
  proof (rule deliver_published [OF ser e(1) _ e(3) _ size IH(1) [OF all] _ e(2)])
    show "validate_envelope e = Inr e" using faith e(1) by (auto simp: list_all_iff sent_faithfully_def)
    show "inj_on identity_from_envelope (set es)" using dist by (simp add: distinct_map)
    show "fst ` set (co_applied ?c) \<subseteq> set es" using IH(3) [OF all] by auto
  qed
  have found: "\<exists>e p. e \<in> set es \<and> delivers dump e d \<and> carries encode_json e p"
    if "\<forall>d \<in> set (ds @ [d]). \<exists>e \<in> set es. delivers dump e d"
    using that faith by (fastforce simp: list_all_iff sent_faithfully_def carries_def)
  have unique: "e' = e" if "delivers dump e d" "delivers dump e' d" "e \<in> set es" "e' \<in> set es" for e e'
    using that ser unfolding serialises_def by (auto simp: delivers_def split: prod.splits) (metis option.inject)
  { case 1 show ?case using deliver_window(1) [OF IH(1) [OF 1]] by simp }
  { case 2 show ?case using found [OF 2] step [OF 2] IH(2) [OF 2] by fastforce }
  { case 3
    obtain e p where e: "e \<in> set es" "delivers dump e d" "carries encode_json e p"
      using found [OF 3] by blast
    have this_one: "(e' \<in> set es \<and> carries encode_json e' p' \<and> delivers dump e' d) \<longleftrightarrow> (e', p') = (e, p)" for e' p'
      using unique [OF e(2) _ e(1)] carries_unique(2) [OF ser e(1,3)] e by blast
    have "(e, p) \<in> set (co_applied ?c)" if "e \<in> fst ` set (co_applied ?c)"
      using that e(1,3) unfolding IH(3) [OF 3] by auto
    then have "set (co_applied (deliver w ?c d)) = set (co_applied ?c) \<union> (if sink_accepts d then {(e, p)} else {})"
      using step [OF 3 e] by (simp add: insert_absorb)
    also have "\<dots> = {(e, p). e \<in> set es \<and> carries encode_json e p
        \<and> (\<exists>d \<in> set (ds @ [d]). delivers dump e d \<and> sink_accepts d)}"
      unfolding IH(3) [OF 3] using this_one by (cases "sink_accepts d") fastforce+
    finally show ?case by simp }
qed


definition demo_encode :: "ipc_payload \<Rightarrow> string" where
  "demo_encode p = (if p = ReferencePayload demo_reference then ''P'' else ''Q'')"

definition first_envelope :: market_event_envelope where
  "first_envelope = demo_envelope\<lparr>producer_sequence := 1\<rparr>"

definition pipeline_wire :: wire where
  "pipeline_wire = demo_wire\<lparr>parse_envelope := (\<lambda>raw. if raw = ''E'' then Some first_envelope else None)\<rparr>"

definition one_publisher :: "fleet_event list" where
  "one_publisher =
     [Spawn default_ipc_config default_ipc_config ''ingest'', Start 0 (Inr ()),
      Publish 0 demo_stamps (MarketDatum (ReferenceData demo_reference))]"

lemma one_publisher_sends:
  "accepted_by_redis (fold (fleet_step (allocate local_incr) demo_encode (\<lambda>_. ''E'')) one_publisher ((\<lambda>_. 0), [])) = [first_envelope]"
  by (simp add: one_publisher_def mk_publisher_def publisher_start_def allocate_def local_incr_def publish_datum_def Let_def as_ipc_payload_def
      prepare_def build_envelope_def validate_envelope_def encode_envelope_def stream_publish_def demo_stamps_def default_ipc_config_def
      supported_schema_versions_def bounded_text_def identity_string_for_def payload_instrument_def demo_reference_def
      well_formed_identity_def partition_colon_def max_payload_bytes_ceiling_def accepted_by_redis_def
      cash_equity_def demo_encode_def first_envelope_def demo_envelope_def event_kind_for_def)

definition redelivered :: "delivery list" where
  "redelivered =
     [(demo_surroundings True, (''1-0'', Some ''E''), False), (demo_surroundings False, (''1-0'', Some ''E''), True),
      (demo_surroundings False, (''1-0'', Some ''E''), True)]"


end
