(* ===== verification/Strategy_Contracts.thy ===== *)
theory Strategy_Contracts
  imports Market_Context "HOL-Library.AList" "HOL-Library.List_Lexorder" "HOL-Library.Char_ord" "HOL-Library.Product_Lexorder"
begin

text \<open>
  The contracts of the strategy layer (\<^verbatim>\<open>strategies/\<close>): enumerations, descriptors, declared requirements,
  evaluations and results with their validators, and the strategy registry. A Python dict is an association
  list in insertion order: \<open>AList.update\<close> replaces in place or appends, as assignment does.
\<close>

lemma update_absent: "map_of al k = None \<Longrightarrow> AList.update k v al = al @ [(k, v)]"
  by (induction al) (auto split: if_splits)

lemma set_update_pair: "set (AList.update k v al) \<subseteq> insert (k, v) (set al)"
  by (induction al) auto

section \<open>Enumerations\<close>

datatype strategy_category =
    MOMENTUM | BREAKOUT | REVERSAL | TREND | RANGE | VOLATILITY | LIQUIDITY | OPENING_SESSION | VOLUME | MARKET_STRUCTURE

definition category_value :: "strategy_category \<Rightarrow> string" where
  "category_value c =
     (case c of
        MOMENTUM \<Rightarrow> ''momentum'' | BREAKOUT \<Rightarrow> ''breakout'' | REVERSAL \<Rightarrow> ''reversal'' | TREND \<Rightarrow> ''trend''
      | RANGE \<Rightarrow> ''range'' | VOLATILITY \<Rightarrow> ''volatility'' | LIQUIDITY \<Rightarrow> ''liquidity''
      | OPENING_SESSION \<Rightarrow> ''opening_session'' | VOLUME \<Rightarrow> ''volume'' | MARKET_STRUCTURE \<Rightarrow> ''market_structure'')"

datatype lifecycle_state = REGISTERED | STARTING | RUNNING | PAUSED | STOPPED | FAULTED | SHUTDOWN

datatype evaluation_status = MATCHED | UNMATCHED | SKIPPED | EVALUATION_ERROR

datatype strategy_trigger =
    ON_CONTEXT | ON_TICK | ON_QUOTE | ON_CANDLE_FINALIZED | ON_SESSION_TRANSITION | ON_HISTORICAL_READY

datatype candle_completeness = AUTHORITATIVE_ONLY | PARTIAL_ALLOWED

datatype fact_need = LATEST_TICK | LATEST_QUOTE | SESSION_FACT | PREVIOUS_SESSION | SESSION_STATISTICS

definition fact_need_value :: "fact_need \<Rightarrow> string" where
  "fact_need_value f =
     (case f of
        LATEST_TICK \<Rightarrow> ''latest_tick'' | LATEST_QUOTE \<Rightarrow> ''latest_quote'' | SESSION_FACT \<Rightarrow> ''session''
      | PREVIOUS_SESSION \<Rightarrow> ''previous_session'' | SESSION_STATISTICS \<Rightarrow> ''session_statistics'')"

datatype emission_policy = CONTINUOUS | EDGE_TRIGGERED | ONE_SHOT_PER_SESSION

section \<open>Validated text\<close>

definition is_digit :: "char \<Rightarrow> bool" where
  "is_digit c \<longleftrightarrow> CHR ''0'' \<le> c \<and> c \<le> CHR ''9''"

definition is_lower :: "char \<Rightarrow> bool" where
  "is_lower c \<longleftrightarrow> CHR ''a'' \<le> c \<and> c \<le> CHR ''z''"

definition is_upper :: "char \<Rightarrow> bool" where
  "is_upper c \<longleftrightarrow> CHR ''A'' \<le> c \<and> c \<le> CHR ''Z''"

definition letter_led :: "(char \<Rightarrow> bool) \<Rightarrow> (char \<Rightarrow> bool) \<Rightarrow> string \<Rightarrow> bool" where
  "letter_led first rest s = (case s of [] \<Rightarrow> False | c # cs \<Rightarrow> first c \<and> list_all rest cs)"

text \<open>The patterns \<^verbatim>\<open>^[a-z][a-z0-9_]*$\<close>, \<^verbatim>\<open>^[A-Z][A-Z0-9_]*$\<close>, \<^verbatim>\<open>^[a-zA-Z][a-zA-Z0-9_]*$\<close> and \<^verbatim>\<open>^\d+\.\d+\.\d+$\<close>.\<close>

definition is_strategy_id :: "string \<Rightarrow> bool" where
  "is_strategy_id = letter_led is_lower (\<lambda>c. is_lower c \<or> is_digit c \<or> c = CHR ''_'')"

definition is_reason_code :: "string \<Rightarrow> bool" where
  "is_reason_code = letter_led is_upper (\<lambda>c. is_upper c \<or> is_digit c \<or> c = CHR ''_'')"

definition is_metric_name :: "string \<Rightarrow> bool" where
  "is_metric_name = letter_led (\<lambda>c. is_lower c \<or> is_upper c) (\<lambda>c. is_lower c \<or> is_upper c \<or> is_digit c \<or> c = CHR ''_'')"

fun split_on :: "char \<Rightarrow> string \<Rightarrow> string list" where
  "split_on sep [] = [[]]"
| "split_on sep (c # cs) =
     (if c = sep then [] # split_on sep cs
      else case split_on sep cs of [] \<Rightarrow> [[c]] | w # ws \<Rightarrow> (c # w) # ws)"

definition is_semver_lite :: "string \<Rightarrow> bool" where
  "is_semver_lite s \<longleftrightarrow>
     (let parts = split_on CHR ''.'' s in length parts = 3 \<and> list_all (\<lambda>p. p \<noteq> [] \<and> list_all is_digit p) parts)"

section \<open>Descriptors\<close>

record strategy_descriptor =
  sd_strategy_id :: string
  sd_display_name :: string
  sd_description :: string
  sd_version :: string
  sd_category :: strategy_category
  sd_emission_policy :: emission_policy
  sd_min_context_version :: int
  sd_max_context_version :: "int option"

definition validate_descriptor :: "strategy_descriptor \<Rightarrow> strategy_descriptor res" where
  "validate_descriptor d =
     (if \<not> is_strategy_id (sd_strategy_id d) then Inl (ValidationError ''strategy_id'')
      else if sd_display_name d = [] then Inl (ValidationError ''display_name'')
      else if sd_description d = [] then Inl (ValidationError ''description'')
      else if \<not> is_semver_lite (sd_version d) then Inl (ValidationError ''version'')
      else if sd_min_context_version d < 1 then Inl (ValidationError ''min_context_version'')
      else case sd_max_context_version d of
        None \<Rightarrow> Inr d
      | Some m \<Rightarrow>
          (if m < 1 then Inl (ValidationError ''max_context_version'')
           else if m < sd_min_context_version d
           then Inl (ValidationError ''max_context_version must not be less than min_context_version'')
           else Inr d))"

section \<open>Requirements\<close>

record historical_requirement =
  hr_timeframe :: timeframe
  hr_lookback :: int

definition mk_historical_requirement :: "timeframe \<Rightarrow> int \<Rightarrow> historical_requirement res" where
  "mk_historical_requirement tf lookback =
     (if lookback < 1 then Inl (ValueError ''historical lookback must be a positive integer'')
      else Inr \<lparr>hr_timeframe = tf, hr_lookback = lookback\<rparr>)"

record fact_freshness =
  ff_fact :: fact_need
  ff_max_age :: timedelta

definition mk_fact_freshness :: "fact_need \<Rightarrow> timedelta \<Rightarrow> fact_freshness res" where
  "mk_fact_freshness f age =
     (if age \<le> 0 then Inl (ValidationError ''max_age gt 0'') else Inr \<lparr>ff_fact = f, ff_max_age = age\<rparr>)"

record strategy_requirements =
  sr_historical :: "historical_requirement list"
  sr_live_timeframes :: "timeframe list"
  sr_fact_needs :: "fact_need list"
  sr_trigger :: strategy_trigger
  sr_candle_completeness :: candle_completeness
  sr_min_context_version :: int
  sr_freshness :: "fact_freshness list"

text \<open>\<^verbatim>\<open>tuple(dict.fromkeys(xs))\<close> keeps the first occurrence of every element.\<close>

definition dict_fromkeys :: "'a list \<Rightarrow> 'a list" where
  "dict_fromkeys xs = rev (remdups (rev xs))"

lemma set_dict_fromkeys [simp]: "set (dict_fromkeys xs) = set xs"
  by (simp add: dict_fromkeys_def)

lemma distinct_dict_fromkeys [simp]: "distinct (dict_fromkeys xs)"
  by (simp add: dict_fromkeys_def)

definition ordered_historical :: "historical_requirement list \<Rightarrow> historical_requirement list" where
  "ordered_historical rs = sort_key (\<lambda>r. (timeframe_ordering_key (hr_timeframe r), hr_lookback r)) (dict_fromkeys rs)"

definition ordered_timeframes :: "timeframe list \<Rightarrow> timeframe list" where
  "ordered_timeframes tfs = sort_key timeframe_ordering_key (dict_fromkeys tfs)"

definition ordered_fact_needs :: "fact_need list \<Rightarrow> fact_need list" where
  "ordered_fact_needs fs = sort_key fact_need_value (dict_fromkeys fs)"

definition ordered_freshness :: "fact_freshness list \<Rightarrow> fact_freshness list" where
  "ordered_freshness es = sort_key (\<lambda>e. fact_need_value (ff_fact e)) es"

definition normalize_requirements :: "strategy_requirements \<Rightarrow> strategy_requirements" where
  "normalize_requirements r =
     r\<lparr>sr_historical := ordered_historical (sr_historical r), sr_live_timeframes := ordered_timeframes (sr_live_timeframes r),
       sr_fact_needs := ordered_fact_needs (sr_fact_needs r), sr_freshness := ordered_freshness (sr_freshness r)\<rparr>"

definition validate_freshness :: "strategy_requirements \<Rightarrow> strategy_requirements res" where
  "validate_freshness r =
     (let facts = map ff_fact (sr_freshness r)
      in if card (set facts) \<noteq> length facts then Inl (ValidationError ''freshness must not define the same fact twice'')
         else if list_ex (\<lambda>e. ff_fact e \<notin> set (sr_fact_needs r)) (sr_freshness r)
         then Inl (ValidationError ''freshness may only reference a declared fact need'')
         else Inr r)"

definition mk_strategy_requirements :: "strategy_requirements \<Rightarrow> strategy_requirements res" where
  "mk_strategy_requirements r =
     (if sr_min_context_version r < 1 then Inl (ValidationError ''min_context_version'')
      else validate_freshness (normalize_requirements r))"

section \<open>Evaluations and results\<close>

datatype metric_value = MetricDecimal decimal | MetricInt int | MetricStr string | MetricBool bool

record metric_entry =
  me_name :: string
  me_value :: metric_value

record strategy_evaluation =
  ev_instrument :: instrument
  ev_context_version :: int
  ev_status :: evaluation_status
  ev_score :: "decimal option"
  ev_confidence :: "decimal option"
  ev_reason_codes :: "string list"
  ev_metrics :: "metric_entry list"
  ev_diagnostics :: "(string \<times> string) list"

definition validate_reason_codes :: "string list \<Rightarrow> string list res" where
  "validate_reason_codes codes =
     (if \<not> list_all is_reason_code codes then Inl (ValidationError ''reason_codes'')
      else if card (set codes) \<noteq> length codes then Inl (ValidationError ''reason codes must not contain duplicates'')
      else Inr codes)"

definition validate_metrics :: "metric_entry list \<Rightarrow> metric_entry list res" where
  "validate_metrics ms =
     (if \<not> list_all (\<lambda>m. is_metric_name (me_name m)) ms then Inl (ValidationError ''metrics'')
      else if card (set (map me_name ms)) \<noteq> length ms then Inl (ValidationError ''metric names must be unique'')
      else Inr (sort_key me_name ms))"

definition mk_strategy_evaluation :: "strategy_evaluation \<Rightarrow> strategy_evaluation res" where
  "mk_strategy_evaluation ev =
     (if ev_context_version ev < 1 then Inl (ValidationError ''context_version'')
      else res_bind (validate_reason_codes (ev_reason_codes ev)) (\<lambda>codes.
           res_bind (validate_metrics (ev_metrics ev)) (\<lambda>ms.
             if ev_status ev = MATCHED \<and> codes = []
             then Inl (ValidationError ''a matched evaluation must carry at least one reason code'')
             else Inr (ev\<lparr>ev_reason_codes := codes, ev_metrics := ms\<rparr>))))"

record strategy_result =
  rs_result_id :: "string option"
  rs_strategy_id :: string
  rs_strategy_version :: string
  rs_config_version :: string
  rs_instrument :: instrument
  rs_context_version :: int
  rs_evaluation_timestamp :: instant
  rs_status :: evaluation_status
  rs_score :: "decimal option"
  rs_confidence :: "decimal option"
  rs_reason_codes :: "string list"
  rs_metrics :: "metric_entry list"
  rs_metadata :: "(string \<times> string) list"
  rs_diagnostics :: "(string \<times> string) list"

definition mk_strategy_result :: "strategy_result \<Rightarrow> strategy_result res" where
  "mk_strategy_result r =
     (if \<not> is_strategy_id (rs_strategy_id r) then Inl (ValidationError ''strategy_id'')
      else if \<not> is_semver_lite (rs_strategy_version r) then Inl (ValidationError ''strategy_version'')
      else if \<not> is_semver_lite (rs_config_version r) then Inl (ValidationError ''config_version'')
      else if rs_context_version r < 1 then Inl (ValidationError ''context_version'')
      else res_bind (validate_reason_codes (rs_reason_codes r)) (\<lambda>codes.
           res_bind (validate_metrics (rs_metrics r)) (\<lambda>ms.
             if rs_status r = MATCHED \<and> codes = []
             then Inl (ValidationError ''a matched result must carry at least one reason code'')
             else Inr (r\<lparr>rs_reason_codes := codes, rs_metrics := ms\<rparr>))))"

section \<open>The strategy protocol and the registry\<close>

text \<open>
  The configuration classes of the repository, their shared version, and the one parameter any of them has.
\<close>

datatype configuration_type =
    NarrowCprConfiguration | OpenExtremeConfiguration | PreviousSessionBodyPctConfiguration
  | PreviousSessionRangePctConfiguration | PreviousSessionRelativeRangeConfiguration

record strategy_configuration =
  sc_type :: configuration_type
  sc_config_version :: string
  sc_narrow_cpr_max_width_pct :: "decimal option"

definition mk_strategy_configuration :: "strategy_configuration \<Rightarrow> strategy_configuration res" where
  "mk_strategy_configuration c =
     (if \<not> is_semver_lite (sc_config_version c) then Inl (ValidationError ''config_version'')
      else if \<not> positive_if_some (sc_narrow_cpr_max_width_pct c) then Inl (ValidationError ''narrow_cpr_max_width_pct'')
      else Inr c)"

record evaluation_metadata =
  em_trigger :: strategy_trigger
  em_context_version :: int
  em_observed_at :: instant
  em_trading_date :: "date option"

text \<open>A strategy; \<open>evaluate\<close> is pure and may raise.\<close>

record strategy =
  st_descriptor :: strategy_descriptor
  st_requirements :: strategy_requirements
  st_configuration_type :: configuration_type
  st_evaluate :: "market_context \<Rightarrow> strategy_configuration \<Rightarrow> evaluation_metadata \<Rightarrow> strategy_evaluation res"

type_synonym strategy_registry = "(string \<times> strategy) list"

definition registry_register :: "strategy_registry \<Rightarrow> strategy \<Rightarrow> strategy_registry res" where
  "registry_register reg s =
     (let sid = sd_strategy_id (st_descriptor s)
      in if map_of reg sid \<noteq> None then Inl (RuntimeError ''StrategyAlreadyRegisteredError'')
         else Inr (AList.update sid s reg))"

definition registry_get :: "strategy_registry \<Rightarrow> string \<Rightarrow> strategy res" where
  "registry_get reg sid =
     (case map_of reg sid of None \<Rightarrow> Inl (RuntimeError ''StrategyNotFoundError'') | Some s \<Rightarrow> Inr s)"

definition registry_contains :: "strategy_registry \<Rightarrow> string \<Rightarrow> bool" where
  "registry_contains reg sid \<longleftrightarrow> map_of reg sid \<noteq> None"

definition identifiers :: "strategy_registry \<Rightarrow> string list" where
  "identifiers reg = sort (map fst reg)"

definition registered_strategies :: "strategy_registry \<Rightarrow> strategy list" where
  "registered_strategies reg = map (\<lambda>sid. the (map_of reg sid)) (identifiers reg)"

definition wf_registry :: "strategy_registry \<Rightarrow> bool" where
  "wf_registry reg \<longleftrightarrow> distinct (map fst reg) \<and> (\<forall>(sid, s) \<in> set reg. sd_strategy_id (st_descriptor s) = sid)"

lemma registry_register_wf: "wf_registry reg \<Longrightarrow> registry_register reg s = Inr reg' \<Longrightarrow> wf_registry reg'"
  by (auto simp: wf_registry_def registry_register_def Let_def update_absent map_of_eq_None_iff split: if_splits)

lemma registry_get_id: "wf_registry reg \<Longrightarrow> registry_get reg sid = Inr s \<Longrightarrow> sd_strategy_id (st_descriptor s) = sid"
  by (auto simp: wf_registry_def registry_get_def split: option.splits dest!: map_of_SomeD)

end
