(* ===== verification/Strategy_Lifecycle.thy ===== *)
theory Strategy_Lifecycle
  imports Strategy_Contracts
begin

text \<open>
  The lifecycle state machine of strategies (\<^verbatim>\<open>strategy_manager/lifecycle.py\<close>, \<^verbatim>\<open>errors.py\<close>, \<^verbatim>\<open>status.py\<close>). The tracker is
  the dictionary of states; every command is a function that returns the new state or the error
  it raises. The transition table of the architecture decision the code cites is stated
  independently as the relation \<open>permitted\<close>, and the commands are shown to implement exactly that.
\<close>

type_synonym lifecycle = "(string \<times> lifecycle_state) list"

datatype command = Start_cmd | Mark_running | Pause | Resume | Stop_cmd | Mark_error | Force_stop bool | Shutdown_cmd

datatype lifecycle_error =
    StrategyNotTracked string
  | StrategyAlreadyTracked string
  | InvalidTransition string lifecycle_state command
  | LifecycleMisuse string

record runtime_status =
  rst_strategy_id :: string
  rst_state :: lifecycle_state

text \<open>\<^verbatim>\<open>_COMMAND_TRANSITIONS\<close>: permitted sources and target of the plain commands.\<close>

definition command_transitions :: "command \<Rightarrow> (lifecycle_state set \<times> lifecycle_state) option" where
  "command_transitions c =
     (case c of
        Start_cmd \<Rightarrow> Some ({REGISTERED, STOPPED, FAULTED}, STARTING)
      | Mark_running \<Rightarrow> Some ({STARTING}, RUNNING)
      | Pause \<Rightarrow> Some ({RUNNING}, PAUSED)
      | Resume \<Rightarrow> Some ({PAUSED}, RUNNING)
      | Stop_cmd \<Rightarrow> Some ({RUNNING, PAUSED, FAULTED}, STOPPED)
      | Mark_error \<Rightarrow> Some ({STARTING, RUNNING}, FAULTED)
      | _ \<Rightarrow> None)"

definition force_stop_sources :: "lifecycle_state set" where
  "force_stop_sources = {RUNNING, PAUSED, FAULTED}"

definition lc_register :: "lifecycle \<Rightarrow> string \<Rightarrow> lifecycle_error + lifecycle" where
  "lc_register lc sid =
     (if map_of lc sid \<noteq> None then Inl (StrategyAlreadyTracked sid) else Inr (AList.update sid REGISTERED lc))"

definition state_of :: "lifecycle \<Rightarrow> string \<Rightarrow> lifecycle_error + lifecycle_state" where
  "state_of lc sid = (case map_of lc sid of None \<Rightarrow> Inl (StrategyNotTracked sid) | Some s \<Rightarrow> Inr s)"

definition lc_snapshot :: "lifecycle \<Rightarrow> runtime_status list" where
  "lc_snapshot lc = map (\<lambda>sid. \<lparr>rst_strategy_id = sid, rst_state = the (map_of lc sid)\<rparr>) (sort (map fst lc))"

definition apply_command :: "lifecycle \<Rightarrow> string \<Rightarrow> command \<Rightarrow> lifecycle_state set \<Rightarrow> lifecycle_state \<Rightarrow> lifecycle_error + lifecycle" where
  "apply_command lc sid cmd sources target =
     (case state_of lc sid of
        Inl e \<Rightarrow> Inl e
      | Inr current \<Rightarrow>
          (if current \<notin> sources then Inl (InvalidTransition sid current cmd) else Inr (AList.update sid target lc)))"

definition force_stop :: "lifecycle \<Rightarrow> string \<Rightarrow> bool \<Rightarrow> lifecycle_error + lifecycle" where
  "force_stop lc sid clean_cancellable =
     (case state_of lc sid of
        Inl e \<Rightarrow> Inl e
      | Inr current \<Rightarrow>
          (if \<not> (current \<in> force_stop_sources \<or> (current = STARTING \<and> clean_cancellable))
           then Inl (InvalidTransition sid current (Force_stop clean_cancellable))
           else Inr (AList.update sid STOPPED lc)))"

definition lc_shutdown :: "lifecycle \<Rightarrow> string \<Rightarrow> lifecycle_error + lifecycle" where
  "lc_shutdown lc sid =
     (case state_of lc sid of
        Inl e \<Rightarrow> Inl e
      | Inr current \<Rightarrow>
          (if current = SHUTDOWN then Inl (InvalidTransition sid current Shutdown_cmd) else Inr (AList.update sid SHUTDOWN lc)))"

definition run_command :: "lifecycle \<Rightarrow> string \<Rightarrow> command \<Rightarrow> lifecycle_error + lifecycle" where
  "run_command lc sid cmd =
     (case command_transitions cmd of
        Some (sources, target) \<Rightarrow> apply_command lc sid cmd sources target
      | None \<Rightarrow> (case cmd of Force_stop clean \<Rightarrow> force_stop lc sid clean | _ \<Rightarrow> lc_shutdown lc sid))"

section \<open>The table\<close>

inductive permitted :: "lifecycle_state \<Rightarrow> command \<Rightarrow> lifecycle_state \<Rightarrow> bool" where
  start_fresh: "permitted REGISTERED Start_cmd STARTING"
| start_again: "permitted STOPPED Start_cmd STARTING"
| start_repaired: "permitted FAULTED Start_cmd STARTING"
| running: "permitted STARTING Mark_running RUNNING"
| pause: "permitted RUNNING Pause PAUSED"
| resume: "permitted PAUSED Resume RUNNING"
| stop: "s \<in> {RUNNING, PAUSED, FAULTED} \<Longrightarrow> permitted s Stop_cmd STOPPED"
| fault: "s \<in> {STARTING, RUNNING} \<Longrightarrow> permitted s Mark_error FAULTED"
| force: "s \<in> {RUNNING, PAUSED, FAULTED} \<Longrightarrow> permitted s (Force_stop clean) STOPPED"
| force_clean: "permitted STARTING (Force_stop True) STOPPED"
| shutdown: "s \<noteq> SHUTDOWN \<Longrightarrow> permitted s Shutdown_cmd SHUTDOWN"

inductive_simps permitted_iff: "permitted s c t"

code_pred permitted .

lemma permitted_deterministic: "permitted s c t \<Longrightarrow> permitted s c t' \<Longrightarrow> t = t'"
  by (auto simp: permitted_iff)

lemma run_command_untracked: "map_of lc sid = None \<Longrightarrow> run_command lc sid cmd = Inl (StrategyNotTracked sid)"
  by (cases cmd) (simp_all add: run_command_def command_transitions_def apply_command_def force_stop_def lc_shutdown_def state_of_def)

lemma run_command_tracked:
  assumes "map_of lc sid = Some s"
  shows "run_command lc sid cmd = Inr lc' \<longleftrightarrow> (\<exists>t. permitted s cmd t \<and> lc' = AList.update sid t lc)"
    and "(\<nexists>t. permitted s cmd t) \<Longrightarrow> run_command lc sid cmd = Inl (InvalidTransition sid s cmd)"
  using assms
  by (cases cmd; cases s; auto simp: run_command_def command_transitions_def apply_command_def force_stop_def force_stop_sources_def
      lc_shutdown_def state_of_def permitted_iff)+

section \<open>Runs\<close>

datatype lifecycle_op = Track string | Command string command

definition lifecycle_step :: "lifecycle \<Rightarrow> lifecycle_op \<Rightarrow> lifecycle" where
  "lifecycle_step lc op =
     (case (case op of Track sid \<Rightarrow> lc_register lc sid | Command sid cmd \<Rightarrow> run_command lc sid cmd) of
        Inl _ \<Rightarrow> lc | Inr lc' \<Rightarrow> lc')"

text \<open>The history of one strategy: what its state was after every operation.\<close>

inductive can_become :: "lifecycle_state option \<Rightarrow> lifecycle_state option \<Rightarrow> bool" where
  keep: "can_become s s"
| track: "can_become None (Some REGISTERED)"
| move: "permitted s cmd t \<Longrightarrow> can_become (Some s) (Some t)"

lemma lifecycle_step_view:
  "can_become (map_of lc sid) (map_of (lifecycle_step lc op) sid)"
proof (cases op)
  case (Track x)
  then show ?thesis
    by (auto simp: lifecycle_step_def lc_register_def update_conv' intro: can_become.intros)
next
  case (Command x cmd)
  show ?thesis
  proof (cases "run_command lc x cmd")
    case (Inr lc')
    then obtain s where s: "map_of lc x = Some s" using run_command_untracked [of lc x cmd] by fastforce
    then obtain t where "permitted s cmd t" "lc' = AList.update x t lc" using run_command_tracked(1) Inr by blast
    with s show ?thesis
      by (auto simp: Command lifecycle_step_def Inr update_conv' intro: can_become.intros)
  qed (simp add: Command lifecycle_step_def can_become.keep)
qed

lemma lifecycle_step_only:
  "(case op of Track x \<Rightarrow> x | Command x _ \<Rightarrow> x) \<noteq> sid \<Longrightarrow> map_of (lifecycle_step lc op) sid = map_of lc sid"
  by (cases op)
    (auto simp: lifecycle_step_def lc_register_def run_command_def command_transitions_def apply_command_def force_stop_def
      lc_shutdown_def update_conv' split: sum.splits command.splits option.splits if_splits)

lemma can_become_shutdown: "can_become (Some SHUTDOWN) t \<Longrightarrow> t = Some SHUTDOWN"
  by (auto elim!: can_become.cases simp: permitted_iff)

lemma can_become_running: "can_become s (Some RUNNING) \<Longrightarrow> s \<in> {Some RUNNING, Some STARTING, Some PAUSED}"
  by (auto elim!: can_become.cases simp: permitted_iff)

lemma shutdown_run: "map_of lc sid = Some SHUTDOWN \<Longrightarrow> map_of (foldl lifecycle_step lc ops) sid = Some SHUTDOWN"
proof (induction ops arbitrary: lc)
  case (Cons op ops)
  then show ?case using lifecycle_step_view [of lc sid op] can_become_shutdown by fastforce
qed simp

text \<open>
  C19. The lifecycle commands implement exactly the transition table: a command succeeds exactly when the table has a row for the
  current state of the strategy, and then moves that strategy to the row's target and leaves every other strategy alone; otherwise it
  raises the error that says why and changes nothing.
\<close>

theorem lifecycle_implements_table:
  "(run_command lc sid cmd = Inr lc' \<longleftrightarrow>
      (\<exists>s t. map_of lc sid = Some s \<and> permitted s cmd t \<and> lc' = AList.update sid t lc))
   \<and> (run_command lc sid cmd = Inl e \<longleftrightarrow>
      (case map_of lc sid of
         None \<Rightarrow> e = StrategyNotTracked sid
       | Some s \<Rightarrow> (\<nexists>t. permitted s cmd t) \<and> e = InvalidTransition sid s cmd))"
proof (rule conjI)
  show "run_command lc sid cmd = Inr lc' \<longleftrightarrow>
      (\<exists>s t. map_of lc sid = Some s \<and> permitted s cmd t \<and> lc' = AList.update sid t lc)"
    using run_command_untracked [of lc sid cmd] run_command_tracked(1) [of lc sid _ cmd lc'] by (cases "map_of lc sid") auto
  show "run_command lc sid cmd = Inl e \<longleftrightarrow>
      (case map_of lc sid of
         None \<Rightarrow> e = StrategyNotTracked sid
       | Some s \<Rightarrow> (\<nexists>t. permitted s cmd t) \<and> e = InvalidTransition sid s cmd)"
  proof (cases "map_of lc sid")
    case (Some s)
    then show ?thesis
      using run_command_tracked [OF Some, of cmd] by (cases "\<exists>t. permitted s cmd t"; cases "run_command lc sid cmd") auto
  qed (auto simp: run_command_untracked)
qed

text \<open>
  Over any run of registrations and commands, rejected ones included, shutdown is final, a strategy runs only directly
  after it was starting, paused or running already, a tracked strategy is never forgotten and never registered
  afresh, and an operation on one strategy leaves the state of every other as it was.
\<close>

lemma lifecycle_runs_safe:
  assumes "lc = foldl lifecycle_step [] ops"
  shows "(map_of lc x = Some SHUTDOWN \<longrightarrow> map_of (foldl lifecycle_step lc later) x = Some SHUTDOWN)
    \<and> (map_of (lifecycle_step lc op) x = Some RUNNING \<longrightarrow> map_of lc x \<in> {Some RUNNING, Some STARTING, Some PAUSED})
    \<and> (map_of lc x \<noteq> None \<longrightarrow> map_of (lifecycle_step lc op) x \<noteq> None)
    \<and> (map_of lc x \<notin> {None, Some REGISTERED} \<longrightarrow> map_of (lifecycle_step lc op) x \<notin> {None, Some REGISTERED})
    \<and> ((case op of Track y \<Rightarrow> y | Command y _ \<Rightarrow> y) \<noteq> x \<longrightarrow> map_of (lifecycle_step lc op) x = map_of lc x)"
proof -
  note view = lifecycle_step_view [of lc x op]
  have "map_of (lifecycle_step lc op) x \<noteq> None" if "map_of lc x \<noteq> None"
    using view that by (auto elim: can_become.cases)
  moreover have "map_of (lifecycle_step lc op) x \<notin> {None, Some REGISTERED}" if "map_of lc x \<notin> {None, Some REGISTERED}"
    using view that by (auto elim!: can_become.cases simp: permitted_iff)
  moreover have "map_of lc x \<in> {Some RUNNING, Some STARTING, Some PAUSED}" if "map_of (lifecycle_step lc op) x = Some RUNNING"
    using can_become_running view that by simp
  ultimately show ?thesis
    using shutdown_run [of lc x later] lifecycle_step_only [of op x lc] by (intro conjI impI)
qed

lemma lifecycle_runs_safe_example:
  "map_of (foldl lifecycle_step [] [Track ''narrow_cpr'', Command ''narrow_cpr'' Start_cmd, Command ''narrow_cpr'' Shutdown_cmd]) ''narrow_cpr''
     = Some SHUTDOWN
   \<and> map_of (foldl lifecycle_step (foldl lifecycle_step [] [Track ''narrow_cpr'', Command ''narrow_cpr'' Start_cmd, Command ''narrow_cpr'' Shutdown_cmd])
       [Command ''narrow_cpr'' Start_cmd, Command ''narrow_cpr'' Mark_running]) ''narrow_cpr'' = Some SHUTDOWN"
proof -
  have "map_of (foldl lifecycle_step [] [Track ''narrow_cpr'', Command ''narrow_cpr'' Start_cmd, Command ''narrow_cpr'' Shutdown_cmd]) ''narrow_cpr''
     = Some SHUTDOWN"
    by (simp add: lifecycle_step_def lc_register_def run_command_def command_transitions_def apply_command_def lc_shutdown_def state_of_def)
  then show ?thesis using lifecycle_runs_safe [OF refl] by blast
qed

end
