(* ===== verification/Strategy_Emission.thy ===== *)
theory Strategy_Emission
  imports Strategy_Contracts "HOL-Library.Multiset"
begin

text \<open>
  What the strategy manager decides about contexts and results without keeping lifecycle state: trigger relevance
  (\<^verbatim>\<open>strategy_manager/triggers.py\<close>), readiness (\<^verbatim>\<open>readiness.py\<close>, \<^verbatim>\<open>records.py\<close>), promotion of evaluations to results
  (\<^verbatim>\<open>promotion.py\<close>), ranking (\<^verbatim>\<open>ranking.py\<close>) and emission dedup (\<^verbatim>\<open>dedup.py\<close>).
\<close>

section \<open>Triggers\<close>

definition finalized_identities :: "market_context \<Rightarrow> (string \<times> instant \<times> instant) set" where
  "finalized_identities c =
     set (concat (map (\<lambda>tc. map (\<lambda>k. (tf_label (tc_timeframe tc), candle_start k, candle_end k)) (tc_finalized tc)) (mc_candle_sets c)))"

definition has_new_finalized :: "market_context option \<Rightarrow> market_context \<Rightarrow> bool" where
  "has_new_finalized previous current \<longleftrightarrow>
     finalized_identities current - (case previous of None \<Rightarrow> {} | Some p \<Rightarrow> finalized_identities p) \<noteq> {}"

definition session_changed :: "market_context option \<Rightarrow> market_context \<Rightarrow> bool" where
  "session_changed previous current =
     (case previous of
        None \<Rightarrow> False
      | Some p \<Rightarrow> (case (mc_session p, mc_session current) of
          (Some a, Some b) \<Rightarrow> sc_market_state a \<noteq> sc_market_state b | _ \<Rightarrow> False))"

definition historical_became_ready :: "market_context option \<Rightarrow> market_context \<Rightarrow> bool" where
  "historical_became_ready previous current \<longleftrightarrow>
     mc_historical current \<noteq> None \<and> (case previous of None \<Rightarrow> True | Some p \<Rightarrow> mc_historical p = None)"

definition is_triggered :: "strategy_trigger \<Rightarrow> market_context option \<Rightarrow> market_context \<Rightarrow> bool" where
  "is_triggered trigger previous current =
     (case trigger of
        ON_CONTEXT \<Rightarrow> True
      | ON_TICK \<Rightarrow> mc_latest_tick current \<noteq> None
          \<and> (case previous of None \<Rightarrow> True | Some p \<Rightarrow> mc_latest_tick current \<noteq> mc_latest_tick p)
      | ON_QUOTE \<Rightarrow> mc_latest_quote current \<noteq> None
          \<and> (case previous of None \<Rightarrow> True | Some p \<Rightarrow> mc_latest_quote current \<noteq> mc_latest_quote p)
      | ON_CANDLE_FINALIZED \<Rightarrow> has_new_finalized previous current
      | ON_SESSION_TRANSITION \<Rightarrow> session_changed previous current
      | ON_HISTORICAL_READY \<Rightarrow> historical_became_ready previous current)"

section \<open>Readiness\<close>

datatype readiness =
    READY | MISSING_FACTS | MISSING_HISTORICAL | MISSING_LIVE_TIMEFRAME | INCOMPATIBLE_CONTEXT | MISSING_CONFIGURATION
  | MISSING_SESSION_STATISTICS | SESSION_STATISTICS_NOT_AUTHORITATIVE | SESSION_STATISTICS_STALE

record evaluation_record =
  er_strategy_id :: string
  er_trigger :: strategy_trigger
  er_readiness :: readiness
  er_evaluation :: strategy_evaluation

definition version_compatible :: "strategy_descriptor \<Rightarrow> strategy_requirements \<Rightarrow> market_context \<Rightarrow> bool" where
  "version_compatible d r c \<longleftrightarrow>
     \<not> mc_version c < max (sd_min_context_version d) (sr_min_context_version r)
     \<and> (case sd_max_context_version d of None \<Rightarrow> True | Some m \<Rightarrow> mc_version c \<le> m)"

definition fact_available :: "fact_need \<Rightarrow> market_context \<Rightarrow> bool" where
  "fact_available need c =
     (case need of
        LATEST_TICK \<Rightarrow> mc_latest_tick c \<noteq> None
      | LATEST_QUOTE \<Rightarrow> mc_latest_quote c \<noteq> None
      | SESSION_FACT \<Rightarrow> mc_session c \<noteq> None
      | _ \<Rightarrow> (case mc_historical c of None \<Rightarrow> False | Some h \<Rightarrow> hc_previous_session h \<noteq> None))"

definition facts_ready :: "fact_need list \<Rightarrow> market_context \<Rightarrow> bool" where
  "facts_ready needs c = list_all (\<lambda>need. fact_available need c) (filter (\<lambda>need. need \<noteq> SESSION_STATISTICS) needs)"

text \<open>A dict comprehension keeps the last value of a repeated key.\<close>

definition dict_of :: "('k \<times> 'v) list \<Rightarrow> 'k \<Rightarrow> 'v option" where
  "dict_of kvs = map_of (rev kvs)"

definition historical_ready :: "strategy_requirements \<Rightarrow> market_context \<Rightarrow> bool" where
  "historical_ready r c =
     (if sr_historical r = [] then True
      else case mc_historical c of
        None \<Rightarrow> False
      | Some h \<Rightarrow>
          (let by_timeframe = dict_of (map (\<lambda>s. (hs_timeframe s, s)) (hc_series h))
           in list_all (\<lambda>req. case by_timeframe (hr_timeframe req) of
                  None \<Rightarrow> False | Some s \<Rightarrow> int (length (hs_candles s)) \<ge> hr_lookback req) (sr_historical r)))"

definition live_ready :: "strategy_requirements \<Rightarrow> market_context \<Rightarrow> bool" where
  "live_ready r c =
     (let by_timeframe = dict_of (map (\<lambda>s. (tc_timeframe s, s)) (mc_candle_sets c));
          authoritative = (sr_candle_completeness r = AUTHORITATIVE_ONLY)
      in list_all (\<lambda>tf. case by_timeframe tf of
             None \<Rightarrow> False | Some s \<Rightarrow> \<not> (authoritative \<and> tc_finalized s = [])) (sr_live_timeframes r))"

definition freshness_for :: "strategy_requirements \<Rightarrow> fact_need \<Rightarrow> timedelta option" where
  "freshness_for r f = map_option ff_max_age (find (\<lambda>e. ff_fact e = f) (sr_freshness r))"

definition session_statistics_verdict :: "strategy_requirements \<Rightarrow> market_context \<Rightarrow> readiness option" where
  "session_statistics_verdict r c =
     (if SESSION_STATISTICS \<notin> set (sr_fact_needs r) then None
      else case (mc_session c, mc_session_statistics c) of
        (Some s, Some st) \<Rightarrow>
          (if ss_trading_date st \<noteq> sc_trading_date s then Some MISSING_SESSION_STATISTICS
           else if ss_quality st \<noteq> AUTHORITATIVE then Some SESSION_STATISTICS_NOT_AUTHORITATIVE
           else case freshness_for r SESSION_STATISTICS of
             None \<Rightarrow> Some SESSION_STATISTICS_STALE
           | Some max_age \<Rightarrow>
               (let age = mc_observed_at c - ss_as_of st
                in if age < 0 \<or> max_age < age then Some SESSION_STATISTICS_STALE else None))
      | _ \<Rightarrow> Some MISSING_SESSION_STATISTICS)"

definition configuration_ok :: "strategy_configuration option \<Rightarrow> configuration_type \<Rightarrow> bool" where
  "configuration_ok cfg ty = (case cfg of None \<Rightarrow> False | Some k \<Rightarrow> sc_type k = ty)"

definition assess_readiness ::
  "strategy_descriptor \<Rightarrow> strategy_requirements \<Rightarrow> strategy_configuration option \<Rightarrow> configuration_type \<Rightarrow> market_context \<Rightarrow> readiness" where
  "assess_readiness d r cfg ty c =
     (if \<not> version_compatible d r c then INCOMPATIBLE_CONTEXT
      else if \<not> configuration_ok cfg ty then MISSING_CONFIGURATION
      else if \<not> facts_ready (sr_fact_needs r) c then MISSING_FACTS
      else if \<not> historical_ready r c then MISSING_HISTORICAL
      else if \<not> live_ready r c then MISSING_LIVE_TIMEFRAME
      else case session_statistics_verdict r c of Some v \<Rightarrow> v | None \<Rightarrow> READY)"

section \<open>Promotion\<close>

definition promote_evaluation ::
  "strategy_evaluation \<Rightarrow> strategy_descriptor \<Rightarrow> string \<Rightarrow> instant \<Rightarrow> strategy_result res" where
  "promote_evaluation ev d config_version timestamp =
     mk_strategy_result
       \<lparr>rs_result_id = None, rs_strategy_id = sd_strategy_id d, rs_strategy_version = sd_version d,
        rs_config_version = config_version, rs_instrument = ev_instrument ev, rs_context_version = ev_context_version ev,
        rs_evaluation_timestamp = timestamp, rs_status = ev_status ev, rs_score = ev_score ev,
        rs_confidence = ev_confidence ev, rs_reason_codes = ev_reason_codes ev, rs_metrics = ev_metrics ev,
        rs_metadata = [(''category'', category_value (sd_category d))], rs_diagnostics = ev_diagnostics ev\<rparr>"

section \<open>Ranking\<close>

record ranked_result =
  rk_rank :: nat
  rk_result :: strategy_result

definition rankable :: "strategy_result \<Rightarrow> bool" where
  "rankable r \<longleftrightarrow> rs_status r = MATCHED \<and> rs_score r \<noteq> None"

definition rank_key :: "strategy_result \<Rightarrow> decimal \<times> string" where
  "rank_key r = (- the (rs_score r), rs_strategy_id r)"

definition rank_results :: "strategy_result list \<Rightarrow> ranked_result list" where
  "rank_results rs =
     map (\<lambda>(i, r). \<lparr>rk_rank = i, rk_result = r\<rparr>)
       (enumerate 1 (sort_key rank_key (filter rankable rs)))"

section \<open>Emission dedup\<close>

text \<open>
  Metric values compare as Python compares them: numbers by value across \<^verbatim>\<open>Decimal\<close>, \<^verbatim>\<open>int\<close> and \<^verbatim>\<open>bool\<close>.
\<close>

definition metric_key :: "metric_value \<Rightarrow> string + decimal" where
  "metric_key v =
     (case v of MetricStr s \<Rightarrow> Inl s | MetricDecimal d \<Rightarrow> Inr d | MetricInt i \<Rightarrow> Inr (of_int i)
      | MetricBool b \<Rightarrow> Inr (if b then 1 else 0))"

type_synonym material_key =
  "evaluation_status \<times> decimal option \<times> decimal option \<times> string list \<times> (string \<times> (string + decimal)) list"

definition material_key :: "strategy_result \<Rightarrow> material_key" where
  "material_key r =
     (rs_status r, rs_score r, rs_confidence r, rs_reason_codes r, map (\<lambda>m. (me_name m, metric_key (me_value m))) (rs_metrics r))"

record entry_state =
  en_trading_date :: "date option"
  en_last_material_key :: "material_key option"
  en_last_status :: evaluation_status
  en_one_shot_emitted :: bool

definition fresh_entry :: "date option \<Rightarrow> entry_state" where
  "fresh_entry d = \<lparr>en_trading_date = d, en_last_material_key = None, en_last_status = UNMATCHED, en_one_shot_emitted = False\<rparr>"

type_synonym emission_dedup = "((string \<times> instrument) \<times> entry_state) list"

definition emit_continuous :: "entry_state \<Rightarrow> strategy_result \<Rightarrow> bool \<times> entry_state" where
  "emit_continuous en r =
     (let material = material_key r
      in if en_last_material_key en = Some material then (False, en) else (True, en\<lparr>en_last_material_key := Some material\<rparr>))"

definition emit_edge :: "entry_state \<Rightarrow> strategy_result \<Rightarrow> bool \<times> entry_state" where
  "emit_edge en r = (if rs_status r = en_last_status en then (False, en) else (True, en\<lparr>en_last_status := rs_status r\<rparr>))"

definition emit_one_shot :: "entry_state \<Rightarrow> strategy_result \<Rightarrow> bool \<times> entry_state" where
  "emit_one_shot en r =
     (if rs_status r = MATCHED \<and> \<not> en_one_shot_emitted en then (True, en\<lparr>en_one_shot_emitted := True\<rparr>) else (False, en))"

definition should_emit :: "emission_dedup \<Rightarrow> strategy_result \<Rightarrow> emission_policy \<Rightarrow> date option \<Rightarrow> bool \<times> emission_dedup" where
  "should_emit dd r policy d =
     (let key = (rs_strategy_id r, rs_instrument r);
          en = (case map_of dd key of
                  None \<Rightarrow> fresh_entry d
                | Some en \<Rightarrow> (if en_trading_date en \<noteq> d then fresh_entry d else en));
          (emit, en') = (case policy of CONTINUOUS \<Rightarrow> emit_continuous en r | EDGE_TRIGGERED \<Rightarrow> emit_edge en r
                           | ONE_SHOT_PER_SESSION \<Rightarrow> emit_one_shot en r)
      in (emit, AList.update key en' dd))"

definition reset_strategy :: "emission_dedup \<Rightarrow> string \<Rightarrow> emission_dedup" where
  "reset_strategy dd sid = filter (\<lambda>(key, en). fst key \<noteq> sid) dd"

section \<open>Ranking is a total order of exactly the rankable results\<close>

lemma ranked_projections:
  "map rk_result (map (\<lambda>(i, r). \<lparr>rk_rank = i, rk_result = r\<rparr>) (enumerate n xs)) = xs"
  "map rk_rank (map (\<lambda>(i, r). \<lparr>rk_rank = i, rk_result = r\<rparr>) (enumerate n xs)) = [n..<n + length xs]"
  by (induction xs arbitrary: n) (simp_all add: upt_conv_Cons del: upt_Suc)

lemma filter_singleton_key:
  assumes "inj_on f (set xs)" "k \<in> set xs" "mset ys = mset xs"
  shows "filter (\<lambda>x. f k = f x) ys = filter (\<lambda>x. f k = f x) xs"
proof -
  have same: "\<forall>y \<in> set (filter (\<lambda>x. f k = f x) zs). y = k" if "set zs = set xs" for zs
    using assms(1,2) that by (auto dest: inj_onD)
  have "length (filter (\<lambda>x. f k = f x) ys) = length (filter (\<lambda>x. f k = f x) xs)"
    using assms(3) by (metis mset_filter size_mset)
  then show ?thesis using same [of xs] same [of ys] assms(3) by (metis mset_eq_setD replicate_eqI)
qed

lemma ranking_order_independent:
  assumes "distinct (map rs_strategy_id rs)" "mset rs' = mset rs"
  shows "rank_results rs' = rank_results rs"
proof -
  have inj: "inj_on rank_key (set (filter rankable rs))"
    using assms(1) by (auto simp: inj_on_def rank_key_def distinct_map)
  have m: "mset (filter rankable rs') = mset (filter rankable rs)" using assms(2) by simp
  have "sort_key rank_key (filter rankable rs') = sort_key rank_key (filter rankable rs)"
  proof (rule properties_for_sort_key)
    show "filter (\<lambda>x. rank_key k = rank_key x) (sort_key rank_key (filter rankable rs)) = filter (\<lambda>x. rank_key k = rank_key x) (filter rankable rs')"
      if k: "k \<in> set (sort_key rank_key (filter rankable rs))" for k
      by (rule filter_singleton_key) (use inj m k mset_eq_setD [OF m] in simp_all)
  qed (use m in simp_all)
  then show ?thesis by (simp add: rank_results_def)
qed

text \<open>
  Ranking orders exactly the matched results that carry a score, each as often as it occurs and unchanged, with the ranks 1, 2, 3 and
  so on; a better rank never has a smaller score, and equal scores are in ascending order of strategy id.
\<close>

lemma ranking_exact:
  "mset (map rk_result (rank_results rs)) = mset (filter rankable rs)
   \<and> map rk_rank (rank_results rs) = [1..<Suc (length (filter rankable rs))]
   \<and> sorted_wrt (\<lambda>a b. the (rs_score b) < the (rs_score a)
        \<or> the (rs_score a) = the (rs_score b) \<and> rs_strategy_id a \<le> rs_strategy_id b) (map rk_result (rank_results rs))"
proof (intro conjI)
  let ?s = "sort_key rank_key (filter rankable rs)"
  have results: "map rk_result (rank_results rs) = ?s" by (simp only: rank_results_def ranked_projections)
  then show "mset (map rk_result (rank_results rs)) = mset (filter rankable rs)" by simp
  show "map rk_rank (rank_results rs) = [1..<Suc (length (filter rankable rs))]"
    by (simp only: rank_results_def ranked_projections length_sort plus_1_eq_Suc)
  have "sorted_wrt (\<lambda>a b. rank_key a \<le> rank_key b) ?s"
    using sorted_sort_key [of rank_key "filter rankable rs"] by (simp only: sorted_map)
  then show "sorted_wrt (\<lambda>a b. the (rs_score b) < the (rs_score a)
        \<or> the (rs_score a) = the (rs_score b) \<and> rs_strategy_id a \<le> rs_strategy_id b) (map rk_result (rank_results rs))"
    unfolding results by (rule sorted_wrt_mono_rel [rotated]) (auto simp: rank_key_def)
qed

section \<open>Emission follows the declared policy\<close>

datatype emission_op = Observe strategy_result "date option" | Reset string

fun emission_step :: "(string \<Rightarrow> emission_policy) \<Rightarrow> emission_dedup \<Rightarrow> emission_op \<Rightarrow> emission_dedup" where
  "emission_step policy_of dd (Observe r d) = snd (should_emit dd r (policy_of (rs_strategy_id r)) d)"
| "emission_step policy_of dd (Reset sid) = reset_strategy dd sid"

text \<open>
  The earlier results of a strategy on an instrument in the session at hand, newest first: back to the last
  observation under another trading date or the last reset. Histories are newest first as well.
\<close>

fun current_session :: "string \<times> instrument \<Rightarrow> date option \<Rightarrow> emission_op list \<Rightarrow> strategy_result list" where
  "current_session key d [] = []"
| "current_session key d (Observe r e # ops) =
     (if (rs_strategy_id r, rs_instrument r) \<noteq> key then current_session key d ops
      else if e = d then r # current_session key d ops else [])"
| "current_session key d (Reset sid # ops) = (if sid = fst key then [] else current_session key d ops)"

fun last_session :: "string \<times> instrument \<Rightarrow> emission_op list \<Rightarrow> date option option" where
  "last_session key [] = None"
| "last_session key (Observe r e # ops) =
     (if (rs_strategy_id r, rs_instrument r) = key then Some e else last_session key ops)"
| "last_session key (Reset sid # ops) = (if sid = fst key then None else last_session key ops)"

definition emits :: "emission_policy \<Rightarrow> strategy_result list \<Rightarrow> strategy_result \<Rightarrow> bool" where
  "emits policy earlier r =
     (case policy of
        CONTINUOUS \<Rightarrow> (case earlier of [] \<Rightarrow> True | p # _ \<Rightarrow> material_key p \<noteq> material_key r)
      | EDGE_TRIGGERED \<Rightarrow> rs_status r \<noteq> (case earlier of [] \<Rightarrow> UNMATCHED | p # _ \<Rightarrow> rs_status p)
      | ONE_SHOT_PER_SESSION \<Rightarrow> rs_status r = MATCHED \<and> \<not> list_ex (\<lambda>p. rs_status p = MATCHED) earlier)"

definition summary :: "emission_policy \<Rightarrow> date option \<Rightarrow> strategy_result list \<Rightarrow> entry_state" where
  "summary policy d earlier =
     \<lparr>en_trading_date = d,
      en_last_material_key = (if policy = CONTINUOUS then case earlier of [] \<Rightarrow> None | p # _ \<Rightarrow> Some (material_key p) else None),
      en_last_status = (if policy = EDGE_TRIGGERED then case earlier of [] \<Rightarrow> UNMATCHED | p # _ \<Rightarrow> rs_status p else UNMATCHED),
      en_one_shot_emitted = (policy = ONE_SHOT_PER_SESSION \<and> list_ex (\<lambda>p. rs_status p = MATCHED) earlier)\<rparr>"

lemma summary_Nil: "summary policy d [] = fresh_entry d"
  by (simp add: summary_def fresh_entry_def)

lemma current_session_other: "last_session key ops \<noteq> Some d \<Longrightarrow> current_session key d ops = []"
  by (induction ops rule: last_session.induct) (auto split: if_splits)

lemma should_emit_summary:
  assumes "map_of dd (rs_strategy_id r, rs_instrument r) =
      map_option (\<lambda>e. summary policy e (current_session (rs_strategy_id r, rs_instrument r) e ops))
        (last_session (rs_strategy_id r, rs_instrument r) ops)"
  shows "should_emit dd r policy d =
     (emits policy (current_session (rs_strategy_id r, rs_instrument r) d ops) r,
      AList.update (rs_strategy_id r, rs_instrument r)
        (summary policy d (r # current_session (rs_strategy_id r, rs_instrument r) d ops)) dd)"
proof -
  let ?key = "(rs_strategy_id r, rs_instrument r)" and ?s = "current_session (rs_strategy_id r, rs_instrument r) d ops"
  have entry: "(case map_of dd ?key of None \<Rightarrow> fresh_entry d | Some en \<Rightarrow> (if en_trading_date en \<noteq> d then fresh_entry d else en)) =
      summary policy d ?s"
    using assms current_session_other [of ?key ops d]
    by (cases "last_session ?key ops") (auto simp: summary_Nil, auto simp: summary_def fresh_entry_def)
  show ?thesis
    unfolding should_emit_def Let_def entry
    by (cases policy; cases ?s)
      (auto simp: emit_continuous_def emit_edge_def emit_one_shot_def emits_def summary_def Let_def)
qed

lemma reset_strategy_map_of: "map_of (reset_strategy dd sid) key = (if fst key = sid then None else map_of dd key)"
  by (induction dd) (auto simp: reset_strategy_def)

lemma emission_run:
  "map_of (foldl (emission_step policy_of) [] ops) key =
     map_option (\<lambda>e. summary (policy_of (fst key)) e (current_session key e (rev ops))) (last_session key (rev ops))"
proof (induction ops arbitrary: key rule: rev_induct)
  case (snoc op ops)
  show ?case
  proof (cases op)
    case (Observe r d)
    have "should_emit (foldl (emission_step policy_of) [] ops) r (policy_of (rs_strategy_id r)) d =
      (emits (policy_of (rs_strategy_id r)) (current_session (rs_strategy_id r, rs_instrument r) d (rev ops)) r,
       AList.update (rs_strategy_id r, rs_instrument r)
         (summary (policy_of (rs_strategy_id r)) d (r # current_session (rs_strategy_id r, rs_instrument r) d (rev ops)))
         (foldl (emission_step policy_of) [] ops))"
      by (rule should_emit_summary) (simp add: snoc.IH)
    then show ?thesis using snoc.IH [of key] by (auto simp: Observe update_conv')
  next
    case (Reset sid)
    then show ?thesis using snoc.IH [of key] by (auto simp: reset_strategy_map_of)
  qed
qed simp

text \<open>
  C17. Emission follows the declared policy exactly, after any history of observations of all strategies and instruments
  and of resets. Against the earlier results of the same strategy on the same instrument in the session at hand, a continuous strategy emits exactly on a
  material change, an edge-triggered one exactly on a change of status with no match as the
  baseline, and a one-shot strategy exactly on its first match; a new trading date or a reset starts
  afresh, and no other strategy or instrument interferes.
\<close>

theorem emission_follows_policy:
  "fst (should_emit (foldl (emission_step policy_of) [] ops) r (policy_of (rs_strategy_id r)) d) \<longleftrightarrow>
     emits (policy_of (rs_strategy_id r)) (current_session (rs_strategy_id r, rs_instrument r) d (rev ops)) r"
  by (subst should_emit_summary [where ops = "rev ops"]) (simp_all add: emission_run)

end
