(* ===== verification/Strategy_Provisioning.thy ===== *)
theory Strategy_Provisioning
  imports Strategy_Contracts
begin

text \<open>
  Requirement provisioning: the historical requirement registry (\<^verbatim>\<open>market_engine/historical/requirements.py\<close>), the registries of live
  timeframes and of session-statistics demand (\<^verbatim>\<open>strategy_manager/live_timeframes.py\<close>, \<^verbatim>\<open>fact_requirements.py\<close>) and the coordinator that
  applies their unions to the engine (\<^verbatim>\<open>requirements_bridge.py\<close>, \<^verbatim>\<open>ports.py\<close>). A frozenset is a list without duplicates; what the
  registries return is shown not to depend on its order. The coordinator keeps what it last pushed to the live-timeframe
  sink and to the refresh control; the historical warmup it calls is a parameter of the manager.
\<close>

section \<open>Historical requirements\<close>

type_synonym historical_registry = "(string \<times> historical_requirement list) list"

definition hist_register :: "historical_registry \<Rightarrow> string \<Rightarrow> historical_requirement list \<Rightarrow> historical_registry res" where
  "hist_register reg key rs =
     (if blank key then Inl (ValueError ''consumer key must be a non-empty string'')
      else Inr (AList.update key (dict_fromkeys rs) reg))"

definition hist_deregister :: "historical_registry \<Rightarrow> string \<Rightarrow> historical_registry" where
  "hist_deregister reg key = AList.delete key reg"

definition max_lookback_step :: "(timeframe \<times> int) list \<Rightarrow> historical_requirement \<Rightarrow> (timeframe \<times> int) list" where
  "max_lookback_step m r =
     (case map_of m (hr_timeframe r) of
        None \<Rightarrow> AList.update (hr_timeframe r) (hr_lookback r) m
      | Some current \<Rightarrow> (if hr_lookback r > current then AList.update (hr_timeframe r) (hr_lookback r) m else m))"

definition effective_requirements :: "historical_registry \<Rightarrow> historical_requirement list" where
  "effective_requirements reg =
     map (\<lambda>(tf, lookback). \<lparr>hr_timeframe = tf, hr_lookback = lookback\<rparr>)
       (sort_key (\<lambda>item. timeframe_ordering_key (fst item)) (foldl max_lookback_step [] (concat (map snd reg))))"

section \<open>Live timeframes\<close>

type_synonym live_registry = "(string \<times> timeframe list) list"

definition live_register :: "live_registry \<Rightarrow> string \<Rightarrow> timeframe list \<Rightarrow> live_registry res" where
  "live_register reg key tfs =
     (if blank key then Inl (ValueError ''consumer key must be a non-empty string'')
      else Inr (AList.update key (dict_fromkeys tfs) reg))"

definition live_deregister :: "live_registry \<Rightarrow> string \<Rightarrow> live_registry" where
  "live_deregister reg key = AList.delete key reg"

definition live_requirements_for :: "live_registry \<Rightarrow> string \<Rightarrow> timeframe set" where
  "live_requirements_for reg key = (case map_of reg key of None \<Rightarrow> {} | Some tfs \<Rightarrow> set tfs)"

definition effective_timeframes :: "live_registry \<Rightarrow> timeframe set" where
  "effective_timeframes reg = foldl (\<lambda>acc (_, tfs). acc \<union> set tfs) {} reg"

definition live_snapshot :: "live_registry \<Rightarrow> (string \<times> timeframe list) list" where
  "live_snapshot reg =
     map (\<lambda>key. (key, sort_key timeframe_ordering_key (the (map_of reg key)))) (sort (map fst reg))"

section \<open>Session-statistics demand\<close>

type_synonym fact_registry = "(string \<times> timedelta) list"

definition fact_register :: "fact_registry \<Rightarrow> string \<Rightarrow> timedelta option \<Rightarrow> fact_registry res" where
  "fact_register reg key max_age =
     (if blank key then Inl (ValueError ''consumer key must be non-empty'')
      else case max_age of None \<Rightarrow> Inr (AList.delete key reg) | Some age \<Rightarrow> Inr (AList.update key age reg))"

definition fact_deregister :: "fact_registry \<Rightarrow> string \<Rightarrow> fact_registry" where
  "fact_deregister reg key = AList.delete key reg"

definition fact_is_active :: "fact_registry \<Rightarrow> bool" where
  "fact_is_active reg \<longleftrightarrow> reg \<noteq> []"

definition effective_max_age :: "fact_registry \<Rightarrow> timedelta option" where
  "effective_max_age reg = (case map snd reg of [] \<Rightarrow> None | age # ages \<Rightarrow> Some (min_of age ages))"

section \<open>The coordinator\<close>

record coordinator =
  rc_instruments :: "instrument list"
  rc_historical :: historical_registry
  rc_live :: live_registry
  rc_facts :: fact_registry
  rc_sink :: "timeframe set"
  rc_has_refresh_control :: bool
  rc_refresh :: "timedelta option"

definition session_statistics_max_age :: "strategy_requirements \<Rightarrow> timedelta option" where
  "session_statistics_max_age r =
     (if SESSION_STATISTICS \<notin> set (sr_fact_needs r) then None
      else map_option ff_max_age (find (\<lambda>e. ff_fact e = SESSION_STATISTICS) (sr_freshness r)))"

definition apply_session_statistics :: "coordinator \<Rightarrow> coordinator" where
  "apply_session_statistics co =
     (if rc_has_refresh_control co then co\<lparr>rc_refresh := effective_max_age (rc_facts co)\<rparr> else co)"

definition apply_live_union :: "coordinator \<Rightarrow> coordinator" where
  "apply_live_union co = co\<lparr>rc_sink := effective_timeframes (rc_live co)\<rparr>"

definition co_register :: "coordinator \<Rightarrow> string \<Rightarrow> strategy_requirements \<Rightarrow> coordinator res" where
  "co_register co sid r =
     res_bind (hist_register (rc_historical co) sid (sr_historical r)) (\<lambda>hist.
     res_bind (live_register (rc_live co) sid (sr_live_timeframes r)) (\<lambda>live.
     res_bind (fact_register (rc_facts co) sid (session_statistics_max_age r)) (\<lambda>facts.
       Inr (apply_session_statistics (co\<lparr>rc_historical := hist, rc_live := live, rc_facts := facts\<rparr>)))))"

definition co_release :: "coordinator \<Rightarrow> string \<Rightarrow> coordinator" where
  "co_release co sid =
     apply_session_statistics (apply_live_union
       (co\<lparr>rc_historical := hist_deregister (rc_historical co) sid, rc_live := live_deregister (rc_live co) sid,
           rc_facts := fact_deregister (rc_facts co) sid\<rparr>))"

text \<open>\<^verbatim>\<open>warm\<close>: what it asks the warmup port for, if anything.\<close>

definition warm_request :: "coordinator \<Rightarrow> strategy_requirements \<Rightarrow> historical_requirement list option" where
  "warm_request co r =
     (let effective = effective_requirements (rc_historical co)
      in if effective = [] then None else if sr_historical r = [] then None else Some effective)"

definition warm :: "(instrument list \<Rightarrow> historical_requirement list \<Rightarrow> instant \<Rightarrow> unit res) \<Rightarrow> coordinator \<Rightarrow>
    strategy_requirements \<Rightarrow> instant \<Rightarrow> bool res" where
  "warm warmup co r reference =
     (case warm_request co r of
        None \<Rightarrow> Inr True
      | Some effective \<Rightarrow> res_bind (warmup (rc_instruments co) effective reference) (\<lambda>_. Inr True))"

section \<open>The effective unions\<close>

lemma effective_timeframes_eq: "effective_timeframes reg = \<Union> (set ` snd ` set reg)"
proof -
  have "foldl (\<lambda>acc (_, tfs). acc \<union> set tfs) s reg = s \<union> \<Union> (set ` snd ` set reg)" for s
    by (induction reg arbitrary: s) auto
  then show ?thesis by (simp add: effective_timeframes_def)
qed

lemma effective_max_age_eq: "effective_max_age reg = (if reg = [] then None else Some (Min (snd ` set reg)))"
  by (cases reg) (auto simp: effective_max_age_def min_of_eq image_image)

definition lookbacks :: "historical_requirement list \<Rightarrow> timeframe \<Rightarrow> int set" where
  "lookbacks rs tf = hr_lookback ` {r \<in> set rs. hr_timeframe r = tf}"

lemma lookbacks_snoc:
  "lookbacks (rs @ [r]) tf = (if hr_timeframe r = tf then insert (hr_lookback r) (lookbacks rs tf) else lookbacks rs tf)"
  by (auto simp: lookbacks_def)

lemma finite_lookbacks [simp]: "finite (lookbacks rs tf)"
  by (simp add: lookbacks_def)

lemma max_lookback_fold:
  "map_of (foldl max_lookback_step [] rs) tf = (if lookbacks rs tf = {} then None else Some (Max (lookbacks rs tf)))
   \<and> distinct (map fst (foldl max_lookback_step [] rs))"
proof (induction rs arbitrary: tf rule: rev_induct)
  case (snoc r rs)
  let ?m = "foldl max_lookback_step [] rs"
  have IH: "map_of ?m tf = (if lookbacks rs tf = {} then None else Some (Max (lookbacks rs tf)))" for tf using snoc by blast
  have "map_of (max_lookback_step ?m r) tf = (if lookbacks (rs @ [r]) tf = {} then None else Some (Max (lookbacks (rs @ [r]) tf)))"
    by (auto simp: max_lookback_step_def IH update_conv' lookbacks_snoc max_def simp del: Max_less_iff Max_gr_iff Max_ge_iff Max_le_iff split: option.splits)
  moreover have "distinct (map fst (max_lookback_step ?m r))"
  proof -
    have "distinct (map fst ?m)" using snoc by blast
    then show ?thesis by (simp add: max_lookback_step_def distinct_update split: option.split)
  qed
  ultimately show ?case by simp
qed (simp add: lookbacks_def)

text \<open>
  The effective historical requirements are exactly the union of all registered ones: one requirement per timeframe that any consumer
  asks for, with the largest lookback any consumer asks for, in the canonical order of timeframes, whatever the order of registration.
\<close>

lemma effective_requirements_exact:
  "set (effective_requirements reg) =
     {\<lparr>hr_timeframe = tf, hr_lookback = Max (lookbacks (concat (map snd reg)) tf)\<rparr> | tf. lookbacks (concat (map snd reg)) tf \<noteq> {}}
   \<and> distinct (map hr_timeframe (effective_requirements reg))
   \<and> sorted (map (timeframe_ordering_key \<circ> hr_timeframe) (effective_requirements reg))"
proof -
  let ?m = "foldl max_lookback_step [] (concat (map snd reg))" and ?l = "lookbacks (concat (map snd reg))"
  note m = max_lookback_fold [of "concat (map snd reg)"]
  have items: "set ?m = {(tf, Max (?l tf)) | tf. ?l tf \<noteq> {}}"
  proof -
    have "(tf, k) \<in> set ?m \<longleftrightarrow> ?l tf \<noteq> {} \<and> k = Max (?l tf)" for tf k
      using m map_of_eq_Some_iff [of ?m tf k] by (cases "?l tf = {}") auto
    then show ?thesis by auto
  qed
  have proj: "(\<lambda>(tf, lookback). \<lparr>hr_timeframe = tf, hr_lookback = lookback\<rparr>) = (\<lambda>p. \<lparr>hr_timeframe = fst p, hr_lookback = snd p\<rparr>)"
    by (simp add: fun_eq_iff)
  have "distinct (map fst (sort_key (\<lambda>item. timeframe_ordering_key (fst item)) ?m))"
    using m by (simp add: distinct_map)
  moreover have "sorted (map (\<lambda>item. timeframe_ordering_key (fst item)) (sort_key (\<lambda>item. timeframe_ordering_key (fst item)) ?m))"
    by (rule sorted_sort_key)
  ultimately show ?thesis
    by (auto simp: effective_requirements_def proj comp_def items image_def)
qed

section \<open>Demand\<close>

datatype provisioning_op = Register string strategy_requirements | Release string | Apply_live

fun provisioning_step :: "coordinator \<Rightarrow> provisioning_op \<Rightarrow> coordinator" where
  "provisioning_step co (Register sid r) = (case co_register co sid r of Inl _ \<Rightarrow> co | Inr co' \<Rightarrow> co')"
| "provisioning_step co (Release sid) = co_release co sid"
| "provisioning_step co Apply_live = apply_live_union co"

definition mk_coordinator :: "instrument list \<Rightarrow> bool \<Rightarrow> coordinator" where
  "mk_coordinator is has_control =
     \<lparr>rc_instruments = is, rc_historical = [], rc_live = [], rc_facts = [], rc_sink = {}, rc_has_refresh_control = has_control,
      rc_refresh = None\<rparr>"

text \<open>What is demanded: the last registration of every consumer that was not released since.\<close>

fun demand :: "provisioning_op list \<Rightarrow> string \<Rightarrow> strategy_requirements option" where
  "demand [] = Map.empty"
| "demand (Register sid r # ops) = (if blank sid then demand ops else (demand ops)(sid \<mapsto> r))"
| "demand (Release sid # ops) = (demand ops)(sid := None)"
| "demand (Apply_live # ops) = demand ops"

definition registries_of :: "(string \<Rightarrow> strategy_requirements option) \<Rightarrow> coordinator \<Rightarrow> bool" where
  "registries_of dm co \<longleftrightarrow>
     (\<forall>sid. map_of (rc_historical co) sid = map_option (dict_fromkeys \<circ> sr_historical) (dm sid)
        \<and> map_of (rc_live co) sid = map_option (dict_fromkeys \<circ> sr_live_timeframes) (dm sid)
        \<and> map_of (rc_facts co) sid = Option.bind (dm sid) session_statistics_max_age)
     \<and> distinct (map fst (rc_historical co)) \<and> distinct (map fst (rc_live co)) \<and> distinct (map fst (rc_facts co))
     \<and> (rc_has_refresh_control co \<longrightarrow> rc_refresh co = effective_max_age (rc_facts co))"

lemma co_register_cases:
  "co_register co sid r =
     (if blank sid then Inl (ValueError ''consumer key must be a non-empty string'')
      else Inr (apply_session_statistics
        (co\<lparr>rc_historical := AList.update sid (dict_fromkeys (sr_historical r)) (rc_historical co),
            rc_live := AList.update sid (dict_fromkeys (sr_live_timeframes r)) (rc_live co),
            rc_facts := (case session_statistics_max_age r of None \<Rightarrow> AList.delete sid (rc_facts co)
                         | Some age \<Rightarrow> AList.update sid age (rc_facts co))\<rparr>)))"
  by (simp add: co_register_def hist_register_def live_register_def fact_register_def split: option.splits)

lemma registries_step: "registries_of dm co \<Longrightarrow>
    registries_of (case op of Register sid r \<Rightarrow> if blank sid then dm else dm(sid \<mapsto> r) | Release sid \<Rightarrow> dm(sid := None) | Apply_live \<Rightarrow> dm)
      (provisioning_step co op)"
  by (cases op)
    (auto simp: registries_of_def co_register_cases co_release_def hist_deregister_def live_deregister_def fact_deregister_def
      apply_session_statistics_def apply_live_union_def update_conv' delete_conv' distinct_update distinct_delete split: option.splits)

lemma demand_Cons: "demand (op # ops) =
    (case op of Register sid r \<Rightarrow> if blank sid then demand ops else (demand ops)(sid \<mapsto> r)
     | Release sid \<Rightarrow> (demand ops)(sid := None) | Apply_live \<Rightarrow> demand ops)"
  by (cases op) simp_all

lemma registries_run: "registries_of (demand (rev ops)) (foldl provisioning_step (mk_coordinator is has_control) ops)"
proof (induction ops rule: rev_induct)
  case Nil
  show ?case by (simp add: registries_of_def mk_coordinator_def effective_max_age_def)
next
  case (snoc op ops)
  then show ?case using registries_step [OF snoc.IH, of op] by (simp add: demand_Cons)
qed

lemma union_of_registry:
  assumes "distinct (map fst reg)" "\<And>k. map_of reg k = map_option f (dm k)"
  shows "snd ` set reg = f ` ran dm"
proof -
  have "snd ` set reg = ran (map_of reg)" using assms(1) by (simp add: ran_distinct)
  also have "\<dots> = f ` ran dm" using assms(2) by (force simp: ran_def)
  finally show ?thesis .
qed

lemma provisioning_step_control [simp]: "rc_has_refresh_control (provisioning_step co op) = rc_has_refresh_control co"
  by (cases op) (simp_all add: co_release_def co_register_cases apply_session_statistics_def apply_live_union_def)

lemma ages_of_registry:
  assumes "distinct (map fst reg)" "\<And>k. map_of reg k = Option.bind (dm k) f"
  shows "snd ` set reg = {age. \<exists>r \<in> ran dm. f r = Some age}"
proof -
  have "snd ` set reg = ran (map_of reg)" using assms(1) by (simp add: ran_distinct)
  also have "\<dots> = {age. \<exists>r \<in> ran dm. f r = Some age}"
    using assms(2) by (fastforce simp: ran_def bind_eq_Some_conv)
  finally show ?thesis .
qed


definition demo_requirements :: "timeframe list \<Rightarrow> strategy_requirements" where
  "demo_requirements tfs =
     \<lparr>sr_historical = [], sr_live_timeframes = tfs, sr_fact_needs = [], sr_trigger = ON_CONTEXT,
      sr_candle_completeness = AUTHORITATIVE_ONLY, sr_min_context_version = 1, sr_freshness = []\<rparr>"


end
