(* ===== verification/Strategy_Manager.thy ===== *)
theory Strategy_Manager
  imports Strategy_Lifecycle Strategy_Emission Strategy_Provisioning Tick_Engine
begin

text \<open>
  The strategy manager (\<^verbatim>\<open>strategy_manager/manager.py\<close>, \<^verbatim>\<open>events.py\<close>). Its registry, lifecycle, configurations, dedup state and the requirement
  coordinator are fields of one record; \<open>mg_observed\<close> logs what the observation sink was handed and
  \<open>mg_published\<close> the published events, both oldest first. Which records the sink and which events the subscribers
  of the bus raise on is a parameter. \<^verbatim>\<open>start\<close> awaits the historical warmup, during which other calls may run: it is split
  into \<open>start_begin\<close>, up to the await, and \<open>start_finish\<close>, which is given the outcome of the warmup.
\<close>

record results_published =
  rp_instrument :: instrument
  rp_context_version :: int
  rp_results :: "strategy_result list"
  rp_ranked :: "ranked_result list"
  rp_trading_date :: "date option"

record strategy_manager =
  mg_registry :: strategy_registry
  mg_lifecycle :: lifecycle
  mg_configurations :: "string \<Rightarrow> strategy_configuration option"
  mg_error_threshold :: int
  mg_requirements :: "coordinator option"
  mg_previous :: "instrument \<Rightarrow> market_context option"
  mg_latest :: "instrument \<Rightarrow> evaluation_record list option"
  mg_error_counts :: "string \<Rightarrow> int option"
  mg_subscriptions :: "context_event_type subscription list"
  mg_dedup :: emission_dedup
  mg_observed :: "evaluation_record list"
  mg_published :: "results_published list"

definition mk_manager ::
  "strategy_registry \<Rightarrow> lifecycle \<Rightarrow> (string \<Rightarrow> strategy_configuration option) \<Rightarrow> int \<Rightarrow> coordinator option \<Rightarrow> strategy_manager res" where
  "mk_manager reg lc cfgs threshold co =
     (if threshold < 1 then Inl (ValueError ''error_threshold must be a positive integer'')
      else Inr \<lparr>mg_registry = reg, mg_lifecycle = lc, mg_configurations = cfgs, mg_error_threshold = threshold, mg_requirements = co,
                mg_previous = Map.empty, mg_latest = Map.empty, mg_error_counts = Map.empty, mg_subscriptions = [],
                mg_dedup = [], mg_observed = [], mg_published = []\<rparr>)"

text \<open>\<open>created\<close> and \<open>updated\<close> are the bound methods \<^verbatim>\<open>_on_created\<close> and \<^verbatim>\<open>_on_updated\<close>.\<close>

definition manager_subscribe ::
  "handler \<Rightarrow> handler \<Rightarrow> context_event_type event_bus \<Rightarrow> strategy_manager \<Rightarrow> context_event_type event_bus \<times> strategy_manager" where
  "manager_subscribe created updated bus mg =
     (if mg_subscriptions mg \<noteq> [] then (bus, mg)
      else let (bus1, s1) = subscribe bus Created created; (bus2, s2) = subscribe bus1 Updated updated
           in (bus2, mg\<lparr>mg_subscriptions := [s1, s2]\<rparr>))"

definition manager_unsubscribe ::
  "context_event_type event_bus \<Rightarrow> strategy_manager \<Rightarrow> context_event_type event_bus \<times> strategy_manager" where
  "manager_unsubscribe bus mg = (foldl unsubscribe bus (mg_subscriptions mg), mg\<lparr>mg_subscriptions := []\<rparr>)"

definition evaluations_for :: "strategy_manager \<Rightarrow> instrument \<Rightarrow> evaluation_record list" where
  "evaluations_for mg i = (case mg_latest mg i of None \<Rightarrow> [] | Some rs \<Rightarrow> rs)"

section \<open>Lifecycle commands\<close>

definition no_coordinator :: lifecycle_error where
  "no_coordinator = LifecycleMisuse ''lifecycle commands require a RequirementsCoordinator''"

definition command_on :: "strategy_manager \<Rightarrow> string \<Rightarrow> command \<Rightarrow> (lifecycle_error + lifecycle_state) \<times> strategy_manager" where
  "command_on mg sid cmd =
     (case run_command (mg_lifecycle mg) sid cmd of
        Inl e \<Rightarrow> (Inl e, mg)
      | Inr lc \<Rightarrow> (state_of lc sid, mg\<lparr>mg_lifecycle := lc\<rparr>))"

text \<open>\<open>None\<close>: the call awaits the warmup.\<close>

definition start_begin :: "strategy_manager \<Rightarrow> string \<Rightarrow> (lifecycle_error + lifecycle_state) option \<times> strategy_manager" where
  "start_begin mg sid =
     (case mg_requirements mg of
        None \<Rightarrow> (Some (Inl no_coordinator), mg)
      | Some co \<Rightarrow>
          (case command_on mg sid Start_cmd of
             (Inl e, mg1) \<Rightarrow> (Some (Inl e), mg1)
           | (Inr _, mg1) \<Rightarrow>
               (let faulted = (case command_on mg1 sid Mark_error of
                    (Inl e, mg2) \<Rightarrow> (Some (Inl e), mg2) | (Inr _, mg2) \<Rightarrow> (Some (Inr FAULTED), mg2))
                in case registry_get (mg_registry mg1) sid of
                     Inl _ \<Rightarrow> faulted
                   | Inr s \<Rightarrow>
                       (if \<not> configuration_ok (mg_configurations mg1 sid) (st_configuration_type s) then faulted
                        else case co_register co sid (st_requirements s) of
                          Inl _ \<Rightarrow> faulted
                        | Inr co1 \<Rightarrow> (None, mg1\<lparr>mg_requirements := Some (apply_live_union co1)\<rparr>)))))"

definition start_finish :: "strategy_manager \<Rightarrow> string \<Rightarrow> bool res \<Rightarrow> (lifecycle_error + lifecycle_state) \<times> strategy_manager" where
  "start_finish mg sid ready =
     (if ready = Inr True then command_on mg sid Mark_running
      else case command_on mg sid Mark_error of (Inl e, mg1) \<Rightarrow> (Inl e, mg1) | (Inr _, mg1) \<Rightarrow> (Inr FAULTED, mg1))"

text \<open>\<^verbatim>\<open>start\<close> when nothing else runs during the await.\<close>

definition manager_start ::
  "(instrument list \<Rightarrow> historical_requirement list \<Rightarrow> instant \<Rightarrow> unit res) \<Rightarrow> strategy_manager \<Rightarrow> string \<Rightarrow> instant \<Rightarrow>
   (lifecycle_error + lifecycle_state) \<times> strategy_manager" where
  "manager_start warmup mg sid reference =
     (case start_begin mg sid of
        (Some r, mg1) \<Rightarrow> (r, mg1)
      | (None, mg1) \<Rightarrow>
          (case (mg_requirements mg1, registry_get (mg_registry mg1) sid) of
             (Some co, Inr s) \<Rightarrow> start_finish mg1 sid (warm warmup co (st_requirements s) reference)
           | _ \<Rightarrow> start_finish mg1 sid (Inl (RuntimeError ''unreachable''))))"

definition manager_pause :: "strategy_manager \<Rightarrow> string \<Rightarrow> (lifecycle_error + lifecycle_state) \<times> strategy_manager" where
  "manager_pause mg sid = command_on mg sid Pause"

definition manager_resume :: "strategy_manager \<Rightarrow> string \<Rightarrow> (lifecycle_error + lifecycle_state) \<times> strategy_manager" where
  "manager_resume mg sid = command_on mg sid Resume"

text \<open>The lifecycle command comes first: without a coordinator it has already taken effect when the error is raised.\<close>

definition halt_with :: "command \<Rightarrow> strategy_manager \<Rightarrow> string \<Rightarrow> (lifecycle_error + lifecycle_state) \<times> strategy_manager" where
  "halt_with cmd mg sid =
     (case command_on mg sid cmd of
        (Inl e, mg1) \<Rightarrow> (Inl e, mg1)
      | (Inr s, mg1) \<Rightarrow>
          (case mg_requirements mg1 of
             None \<Rightarrow> (Inl no_coordinator, mg1)
           | Some co \<Rightarrow>
               (Inr s, mg1\<lparr>mg_requirements := Some (co_release co sid), mg_dedup := reset_strategy (mg_dedup mg1) sid\<rparr>)))"

definition manager_stop :: "strategy_manager \<Rightarrow> string \<Rightarrow> (lifecycle_error + lifecycle_state) \<times> strategy_manager" where
  "manager_stop mg sid = halt_with Stop_cmd mg sid"

definition manager_force_stop :: "strategy_manager \<Rightarrow> string \<Rightarrow> (lifecycle_error + lifecycle_state) \<times> strategy_manager" where
  "manager_force_stop mg sid = halt_with (Force_stop False) mg sid"

section \<open>Routing\<close>

definition running_ids :: "strategy_manager \<Rightarrow> string list" where
  "running_ids mg =
     (let running = map rst_strategy_id (filter (\<lambda>s. rst_state s = RUNNING) (lc_snapshot (mg_lifecycle mg)))
      in sort (remdups (filter (\<lambda>sid. sid \<in> set (identifiers (mg_registry mg))) running)))"

definition blank_evaluation :: "market_context \<Rightarrow> evaluation_status \<Rightarrow> (string \<times> string) list \<Rightarrow> strategy_evaluation" where
  "blank_evaluation c status diagnostics =
     \<lparr>ev_instrument = mc_instrument c, ev_context_version = mc_version c, ev_status = status, ev_score = None, ev_confidence = None,
      ev_reason_codes = [], ev_metrics = [], ev_diagnostics = diagnostics\<rparr>"

definition context_trading_date :: "market_context \<Rightarrow> date option" where
  "context_trading_date c = map_option sc_trading_date (mc_session c)"

definition metadata_for :: "strategy_trigger \<Rightarrow> market_context \<Rightarrow> evaluation_metadata" where
  "metadata_for trigger c =
     \<lparr>em_trigger = trigger, em_context_version = mc_version c, em_observed_at = mc_observed_at c,
      em_trading_date = context_trading_date c\<rparr>"

definition require_consistent :: "strategy_evaluation \<Rightarrow> market_context \<Rightarrow> strategy_evaluation res" where
  "require_consistent ev c =
     (if ev_instrument ev \<noteq> mc_instrument c \<or> ev_context_version ev \<noteq> mc_version c
      then Inl (ValueError ''strategy evaluation does not match the evaluated context'') else Inr ev)"

definition fail_strategy :: "strategy_manager \<Rightarrow> string \<Rightarrow> strategy_trigger \<Rightarrow> market_context \<Rightarrow>
    (lifecycle_error + evaluation_record) \<times> strategy_manager" where
  "fail_strategy mg sid trigger c =
     (let count = (case mg_error_counts mg sid of None \<Rightarrow> 0 | Some n \<Rightarrow> n) + 1;
          mg1 = mg\<lparr>mg_error_counts := (mg_error_counts mg)(sid \<mapsto> count)\<rparr>;
          rec = \<lparr>er_strategy_id = sid, er_trigger = trigger, er_readiness = READY,
                 er_evaluation = blank_evaluation c EVALUATION_ERROR [(''error'', ''evaluation_failed'')]\<rparr>
      in if count \<ge> mg_error_threshold mg
         then case command_on mg1 sid Mark_error of (Inl e, mg2) \<Rightarrow> (Inl e, mg2) | (Inr _, mg2) \<Rightarrow> (Inr rec, mg2)
         else (Inr rec, mg1))"

definition run_strategy :: "strategy_manager \<Rightarrow> strategy \<Rightarrow> string \<Rightarrow> strategy_trigger \<Rightarrow> strategy_configuration \<Rightarrow> market_context \<Rightarrow>
    (lifecycle_error + evaluation_record) \<times> strategy_manager" where
  "run_strategy mg s sid trigger cfg c =
     (case res_bind (st_evaluate s c cfg (metadata_for trigger c)) (\<lambda>ev. require_consistent ev c) of
        Inl _ \<Rightarrow> fail_strategy mg sid trigger c
      | Inr ev \<Rightarrow>
          (Inr \<lparr>er_strategy_id = sid, er_trigger = trigger, er_readiness = READY, er_evaluation = ev\<rparr>,
           mg\<lparr>mg_error_counts := (mg_error_counts mg)(sid \<mapsto> 0)\<rparr>))"

definition evaluate_one :: "strategy_manager \<Rightarrow> strategy \<Rightarrow> strategy_trigger \<Rightarrow> market_context \<Rightarrow>
    (lifecycle_error + evaluation_record) \<times> strategy_manager" where
  "evaluate_one mg s trigger c =
     (let sid = sd_strategy_id (st_descriptor s); cfg = mg_configurations mg sid;
          readiness = assess_readiness (st_descriptor s) (st_requirements s) cfg (st_configuration_type s) c
      in if readiness \<noteq> READY \<or> cfg = None
         then (Inr \<lparr>er_strategy_id = sid, er_trigger = trigger, er_readiness = readiness,
                    er_evaluation = blank_evaluation c SKIPPED []\<rparr>, mg)
         else run_strategy mg s sid trigger (the cfg) c)"

fun records_loop :: "strategy_manager \<Rightarrow> market_context \<Rightarrow> market_context option \<Rightarrow> string list \<Rightarrow>
    (unit res) \<times> evaluation_record list \<times> strategy_manager" where
  "records_loop mg c previous [] = (Inr (), [], mg)"
| "records_loop mg c previous (sid # sids) =
     (case registry_get (mg_registry mg) sid of
        Inl e \<Rightarrow> (Inl e, [], mg)
      | Inr s \<Rightarrow>
          (if \<not> is_triggered (sr_trigger (st_requirements s)) previous c then records_loop mg c previous sids
           else case evaluate_one mg s (sr_trigger (st_requirements s)) c of
             (Inl e, mg1) \<Rightarrow> (Inl (RuntimeError ''StrategyLifecycleError''), [], mg1)
           | (Inr rec, mg1) \<Rightarrow>
               (case records_loop mg1 c previous sids of (r, recs, mg2) \<Rightarrow> (r, rec # recs, mg2))))"

definition emit_candidate :: "strategy_manager \<Rightarrow> evaluation_record \<Rightarrow> market_context \<Rightarrow> strategy_result option res \<times> strategy_manager" where
  "emit_candidate mg rec c =
     (if ev_status (er_evaluation rec) \<notin> {MATCHED, UNMATCHED} then (Inr None, mg)
      else case mg_configurations mg (er_strategy_id rec) of
        None \<Rightarrow> (Inr None, mg)
      | Some cfg \<Rightarrow>
          (case registry_get (mg_registry mg) (er_strategy_id rec) of
             Inl e \<Rightarrow> (Inl e, mg)
           | Inr s \<Rightarrow>
               (case promote_evaluation (er_evaluation rec) (st_descriptor s) (sc_config_version cfg) (mc_observed_at c) of
                  Inl e \<Rightarrow> (Inl e, mg)
                | Inr r \<Rightarrow>
                    (case should_emit (mg_dedup mg) r (sd_emission_policy (st_descriptor s)) (context_trading_date c) of
                       (emit, dd) \<Rightarrow> (Inr (if emit then Some r else None), mg\<lparr>mg_dedup := dd\<rparr>)))))"

fun emit_loop :: "strategy_manager \<Rightarrow> market_context \<Rightarrow> evaluation_record list \<Rightarrow> strategy_result list res \<times> strategy_manager" where
  "emit_loop mg c [] = (Inr [], mg)"
| "emit_loop mg c (rec # recs) =
     (case emit_candidate mg rec c of
        (Inl e, mg1) \<Rightarrow> (Inl e, mg1)
      | (Inr r, mg1) \<Rightarrow>
          (case emit_loop mg1 c recs of
             (Inl e, mg2) \<Rightarrow> (Inl e, mg2)
           | (Inr rs, mg2) \<Rightarrow> (Inr (case r of None \<Rightarrow> rs | Some x \<Rightarrow> x # rs), mg2)))"

definition publish_results ::
  "(results_published \<Rightarrow> bool) \<Rightarrow> strategy_manager \<Rightarrow> market_context \<Rightarrow> evaluation_record list \<Rightarrow> unit res \<times> strategy_manager" where
  "publish_results bus_raises mg c records =
     (case emit_loop mg c records of
        (Inl e, mg1) \<Rightarrow> (Inl e, mg1)
      | (Inr emitted, mg1) \<Rightarrow>
          (if emitted = [] then (Inr (), mg1)
           else let m = \<lparr>rp_instrument = mc_instrument c, rp_context_version = mc_version c, rp_results = emitted,
                         rp_ranked = rank_results emitted, rp_trading_date = context_trading_date c\<rparr>
                in (if bus_raises m then Inl handler_error else Inr (), mg1\<lparr>mg_published := mg_published mg1 @ [m]\<rparr>)))"

fun observe :: "(evaluation_record \<Rightarrow> bool) \<Rightarrow> evaluation_record list \<Rightarrow> evaluation_record list \<times> bool" where
  "observe sink_raises [] = ([], False)"
| "observe sink_raises (r # rs) =
     (if sink_raises r then ([r], True) else case observe sink_raises rs of (seen, failed) \<Rightarrow> (r # seen, failed))"

definition handle_context ::
  "(evaluation_record \<Rightarrow> bool) \<Rightarrow> (results_published \<Rightarrow> bool) \<Rightarrow> strategy_manager \<Rightarrow> market_context \<Rightarrow> unit res \<times> strategy_manager" where
  "handle_context sink_raises bus_raises mg c =
     (let previous = mg_previous mg (mc_instrument c)
      in if (case previous of None \<Rightarrow> False | Some p \<Rightarrow> mc_version c \<le> mc_version p) then (Inr (), mg)
         else case records_loop mg c previous (running_ids mg) of
           (Inl e, _, mg1) \<Rightarrow> (Inl e, mg1)
         | (Inr _, records, mg1) \<Rightarrow>
             (case observe sink_raises records of
                (seen, failed) \<Rightarrow>
                  (let mg2 = mg1\<lparr>mg_previous := (mg_previous mg1)(mc_instrument c \<mapsto> c),
                                 mg_latest := (mg_latest mg1)(mc_instrument c \<mapsto> records), mg_observed := mg_observed mg1 @ seen\<rparr>
                   in if failed then (Inl handler_error, mg2) else publish_results bus_raises mg2 c records)))"

section \<open>Provisioning follows the lifecycle\<close>

lemma command_on_cases:
  assumes "command_on mg sid cmd = (r, mg')"
  obtains (rejected) e where "r = Inl e" "mg' = mg"
  | (moved) s t where "r = Inr t" "map_of (mg_lifecycle mg) sid = Some s" "permitted s cmd t"
      "mg' = mg\<lparr>mg_lifecycle := AList.update sid t (mg_lifecycle mg)\<rparr>"
proof (cases "run_command (mg_lifecycle mg) sid cmd")
  case (Inl e)
  then show thesis using assms rejected [of e] by (simp add: command_on_def)
next
  case (Inr lc)
  then obtain s where s: "map_of (mg_lifecycle mg) sid = Some s" using run_command_untracked by fastforce
  then obtain t where t: "permitted s cmd t" "lc = AList.update sid t (mg_lifecycle mg)" using run_command_tracked(1) Inr by blast
  have "state_of lc sid = Inr t" by (simp add: t(2) state_of_def update_conv')
  then show thesis using assms Inr moved [OF _ s t(1)] t(2) by (simp add: command_on_def)
qed

lemma command_on_permitted:
  assumes "map_of (mg_lifecycle mg) sid = Some s" "permitted s cmd t"
  shows "command_on mg sid cmd = (Inr t, mg\<lparr>mg_lifecycle := AList.update sid t (mg_lifecycle mg)\<rparr>)"
proof -
  have "run_command (mg_lifecycle mg) sid cmd = Inr (AList.update sid t (mg_lifecycle mg))"
    using assms run_command_tracked(1) by blast
  then show ?thesis by (simp add: command_on_def state_of_def update_conv')
qed

text \<open>
  A strategy that is starting, running or paused holds exactly its declared requirements; one that is registered or stopped holds
  none; a faulted one may hold either, because requirements acquired before the fault are retained.
\<close>

definition holds :: "strategy_registry \<Rightarrow> (string \<Rightarrow> strategy_requirements option) \<Rightarrow> string \<Rightarrow> lifecycle_state option \<Rightarrow> bool" where
  "holds reg dm sid st =
     (let own = (case registry_get reg sid of Inl _ \<Rightarrow> False | Inr s \<Rightarrow> dm sid = Some (st_requirements s))
      in case st of
           None \<Rightarrow> dm sid = None
         | Some x \<Rightarrow> (if x \<in> {STARTING, RUNNING, PAUSED} then own else if x \<in> {REGISTERED, STOPPED} then dm sid = None
                      else dm sid = None \<or> own))"

lemma holds_other: "x \<noteq> sid \<Longrightarrow> holds reg (dm(sid := y)) x st = holds reg dm x st"
proof -
  assume "x \<noteq> sid"
  then have "(dm(sid := y)) x = dm x" by simp
  then show ?thesis by (simp only: holds_def)
qed

definition provisioned :: "strategy_manager \<Rightarrow> bool" where
  "provisioned mg \<longleftrightarrow>
     (\<exists>co dm. mg_requirements mg = Some co \<and> registries_of dm co \<and> rc_sink co = effective_timeframes (rc_live co)
        \<and> (\<forall>sid. holds (mg_registry mg) dm sid (map_of (mg_lifecycle mg) sid)))"

lemma provisioned_move:
  assumes "provisioned mg" "map_of (mg_lifecycle mg) sid = Some s" "permitted s cmd t"
    and "cmd \<in> {Mark_running, Pause, Resume, Mark_error}"
  shows "provisioned (mg\<lparr>mg_lifecycle := AList.update sid t (mg_lifecycle mg)\<rparr>)"
proof -
  obtain co dm where co: "mg_requirements mg = Some co" "registries_of dm co" "rc_sink co = effective_timeframes (rc_live co)"
    and h: "\<And>x. holds (mg_registry mg) dm x (map_of (mg_lifecycle mg) x)" using assms(1) by (auto simp: provisioned_def)
  have "holds (mg_registry mg) dm sid (Some t)"
    using h [of sid] assms(2-4) by (auto simp: holds_def permitted_iff Let_def split: sum.splits)
  then have "holds (mg_registry mg) dm x (map_of (AList.update sid t (mg_lifecycle mg)) x)" for x
    using h [of x] by (simp add: update_conv')
  then show ?thesis using co by (auto simp: provisioned_def)
qed

lemma provisioned_command:
  assumes "provisioned mg" "command_on mg sid cmd = (r, mg')" "cmd \<in> {Mark_running, Pause, Resume, Mark_error}"
  shows "provisioned mg'"
  using assms(2) by (rule command_on_cases) (use assms provisioned_move in auto)

lemma registries_register:
  assumes "registries_of dm co" "co_register co sid r = Inr co'"
  shows "registries_of (dm(sid \<mapsto> r)) co'"
  using registries_step [OF assms(1), of "Register sid r"] assms(2) by (simp add: co_register_cases split: if_splits)

lemma provisioned_start:
  assumes ok: "provisioned mg" and st: "start_begin mg sid = (r, mg')"
  shows "provisioned mg'"
proof -
  obtain co dm where co: "mg_requirements mg = Some co" "registries_of dm co" "rc_sink co = effective_timeframes (rc_live co)"
    and h: "\<And>x. holds (mg_registry mg) dm x (map_of (mg_lifecycle mg) x)" using ok by (auto simp: provisioned_def)
  obtain r1 mg1 where c1: "command_on mg sid Start_cmd = (r1, mg1)" by fastforce
  show ?thesis
  proof (cases r1)
    case (Inl e)
    then show ?thesis using st co(1) c1 ok by (auto simp: start_begin_def elim: command_on_cases)
  next
    case (Inr t)
    from c1 obtain s where s: "map_of (mg_lifecycle mg) sid = Some s" "permitted s Start_cmd t"
      and mg1: "mg1 = mg\<lparr>mg_lifecycle := AList.update sid t (mg_lifecycle mg)\<rparr>"
      by (rule command_on_cases) (use Inr in auto)
    have t: "t = STARTING" "s \<in> {REGISTERED, STOPPED, FAULTED}" using s(2) by (auto simp: permitted_iff)
    have faulted: "provisioned mg2" if "command_on mg1 sid Mark_error = (r2, mg2)" for r2 mg2
    proof -
      have "mg2 = mg1\<lparr>mg_lifecycle := AList.update sid FAULTED (mg_lifecycle mg1)\<rparr>"
        using command_on_permitted [of mg1 sid STARTING Mark_error FAULTED] that mg1 t(1) by (simp add: update_conv' permitted_iff)
      moreover have "holds (mg_registry mg) dm sid (Some FAULTED)"
        using h [of sid] s(1) t(2) by (auto simp: holds_def Let_def)
      then have "holds (mg_registry mg) dm x (map_of (AList.update sid FAULTED (AList.update sid t (mg_lifecycle mg))) x)" for x
        using h [of x] by (simp add: update_conv')
      ultimately show ?thesis using co mg1 by (auto simp: provisioned_def)
    qed
    show ?thesis
    proof (cases "registry_get (mg_registry mg) sid")
      case (Inr strat)
      show ?thesis
      proof (cases "configuration_ok (mg_configurations mg sid) (st_configuration_type strat) \<and> is_ok (co_register co sid (st_requirements strat))")
        case True
        then obtain co1 where co1: "co_register co sid (st_requirements strat) = Inr co1" by (auto simp: is_ok_iff)
        have mg': "mg' = mg1\<lparr>mg_requirements := Some (apply_live_union co1)\<rparr>"
          using st co(1) c1 \<open>r1 = Inr t\<close> Inr True co1 mg1 by (simp add: start_begin_def Let_def)
        have "registries_of (dm(sid \<mapsto> st_requirements strat)) (apply_live_union co1)"
          using registries_register [OF co(2) co1] by (simp add: registries_of_def apply_live_union_def)
        moreover have "holds (mg_registry mg) (dm(sid \<mapsto> st_requirements strat)) x (map_of (AList.update sid t (mg_lifecycle mg)) x)" for x
          using h [of x] Inr t(1) by (cases "x = sid") (auto simp: holds_other update_conv', simp add: holds_def)
        ultimately show ?thesis by (auto simp: provisioned_def mg' mg1 apply_live_union_def)
      next
        case False
        then show ?thesis
          using st co(1) c1 \<open>r1 = Inr t\<close> Inr mg1 faulted
          by (auto simp: start_begin_def Let_def is_ok_def split: prod.splits sum.splits if_splits)
      qed
    next
      case (Inl e)
      then show ?thesis
        using st co(1) c1 \<open>r1 = Inr t\<close> mg1 faulted by (auto simp: start_begin_def Let_def split: prod.splits sum.splits)
    qed
  qed
qed

lemma provisioned_finish: "provisioned mg \<Longrightarrow> start_finish mg sid ready = (r, mg') \<Longrightarrow> provisioned mg'"
  by (auto simp: start_finish_def split: if_splits prod.splits sum.splits dest: provisioned_command)

lemma provisioned_halt:
  assumes ok: "provisioned mg" and h: "halt_with cmd mg sid = (r, mg')" "cmd \<in> {Stop_cmd, Force_stop False}"
  shows "provisioned mg'"
proof -
  obtain co dm where co: "mg_requirements mg = Some co" "registries_of dm co" "rc_sink co = effective_timeframes (rc_live co)"
    and hold: "\<And>x. holds (mg_registry mg) dm x (map_of (mg_lifecycle mg) x)" using ok by (auto simp: provisioned_def)
  obtain r1 mg1 where c1: "command_on mg sid cmd = (r1, mg1)" by fastforce
  from c1 show ?thesis
  proof (rule command_on_cases)
    fix e
    assume "r1 = Inl e" "mg1 = mg"
    then show ?thesis using h c1 ok by (simp add: halt_with_def)
  next
    fix s t
    assume m: "r1 = Inr t" "map_of (mg_lifecycle mg) sid = Some s" "permitted s cmd t"
      "mg1 = mg\<lparr>mg_lifecycle := AList.update sid t (mg_lifecycle mg)\<rparr>"
    have t: "t = STOPPED" using m(3) h(2) by (auto simp: permitted_iff)
    have mg': "mg' = mg1\<lparr>mg_requirements := Some (co_release co sid), mg_dedup := reset_strategy (mg_dedup mg1) sid\<rparr>"
      using h(1) c1 m(1,4) co(1) by (simp add: halt_with_def)
    have "registries_of (dm(sid := None)) (co_release co sid)"
      using registries_step [OF co(2), of "Release sid"] by simp
    moreover have "rc_sink (co_release co sid) = effective_timeframes (rc_live (co_release co sid))"
      by (simp add: co_release_def apply_session_statistics_def apply_live_union_def)
    moreover have "holds (mg_registry mg) (dm(sid := None)) x (map_of (AList.update sid t (mg_lifecycle mg)) x)" for x
      using hold [of x] t by (cases "x = sid") (auto simp: holds_other update_conv', simp add: holds_def)
    ultimately show ?thesis by (auto simp: provisioned_def mg' m(4))
  qed
qed

text \<open>Routing touches the lifecycle only by faulting strategies.\<close>

definition only_faults :: "strategy_manager \<Rightarrow> strategy_manager \<Rightarrow> bool" where
  "only_faults mg mg' \<longleftrightarrow> mg_registry mg' = mg_registry mg \<and> (provisioned mg \<longrightarrow> provisioned mg')"

lemma only_faults_trans: "only_faults a b \<Longrightarrow> only_faults b c \<Longrightarrow> only_faults a c"
  by (simp add: only_faults_def)

lemma only_faults_same:
  "mg_registry mg' = mg_registry mg \<Longrightarrow> mg_lifecycle mg' = mg_lifecycle mg \<Longrightarrow> mg_requirements mg' = mg_requirements mg \<Longrightarrow> only_faults mg mg'"
  by (simp add: only_faults_def provisioned_def)

lemma only_faults_evaluate: "evaluate_one mg s trigger c = (r, mg') \<Longrightarrow> only_faults mg mg'"
proof -
  assume e: "evaluate_one mg s trigger c = (r, mg')"
  have fail: "only_faults mg m" if "fail_strategy mg sid trigger c = (q, m)" for sid q m
  proof -
    let ?mg = "mg\<lparr>mg_error_counts := (mg_error_counts mg)(sid \<mapsto> (case mg_error_counts mg sid of None \<Rightarrow> 0 | Some n \<Rightarrow> n) + 1)\<rparr>"
    obtain x y where c: "command_on ?mg sid Mark_error = (x, y)" by fastforce
    have "only_faults ?mg y"
      unfolding only_faults_def using provisioned_command [OF _ c] c by (auto elim: command_on_cases)
    moreover have "only_faults mg ?mg" by (rule only_faults_same) simp_all
    moreover have "m = ?mg \<or> m = y"
      using that c by (auto simp: fail_strategy_def Let_def split: if_splits sum.splits)
    ultimately show ?thesis using only_faults_trans by blast
  qed
  show "only_faults mg mg'"
    using e fail by (auto simp: evaluate_one_def run_strategy_def Let_def split: if_splits sum.splits intro: only_faults_same)
qed

lemma only_faults_records: "records_loop mg c previous sids = (r, recs, mg') \<Longrightarrow> only_faults mg mg'"
proof (induction sids arbitrary: mg r recs mg')
  case (Cons sid sids)
  show ?case
  proof (cases "registry_get (mg_registry mg) sid")
    case (Inr s)
    obtain x mg1 where e: "evaluate_one mg s (sr_trigger (st_requirements s)) c = (x, mg1)" by fastforce
    obtain r2 recs2 mg2 where l: "records_loop mg1 c previous sids = (r2, recs2, mg2)" by (metis prod_cases3)
    have "records_loop mg c previous sids = (r, recs, mg') \<or> mg' = mg1 \<or> mg' = mg2"
      using Cons.prems Inr e l by (auto split: if_splits sum.splits)
    then show ?thesis
      using Cons.IH Cons.IH [OF l] only_faults_evaluate [OF e] only_faults_trans by blast
  qed (use Cons.prems in \<open>auto intro: only_faults_same\<close>)
qed (auto intro: only_faults_same)

lemma emit_candidate_keeps: "emit_candidate mg rec c = (q, m) \<Longrightarrow> \<exists>dd. m = mg\<lparr>mg_dedup := dd\<rparr>"
  by (cases m; cases mg) (auto simp: emit_candidate_def split: if_splits option.splits sum.splits prod.splits)

lemma emit_loop_keeps: "emit_loop mg c recs = (r, mg') \<Longrightarrow> \<exists>dd. mg' = mg\<lparr>mg_dedup := dd\<rparr>"
proof (induction recs arbitrary: mg r mg')
  case Nil
  then show ?case by (intro exI [of _ "mg_dedup mg"]) simp
next
  case (Cons rec recs)
  obtain q mg1 where e: "emit_candidate mg rec c = (q, mg1)" by fastforce
  obtain r2 mg2 where l: "emit_loop mg1 c recs = (r2, mg2)" by fastforce
  have "mg' = mg1 \<or> mg' = mg2" using Cons.prems e l by (auto split: sum.splits)
  then show ?case using emit_candidate_keeps [OF e] Cons.IH [OF l] by auto
qed

lemma only_faults_handle: 
  assumes "handle_context sink_raises bus_raises mg c = (r, mg')" 
  shows "only_faults mg mg'"
proof -
  obtain q recs mg1 where l: "records_loop mg c (mg_previous mg (mc_instrument c)) (running_ids mg) = (q, recs, mg1)" by (metis prod_cases3)
  have "mg' = mg \<or> mg_registry mg' = mg_registry mg1 \<and> mg_lifecycle mg' = mg_lifecycle mg1 \<and> mg_requirements mg' = mg_requirements mg1"
    using assms l
    by (auto simp: handle_context_def publish_results_def Let_def split: if_splits sum.splits prod.splits dest!: emit_loop_keeps)
  then show ?thesis using only_faults_same only_faults_trans [OF only_faults_records [OF l]] only_faults_same [of mg mg] by auto
qed

end
