(* ===== verification/Strategy_Routing.thy ===== *)
theory Strategy_Routing
  imports Strategy_Manager
begin

text \<open>
  What the strategy manager guarantees over any interleaving of its calls: strategies that may be evaluated are provisioned, and one
  context is routed to exactly the running strategies it triggers, each of which is isolated from the failures of the others.
\<close>

section \<open>Interleavings\<close>

text \<open>\<open>Begin\<close> and \<open>Finish\<close> are \<^verbatim>\<open>start\<close> before and after the awaited warmup.\<close>

datatype manager_op = Begin string | Finish string "bool res" | Pause_op string | Resume_op string | Stop_op string | Force_stop_op string
  | Handle market_context

fun manager_step :: "(evaluation_record \<Rightarrow> bool) \<Rightarrow> (results_published \<Rightarrow> bool) \<Rightarrow> strategy_manager \<Rightarrow> manager_op \<Rightarrow> strategy_manager" where
  "manager_step sr br mg (Begin sid) = snd (start_begin mg sid)"
| "manager_step sr br mg (Finish sid ready) = snd (start_finish mg sid ready)"
| "manager_step sr br mg (Pause_op sid) = snd (manager_pause mg sid)"
| "manager_step sr br mg (Resume_op sid) = snd (manager_resume mg sid)"
| "manager_step sr br mg (Stop_op sid) = snd (manager_stop mg sid)"
| "manager_step sr br mg (Force_stop_op sid) = snd (manager_force_stop mg sid)"
| "manager_step sr br mg (Handle c) = snd (handle_context sr br mg c)"

lemma command_on_registry: "mg_registry (snd (command_on mg sid cmd)) = mg_registry mg"
  by (simp add: command_on_def split: sum.split)

lemma manager_step_provisioned: "provisioned mg \<Longrightarrow> provisioned (manager_step sr br mg op)"
proof (cases op)
  case (Handle c)
  assume "provisioned mg"
  then show ?thesis using only_faults_handle [of sr br mg c, OF prod.collapse [symmetric]] by (simp add: Handle only_faults_def)
qed (auto simp: manager_pause_def manager_resume_def manager_stop_def manager_force_stop_def
    intro: provisioned_start [OF _ prod.collapse [symmetric]] provisioned_finish [OF _ prod.collapse [symmetric]]
      provisioned_command [OF _ prod.collapse [symmetric]] provisioned_halt [OF _ prod.collapse [symmetric]])

lemma manager_step_registry: "mg_registry (manager_step sr br mg op) = mg_registry mg"
proof (cases op)
  case (Handle c)
  then show ?thesis using only_faults_handle [of sr br mg c, OF prod.collapse [symmetric]] by (simp add: only_faults_def)
qed (auto simp: manager_pause_def manager_resume_def manager_stop_def manager_force_stop_def start_begin_def start_finish_def halt_with_def
    command_on_def Let_def split: option.split sum.split prod.split)

lemma manager_run:
  "provisioned mg \<Longrightarrow> provisioned (foldl (manager_step sr br) mg ops) \<and> mg_registry (foldl (manager_step sr br) mg ops) = mg_registry mg"
  by (induction ops arbitrary: mg) (simp_all add: manager_step_provisioned manager_step_registry)

lemma provisioned_fresh:
  assumes "mk_manager reg lc cfgs threshold (Some (mk_coordinator is has_control)) = Inr mg" "\<forall>st \<in> snd ` set lc. st = REGISTERED"
  shows "provisioned mg \<and> mg_registry mg = reg"
proof -
  have mg: "mg_requirements mg = Some (mk_coordinator is has_control)" "mg_lifecycle mg = lc" "mg_registry mg = reg"
    using assms(1) by (auto simp: mk_manager_def split: if_splits)
  have "holds reg Map.empty sid (map_of lc sid)" for sid
    using assms(2) by (cases "map_of lc sid") (auto simp: holds_def dest!: map_of_SomeD)
  moreover have "registries_of Map.empty (mk_coordinator is has_control)" using registries_run [of "[]" "is" has_control] by simp
  ultimately show ?thesis using mg by (auto simp: provisioned_def mk_coordinator_def effective_timeframes_def)
qed


section \<open>Routing one context\<close>

definition strategy_of :: "strategy_manager \<Rightarrow> string \<Rightarrow> strategy" where
  "strategy_of mg sid = the (map_of (mg_registry mg) sid)"

text \<open>What a strategy makes of a context by itself: \<open>None\<close> when it is not ready, otherwise what evaluating it gives.\<close>

definition verdict :: "(string \<Rightarrow> strategy_configuration option) \<Rightarrow> market_context \<Rightarrow> strategy \<Rightarrow> strategy_evaluation res option" where
  "verdict cfgs c s =
     (case cfgs (sd_strategy_id (st_descriptor s)) of
        None \<Rightarrow> None
      | Some cfg \<Rightarrow>
          (if assess_readiness (st_descriptor s) (st_requirements s) (Some cfg) (st_configuration_type s) c \<noteq> READY then None
           else Some (case st_evaluate s c cfg (metadata_for (sr_trigger (st_requirements s)) c) of
                        Inl e \<Rightarrow> Inl e
                      | Inr ev \<Rightarrow> if ev_instrument ev = mc_instrument c \<and> ev_context_version ev = mc_version c then Inr ev
                                 else Inl (ValueError ''strategy evaluation does not match the evaluated context''))))"

definition record_for :: "(string \<Rightarrow> strategy_configuration option) \<Rightarrow> market_context \<Rightarrow> strategy \<Rightarrow> evaluation_record" where
  "record_for cfgs c s =
     (let sid = sd_strategy_id (st_descriptor s)
      in \<lparr>er_strategy_id = sid, er_trigger = sr_trigger (st_requirements s),
          er_readiness = assess_readiness (st_descriptor s) (st_requirements s) (cfgs sid) (st_configuration_type s) c,
          er_evaluation = (case verdict cfgs c s of
              None \<Rightarrow> blank_evaluation c SKIPPED []
            | Some (Inl _) \<Rightarrow> blank_evaluation c EVALUATION_ERROR [(''error'', ''evaluation_failed'')]
            | Some (Inr ev) \<Rightarrow> ev)\<rparr>)"

definition errors_so_far :: "strategy_manager \<Rightarrow> string \<Rightarrow> int" where
  "errors_so_far mg sid = (case mg_error_counts mg sid of None \<Rightarrow> 0 | Some n \<Rightarrow> n)"

definition errors_after :: "strategy_manager \<Rightarrow> market_context \<Rightarrow> string \<Rightarrow> int option" where
  "errors_after mg c sid =
     (case verdict (mg_configurations mg) c (strategy_of mg sid) of
        None \<Rightarrow> mg_error_counts mg sid
      | Some (Inl _) \<Rightarrow> Some (errors_so_far mg sid + 1)
      | Some (Inr _) \<Rightarrow> Some 0)"

definition faults :: "strategy_manager \<Rightarrow> market_context \<Rightarrow> string \<Rightarrow> bool" where
  "faults mg c sid \<longleftrightarrow>
     (case verdict (mg_configurations mg) c (strategy_of mg sid) of
        Some (Inl _) \<Rightarrow> mg_error_threshold mg \<le> errors_so_far mg sid + 1
      | _ \<Rightarrow> False)"

lemma same_strategy:
  assumes "mg_registry mg' = mg_registry mg" "mg_configurations mg' = mg_configurations mg" "mg_error_threshold mg' = mg_error_threshold mg"
    and "mg_error_counts mg' x = mg_error_counts mg x"
  shows "faults mg' c x = faults mg c x" "errors_after mg' c x = errors_after mg c x"
  unfolding faults_def errors_after_def errors_so_far_def strategy_of_def assms by (rule refl)+

lemma fail_strategy_running:
  assumes "map_of (mg_lifecycle mg) sid = Some RUNNING"
  shows "fail_strategy mg sid trigger c =
    (Inr \<lparr>er_strategy_id = sid, er_trigger = trigger, er_readiness = READY,
          er_evaluation = blank_evaluation c EVALUATION_ERROR [(''error'', ''evaluation_failed'')]\<rparr>,
     mg\<lparr>mg_error_counts := (mg_error_counts mg)(sid \<mapsto> errors_so_far mg sid + 1),
        mg_lifecycle := (if mg_error_threshold mg \<le> errors_so_far mg sid + 1 then AList.update sid FAULTED (mg_lifecycle mg) else mg_lifecycle mg)\<rparr>)"
proof -
  let ?c1 = "mg\<lparr>mg_error_counts := (mg_error_counts mg)(sid \<mapsto> errors_so_far mg sid + 1)\<rparr>"
  have "command_on ?c1 sid Mark_error = (Inr FAULTED, ?c1\<lparr>mg_lifecycle := AList.update sid FAULTED (mg_lifecycle mg)\<rparr>)"
    using command_on_permitted [of ?c1 sid RUNNING Mark_error FAULTED] assms by (simp add: permitted_iff)
  then show ?thesis
    unfolding fail_strategy_def Let_def errors_so_far_def [symmetric] by simp
qed

lemma evaluate_one_verdict:
  assumes "map_of (mg_lifecycle mg) sid = Some RUNNING" "sd_strategy_id (st_descriptor s) = sid" "strategy_of mg sid = s"
  shows "evaluate_one mg s (sr_trigger (st_requirements s)) c =
    (Inr (record_for (mg_configurations mg) c s),
     mg\<lparr>mg_error_counts := (mg_error_counts mg)(sid := errors_after mg c sid),
        mg_lifecycle := (if faults mg c sid then AList.update sid FAULTED (mg_lifecycle mg) else mg_lifecycle mg)\<rparr>)"
proof (cases "verdict (mg_configurations mg) c s")
  case None
  then show ?thesis
    using assms(2,3)
    by (auto simp: evaluate_one_def record_for_def errors_after_def faults_def Let_def verdict_def split: option.splits if_splits)
next
  case (Some v)
  then obtain cfg where cfg: "mg_configurations mg sid = Some cfg"
    and ready: "assess_readiness (st_descriptor s) (st_requirements s) (Some cfg) (st_configuration_type s) c = READY"
    using assms(2) by (auto simp: verdict_def split: option.splits if_splits)
  have v: "res_bind (st_evaluate s c cfg (metadata_for (sr_trigger (st_requirements s)) c)) (\<lambda>ev. require_consistent ev c) = v"
    using Some cfg ready assms(2)
    by (cases "st_evaluate s c cfg (metadata_for (sr_trigger (st_requirements s)) c)")
      (auto simp: verdict_def require_consistent_def split: if_splits)
  have e: "evaluate_one mg s (sr_trigger (st_requirements s)) c = run_strategy mg s sid (sr_trigger (st_requirements s)) cfg c"
    using cfg ready assms(2) by (simp add: evaluate_one_def Let_def)
  show ?thesis
    unfolding e run_strategy_def v
    using Some assms(2,3) cfg ready fail_strategy_running [OF assms(1)]
    by (cases v) (simp_all add: record_for_def errors_after_def faults_def Let_def)
qed

definition due :: "strategy_manager \<Rightarrow> market_context \<Rightarrow> string list" where
  "due mg c = filter (\<lambda>sid. is_triggered (sr_trigger (st_requirements (strategy_of mg sid))) (mg_previous mg (mc_instrument c)) c) (running_ids mg)"

lemma records_loop_exact:
  assumes "wf_registry (mg_registry mg)" "distinct sids"
    and "\<And>sid. sid \<in> set sids \<Longrightarrow> map_of (mg_lifecycle mg) sid = Some RUNNING \<and> map_of (mg_registry mg) sid \<noteq> None"
    and "todo = filter (\<lambda>sid. is_triggered (sr_trigger (st_requirements (strategy_of mg sid))) previous c) sids"
  shows "\<exists>lc counts. records_loop mg c previous sids =
      (Inr (), map (\<lambda>sid. record_for (mg_configurations mg) c (strategy_of mg sid)) todo, mg\<lparr>mg_lifecycle := lc, mg_error_counts := counts\<rparr>)
    \<and> (\<forall>sid. map_of lc sid = (if sid \<in> set todo \<and> faults mg c sid then Some FAULTED else map_of (mg_lifecycle mg) sid)
           \<and> counts sid = (if sid \<in> set todo then errors_after mg c sid else mg_error_counts mg sid))"
  using assms
proof (induction sids arbitrary: mg todo)
  case Nil
  then show ?case by (intro exI [of _ "mg_lifecycle mg"] exI [of _ "mg_error_counts mg"]) simp
next
  case (Cons sid sids)
  obtain s where s: "map_of (mg_registry mg) sid = Some s" using Cons.prems(3) by fastforce
  then have get: "registry_get (mg_registry mg) sid = Inr s" "strategy_of mg sid = s" by (simp_all add: registry_get_def strategy_of_def)
  show ?case
  proof (cases "is_triggered (sr_trigger (st_requirements s)) previous c")
    case False
    then show ?thesis using Cons.IH [OF Cons.prems(1) _ _ refl] Cons.prems(2-4) get by simp
  next
    case True
    let ?mg = "mg\<lparr>mg_error_counts := (mg_error_counts mg)(sid := errors_after mg c sid),
        mg_lifecycle := (if faults mg c sid then AList.update sid FAULTED (mg_lifecycle mg) else mg_lifecycle mg)\<rparr>"
    let ?todo = "filter (\<lambda>sid. is_triggered (sr_trigger (st_requirements (strategy_of mg sid))) previous c) sids"
    have e: "evaluate_one mg s (sr_trigger (st_requirements s)) c = (Inr (record_for (mg_configurations mg) c s), ?mg)"
      using Cons.prems(1,3) get registry_get_id by (intro evaluate_one_verdict) auto
    have strat: "strategy_of ?mg = strategy_of mg" by (simp add: strategy_of_def fun_eq_iff)
    have "map_of (mg_lifecycle ?mg) x = Some RUNNING \<and> map_of (mg_registry ?mg) x \<noteq> None" if "x \<in> set sids" for x
      using Cons.prems(2) Cons.prems(3) [of x] that by (auto simp: update_conv')
    then obtain lc counts where l: "records_loop ?mg c previous sids =
        (Inr (), map (\<lambda>x. record_for (mg_configurations mg) c (strategy_of mg x)) ?todo, ?mg\<lparr>mg_lifecycle := lc, mg_error_counts := counts\<rparr>)"
      and lc: "\<And>x. map_of lc x = (if x \<in> set ?todo \<and> faults ?mg c x then Some FAULTED else map_of (mg_lifecycle ?mg) x)"
      and counts: "\<And>x. counts x = (if x \<in> set ?todo then errors_after ?mg c x else mg_error_counts ?mg x)"
      using Cons.IH [of ?mg ?todo] Cons.prems(1,2) unfolding strat by auto
    have same: "faults ?mg c x = faults mg c x" "errors_after ?mg c x = errors_after mg c x" if "x \<noteq> sid" for x
      by (rule same_strategy; use that in simp)+
    have notin: "sid \<notin> set sids" using Cons.prems(2) by simp
    have "map_of lc x = (if x \<in> set (sid # ?todo) \<and> faults mg c x then Some FAULTED else map_of (mg_lifecycle mg) x)
      \<and> counts x = (if x \<in> set (sid # ?todo) then errors_after mg c x else mg_error_counts mg x)" for x
    proof (cases "x = sid")
      case True
      then show ?thesis unfolding lc counts using notin by (simp add: update_conv')
    next
      case False
      then show ?thesis unfolding lc counts same [OF False] by (simp add: update_conv')
    qed
    moreover have "todo = sid # ?todo" using Cons.prems(4) True get by simp
    moreover have "records_loop mg c previous (sid # sids) =
        (Inr (), map (\<lambda>x. record_for (mg_configurations mg) c (strategy_of mg x)) (sid # ?todo), mg\<lparr>mg_lifecycle := lc, mg_error_counts := counts\<rparr>)"
      using get True e l by simp
    ultimately show ?thesis by blast
  qed
qed

lemma running_ids_running:
  assumes "sid \<in> set (running_ids mg)"
  shows "map_of (mg_lifecycle mg) sid = Some RUNNING \<and> map_of (mg_registry mg) sid \<noteq> None"
proof -
  have "sid \<in> fst ` set (mg_lifecycle mg)" "the (map_of (mg_lifecycle mg) sid) = RUNNING" "sid \<in> fst ` set (mg_registry mg)"
    using assms by (force simp: running_ids_def lc_snapshot_def identifiers_def Let_def)+
  then show ?thesis by (metis map_of_eq_None_iff option.collapse)
qed

lemma running_ids_distinct: "distinct (running_ids mg) \<and> sorted (running_ids mg)"
  by (simp add: running_ids_def Let_def)

lemma routing_exact:
  assumes "wf_registry (mg_registry mg)" "handle_context sink_raises bus_raises mg c = (r, mg')"
  shows "if \<exists>p. mg_previous mg (mc_instrument c) = Some p \<and> mc_version c \<le> mc_version p
    then r = Inr () \<and> mg' = mg
    else mg_latest mg' (mc_instrument c) = Some (map (\<lambda>sid. record_for (mg_configurations mg) c (strategy_of mg sid)) (due mg c))
      \<and> mg_previous mg' = (mg_previous mg)(mc_instrument c \<mapsto> c)
      \<and> (\<forall>sid. map_of (mg_lifecycle mg') sid = (if sid \<in> set (due mg c) \<and> faults mg c sid then Some FAULTED else map_of (mg_lifecycle mg) sid))
      \<and> (\<forall>sid. mg_error_counts mg' sid = (if sid \<in> set (due mg c) then errors_after mg c sid else mg_error_counts mg sid))"
proof (cases "\<exists>p. mg_previous mg (mc_instrument c) = Some p \<and> mc_version c \<le> mc_version p")
  case True
  then show ?thesis using assms(2) by (auto simp: handle_context_def)
next
  case False
  obtain lc counts where l: "records_loop mg c (mg_previous mg (mc_instrument c)) (running_ids mg) =
      (Inr (), map (\<lambda>sid. record_for (mg_configurations mg) c (strategy_of mg sid)) (due mg c), mg\<lparr>mg_lifecycle := lc, mg_error_counts := counts\<rparr>)"
    and f: "\<And>sid. map_of lc sid = (if sid \<in> set (due mg c) \<and> faults mg c sid then Some FAULTED else map_of (mg_lifecycle mg) sid)
       \<and> counts sid = (if sid \<in> set (due mg c) then errors_after mg c sid else mg_error_counts mg sid)"
    using records_loop_exact [OF assms(1) conjunct1 [OF running_ids_distinct] running_ids_running due_def] by blast
  have new: "\<not> (case mg_previous mg (mc_instrument c) of None \<Rightarrow> False | Some p \<Rightarrow> mc_version c \<le> mc_version p)"
    using False by (auto split: option.splits)
  obtain seen failed where o: "observe sink_raises (map (\<lambda>sid. record_for (mg_configurations mg) c (strategy_of mg sid)) (due mg c)) = (seen, failed)"
    by fastforce
  have "mg_latest mg' (mc_instrument c) = Some (map (\<lambda>sid. record_for (mg_configurations mg) c (strategy_of mg sid)) (due mg c))
      \<and> mg_previous mg' = (mg_previous mg)(mc_instrument c \<mapsto> c) \<and> mg_lifecycle mg' = lc \<and> mg_error_counts mg' = counts"
    using assms(2) new
    by (auto simp: handle_context_def l o publish_results_def Let_def split: if_splits sum.splits prod.splits dest!: emit_loop_keeps)
  then show ?thesis using False f by auto
qed


definition demo_strategy :: "string \<Rightarrow> strategy_evaluation res \<Rightarrow> strategy" where
  "demo_strategy sid outcome =
     \<lparr>st_descriptor = \<lparr>sd_strategy_id = sid, sd_display_name = sid, sd_description = sid, sd_version = ''1.0.0'', sd_category = RANGE,
        sd_emission_policy = CONTINUOUS, sd_min_context_version = 1, sd_max_context_version = None\<rparr>,
      st_requirements = demo_requirements [], st_configuration_type = OpenExtremeConfiguration, st_evaluate = (\<lambda>_ _ _. outcome)\<rparr>"

definition demo_context :: market_context where
  "demo_context =
     \<lparr>mc_instrument = cash_equity ''NSE'' ''TCS'', mc_version = 1, mc_sequence = 1, mc_event_timestamp = 0, mc_observed_at = 0,
      mc_latest_tick = None, mc_latest_quote = None, mc_latest_candle = None, mc_candle_sets = [], mc_session = None, mc_facts = [],
      mc_metadata = [], mc_historical = None, mc_session_statistics = None,
      mc_previous_close = None, mc_is_valid = True\<rparr>"

definition demo_configurations :: "string \<Rightarrow> strategy_configuration option" where
  "demo_configurations sid = Some \<lparr>sc_type = OpenExtremeConfiguration, sc_config_version = ''1.0.0'', sc_narrow_cpr_max_width_pct = None\<rparr>"

definition demo_manager :: strategy_manager where
  "demo_manager =
     \<lparr>mg_registry = [(''a'', demo_strategy ''a'' (Inl (ValueError ''bad''))),
                     (''b'', demo_strategy ''b'' (Inr (blank_evaluation demo_context UNMATCHED [])))],
      mg_lifecycle = [(''a'', RUNNING), (''b'', RUNNING)], mg_configurations = demo_configurations, mg_error_threshold = 1,
      mg_requirements = None, mg_previous = Map.empty, mg_latest = Map.empty, mg_error_counts = Map.empty, mg_subscriptions = [],
      mg_dedup = [], mg_observed = [], mg_published = []\<rparr>"

lemmas demo_manager_simps =
  demo_manager_def demo_configurations_def demo_context_def demo_strategy_def demo_requirements_def strategy_of_def

lemma demo_due: "due demo_manager demo_context = [''a'', ''b'']"
  by (simp add: due_def running_ids_def lc_snapshot_def identifiers_def demo_manager_simps is_triggered_def Let_def)

lemma demo_ready:
  "assess_readiness (st_descriptor (demo_strategy sid x)) (demo_requirements []) (demo_configurations sid) OpenExtremeConfiguration demo_context = READY"
  by (simp add: assess_readiness_def version_compatible_def configuration_ok_def facts_ready_def historical_ready_def live_ready_def
      session_statistics_verdict_def demo_manager_simps Let_def)

lemma demo_faults: "faults demo_manager demo_context ''a'' \<and> \<not> faults demo_manager demo_context ''b''"
  using demo_ready [of "''a''" "Inl (ValueError ''bad'')"] demo_ready [of "''b''" "Inr (blank_evaluation demo_context UNMATCHED [])"]
  by (simp add: faults_def verdict_def errors_so_far_def demo_manager_simps blank_evaluation_def)

definition demo_fresh_manager :: strategy_manager where
  "demo_fresh_manager = demo_manager\<lparr>mg_lifecycle := [(''a'', REGISTERED), (''b'', REGISTERED)], mg_requirements := Some (mk_coordinator [] False)\<rparr>"

lemma demo_fresh_manager_made:
  "mk_manager (mg_registry demo_manager) [(''a'', REGISTERED), (''b'', REGISTERED)] demo_configurations 1 (Some (mk_coordinator [] False)) = Inr demo_fresh_manager"
  by (simp add: mk_manager_def demo_fresh_manager_def demo_manager_def)

lemma demo_started:
  "map_of (mg_lifecycle (foldl (manager_step (\<lambda>_. False) (\<lambda>_. False)) demo_fresh_manager [Begin ''b'', Finish ''b'' (Inr True)])) ''b'' = Some RUNNING"
  by (simp add: start_begin_def start_finish_def command_on_def run_command_def command_transitions_def apply_command_def state_of_def
      registry_get_def configuration_ok_def co_register_cases blank_def is_space_def demo_fresh_manager_def demo_manager_def demo_configurations_def
      demo_strategy_def)



end
