(* ===== verification/Sector_Membership.thy ===== *)
theory Sector_Membership
  imports Market_Data "HOL-Library.AList" "HOL-Library.List_Lexorder" "HOL-Library.Char_ord"
begin

text \<open>
  Sector taxonomy and membership (\<^verbatim>\<open>market_intelligence/sector/models.py\<close>, \<^verbatim>\<open>membership.py\<close>): group definitions, effective-dated
  memberships, the validation of a dataset and the resolver built over it. Shown: on a validated dataset every
  instrument has at most one primary sector on every date, and the resolver returns exactly that.
\<close>

definition instrument_identity :: "instrument \<Rightarrow> string" where
  "instrument_identity i = exchange i @ '':'' @ symbol i"

datatype group_kind = PRIMARY_SECTOR | INDUSTRY | SECTOR_INDEX | THEMATIC_INDEX | BROAD_MARKET_INDEX

record sector_definition =
  sd_sector_id :: string
  sd_name :: string
  sd_kind :: group_kind
  sd_source :: string
  sd_parent_id :: "string option"
  sd_effective_from :: "date option"
  sd_effective_to :: "date option"

definition mk_sector_definition :: "sector_definition \<Rightarrow> sector_definition res" where
  "mk_sector_definition d =
     (if sd_sector_id d = [] \<or> py_strip (sd_sector_id d) \<noteq> sd_sector_id d \<or> py_strip (sd_sector_id d) = []
      then Inl (ValidationError ''sector_id must be a non-empty, untrimmed-whitespace key'')
      else if sd_name d = [] then Inl (ValidationError ''name'')
      else if sd_source d = [] then Inl (ValidationError ''source'')
      else Inr d)"

record sector_membership =
  sm_identity :: string
  sm_sector_id :: string
  sm_primary :: bool
  sm_effective_from :: date
  sm_source :: string
  sm_effective_to :: "date option"
  sm_company :: "string option"
  sm_isin :: "string option"

definition mk_sector_membership :: "sector_membership \<Rightarrow> sector_membership res" where
  "mk_sector_membership m =
     (if sm_identity m = [] then Inl (ValidationError ''identity'')
      else if sm_sector_id m = [] then Inl (ValidationError ''sector_id'')
      else if sm_source m = [] then Inl (ValidationError ''source'')
      else case sm_effective_to m of
        Some e \<Rightarrow> (if e \<le> sm_effective_from m then Inl (ValidationError ''effective_to must be strictly after effective_from'') else Inr m)
      | None \<Rightarrow> Inr m)"

definition active_on :: "sector_membership \<Rightarrow> date \<Rightarrow> bool" where
  "active_on m on =
     (if on < sm_effective_from m then False
      else case sm_effective_to m of None \<Rightarrow> True | Some e \<Rightarrow> on < e)"

record sector_dataset_metadata =
  dm_dataset_id :: string
  dm_version :: string
  dm_effective_from :: date
  dm_generated_at :: date
  dm_source_authority :: string
  dm_notes :: "string option"

record instrument_sector_profile =
  ip_identity :: string
  ip_primary_sector :: "string option"
  ip_secondary_memberships :: "string list"
  ip_broad_market_memberships :: "string list"

definition is_mapped :: "instrument_sector_profile \<Rightarrow> bool" where
  "is_mapped p \<longleftrightarrow> ip_primary_sector p \<noteq> None"

record sector_membership_dataset =
  ds_metadata :: sector_dataset_metadata
  ds_sector_definitions :: "sector_definition list"
  ds_index_definitions :: "sector_definition list"
  ds_memberships :: "sector_membership list"

definition primary_kinds :: "group_kind set" where
  "primary_kinds = {PRIMARY_SECTOR, INDUSTRY}"

definition index_kinds :: "group_kind set" where
  "index_kinds = {SECTOR_INDEX, THEMATIC_INDEX, BROAD_MARKET_INDEX}"

text \<open>\<^verbatim>\<open>SectorDatasetError\<close>\<close>

definition dataset_error :: "string \<Rightarrow> py_error" where
  "dataset_error msg = ValueError msg"

fun collect_definitions :: "(string \<times> sector_definition) list \<Rightarrow> sector_definition list \<Rightarrow> (string \<times> sector_definition) list res" where
  "collect_definitions defs [] = Inr defs"
| "collect_definitions defs (d # ds) =
     (if map_of defs (sd_sector_id d) \<noteq> None then Inl (dataset_error ''duplicate sector_id'')
      else collect_definitions (AList.update (sd_sector_id d) d defs) ds)"

definition validate_definitions :: "sector_membership_dataset \<Rightarrow> (string \<times> sector_definition) list res" where
  "validate_definitions ds =
     res_bind (collect_definitions [] (ds_sector_definitions ds @ ds_index_definitions ds)) (\<lambda>defs.
       if list_ex (\<lambda>d. sd_kind d \<notin> primary_kinds) (ds_sector_definitions ds) then Inl (dataset_error ''non-primary kind on definition'')
       else if list_ex (\<lambda>d. sd_kind d \<notin> index_kinds) (ds_index_definitions ds) then Inl (dataset_error ''non-index kind on definition'')
       else Inr defs)"

fun membership_loop ::
  "(string \<times> sector_definition) list \<Rightarrow> (string \<times> string \<times> date) set \<Rightarrow> sector_membership list \<Rightarrow> unit res" where
  "membership_loop defs seen [] = Inr ()"
| "membership_loop defs seen (m # ms) =
     (case map_of defs (sm_sector_id m) of
        None \<Rightarrow> Inl (dataset_error ''undefined sector in membership'')
      | Some d \<Rightarrow>
          (if sm_primary m \<and> sd_kind d \<notin> primary_kinds then Inl (dataset_error ''primary flag on non-primary kind'')
           else let key = (sm_identity m, sm_sector_id m, sm_effective_from m)
                in if key \<in> seen then Inl (dataset_error ''duplicate membership row'')
                   else membership_loop defs (insert key seen) ms))"

definition validate_memberships :: "sector_membership_dataset \<Rightarrow> (string \<times> sector_definition) list \<Rightarrow> unit res" where
  "validate_memberships ds defs = membership_loop defs {} (ds_memberships ds)"

fun intervals_disjoint :: "sector_membership list \<Rightarrow> bool" where
  "intervals_disjoint (m # m' # ms) =
     (\<not> (case sm_effective_to m of None \<Rightarrow> True | Some e \<Rightarrow> sm_effective_from m' < e) \<and> intervals_disjoint (m' # ms))"
| "intervals_disjoint ms = True"

text \<open>The rows the grouping collects for one identity, sorted; the order in which identities are checked does not matter.\<close>

definition primary_rows :: "sector_membership_dataset \<Rightarrow> string \<Rightarrow> sector_membership list" where
  "primary_rows ds i = sort_key sm_effective_from (filter (\<lambda>m. sm_primary m \<and> sm_identity m = i) (ds_memberships ds))"

definition validate_primary_intervals :: "sector_membership_dataset \<Rightarrow> unit res" where
  "validate_primary_intervals ds =
     (if list_all (\<lambda>i. intervals_disjoint (primary_rows ds i)) (map sm_identity (filter sm_primary (ds_memberships ds)))
      then Inr () else Inl (dataset_error ''overlapping active primary intervals''))"

record membership_resolver =
  mr_defs :: "(string \<times> sector_definition) list"
  mr_metadata :: sector_dataset_metadata
  mr_by_identity :: "(string \<times> sector_membership list) list"
  mr_primary_sector_ids :: "string list"

text \<open>The dict a \<^verbatim>\<open>defaultdict(list)\<close> becomes when every row is appended under its key, in insertion order of the keys.\<close>

definition add_row :: "(string \<times> sector_membership list) list \<Rightarrow> sector_membership \<Rightarrow> (string \<times> sector_membership list) list" where
  "add_row g m = AList.update (sm_identity m) ((case map_of g (sm_identity m) of None \<Rightarrow> [] | Some rows \<Rightarrow> rows) @ [m]) g"

definition mk_membership_resolver :: "sector_membership_dataset \<Rightarrow> membership_resolver res" where
  "mk_membership_resolver ds =
     res_bind (validate_definitions ds) (\<lambda>defs.
     res_bind (validate_memberships ds defs) (\<lambda>_.
     res_bind (validate_primary_intervals ds) (\<lambda>_.
       Inr \<lparr>mr_defs = defs, mr_metadata = ds_metadata ds, mr_by_identity = foldl add_row [] (ds_memberships ds),
            mr_primary_sector_ids = sort (map sd_sector_id (ds_sector_definitions ds))\<rparr>)))"

definition resolve_on :: "membership_resolver \<Rightarrow> date option \<Rightarrow> date" where
  "resolve_on r on = (case on of Some d \<Rightarrow> d | None \<Rightarrow> dm_effective_from (mr_metadata r))"

definition rows_of :: "membership_resolver \<Rightarrow> string \<Rightarrow> sector_membership list" where
  "rows_of r i = (case map_of (mr_by_identity r) i of None \<Rightarrow> [] | Some rows \<Rightarrow> rows)"

definition resolve_primary :: "membership_resolver \<Rightarrow> string \<Rightarrow> date option \<Rightarrow> string option" where
  "resolve_primary r i on = map_option sm_sector_id (find (\<lambda>m. sm_primary m \<and> active_on m (resolve_on r on)) (rows_of r i))"

definition secondary_memberships :: "membership_resolver \<Rightarrow> string \<Rightarrow> date option \<Rightarrow> string list" where
  "secondary_memberships r i on =
     sort (map sm_sector_id (filter (\<lambda>m. \<not> sm_primary m \<and> active_on m (resolve_on r on)) (rows_of r i)))"

text \<open>\<^verbatim>\<open>self._defs[s]\<close> raises \<^verbatim>\<open>KeyError\<close> for an undefined group.\<close>

definition resolve_profile :: "membership_resolver \<Rightarrow> string \<Rightarrow> date option \<Rightarrow> instrument_sector_profile res" where
  "resolve_profile r i on =
     (let secondary = secondary_memberships r i on
      in if list_ex (\<lambda>s. map_of (mr_defs r) s = None) secondary then Inl (LookupError ''KeyError'')
         else let broad = filter (\<lambda>s. sd_kind (the (map_of (mr_defs r) s)) = BROAD_MARKET_INDEX) secondary
              in Inr \<lparr>ip_identity = i, ip_primary_sector = resolve_primary r i on,
                      ip_secondary_memberships = filter (\<lambda>s. s \<notin> set broad) secondary, ip_broad_market_memberships = broad\<rparr>)"

definition members_of_primary_sector :: "membership_resolver \<Rightarrow> string \<Rightarrow> date option \<Rightarrow> string list" where
  "members_of_primary_sector r sid on =
     sort (map fst (filter (\<lambda>(i, rows). list_ex (\<lambda>m. sm_primary m \<and> sm_sector_id m = sid \<and> active_on m (resolve_on r on)) rows)
       (mr_by_identity r)))"

definition all_primary_sectors :: "membership_resolver \<Rightarrow> string list" where
  "all_primary_sectors r = mr_primary_sector_ids r"

section \<open>Validated datasets\<close>

text \<open>What grouping by appending under a key builds, in general.\<close>

definition group_step :: "('a \<Rightarrow> 'k) \<Rightarrow> ('a \<Rightarrow> 'b) \<Rightarrow> ('k \<times> 'b list) list \<Rightarrow> 'a \<Rightarrow> ('k \<times> 'b list) list" where
  "group_step key val g x = AList.update (key x) ((case map_of g (key x) of None \<Rightarrow> [] | Some rows \<Rightarrow> rows) @ [val x]) g"

lemma group_loop:
  "map_of (foldl (group_step key val) g xs) k =
     (let rows = map val (filter (\<lambda>x. key x = k) xs)
      in if rows = [] then map_of g k else Some ((case map_of g k of None \<Rightarrow> [] | Some old \<Rightarrow> old) @ rows))"
  by (induction xs arbitrary: g) (auto simp: group_step_def update_conv' Let_def split: option.splits)

lemma group_keys: "distinct (map fst g) \<Longrightarrow> distinct (map fst (foldl (group_step key val) g xs))"
  by (induction xs arbitrary: g) (simp_all add: group_step_def distinct_update)

lemma add_row_group: "add_row = group_step sm_identity (\<lambda>m. m)"
  by (simp add: fun_eq_iff add_row_def group_step_def)

lemma rows_loop:
  "map_of (foldl add_row [] ms) i = (let rows = filter (\<lambda>m. sm_identity m = i) ms in if rows = [] then None else Some rows)"
  unfolding add_row_group group_loop by (simp add: Let_def)

lemma rows_of_resolver:
  assumes "mk_membership_resolver ds = Inr r"
  shows "rows_of r i = filter (\<lambda>m. sm_identity m = i) (ds_memberships ds)"
  using assms rows_loop [of "ds_memberships ds" i]
  by (auto simp: mk_membership_resolver_def rows_of_def Let_def split: option.splits if_splits)

lemma intervals_disjoint_later:
  assumes "intervals_disjoint (m # ms)" "sorted (map sm_effective_from (m # ms))" "m' \<in> set ms"
  shows "\<exists>e. sm_effective_to m = Some e \<and> e \<le> sm_effective_from m'"
proof (cases ms)
  case (Cons n ns)
  then obtain e where "sm_effective_to m = Some e" "e \<le> sm_effective_from n"
    using assms(1) by (auto split: option.splits)
  then show ?thesis using assms(2,3) Cons by force
qed (use assms in simp)

lemma intervals_disjoint_one_active:
  assumes "intervals_disjoint ms" "sorted (map sm_effective_from ms)" "distinct ms"
    and "m \<in> set ms" "m' \<in> set ms" "active_on m d" "active_on m' d"
  shows "m = m'"
  using assms
proof (induction ms)
  case (Cons n ns)
  have tl: "intervals_disjoint ns" using Cons.prems(1) by (cases ns) simp_all
  have apart: "\<not> active_on x d" if "active_on n d" "x \<in> set ns" for x
    using intervals_disjoint_later [OF Cons.prems(1,2) that(2)] that(1) by (auto simp: active_on_def split: if_splits)
  show ?case
    using Cons.IH [OF tl] Cons.prems apart by auto
qed simp

lemma membership_loop_ok:
  assumes "membership_loop defs seen ms = Inr ()"
  shows "distinct (map (\<lambda>m. (sm_identity m, sm_sector_id m, sm_effective_from m)) ms)
    \<and> (\<forall>m \<in> set ms. (sm_identity m, sm_sector_id m, sm_effective_from m) \<notin> seen
         \<and> (\<exists>d. map_of defs (sm_sector_id m) = Some d \<and> (sm_primary m \<longrightarrow> sd_kind d \<in> primary_kinds)))"
  using assms
proof (induction ms arbitrary: seen)
  case (Cons m ms)
  then obtain d where d: "map_of defs (sm_sector_id m) = Some d" "sm_primary m \<longrightarrow> sd_kind d \<in> primary_kinds"
    "(sm_identity m, sm_sector_id m, sm_effective_from m) \<notin> seen"
    "membership_loop defs (insert (sm_identity m, sm_sector_id m, sm_effective_from m) seen) ms = Inr ()"
    by (auto simp: Let_def split: option.splits if_splits)
  then show ?case using Cons.IH [OF d(4)] by auto
qed simp

lemma resolver_valid:
  assumes "mk_membership_resolver ds = Inr r"
  shows "membership_loop (mr_defs r) {} (ds_memberships ds) = Inr ()"
    and "\<And>i. intervals_disjoint (primary_rows ds i)"
    and "mr_by_identity r = foldl add_row [] (ds_memberships ds)"
proof -
  show "membership_loop (mr_defs r) {} (ds_memberships ds) = Inr ()" "mr_by_identity r = foldl add_row [] (ds_memberships ds)"
    using assms by (auto simp: mk_membership_resolver_def validate_memberships_def)
  fix i
  have "list_all (\<lambda>i. intervals_disjoint (primary_rows ds i)) (map sm_identity (filter sm_primary (ds_memberships ds)))"
    using assms by (auto simp: mk_membership_resolver_def validate_primary_intervals_def split: if_splits)
  moreover have "primary_rows ds i = []" if "i \<notin> sm_identity ` set (filter sm_primary (ds_memberships ds))"
  proof -
    have "set (primary_rows ds i) = {}" using that by (auto simp: primary_rows_def)
    then show ?thesis by simp
  qed
  ultimately show "intervals_disjoint (primary_rows ds i)"
    by (cases "i \<in> sm_identity ` set (filter sm_primary (ds_memberships ds))") (auto simp: list_all_iff)
qed

lemma one_active_primary:
  assumes "mk_membership_resolver ds = Inr r"
    and "m \<in> set (ds_memberships ds)" "m' \<in> set (ds_memberships ds)" "sm_primary m" "sm_primary m'" "sm_identity m = sm_identity m'"
    and "active_on m d" "active_on m' d"
  shows "m = m'"
proof (rule intervals_disjoint_one_active)
  show "intervals_disjoint (primary_rows ds (sm_identity m))" by (rule resolver_valid [OF assms(1)])
  show "sorted (map sm_effective_from (primary_rows ds (sm_identity m)))" by (simp add: primary_rows_def)
  have "distinct (ds_memberships ds)" using membership_loop_ok [OF resolver_valid(1) [OF assms(1)]] by (auto simp: distinct_map)
  then show "distinct (primary_rows ds (sm_identity m))" by (simp add: primary_rows_def)
qed (use assms in \<open>simp_all add: primary_rows_def\<close>)

lemma find_unique:
  assumes "\<And>x y. x \<in> set xs \<Longrightarrow> y \<in> set xs \<Longrightarrow> P x \<Longrightarrow> P y \<Longrightarrow> x = y"
  shows "find P xs = Some x \<longleftrightarrow> x \<in> set xs \<and> P x"
  using assms by (induction xs) auto

lemma collect_definitions_ok:
  assumes "collect_definitions defs ds = Inr defs'"
  shows "distinct (map sd_sector_id ds) \<and> (\<forall>d \<in> set ds. map_of defs (sd_sector_id d) = None)
    \<and> (\<forall>s d. map_of defs' s = Some d \<longrightarrow> map_of defs s = Some d \<or> d \<in> set ds \<and> sd_sector_id d = s)"
  using assms
proof (induction ds arbitrary: defs)
  case (Cons d ds)
  have fresh: "map_of defs (sd_sector_id d) = None" using Cons.prems by (auto split: if_splits)
  have "collect_definitions (AList.update (sd_sector_id d) d defs) ds = Inr defs'" using Cons.prems by (auto split: if_splits)
  note IH = Cons.IH [OF this]
  have upd: "map_of (AList.update (sd_sector_id d) d defs) s = (if s = sd_sector_id d then Some d else map_of defs s)" for s
    by (simp add: update_conv')
  have apart: "sd_sector_id x \<noteq> sd_sector_id d \<and> map_of defs (sd_sector_id x) = None" if "x \<in> set ds" for x
    using conjunct1 [OF conjunct2 [OF IH]] that unfolding upd by (metis option.distinct(1))
  have "map_of defs s = Some x \<or> x \<in> set (d # ds) \<and> sd_sector_id x = s" if "map_of defs' s = Some x" for s x
    using conjunct2 [OF conjunct2 [OF IH]] that unfolding upd by (metis list.set_intros option.inject)
  moreover have "sd_sector_id d \<notin> set (map sd_sector_id ds)" using apart by fastforce
  ultimately show ?case using fresh apart conjunct1 [OF IH] by simp
qed simp

lemma primary_sectors_listed:
  assumes "mk_membership_resolver ds = Inr r"
  shows "distinct (all_primary_sectors r)"
    "m \<in> set (ds_memberships ds) \<Longrightarrow> sm_primary m \<Longrightarrow> sm_sector_id m \<in> set (all_primary_sectors r)"
proof -
  have v: "collect_definitions [] (ds_sector_definitions ds @ ds_index_definitions ds) = Inr (mr_defs r)"
    "\<not> list_ex (\<lambda>d. sd_kind d \<notin> index_kinds) (ds_index_definitions ds)"
    "all_primary_sectors r = sort (map sd_sector_id (ds_sector_definitions ds))"
    using assms by (auto simp: mk_membership_resolver_def validate_definitions_def all_primary_sectors_def split: if_splits)
  note c = collect_definitions_ok [OF v(1)]
  show "distinct (all_primary_sectors r)" using c by (simp add: v(3))
  assume m: "m \<in> set (ds_memberships ds)" "sm_primary m"
  obtain d where "map_of (mr_defs r) (sm_sector_id m) = Some d" "sd_kind d \<in> primary_kinds"
    using membership_loop_ok [OF resolver_valid(1) [OF assms]] m by blast
  moreover have "d \<in> set (ds_sector_definitions ds @ ds_index_definitions ds) \<and> sd_sector_id d = sm_sector_id m"
    using c \<open>map_of (mr_defs r) (sm_sector_id m) = Some d\<close> by fastforce
  moreover have "d \<notin> set (ds_index_definitions ds)"
    using v(2) \<open>sd_kind d \<in> primary_kinds\<close> by (auto simp: list_ex_iff primary_kinds_def index_kinds_def)
  ultimately have "d \<in> set (ds_sector_definitions ds)" "sd_sector_id d = sm_sector_id m" by auto
  then show "sm_sector_id m \<in> set (all_primary_sectors r)" by (force simp: v(3))
qed

lemma resolve_primary_iff:
  assumes "mk_membership_resolver ds = Inr r"
  shows "resolve_primary r j on = Some x \<longleftrightarrow>
    (\<exists>m \<in> set (ds_memberships ds). sm_primary m \<and> sm_identity m = j \<and> active_on m (resolve_on r on) \<and> sm_sector_id m = x)"
proof -
  note rows = rows_of_resolver [OF assms]
  have "find (\<lambda>m. sm_primary m \<and> active_on m (resolve_on r on)) (rows_of r j) = Some m \<longleftrightarrow>
      m \<in> set (rows_of r j) \<and> sm_primary m \<and> active_on m (resolve_on r on)" for m
    using one_active_primary [OF assms] by (intro find_unique) (auto simp: rows)
  then show ?thesis by (auto simp: resolve_primary_def rows)
qed

lemma resolver_keys:
  assumes "mk_membership_resolver ds = Inr r"
  shows "distinct (map fst (mr_by_identity r))"
  using group_keys [of "[]"] by (simp add: resolver_valid(3) [OF assms] add_row_group)

lemma members_of_primary_iff:
  assumes "mk_membership_resolver ds = Inr r"
  shows "set (members_of_primary_sector r sid on) = {i. resolve_primary r i on = Some sid}"
proof -
  let ?d = "resolve_on r on"
  note rows = rows_of_resolver [OF assms]
  have "map_of (mr_by_identity r) j = (if rows_of r j = [] then None else Some (rows_of r j))" for j
    using rows_loop [of "ds_memberships ds" j] by (simp add: resolver_valid(3) [OF assms] rows Let_def)
  then have pairs: "(j, rs) \<in> set (mr_by_identity r) \<longleftrightarrow> rs = rows_of r j \<and> rs \<noteq> []" for j rs
    using map_of_eq_Some_iff [OF resolver_keys [OF assms], of j rs] by (auto split: if_splits)
  have "j \<in> set (members_of_primary_sector r sid on) \<longleftrightarrow>
      (\<exists>rs. (j, rs) \<in> set (mr_by_identity r) \<and> (\<exists>m \<in> set rs. sm_primary m \<and> sm_sector_id m = sid \<and> active_on m ?d))" for j
    by (force simp: members_of_primary_sector_def list_ex_iff)
  moreover have "(\<exists>rs. (j, rs) \<in> set (mr_by_identity r) \<and> (\<exists>m \<in> set rs. sm_primary m \<and> sm_sector_id m = sid \<and> active_on m ?d)) \<longleftrightarrow>
      (\<exists>m \<in> set (rows_of r j). sm_primary m \<and> sm_sector_id m = sid \<and> active_on m ?d)" for j
    using pairs by auto
  ultimately show ?thesis unfolding resolve_primary_iff [OF assms] by (auto simp: rows)
qed

text \<open>
  On a dataset the resolver accepts, the primary sector of an instrument on a date is the sector of the one primary membership active on
  that date: it is found exactly when there is such a membership, no second one can be active, the members listed for a sector are, sorted and without
  repetition, exactly the instruments that resolve to it, so no instrument is counted under two sectors, and resolving a
  profile never raises.
\<close>

lemma primary_sector_unique_and_resolved:
  assumes "mk_membership_resolver ds = Inr r"
  shows "(resolve_primary r i on = Some sid \<longleftrightarrow>
      (\<exists>!m. m \<in> set (ds_memberships ds) \<and> sm_primary m \<and> sm_identity m = i \<and> active_on m (resolve_on r on))
      \<and> (\<exists>m \<in> set (ds_memberships ds). sm_primary m \<and> sm_identity m = i \<and> active_on m (resolve_on r on) \<and> sm_sector_id m = sid))
    \<and> set (members_of_primary_sector r sid on) = {i. resolve_primary r i on = Some sid}
    \<and> distinct (members_of_primary_sector r sid on) \<and> sorted (members_of_primary_sector r sid on)
    \<and> (\<exists>p. resolve_profile r i on = Inr p \<and> ip_primary_sector p = resolve_primary r i on)"
proof -
  let ?d = "resolve_on r on"
  note rows = rows_of_resolver [OF assms]
  note found = resolve_primary_iff [OF assms, of _ on] and keys = resolver_keys [OF assms] and members = members_of_primary_iff [OF assms]
  have defined: "\<exists>d. map_of (mr_defs r) (sm_sector_id m) = Some d" if "m \<in> set (rows_of r i)" for m
    using membership_loop_ok [OF resolver_valid(1) [OF assms]] that by (auto simp: rows)
  have "\<not> list_ex (\<lambda>s. map_of (mr_defs r) s = None) (secondary_memberships r i on)"
    using defined by (auto simp: list_ex_iff secondary_memberships_def)
  then have profile: "\<exists>p. resolve_profile r i on = Inr p \<and> ip_primary_sector p = resolve_primary r i on"
    by (simp add: resolve_profile_def Let_def)
  have "distinct (members_of_primary_sector r sid on)"
    using keys by (simp add: members_of_primary_sector_def distinct_map_filter)
  moreover have "sorted (members_of_primary_sector r sid on)" by (simp add: members_of_primary_sector_def)
  moreover have "\<exists>!m. m \<in> set (ds_memberships ds) \<and> sm_primary m \<and> sm_identity m = i \<and> active_on m ?d"
    if "resolve_primary r i on = Some sid"
    using that one_active_primary [OF assms] unfolding found by blast
  ultimately show ?thesis using found [of i sid] members [of sid on] profile by blast
qed

definition demo_membership :: "string \<Rightarrow> date \<Rightarrow> date option \<Rightarrow> sector_membership" where
  "demo_membership sid from until =
     \<lparr>sm_identity = ''NSE:ITC'', sm_sector_id = sid, sm_primary = True, sm_effective_from = from, sm_source = ''NSE'', sm_effective_to = until,
      sm_company = None, sm_isin = None\<rparr>"

definition demo_sector :: "string \<Rightarrow> sector_definition" where
  "demo_sector sid = \<lparr>sd_sector_id = sid, sd_name = sid, sd_kind = PRIMARY_SECTOR, sd_source = ''NSE'', sd_parent_id = None,
     sd_effective_from = None, sd_effective_to = None\<rparr>"

definition demo_dataset :: sector_membership_dataset where
  "demo_dataset =
     \<lparr>ds_metadata = \<lparr>dm_dataset_id = ''nse'', dm_version = ''1'', dm_effective_from = 20000, dm_generated_at = 20000, dm_source_authority = ''NSE'',
        dm_notes = None\<rparr>,
      ds_sector_definitions = [demo_sector ''FMCG'', demo_sector ''HOTELS''], ds_index_definitions = [],
      ds_memberships = [demo_membership ''HOTELS'' 20100 None, demo_membership ''FMCG'' 20000 (Some 20100)]\<rparr>"

lemma primary_sector_unique_and_resolved_example:
  "\<exists>r. mk_membership_resolver demo_dataset = Inr r \<and> resolve_primary r ''NSE:ITC'' (Some 20099) = Some ''FMCG''
     \<and> set (members_of_primary_sector r ''FMCG'' (Some 20099)) = {i. resolve_primary r i (Some 20099) = Some ''FMCG''}"
proof -
  obtain r where r: "mk_membership_resolver demo_dataset = Inr r" "resolve_primary r ''NSE:ITC'' (Some 20099) = Some ''FMCG''"
    by (simp add: mk_membership_resolver_def demo_dataset_def demo_sector_def demo_membership_def validate_definitions_def validate_memberships_def
        validate_primary_intervals_def primary_rows_def primary_kinds_def add_row_def resolve_primary_def rows_of_def resolve_on_def active_on_def)
  then show ?thesis using primary_sector_unique_and_resolved [OF r(1)] by blast
qed

end
