(* ===== verification/Universe_Snapshot.thy ===== *)
theory Universe_Snapshot
  imports Sector_Membership Market_Session "HOL-Library.Multiset"
begin

text \<open>
  The live universe (\<^verbatim>\<open>market_universe/snapshot.py\<close>, \<^verbatim>\<open>resolver.py\<close>, \<^verbatim>\<open>views.py\<close>, \<^verbatim>\<open>diagnostics.py\<close>): snapshots, their content address, the resolver
  that joins membership, provider mapping and sectors into a candidate, the difference of two snapshots and their projections.

  The content address is \<open>fingerprint\<close> of the canonical content: SHA-256 of its canonical JSON, a parameter of which only the length of
  the digest and, where it is said, freedom from collisions is assumed. \<open>strip\<close> is the whitespace stripping of
  pydantic. The provider mapping and the sector authority are the arguments the constructor of the resolver takes.
\<close>

definition SCHEMA_VERSION :: int where
  "SCHEMA_VERSION = 1"

definition CANDIDATE_VERSION :: int where
  "CANDIDATE_VERSION = 0"

datatype snapshot_state = CANDIDATE | PROMOTED

definition snapshot_text :: "(string \<Rightarrow> string) \<Rightarrow> nat \<Rightarrow> string \<Rightarrow> string res" where
  "snapshot_text strip n s =
     (let t = strip s in if t = [] \<or> length t > n then Inl (ValidationError ''string length'') else Inr t)"

record source_provenance =
  sp_fno_source :: string
  sp_fno_version :: string
  sp_fno_effective_date :: date
  sp_instrument_master_source :: string
  sp_instrument_master_version :: string
  sp_sector_dataset_id :: string
  sp_sector_version :: string

definition mk_source_provenance :: "(string \<Rightarrow> string) \<Rightarrow> source_provenance \<Rightarrow> source_provenance res" where
  "mk_source_provenance strip p =
     res_bind (snapshot_text strip 128 (sp_fno_source p)) (\<lambda>a.
     res_bind (snapshot_text strip 64 (sp_fno_version p)) (\<lambda>b.
     res_bind (snapshot_text strip 128 (sp_instrument_master_source p)) (\<lambda>c.
     res_bind (snapshot_text strip 64 (sp_instrument_master_version p)) (\<lambda>d.
     res_bind (snapshot_text strip 128 (sp_sector_dataset_id p)) (\<lambda>e.
     res_bind (snapshot_text strip 64 (sp_sector_version p)) (\<lambda>f.
       Inr \<lparr>sp_fno_source = a, sp_fno_version = b, sp_fno_effective_date = sp_fno_effective_date p, sp_instrument_master_source = c,
            sp_instrument_master_version = d, sp_sector_dataset_id = e, sp_sector_version = f\<rparr>))))))"

record universe_instrument =
  ui_instrument :: instrument
  ui_provider_security_id :: string
  ui_exchange_segment :: string
  ui_sector :: "string option"

definition mk_universe_instrument :: "(string \<Rightarrow> string) \<Rightarrow> universe_instrument \<Rightarrow> universe_instrument res" where
  "mk_universe_instrument strip u =
     res_bind (snapshot_text strip 64 (ui_provider_security_id u)) (\<lambda>a.
     res_bind (snapshot_text strip 32 (ui_exchange_segment u)) (\<lambda>b.
     res_bind (case ui_sector u of None \<Rightarrow> Inr None | Some s \<Rightarrow> res_bind (snapshot_text strip 64 s) (\<lambda>t. Inr (Some t))) (\<lambda>c.
       Inr \<lparr>ui_instrument = ui_instrument u, ui_provider_security_id = a, ui_exchange_segment = b, ui_sector = c\<rparr>)))"

definition ui_identity :: "universe_instrument \<Rightarrow> string" where
  "ui_identity u = instrument_identity (ui_instrument u)"

record universe_snapshot =
  us_schema_version :: int
  us_universe_version :: int
  us_trading_date :: date
  us_effective_at :: instant
  us_state :: snapshot_state
  us_instruments :: "universe_instrument list"
  us_source_provenance :: source_provenance
  us_content_sha256 :: string

type_synonym canonical_content = "date \<times> (string \<times> string \<times> string \<times> string option) list \<times> source_provenance"

definition canonical_content :: "date \<Rightarrow> universe_instrument list \<Rightarrow> source_provenance \<Rightarrow> canonical_content" where
  "canonical_content d is p =
     (d, map (\<lambda>u. (ui_identity u, ui_provider_security_id u, ui_exchange_segment u, ui_sector u)) (sort_key ui_identity is), p)"

definition content_sha256 :: "(canonical_content \<Rightarrow> string) \<Rightarrow> date \<Rightarrow> universe_instrument list \<Rightarrow> source_provenance \<Rightarrow> string" where
  "content_sha256 fingerprint d is p = fingerprint (canonical_content d is p)"

definition validate_sorted_unique_and_hash :: "(canonical_content \<Rightarrow> string) \<Rightarrow> universe_snapshot \<Rightarrow> universe_snapshot res" where
  "validate_sorted_unique_and_hash fingerprint s =
     (let ids = map ui_identity (us_instruments s)
      in if ids \<noteq> sort ids then Inl (ValidationError ''universe instruments must be sorted by identity'')
         else if length ids \<noteq> card (set ids) then Inl (ValidationError ''universe instruments must have unique identities'')
         else if us_content_sha256 s \<noteq> content_sha256 fingerprint (us_trading_date s) (us_instruments s) (us_source_provenance s)
         then Inl (ValidationError ''content_sha256 does not match snapshot content'')
         else Inr s)"

definition mk_universe_snapshot :: "(canonical_content \<Rightarrow> string) \<Rightarrow> universe_snapshot \<Rightarrow> universe_snapshot res" where
  "mk_universe_snapshot fingerprint s =
     (if us_universe_version s < 0 then Inl (ValidationError ''universe_version'')
      else if length (us_content_sha256 s) \<noteq> 64 then Inl (ValidationError ''content_sha256'')
      else validate_sorted_unique_and_hash fingerprint s)"

definition us_sector_membership :: "universe_snapshot \<Rightarrow> string \<Rightarrow> string option option" where
  "us_sector_membership s = map_of (rev (map (\<lambda>u. (ui_identity u, ui_sector u)) (us_instruments s)))"

definition us_identities :: "universe_snapshot \<Rightarrow> string list" where
  "us_identities s = map ui_identity (us_instruments s)"

definition promoted_as :: "universe_snapshot \<Rightarrow> int \<Rightarrow> instant \<Rightarrow> universe_snapshot" where
  "promoted_as s version effective_at = s\<lparr>us_universe_version := version, us_state := PROMOTED, us_effective_at := effective_at\<rparr>"

definition build_snapshot ::
  "(canonical_content \<Rightarrow> string) \<Rightarrow> int \<Rightarrow> date \<Rightarrow> instant \<Rightarrow> snapshot_state \<Rightarrow> universe_instrument list \<Rightarrow> source_provenance \<Rightarrow> universe_snapshot res" where
  "build_snapshot fingerprint version d effective_at state is p =
     (let ordered = sort_key ui_identity is
      in mk_universe_snapshot fingerprint
           \<lparr>us_schema_version = SCHEMA_VERSION, us_universe_version = version, us_trading_date = d, us_effective_at = effective_at,
            us_state = state, us_instruments = ordered, us_source_provenance = p,
            us_content_sha256 = content_sha256 fingerprint d ordered p\<rparr>)"

section \<open>Differences\<close>

record universe_diff =
  df_from_version :: int
  df_to_version :: int
  df_added :: "string list"
  df_removed :: "string list"
  df_unchanged :: "string list"
  df_mapping_changed :: "string list"
  df_sector_changed :: "string list"

definition by_identity :: "universe_snapshot \<Rightarrow> string \<Rightarrow> universe_instrument option" where
  "by_identity s = map_of (rev (map (\<lambda>u. (ui_identity u, u)) (us_instruments s)))"

definition mapping_differs :: "universe_instrument \<Rightarrow> universe_instrument \<Rightarrow> bool" where
  "mapping_differs a b \<longleftrightarrow> (ui_provider_security_id a, ui_exchange_segment a) \<noteq> (ui_provider_security_id b, ui_exchange_segment b)"

definition sector_differs :: "universe_instrument \<Rightarrow> universe_instrument \<Rightarrow> bool" where
  "sector_differs a b \<longleftrightarrow> ui_sector a \<noteq> ui_sector b"

definition diff_snapshots :: "universe_snapshot \<Rightarrow> universe_snapshot \<Rightarrow> universe_diff" where
  "diff_snapshots old new =
     (let old_ids = set (us_identities old); new_ids = set (us_identities new);
          common = sorted_list_of_set (new_ids \<inter> old_ids);
          before = (\<lambda>i. the (by_identity old i)); after = (\<lambda>i. the (by_identity new i))
      in \<lparr>df_from_version = us_universe_version old, df_to_version = us_universe_version new,
          df_added = sorted_list_of_set (new_ids - old_ids), df_removed = sorted_list_of_set (old_ids - new_ids),
          df_unchanged = filter (\<lambda>i. \<not> mapping_differs (before i) (after i) \<and> \<not> sector_differs (before i) (after i)) common,
          df_mapping_changed = filter (\<lambda>i. mapping_differs (before i) (after i)) common,
          df_sector_changed = filter (\<lambda>i. sector_differs (before i) (after i)) common\<rparr>)"

section \<open>The resolver\<close>

datatype unresolved_reason = MISSING_PROVIDER_MAPPING | CONFLICTING_PROVIDER_MAPPING

record provider_mapping =
  pm_provider_security_id :: string
  pm_exchange_segment :: string

definition mk_provider_mapping :: "(string \<Rightarrow> string) \<Rightarrow> provider_mapping \<Rightarrow> provider_mapping res" where
  "mk_provider_mapping strip m =
     res_bind (snapshot_text strip 64 (pm_provider_security_id m)) (\<lambda>a.
     res_bind (snapshot_text strip 32 (pm_exchange_segment m)) (\<lambda>b. Inr \<lparr>pm_provider_security_id = a, pm_exchange_segment = b\<rparr>))"

record unresolved_instrument =
  un_identity :: string
  un_reason :: unresolved_reason

record resolution_result =
  rr_candidate :: universe_snapshot
  rr_unresolved :: "unresolved_instrument list"
  rr_unclassified_sector :: "string list"

definition is_promotable :: "resolution_result \<Rightarrow> bool" where
  "is_promotable r \<longleftrightarrow> rr_unresolved r = [] \<and> us_instruments (rr_candidate r) \<noteq> []"

type_synonym mapped = "(string \<times> instrument \<times> provider_mapping) list"

definition security_id_conflicts :: "mapped \<Rightarrow> string set" where
  "security_id_conflicts mapped =
     (let by_id = foldl (\<lambda>g (i, _, m). AList.update (pm_provider_security_id m)
             ((case map_of g (pm_provider_security_id m) of None \<Rightarrow> [] | Some xs \<Rightarrow> xs) @ [i]) g) [] mapped
      in foldl (\<lambda>acc (_, ids). if length ids > 1 then acc \<union> set ids else acc) {} by_id)"

fun map_membership :: "(instrument \<Rightarrow> provider_mapping option) \<Rightarrow> mapped \<times> unresolved_instrument list \<Rightarrow> instrument list \<Rightarrow>
    mapped \<times> unresolved_instrument list" where
  "map_membership mapping_for acc [] = acc"
| "map_membership mapping_for (mapped, unresolved) (i # is) =
     map_membership mapping_for
       (case mapping_for i of
          None \<Rightarrow> (mapped, unresolved @ [\<lparr>un_identity = instrument_identity i, un_reason = MISSING_PROVIDER_MAPPING\<rparr>])
        | Some m \<Rightarrow> (AList.update (instrument_identity i) (i, m) mapped, unresolved)) is"

fun resolve_mapped ::
  "(string \<Rightarrow> string) \<Rightarrow> (string \<Rightarrow> string option) \<Rightarrow> string set \<Rightarrow>
   universe_instrument list \<times> unresolved_instrument list \<times> string list \<Rightarrow> mapped \<Rightarrow>
   (universe_instrument list \<times> unresolved_instrument list \<times> string list) res" where
  "resolve_mapped strip sector_of conflicts acc [] = Inr acc"
| "resolve_mapped strip sector_of conflicts (resolved, unresolved, unclassified) ((ident, i, m) # rest) =
     (if ident \<in> conflicts
      then resolve_mapped strip sector_of conflicts
             (resolved, unresolved @ [\<lparr>un_identity = ident, un_reason = CONFLICTING_PROVIDER_MAPPING\<rparr>], unclassified) rest
      else res_bind (mk_universe_instrument strip
             \<lparr>ui_instrument = i, ui_provider_security_id = pm_provider_security_id m, ui_exchange_segment = pm_exchange_segment m,
              ui_sector = sector_of ident\<rparr>) (\<lambda>u.
             resolve_mapped strip sector_of conflicts
               (resolved @ [u], unresolved, if sector_of ident = None then unclassified @ [ident] else unclassified) rest))"

definition resolve_instruments ::
  "(string \<Rightarrow> string) \<Rightarrow> (instrument \<Rightarrow> provider_mapping option) \<Rightarrow> (string \<Rightarrow> date option \<Rightarrow> string option) \<Rightarrow> instrument list \<Rightarrow> date \<Rightarrow>
   (universe_instrument list \<times> unresolved_instrument list \<times> string list) res" where
  "resolve_instruments strip mapping_for sector_authority membership d =
     (case map_membership mapping_for ([], []) membership of
        (mapped, unresolved) \<Rightarrow>
          resolve_mapped strip (\<lambda>i. sector_authority i (Some d)) (security_id_conflicts mapped) ([], unresolved, []) mapped)"

definition resolve ::
  "(canonical_content \<Rightarrow> string) \<Rightarrow> (string \<Rightarrow> string) \<Rightarrow> (instrument \<Rightarrow> provider_mapping option) \<Rightarrow> (string \<Rightarrow> date option \<Rightarrow> string option) \<Rightarrow>
   instrument list \<Rightarrow> date \<Rightarrow> instant \<Rightarrow> source_provenance \<Rightarrow> resolution_result res" where
  "resolve fingerprint strip mapping_for sector_authority membership d effective_at p =
     res_bind (resolve_instruments strip mapping_for sector_authority membership d) (\<lambda>(resolved, unresolved, unclassified).
     res_bind (build_snapshot fingerprint CANDIDATE_VERSION d effective_at CANDIDATE resolved p) (\<lambda>candidate.
       Inr \<lparr>rr_candidate = candidate, rr_unresolved = sort_key un_identity unresolved, rr_unclassified_sector = sort unclassified\<rparr>))"

definition validate_promotable :: "resolution_result \<Rightarrow> unit res" where
  "validate_promotable r =
     (if rr_unresolved r \<noteq> [] then Inl (ValueError ''PromotionValidationError'')
      else if us_instruments (rr_candidate r) = [] then Inl (ValueError ''EmptyUniverseError'')
      else Inr ())"

text \<open>\<^verbatim>\<open>InMemoryProviderMappingSource.mapping_for\<close>\<close>

definition in_memory_mapping_for :: "(instrument \<times> provider_mapping) list \<Rightarrow> instrument \<Rightarrow> provider_mapping option" where
  "in_memory_mapping_for mappings i = map_of mappings i"

section \<open>Projections\<close>

record subscription_entry =
  se_identity :: string
  se_provider_security_id :: string
  se_exchange_segment :: string

record subscription_universe =
  su_universe_version :: int
  su_trading_date :: date
  su_entries :: "subscription_entry list"

record backend_expected_universe =
  be_universe_version :: int
  be_trading_date :: date
  be_identities :: "string list"
  be_sector_membership :: "string \<Rightarrow> string option option"

definition to_subscription_universe :: "universe_snapshot \<Rightarrow> subscription_universe" where
  "to_subscription_universe s =
     \<lparr>su_universe_version = us_universe_version s, su_trading_date = us_trading_date s,
      su_entries = map (\<lambda>u. \<lparr>se_identity = ui_identity u, se_provider_security_id = ui_provider_security_id u,
                             se_exchange_segment = ui_exchange_segment u\<rparr>) (us_instruments s)\<rparr>"

definition to_backend_universe :: "universe_snapshot \<Rightarrow> backend_expected_universe" where
  "to_backend_universe s =
     \<lparr>be_universe_version = us_universe_version s, be_trading_date = us_trading_date s, be_identities = us_identities s,
      be_sector_membership = us_sector_membership s\<rparr>"

fun next_day_loop :: "trading_calendar \<Rightarrow> nat \<Rightarrow> date \<Rightarrow> date res" where
  "next_day_loop cal 0 d = Inl (ValueError ''no trading day within the lookahead'')"
| "next_day_loop cal (Suc n) d = (if is_trading_day cal (d + 1) then Inr (d + 1) else next_day_loop cal n (d + 1))"

definition next_trading_date :: "trading_calendar \<Rightarrow> date \<Rightarrow> date res" where
  "next_trading_date cal after = next_day_loop cal 14 after"

section \<open>Diagnostics\<close>

record universe_metrics =
  um_attempts :: int
  um_successes :: int
  um_failures :: int
  um_last_resolution_at :: "instant option"
  um_last_success_at :: "instant option"
  um_last_failure_at :: "instant option"

definition new_metrics :: universe_metrics where
  "new_metrics = \<lparr>um_attempts = 0, um_successes = 0, um_failures = 0, um_last_resolution_at = None, um_last_success_at = None, um_last_failure_at = None\<rparr>"

definition record_attempt :: "universe_metrics \<Rightarrow> instant \<Rightarrow> universe_metrics" where
  "record_attempt m now = m\<lparr>um_attempts := um_attempts m + 1, um_last_resolution_at := Some now\<rparr>"

definition record_success :: "universe_metrics \<Rightarrow> instant \<Rightarrow> universe_metrics" where
  "record_success m now = m\<lparr>um_successes := um_successes m + 1, um_last_success_at := Some now\<rparr>"

definition record_failure :: "universe_metrics \<Rightarrow> instant \<Rightarrow> universe_metrics" where
  "record_failure m now = m\<lparr>um_failures := um_failures m + 1, um_last_failure_at := Some now\<rparr>"

record universe_diagnostics =
  ud_resolution_attempts :: int
  ud_resolution_successes :: int
  ud_resolution_failures :: int
  ud_current_active_version :: "int option"
  ud_candidate_version :: int
  ud_instrument_count :: nat
  ud_added_count :: nat
  ud_removed_count :: nat
  ud_mapping_changed_count :: nat
  ud_sector_changed_count :: nat
  ud_unresolved_mapping_count :: nat
  ud_unclassified_sector_count :: nat
  ud_last_resolution_at :: "instant option"
  ud_last_success_at :: "instant option"
  ud_last_failure_at :: "instant option"

definition build_universe_diagnostics :: "universe_metrics \<Rightarrow> resolution_result \<Rightarrow> universe_snapshot option \<Rightarrow> universe_diagnostics" where
  "build_universe_diagnostics m r active =
     (let candidate = rr_candidate r; diff = map_option (\<lambda>a. diff_snapshots a candidate) active
      in \<lparr>ud_resolution_attempts = um_attempts m, ud_resolution_successes = um_successes m, ud_resolution_failures = um_failures m,
          ud_current_active_version = map_option us_universe_version active, ud_candidate_version = us_universe_version candidate,
          ud_instrument_count = length (us_instruments candidate),
          ud_added_count = (case diff of Some d \<Rightarrow> length (df_added d) | None \<Rightarrow> length (us_instruments candidate)),
          ud_removed_count = (case diff of Some d \<Rightarrow> length (df_removed d) | None \<Rightarrow> 0),
          ud_mapping_changed_count = (case diff of Some d \<Rightarrow> length (df_mapping_changed d) | None \<Rightarrow> 0),
          ud_sector_changed_count = (case diff of Some d \<Rightarrow> length (df_sector_changed d) | None \<Rightarrow> 0),
          ud_unresolved_mapping_count = length (rr_unresolved r), ud_unclassified_sector_count = length (rr_unclassified_sector r),
          ud_last_resolution_at = um_last_resolution_at m, ud_last_success_at = um_last_success_at m,
          ud_last_failure_at = um_last_failure_at m\<rparr>)"

section \<open>Resolution\<close>

definition shares_security_id :: "(instrument \<Rightarrow> provider_mapping option) \<Rightarrow> instrument list \<Rightarrow> instrument \<Rightarrow> bool" where
  "shares_security_id mapping_for ms i \<longleftrightarrow>
     (\<exists>j \<in> set ms. \<exists>m m'. instrument_identity j \<noteq> instrument_identity i \<and> mapping_for i = Some m \<and> mapping_for j = Some m'
        \<and> pm_provider_security_id m = pm_provider_security_id m')"

lemma update_fresh: "k \<notin> fst ` set al \<Longrightarrow> AList.update k v al = al @ [(k, v)]"
  by (induction al) auto

definition mapped_entries :: "(instrument \<Rightarrow> provider_mapping option) \<Rightarrow> instrument list \<Rightarrow> mapped" where
  "mapped_entries mapping_for ms =
     map (\<lambda>i. (instrument_identity i, i, the (mapping_for i))) (filter (\<lambda>i. mapping_for i \<noteq> None) ms)"

lemma map_membership_distinct:
  assumes "distinct (map instrument_identity ms)" "fst ` set mapped \<inter> instrument_identity ` set ms = {}"
  shows "map_membership mapping_for (mapped, un) ms =
    (mapped @ mapped_entries mapping_for ms,
     un @ map (\<lambda>i. \<lparr>un_identity = instrument_identity i, un_reason = MISSING_PROVIDER_MAPPING\<rparr>) (filter (\<lambda>i. mapping_for i = None) ms))"
  using assms
proof (induction ms arbitrary: mapped un)
  case (Cons i ms)
  show ?case
  proof (cases "mapping_for i")
    case None
    then show ?thesis using Cons by (simp add: mapped_entries_def)
  next
    case (Some m)
    have fresh: "instrument_identity i \<notin> fst ` set mapped" using Cons.prems(2) by auto
    have "fst ` set (mapped @ [(instrument_identity i, i, m)]) \<inter> instrument_identity ` set ms = {}" using Cons.prems by auto
    then show ?thesis
      using Cons.IH [of "mapped @ [(instrument_identity i, i, m)]"] Cons.prems(1) Some update_fresh [OF fresh]
      by (simp add: mapped_entries_def)
  qed
qed (simp add: mapped_entries_def)

lemma conflicts_group:
  "security_id_conflicts mapped =
     {i. \<exists>k. i \<in> set (map fst (filter (\<lambda>x. pm_provider_security_id (snd (snd x)) = k) mapped))
          \<and> length (map fst (filter (\<lambda>x. pm_provider_security_id (snd (snd x)) = k) mapped)) > 1}"
proof -
  let ?key = "\<lambda>x::string \<times> instrument \<times> provider_mapping. pm_provider_security_id (snd (snd x))"
  let ?by = "foldl (group_step ?key fst) [] mapped"
  have step: "(\<lambda>g (i, _, m). AList.update (pm_provider_security_id m)
             ((case map_of g (pm_provider_security_id m) of None \<Rightarrow> [] | Some xs \<Rightarrow> xs) @ [i]) g) = group_step ?key fst"
    by (simp add: fun_eq_iff group_step_def)
  have union: "foldl (\<lambda>acc (_, ids). if length ids > 1 then acc \<union> set ids else acc) s g = s \<union> {i. \<exists>(k, ids) \<in> set g. length ids > 1 \<and> i \<in> set ids}"
    for s :: "string set" and g :: "(string \<times> string list) list"
    by (induction g arbitrary: s) (auto split: if_splits)
  have "(k, ids) \<in> set ?by \<longleftrightarrow> map_of ?by k = Some ids" for k ids
    by (rule map_of_eq_Some_iff [symmetric]) (rule group_keys, simp)
  then have mem: "(k, ids) \<in> set ?by \<longleftrightarrow> ids = map fst (filter (\<lambda>x. ?key x = k) mapped) \<and> ids \<noteq> []" for k ids
    using group_loop [of ?key fst "[]" mapped k] by (auto simp: Let_def split: if_splits)
  have pick: "(\<exists>k ids. (ids = f k \<and> ids \<noteq> []) \<and> length ids > 1 \<and> i \<in> set ids) \<longleftrightarrow> (\<exists>k. i \<in> set (f k) \<and> length (f k) > 1)"
    for f :: "string \<Rightarrow> string list" and i
  proof
    assume "\<exists>k. i \<in> set (f k) \<and> length (f k) > 1"
    then obtain k where "i \<in> set (f k)" "length (f k) > 1" by blast
    then show "\<exists>k ids. (ids = f k \<and> ids \<noteq> []) \<and> length ids > 1 \<and> i \<in> set ids" by (intro exI [of _ k] exI [of _ "f k"]) auto
  qed auto
  have "(\<exists>(k, ids) \<in> set ?by. length ids > 1 \<and> i \<in> set ids) \<longleftrightarrow> (\<exists>k ids. (k, ids) \<in> set ?by \<and> length ids > 1 \<and> i \<in> set ids)" for i
    by auto
  also have "(\<exists>k ids. (k, ids) \<in> set ?by \<and> length ids > 1 \<and> i \<in> set ids) \<longleftrightarrow>
      (\<exists>k. i \<in> set (map fst (filter (\<lambda>x. ?key x = k) mapped)) \<and> length (map fst (filter (\<lambda>x. ?key x = k) mapped)) > 1)" for i
    unfolding mem by (rule pick)
  finally show ?thesis
    unfolding security_id_conflicts_def Let_def step union by simp
qed

lemma two_in_distinct: "distinct xs \<Longrightarrow> x \<in> set xs \<Longrightarrow> length xs > 1 \<longleftrightarrow> (\<exists>y \<in> set xs. y \<noteq> x)"
  by (cases xs; cases "tl xs") auto

lemma conflicts_exact:
  assumes "distinct (map instrument_identity ms)" "i \<in> set ms" "mapping_for i \<noteq> None"
  shows "instrument_identity i \<in> security_id_conflicts (mapped_entries mapping_for ms) \<longleftrightarrow> shares_security_id mapping_for ms i"
proof -
  have inj: "a = b" if "a \<in> set ms" "b \<in> set ms" "instrument_identity a = instrument_identity b" for a b
    using assms(1) that by (auto simp: distinct_map inj_on_def)
  let ?same = "\<lambda>k. map fst (filter (\<lambda>x. pm_provider_security_id (snd (snd x)) = k) (mapped_entries mapping_for ms))"
  have d: "distinct (?same k)" for k
    using assms(1) by (auto simp: mapped_entries_def comp_def filter_map intro!: distinct_map_filter)
  have mem: "x \<in> set (?same k) \<longleftrightarrow> (\<exists>j \<in> set ms. \<exists>m. x = instrument_identity j \<and> mapping_for j = Some m \<and> pm_provider_security_id m = k)" for x k
    by (force simp: mapped_entries_def image_def)
  obtain m where m: "mapping_for i = Some m" using assms(3) by blast
  have own: "instrument_identity i \<in> set (?same k) \<longleftrightarrow> pm_provider_security_id m = k" for k
    unfolding mem using inj assms(2) m by fastforce
  have "instrument_identity i \<in> security_id_conflicts (mapped_entries mapping_for ms) \<longleftrightarrow>
      (\<exists>k. instrument_identity i \<in> set (?same k) \<and> (\<exists>y \<in> set (?same k). y \<noteq> instrument_identity i))"
    unfolding conflicts_group mem_Collect_eq using two_in_distinct [OF d] by blast
  also have "\<dots> \<longleftrightarrow> (\<exists>y \<in> set (?same (pm_provider_security_id m)). y \<noteq> instrument_identity i)"
    unfolding own by simp
  also have "\<dots> \<longleftrightarrow> shares_security_id mapping_for ms i"
    unfolding shares_security_id_def Bex_def mem using m by fastforce
  finally show ?thesis .
qed

lemma map_res_map: "map_res f xs = Inr ys \<longleftrightarrow> (\<forall>x \<in> set xs. is_ok (f x)) \<and> ys = map (\<lambda>x. projr (f x)) xs"
proof (induction xs arbitrary: ys)
  case (Cons x xs)
  then show ?case by (cases "f x") auto
qed auto

lemma resolve_mapped_eq:
  "resolve_mapped strip sector_of conflicts (resolved, un, uncl) entries =
     res_bind (map_res (\<lambda>(ident, i, m). mk_universe_instrument strip
         \<lparr>ui_instrument = i, ui_provider_security_id = pm_provider_security_id m, ui_exchange_segment = pm_exchange_segment m,
          ui_sector = sector_of ident\<rparr>) (filter (\<lambda>(ident, _). ident \<notin> conflicts) entries))
       (\<lambda>us. Inr (resolved @ us,
         un @ map (\<lambda>(ident, _). \<lparr>un_identity = ident, un_reason = CONFLICTING_PROVIDER_MAPPING\<rparr>) (filter (\<lambda>(ident, _). ident \<in> conflicts) entries),
         uncl @ map fst (filter (\<lambda>(ident, _). ident \<notin> conflicts \<and> sector_of ident = None) entries)))"
proof (induction entries arbitrary: resolved un uncl)
  case (Cons e entries)
  obtain ident i m where e: "e = (ident, i, m)" by (cases e)
  let ?u = "mk_universe_instrument strip \<lparr>ui_instrument = i, ui_provider_security_id = pm_provider_security_id m,
      ui_exchange_segment = pm_exchange_segment m, ui_sector = sector_of ident\<rparr>"
  show ?case
    by (cases ?u) (auto simp: e Cons.IH res_bind_def split: sum.splits)
qed simp

text \<open>The parts of a resolution, as functions of the membership.\<close>

definition joined :: "(string \<Rightarrow> string) \<Rightarrow> (instrument \<Rightarrow> provider_mapping option) \<Rightarrow> (string \<Rightarrow> date option \<Rightarrow> string option) \<Rightarrow> date \<Rightarrow>
    instrument \<Rightarrow> universe_instrument res" where
  "joined strip mapping_for sector_authority d i =
     mk_universe_instrument strip
       \<lparr>ui_instrument = i, ui_provider_security_id = pm_provider_security_id (the (mapping_for i)),
        ui_exchange_segment = pm_exchange_segment (the (mapping_for i)), ui_sector = sector_authority (instrument_identity i) (Some d)\<rparr>"

definition usable :: "(instrument \<Rightarrow> provider_mapping option) \<Rightarrow> instrument list \<Rightarrow> instrument \<Rightarrow> bool" where
  "usable mapping_for ms i \<longleftrightarrow> mapping_for i \<noteq> None \<and> \<not> shares_security_id mapping_for ms i"

lemma filter_mapped_entries:
  "filter (\<lambda>(ident, _). P ident) (mapped_entries mapping_for ms) =
     map (\<lambda>i. (instrument_identity i, i, the (mapping_for i))) (filter (\<lambda>i. mapping_for i \<noteq> None \<and> P (instrument_identity i)) ms)"
  by (induction ms) (simp_all add: mapped_entries_def)

lemma map_res_map_arg: "map_res f (map g xs) = map_res (\<lambda>x. f (g x)) xs"
  by (induction xs) simp_all

lemma resolve_instruments_distinct:
  assumes "distinct (map instrument_identity ms)"
  shows "resolve_instruments strip mapping_for sector_authority ms d =
    res_bind (map_res (joined strip mapping_for sector_authority d) (filter (usable mapping_for ms) ms))
      (\<lambda>us. Inr (us,
        map (\<lambda>i. \<lparr>un_identity = instrument_identity i, un_reason = MISSING_PROVIDER_MAPPING\<rparr>) (filter (\<lambda>i. mapping_for i = None) ms)
        @ map (\<lambda>i. \<lparr>un_identity = instrument_identity i, un_reason = CONFLICTING_PROVIDER_MAPPING\<rparr>) (filter (shares_security_id mapping_for ms) ms),
        map instrument_identity (filter (\<lambda>i. usable mapping_for ms i \<and> sector_authority (instrument_identity i) (Some d) = None) ms)))"
proof -
  let ?c = "security_id_conflicts (mapped_entries mapping_for ms)"
  have conflict: "instrument_identity i \<in> ?c \<longleftrightarrow> shares_security_id mapping_for ms i" if "i \<in> set ms" "mapping_for i \<noteq> None" for i
    using conflicts_exact [where mapping_for = mapping_for] assms that by blast
  have shares: "mapping_for i \<noteq> None" if "shares_security_id mapping_for ms i" for i
    using that by (auto simp: shares_security_id_def)
  have split: "filter (\<lambda>i. mapping_for i \<noteq> None \<and> instrument_identity i \<notin> ?c) ms = filter (usable mapping_for ms) ms"
    "filter (\<lambda>i. mapping_for i \<noteq> None \<and> instrument_identity i \<in> ?c) ms = filter (shares_security_id mapping_for ms) ms"
    "filter (\<lambda>i. mapping_for i \<noteq> None \<and> instrument_identity i \<notin> ?c \<and> sector_authority (instrument_identity i) (Some d) = None) ms =
       filter (\<lambda>i. usable mapping_for ms i \<and> sector_authority (instrument_identity i) (Some d) = None) ms"
    using conflict shares by (auto simp: usable_def intro!: filter_cong)
  have join: "(\<lambda>i. mk_universe_instrument strip \<lparr>ui_instrument = i, ui_provider_security_id = pm_provider_security_id (the (mapping_for i)),
        ui_exchange_segment = pm_exchange_segment (the (mapping_for i)), ui_sector = sector_authority (instrument_identity i) (Some d)\<rparr>)
      = joined strip mapping_for sector_authority d"
    by (simp add: fun_eq_iff joined_def)
  show ?thesis
    unfolding resolve_instruments_def map_membership_distinct [OF assms, of "[]", simplified] prod.case append_Nil resolve_mapped_eq filter_mapped_entries split map_res_map_arg join
    by (simp add: comp_def)
qed

lemma distinct_map_sort: "distinct (map f (sort_key g xs)) \<longleftrightarrow> distinct (map f xs)"
  by (simp add: distinct_map)

lemma joined_instrument: "joined strip mapping_for sa d i = Inr u \<Longrightarrow> ui_instrument u = i"
  by (auto simp: joined_def mk_universe_instrument_def)

definition resolution_of ::
  "(canonical_content \<Rightarrow> string) \<Rightarrow> (string \<Rightarrow> string) \<Rightarrow> (instrument \<Rightarrow> provider_mapping option) \<Rightarrow> (string \<Rightarrow> date option \<Rightarrow> string option) \<Rightarrow>
   instrument list \<Rightarrow> date \<Rightarrow> instant \<Rightarrow> source_provenance \<Rightarrow> resolution_result" where
  "resolution_of fingerprint strip mapping_for sa ms d at0 p =
     (let members = sort_key ui_identity (map (\<lambda>i. projr (joined strip mapping_for sa d i)) (filter (usable mapping_for ms) ms))
      in \<lparr>rr_candidate = \<lparr>us_schema_version = SCHEMA_VERSION, us_universe_version = CANDIDATE_VERSION, us_trading_date = d, us_effective_at = at0,
              us_state = CANDIDATE, us_instruments = members, us_source_provenance = p, us_content_sha256 = content_sha256 fingerprint d members p\<rparr>,
          rr_unresolved = sort_key un_identity
            (map (\<lambda>i. \<lparr>un_identity = instrument_identity i, un_reason = MISSING_PROVIDER_MAPPING\<rparr>) (filter (\<lambda>i. mapping_for i = None) ms)
             @ map (\<lambda>i. \<lparr>un_identity = instrument_identity i, un_reason = CONFLICTING_PROVIDER_MAPPING\<rparr>) (filter (shares_security_id mapping_for ms) ms)),
          rr_unclassified_sector = sort (map instrument_identity
            (filter (\<lambda>i. usable mapping_for ms i \<and> sa (instrument_identity i) (Some d) = None) ms))\<rparr>)"

lemma resolve_distinct:
  assumes "distinct (map instrument_identity ms)" "\<And>content. length (fingerprint content) = 64"
  shows "resolve fingerprint strip mapping_for sa ms d at0 p = Inr r \<longleftrightarrow>
    (\<forall>i \<in> set ms. usable mapping_for ms i \<longrightarrow> is_ok (joined strip mapping_for sa d i)) \<and> r = resolution_of fingerprint strip mapping_for sa ms d at0 p"
proof -
  let ?members = "map (\<lambda>i. projr (joined strip mapping_for sa d i)) (filter (usable mapping_for ms) ms)"
  have built: "is_ok (build_snapshot fingerprint CANDIDATE_VERSION d at0 CANDIDATE ?members p)
      \<and> build_snapshot fingerprint CANDIDATE_VERSION d at0 CANDIDATE ?members p = Inr (rr_candidate (resolution_of fingerprint strip mapping_for sa ms d at0 p))"
    if "\<forall>i \<in> set ms. usable mapping_for ms i \<longrightarrow> is_ok (joined strip mapping_for sa d i)"
  proof -
    have "map ui_identity ?members = map instrument_identity (filter (usable mapping_for ms) ms)"
      using that joined_instrument by (fastforce simp: ui_identity_def is_ok_iff)
    then have "distinct (map ui_identity ?members)" using distinct_map_filter [OF assms(1)] by (simp only:)
    then have dist: "distinct (map ui_identity (sort_key ui_identity ?members))" by (simp only: distinct_map_sort)
    moreover have "sort (map ui_identity (sort_key ui_identity ?members)) = map ui_identity (sort_key ui_identity ?members)"
      by (intro sorted_sort_id) simp
    ultimately show ?thesis
      using assms(2) distinct_card [OF dist]
      by (simp add: build_snapshot_def mk_universe_snapshot_def validate_sorted_unique_and_hash_def resolution_of_def CANDIDATE_VERSION_def
          content_sha256_def Let_def)
  qed
  show ?thesis
    unfolding resolve_def resolve_instruments_distinct [OF assms(1)]
    using built by (auto simp: map_res_map resolution_of_def Let_def)
qed

lemma shares_perm: "set ms' = set ms \<Longrightarrow> shares_security_id mapping_for ms' = shares_security_id mapping_for ms"
  by (simp add: fun_eq_iff shares_security_id_def)

lemma usable_perm: "set ms' = set ms \<Longrightarrow> usable mapping_for ms' = usable mapping_for ms"
proof -
  assume "set ms' = set ms"
  from shares_perm [OF this] show ?thesis by (intro ext) (simp only: usable_def)
qed

lemma sort_key_perm:
  assumes "mset xs = mset ys" "distinct (map f xs)"
  shows "sort_key f xs = sort_key f ys"
proof (rule sort_key_inj_key_eq)
  show "mset xs = mset (sort_key f ys)" using assms(1) by simp
  show "inj_on f (set xs)" using assms(2) by (simp add: distinct_map)
qed simp

lemma resolution_of_perm:
  assumes "distinct (map instrument_identity ms)" "mset ms' = mset ms"
    and ok: "\<forall>i \<in> set ms. usable mapping_for ms i \<longrightarrow> is_ok (joined strip mapping_for sa d i)"
  shows "resolution_of fingerprint strip mapping_for sa ms' d at0 p = resolution_of fingerprint strip mapping_for sa ms d at0 p"
proof -
  have sets: "set ms' = set ms" using assms(2) mset_eq_setD by blast
  note same = shares_perm [OF sets] usable_perm [OF sets]
  let ?g = "\<lambda>i. projr (joined strip mapping_for sa d i)"
  let ?un = "\<lambda>ms'. map (\<lambda>i. \<lparr>un_identity = instrument_identity i, un_reason = MISSING_PROVIDER_MAPPING\<rparr>) (filter (\<lambda>i. mapping_for i = None) ms')
             @ map (\<lambda>i. \<lparr>un_identity = instrument_identity i, un_reason = CONFLICTING_PROVIDER_MAPPING\<rparr>) (filter (shares_security_id mapping_for ms) ms')"
  have "map ui_identity (map ?g (filter (usable mapping_for ms) ms)) = map instrument_identity (filter (usable mapping_for ms) ms)"
    using ok joined_instrument by (fastforce simp: ui_identity_def is_ok_iff)
  then have d1: "distinct (map ui_identity (map ?g (filter (usable mapping_for ms) ms)))" using distinct_map_filter [OF assms(1)] by (simp only:)
  have d2: "distinct (map un_identity (?un ms))"
  proof -
    have "a = b" if "a \<in> set ms" "b \<in> set ms" "instrument_identity a = instrument_identity b" for a b
      using assms(1) that by (auto simp: distinct_map inj_on_def)
    then have "instrument_identity ` set (filter (\<lambda>i. mapping_for i = None) ms) \<inter> instrument_identity ` set (filter (shares_security_id mapping_for ms) ms) = {}"
      by (simp add: disjoint_iff image_iff) (metis option.distinct(1) shares_security_id_def)
    then have "distinct (map instrument_identity (filter (\<lambda>i. mapping_for i = None) ms) @ map instrument_identity (filter (shares_security_id mapping_for ms) ms))"
      using distinct_map_filter [OF assms(1)] by (simp only: distinct_append set_map simp_thms)
    then show ?thesis by (simp add: comp_def)
  qed
  have "sort_key ui_identity (map ?g (filter (usable mapping_for ms) ms)) = sort_key ui_identity (map ?g (filter (usable mapping_for ms) ms'))"
    using assms(2) by (intro sort_key_perm d1) simp
  moreover have "sort_key un_identity (?un ms) = sort_key un_identity (?un ms')"
    using assms(2) by (intro sort_key_perm d2) simp
  moreover have "sort (map instrument_identity (filter (\<lambda>i. usable mapping_for ms i \<and> sa (instrument_identity i) (Some d) = None) ms')) =
      sort (map instrument_identity (filter (\<lambda>i. usable mapping_for ms i \<and> sa (instrument_identity i) (Some d) = None) ms))"
    using assms(2) by (intro properties_for_sort) simp_all
  ultimately show ?thesis unfolding resolution_of_def same by simp
qed


definition demo_mapping :: "instrument \<Rightarrow> provider_mapping option" where
  "demo_mapping i = (if symbol i = ''XYZ'' then None else Some \<lparr>pm_provider_security_id = symbol i, pm_exchange_segment = ''NSE_EQ''\<rparr>)"

definition demo_provenance :: source_provenance where
  "demo_provenance = \<lparr>sp_fno_source = ''nse'', sp_fno_version = ''1'', sp_fno_effective_date = 20000, sp_instrument_master_source = ''m'',
     sp_instrument_master_version = ''1'', sp_sector_dataset_id = ''s'', sp_sector_version = ''1''\<rparr>"

definition demo_fingerprint :: "canonical_content \<Rightarrow> string" where
  "demo_fingerprint content = replicate 64 CHR ''0''"


section \<open>Differences are exact\<close>

lemma valid_snapshot_ids:
  assumes "mk_universe_snapshot fingerprint s = Inr t"
  shows "sorted (us_identities s) \<and> distinct (us_identities s)"
proof -
  have "us_identities s = sort (us_identities s)" "length (us_identities s) = card (set (us_identities s))"
    using assms by (auto simp: mk_universe_snapshot_def validate_sorted_unique_and_hash_def us_identities_def Let_def split: if_splits)
  then show ?thesis by (metis card_distinct sorted_sort)
qed

lemma by_identity_iff: "distinct (us_identities s) \<Longrightarrow> by_identity s i = Some u \<longleftrightarrow> u \<in> set (us_instruments s) \<and> ui_identity u = i"
proof -
  assume "distinct (us_identities s)"
  then have "distinct (map fst (rev (map (\<lambda>u. (ui_identity u, u)) (us_instruments s))))"
    by (simp add: us_identities_def rev_map [symmetric] comp_def)
  then show ?thesis by (auto simp: by_identity_def)
qed

definition reference_data :: "universe_instrument \<Rightarrow> string \<times> string \<times> string \<times> string option" where
  "reference_data u = (ui_identity u, ui_provider_security_id u, ui_exchange_segment u, ui_sector u)"

text \<open>
  The difference of two valid snapshots is empty exactly when they have the same canonical content: the same identities with the same provider mapping
  and the same sector. In general an identity is reported as added or removed exactly when only one of the two has it, and every
  common one as changed in mapping, changed in sector, or unchanged.
\<close>

lemma diff_exact:
  assumes "mk_universe_snapshot fingerprint old = Inr old" "mk_universe_snapshot fingerprint new = Inr new"
    and "df = diff_snapshots old new"
  shows "(df_added df = [] \<and> df_removed df = [] \<and> df_mapping_changed df = [] \<and> df_sector_changed df = []
      \<longleftrightarrow> map reference_data (us_instruments old) = map reference_data (us_instruments new))
    \<and> set (df_added df) = set (us_identities new) - set (us_identities old)
    \<and> set (df_removed df) = set (us_identities old) - set (us_identities new)
    \<and> set (df_unchanged df) \<union> set (df_mapping_changed df) \<union> set (df_sector_changed df) = set (us_identities old) \<inter> set (us_identities new)
    \<and> set (df_unchanged df) \<inter> (set (df_mapping_changed df) \<union> set (df_sector_changed df)) = {}"
proof -
  have old: "sorted (us_identities old)" "distinct (us_identities old)" using valid_snapshot_ids [OF assms(1)] by auto
  have new: "sorted (us_identities new)" "distinct (us_identities new)" using valid_snapshot_ids [OF assms(2)] by auto
  let ?same = "map reference_data (us_instruments old) = map reference_data (us_instruments new)"
  have ids_eq: "us_identities old = us_identities new" if ?same
    using that by (metis (no_types, lifting) ext fst_conv list.map_comp comp_apply reference_data_def us_identities_def)
  have look: "by_identity t (us_identities t ! k) = Some (us_instruments t ! k)" if "distinct (us_identities t)" "k < length (us_instruments t)" for t k
    using by_identity_iff [OF that(1)] that(2) by (simp add: us_identities_def)
  have same_iff: "?same \<longleftrightarrow> us_identities old = us_identities new \<and>
      (\<forall>i \<in> set (us_identities old). \<not> mapping_differs (the (by_identity old i)) (the (by_identity new i))
         \<and> \<not> sector_differs (the (by_identity old i)) (the (by_identity new i)))" (is "_ \<longleftrightarrow> _ \<and> ?pointwise")
  proof (cases "us_identities old = us_identities new")
    case True
    then have len: "length (us_instruments old) = length (us_instruments new)" unfolding us_identities_def by (metis length_map)
    have "?same \<longleftrightarrow> (\<forall>k < length (us_instruments old). reference_data (us_instruments old ! k) = reference_data (us_instruments new ! k))"
      using len by (auto simp: list_eq_iff_nth_eq)
    also have "\<dots> \<longleftrightarrow> (\<forall>k < length (us_instruments old). \<not> mapping_differs (us_instruments old ! k) (us_instruments new ! k)
        \<and> \<not> sector_differs (us_instruments old ! k) (us_instruments new ! k))"
      using True len by (auto simp: reference_data_def mapping_differs_def sector_differs_def us_identities_def list_eq_iff_nth_eq)
    also have "\<dots> \<longleftrightarrow> ?pointwise"
    proof -
      have "length (us_identities old) = length (us_instruments old)" by (simp add: us_identities_def)
      then show ?thesis using look [OF old(2)] look [OF new(2)] True len unfolding all_set_conv_all_nth by (simp add: True)
    qed
    finally show ?thesis using True by simp
  qed (use ids_eq in auto)
  have "set (us_identities old) = set (us_identities new) \<longleftrightarrow> us_identities old = us_identities new"
    using old new by (metis sorted_distinct_set_unique)
  then have "(df_added df = [] \<and> df_removed df = [] \<and> df_mapping_changed df = [] \<and> df_sector_changed df = []) \<longleftrightarrow> ?same"
    unfolding same_iff by (auto simp: assms(3) diff_snapshots_def Let_def filter_empty_conv)
  then show ?thesis by (auto simp: assms(3) diff_snapshots_def Let_def)
qed

end
