(* ===== verification/Universe_Store.thy ===== *)
theory Universe_Store
  imports Universe_Snapshot
begin

text \<open>
  The file-backed snapshot store (\<^verbatim>\<open>market_universe/store.py\<close>) and the universe-version seam of \<^verbatim>\<open>views.py\<close>. A directory maps names to inodes and inodes to contents,
  because \<^verbatim>\<open>os.link\<close> makes two names share one; \<open>None\<close> is the empty file that opening for writing leaves. The texts
  are what \<open>dump\<close> (\<^verbatim>\<open>model_dump_json\<close>) produces and \<open>load\<close> (the JSON part of \<^verbatim>\<open>model_validate_json\<close>) reads back, two parameters.
  The operations of the store are functions; concurrent promotions are processes that take one file-system step at a time.
\<close>

datatype file_name = Json string | Temp string string

record 'txt directory =
  di_names :: "(file_name \<times> nat) list"
  di_data :: "nat \<Rightarrow> 'txt option"
  di_next :: nat

definition empty_directory :: "'txt directory" where
  "empty_directory = \<lparr>di_names = [], di_data = (\<lambda>_. None), di_next = 0\<rparr>"

text \<open>File-system calls: \<^verbatim>\<open>open(path, "w")\<close>, the write of the text, \<^verbatim>\<open>os.link\<close>, \<^verbatim>\<open>unlink(missing_ok=True)\<close> and reading.\<close>

definition fs_open :: "'txt directory \<Rightarrow> file_name \<Rightarrow> 'txt directory \<times> nat" where
  "fs_open dir name =
     (case map_of (di_names dir) name of
        Some ino \<Rightarrow> (dir\<lparr>di_data := (di_data dir)(ino := None)\<rparr>, ino)
      | None \<Rightarrow> (dir\<lparr>di_names := AList.update name (di_next dir) (di_names dir), di_data := (di_data dir)(di_next dir := None),
                     di_next := di_next dir + 1\<rparr>, di_next dir))"

definition fs_write :: "'txt directory \<Rightarrow> nat \<Rightarrow> 'txt \<Rightarrow> 'txt directory" where
  "fs_write dir ino txt = dir\<lparr>di_data := (di_data dir)(ino \<mapsto> txt)\<rparr>"

datatype link_outcome = Linked | File_exists | File_not_found

definition fs_link :: "'txt directory \<Rightarrow> file_name \<Rightarrow> file_name \<Rightarrow> link_outcome \<times> 'txt directory" where
  "fs_link dir source target =
     (case map_of (di_names dir) source of
        None \<Rightarrow> (File_not_found, dir)
      | Some ino \<Rightarrow>
          (if map_of (di_names dir) target \<noteq> None then (File_exists, dir)
           else (Linked, dir\<lparr>di_names := AList.update target ino (di_names dir)\<rparr>)))"

definition fs_unlink :: "'txt directory \<Rightarrow> file_name \<Rightarrow> 'txt directory" where
  "fs_unlink dir name = dir\<lparr>di_names := AList.delete name (di_names dir)\<rparr>"

definition fs_read :: "'txt directory \<Rightarrow> file_name \<Rightarrow> 'txt option option" where
  "fs_read dir name = map_option (di_data dir) (map_of (di_names dir) name)"

section \<open>The store\<close>

text \<open>\<^verbatim>\<open>str(int)\<close>, \<^verbatim>\<open>str.isdigit()\<close> and \<^verbatim>\<open>int(str)\<close>.\<close>

definition str_int :: "int \<Rightarrow> string" where
  "str_int v = (if v < 0 then CHR ''-'' # digits_of (nat (- v)) else digits_of (nat v))"

definition all_digits :: "string \<Rightarrow> bool" where
  "all_digits s \<longleftrightarrow> s \<noteq> [] \<and> list_all (\<lambda>c. 48 \<le> (of_char c :: nat) \<and> (of_char c :: nat) \<le> 57) s"

definition int_of_digits :: "string \<Rightarrow> int" where
  "int_of_digits s = foldl (\<lambda>n c. n * 10 + (int (of_char c) - 48)) 0 s"

definition version_file :: "int \<Rightarrow> file_name" where
  "version_file v = Json (str_int v)"

definition temp_file :: "int \<Rightarrow> string \<Rightarrow> file_name" where
  "temp_file v sha = Temp (str_int v) (take 12 sha)"

definition json_stems :: "'txt directory \<Rightarrow> string list" where
  "json_stems dir = concat (map (\<lambda>(n, _). case n of Json stem \<Rightarrow> [stem] | Temp _ _ \<Rightarrow> []) (di_names dir))"

definition existing_versions :: "'txt directory \<Rightarrow> int list" where
  "existing_versions dir = map int_of_digits (filter all_digits (json_stems dir))"

definition next_version :: "'txt directory \<Rightarrow> int" where
  "next_version dir = (case existing_versions dir of [] \<Rightarrow> 1 | v # vs \<Rightarrow> max_of v vs + 1)"

definition list_versions :: "'txt directory \<Rightarrow> int list" where
  "list_versions dir = sort (existing_versions dir)"

text \<open>\<^verbatim>\<open>UniverseSnapshot.model_validate_json(path.read_text())\<close>\<close>

definition model_validate_json ::
  "(canonical_content \<Rightarrow> string) \<Rightarrow> ('txt \<Rightarrow> universe_snapshot res) \<Rightarrow> 'txt option \<Rightarrow> universe_snapshot res" where
  "model_validate_json fingerprint load content =
     (case content of None \<Rightarrow> Inl (ValidationError ''Invalid JSON'') | Some txt \<Rightarrow> res_bind (load txt) (mk_universe_snapshot fingerprint))"

definition iter_promoted ::
  "(canonical_content \<Rightarrow> string) \<Rightarrow> ('txt \<Rightarrow> universe_snapshot res) \<Rightarrow> 'txt directory \<Rightarrow> universe_snapshot list" where
  "iter_promoted fingerprint load dir =
     concat (map (\<lambda>stem. case model_validate_json fingerprint load (Option.bind (fs_read dir (Json stem)) id) of Inl _ \<Rightarrow> [] | Inr s \<Rightarrow> [s])
       (json_stems dir))"

definition find_by_content ::
  "(canonical_content \<Rightarrow> string) \<Rightarrow> ('txt \<Rightarrow> universe_snapshot res) \<Rightarrow> 'txt directory \<Rightarrow> string \<Rightarrow> universe_snapshot option" where
  "find_by_content fingerprint load dir sha = find (\<lambda>s. us_content_sha256 s = sha) (iter_promoted fingerprint load dir)"

definition get_by_version ::
  "(canonical_content \<Rightarrow> string) \<Rightarrow> ('txt \<Rightarrow> universe_snapshot res) \<Rightarrow> 'txt directory \<Rightarrow> int \<Rightarrow> universe_snapshot res" where
  "get_by_version fingerprint load dir v =
     (case fs_read dir (version_file v) of
        None \<Rightarrow> Inl (LookupError ''SnapshotNotFoundError'')
      | Some content \<Rightarrow> model_validate_json fingerprint load content)"

definition active_step :: "date \<Rightarrow> universe_snapshot option \<Rightarrow> universe_snapshot \<Rightarrow> universe_snapshot option" where
  "active_step d best s =
     (if us_trading_date s > d then best
      else case best of
        None \<Rightarrow> Some s
      | Some b \<Rightarrow>
          (if us_trading_date s > us_trading_date b \<or> (us_trading_date s = us_trading_date b \<and> us_universe_version s > us_universe_version b)
           then Some s else best))"

definition active_for ::
  "(canonical_content \<Rightarrow> string) \<Rightarrow> ('txt \<Rightarrow> universe_snapshot res) \<Rightarrow> 'txt directory \<Rightarrow> date \<Rightarrow> universe_snapshot option" where
  "active_for fingerprint load dir d = foldl (active_step d) None (iter_promoted fingerprint load dir)"

definition current_universe_version ::
  "(canonical_content \<Rightarrow> string) \<Rightarrow> ('txt \<Rightarrow> universe_snapshot res) \<Rightarrow> 'txt directory \<Rightarrow> date \<Rightarrow> int" where
  "current_universe_version fingerprint load dir today =
     (case active_for fingerprint load dir today of Some s \<Rightarrow> us_universe_version s | None \<Rightarrow> CANDIDATE_VERSION)"

text \<open>Candidates are kept apart, one file per content hash, replaced atomically.\<close>

type_synonym 'txt candidates = "(string \<times> 'txt) list"

definition save_candidate :: "(universe_snapshot \<Rightarrow> 'txt) \<Rightarrow> 'txt candidates \<Rightarrow> universe_snapshot \<Rightarrow> 'txt candidates" where
  "save_candidate dump cs s = AList.update (us_content_sha256 s) (dump s) cs"

definition get_candidate ::
  "(canonical_content \<Rightarrow> string) \<Rightarrow> ('txt \<Rightarrow> universe_snapshot res) \<Rightarrow> 'txt candidates \<Rightarrow> string \<Rightarrow> universe_snapshot option res" where
  "get_candidate fingerprint load cs sha =
     (case map_of cs sha of
        None \<Rightarrow> Inr None
      | Some txt \<Rightarrow> res_bind (model_validate_json fingerprint load (Some txt)) (\<lambda>s. Inr (Some s)))"

section \<open>Promotion\<close>

text \<open>\<^verbatim>\<open>_link_version\<close>, run without interference; \<open>None\<close> is \<^verbatim>\<open>FileNotFoundError\<close>.\<close>

definition link_version ::
  "(universe_snapshot \<Rightarrow> 'txt) \<Rightarrow> 'txt directory \<Rightarrow> int \<Rightarrow> universe_snapshot \<Rightarrow> bool option \<times> 'txt directory" where
  "link_version dump dir v promoted =
     (let tmp = temp_file v (us_content_sha256 promoted);
          (dir1, ino) = fs_open dir tmp;
          dir2 = fs_write dir1 ino (dump promoted);
          (outcome, dir3) = fs_link dir2 tmp (version_file v)
      in (case outcome of Linked \<Rightarrow> Some True | File_exists \<Rightarrow> Some False | File_not_found \<Rightarrow> None, fs_unlink dir3 tmp))"

fun allocate_version ::
  "(universe_snapshot \<Rightarrow> 'txt) \<Rightarrow> nat \<Rightarrow> 'txt directory \<Rightarrow> universe_snapshot \<Rightarrow> instant \<Rightarrow> universe_snapshot res \<times> 'txt directory" where
  "allocate_version dump 0 dir candidate at0 = (Inl (RuntimeError ''exhausted universe-version allocation retries''), dir)"
| "allocate_version dump (Suc n) dir candidate at0 =
     (let v = next_version dir; promoted = promoted_as candidate v at0
      in case link_version dump dir v promoted of
           (None, dir1) \<Rightarrow> (Inl (OSError ''FileNotFoundError''), dir1)
         | (Some True, dir1) \<Rightarrow> (Inr promoted, dir1)
         | (Some False, dir1) \<Rightarrow> allocate_version dump n dir1 candidate at0)"

definition promote ::
  "(canonical_content \<Rightarrow> string) \<Rightarrow> (universe_snapshot \<Rightarrow> 'txt) \<Rightarrow> ('txt \<Rightarrow> universe_snapshot res) \<Rightarrow> 'txt directory \<Rightarrow> resolution_result \<Rightarrow>
   instant \<Rightarrow> universe_snapshot res \<times> 'txt directory" where
  "promote fingerprint dump load dir r at0 =
     (case validate_promotable r of
        Inl e \<Rightarrow> (Inl e, dir)
      | Inr _ \<Rightarrow>
          (case find_by_content fingerprint load dir (us_content_sha256 (rr_candidate r)) of
             Some s \<Rightarrow> (Inr s, dir)
           | None \<Rightarrow> allocate_version dump 64 dir (rr_candidate r) at0))"

section \<open>Version numbers and names\<close>

lemma int_of_digits_snoc: "int_of_digits (s @ [c]) = int_of_digits s * 10 + (int (of_char c) - 48)"
  by (simp add: int_of_digits_def)

lemma digits_of_digits: "all_digits (digits_of n) \<and> int_of_digits (digits_of n) = int n"
proof (induction n rule: digits_of.induct)
  case (1 n)
  show ?case
  proof (cases "n < 10")
    case True
    then show ?thesis by (simp add: digits_of.simps [of n] all_digits_def int_of_digits_def)
  next
    case False
    have c: "(of_char (char_of (48 + n mod 10) :: char) :: nat) = 48 + n mod 10" by simp
    have "n mod 10 \<le> 9" by linarith
    moreover have "int (n div 10) * 10 + int (n mod 10) = int n" by (simp add: zdiv_int zmod_int)
    moreover note c
    ultimately show ?thesis using 1 [OF False] False
      by (simp add: digits_of.simps [of n] int_of_digits_snoc) (simp add: all_digits_def)
  qed
qed

lemma version_file_inj: "0 \<le> v \<Longrightarrow> 0 \<le> w \<Longrightarrow> version_file v = version_file w \<longleftrightarrow> v = w"
proof -
  assume "0 \<le> v" "0 \<le> w"
  moreover have "nat v = nat w" if "digits_of (nat v) = digits_of (nat w)"
    using that digits_of_digits [of "nat v"] digits_of_digits [of "nat w"] by (metis nat_int)
  ultimately show ?thesis by (auto simp: version_file_def str_int_def)
qed

lemma json_stems_iff: "stem \<in> set (json_stems dir) \<longleftrightarrow> map_of (di_names dir) (Json stem) \<noteq> None"
proof -
  have "stem \<in> set (json_stems dir) \<longleftrightarrow> Json stem \<in> fst ` set (di_names dir)"
    by (force simp: json_stems_def image_iff split: file_name.splits)
  then show ?thesis by (simp add: map_of_eq_None_iff)
qed

lemma next_version_above: "v \<in> set (existing_versions dir) \<Longrightarrow> v < next_version dir"
proof (cases "existing_versions dir")
  case (Cons w ws)
  assume "v \<in> set (existing_versions dir)"
  then show ?thesis using max_of_ge [of v w ws] Cons by (simp add: next_version_def)
qed simp

lemma next_version_pos: "(\<And>v. v \<in> set (existing_versions dir) \<Longrightarrow> 0 \<le> v) \<Longrightarrow> 0 < next_version dir"
  using next_version_above [of "hd (existing_versions dir)" dir]
  by (cases "existing_versions dir") (force simp: next_version_def)+

lemma existing_nonneg: "v \<in> set (existing_versions dir) \<Longrightarrow> 0 \<le> v"
proof -
  have "0 \<le> int_of_digits s" if "all_digits s" for s
  proof -
    have "list_all (\<lambda>c. 48 \<le> (of_char c :: nat) \<and> (of_char c :: nat) \<le> 57) s" using that by (simp add: all_digits_def)
    then show ?thesis by (induction s rule: rev_induct) (simp_all add: int_of_digits_def)
  qed
  then show "v \<in> set (existing_versions dir) \<Longrightarrow> 0 \<le> v" by (auto simp: existing_versions_def)
qed

lemma next_version_free: "map_of (di_names dir) (version_file (next_version dir)) = None"
proof (rule ccontr)
  assume "map_of (di_names dir) (version_file (next_version dir)) \<noteq> None"
  then have "str_int (next_version dir) \<in> set (json_stems dir)" by (simp add: json_stems_iff version_file_def)
  moreover have pos: "0 < next_version dir" using next_version_pos existing_nonneg by blast
  ultimately have "next_version dir \<in> set (existing_versions dir)"
    using digits_of_digits [of "nat (next_version dir)"] by (force simp: existing_versions_def str_int_def image_iff)
  then show False using next_version_above by fastforce
qed

section \<open>Without interference the store is a growing list of snapshots\<close>

text \<open>The abstract store: the promoted snapshots, oldest first.\<close>

definition holds_history ::
  "(canonical_content \<Rightarrow> string) \<Rightarrow> (universe_snapshot \<Rightarrow> 'txt) \<Rightarrow> 'txt directory \<Rightarrow> universe_snapshot list \<Rightarrow> bool" where
  "holds_history fingerprint dump dir h \<longleftrightarrow>
     distinct (map fst (di_names dir)) \<and> distinct (map snd (di_names dir)) \<and> (\<forall>ino \<in> snd ` set (di_names dir). ino < di_next dir)
     \<and> fst ` set (di_names dir) = version_file ` {1 .. int (length h)}
     \<and> (\<forall>k < length h. fs_read dir (version_file (int k + 1)) = Some (Some (dump (h ! k))) \<and> us_universe_version (h ! k) = int k + 1
          \<and> us_state (h ! k) = PROMOTED \<and> mk_universe_snapshot fingerprint (h ! k) = Inr (h ! k))
     \<and> distinct (map us_content_sha256 h)"

lemma history_empty: "holds_history fingerprint dump empty_directory []"
  by (simp add: holds_history_def empty_directory_def)

lemma history_stems:
  assumes "holds_history fingerprint dump dir h"
  shows "set (json_stems dir) = str_int ` {1 .. int (length h)}"
proof -
  have "stem \<in> set (json_stems dir) \<longleftrightarrow> Json stem \<in> version_file ` {1 .. int (length h)}" for stem
    using assms by (simp add: json_stems_iff map_of_eq_None_iff holds_history_def)
  then show ?thesis by (auto simp: version_file_def)
qed

lemma stems_distinct:
  assumes "distinct (map fst (di_names dir))"
  shows "distinct (json_stems dir)"
proof -
  have "distinct (concat (map (\<lambda>(n, _). case n of Json stem \<Rightarrow> [stem] | Temp _ _ \<Rightarrow> []) xs))" if "distinct (map fst xs)" for xs :: "(file_name \<times> nat) list"
    using that by (induction xs) (force split: file_name.splits)+
  then show ?thesis using assms by (simp add: json_stems_def)
qed

lemma str_int_digits: "0 \<le> v \<Longrightarrow> all_digits (str_int v) \<and> int_of_digits (str_int v) = v"
  using digits_of_digits [of "nat v"] by (simp add: str_int_def)

lemma history_versions:
  assumes "holds_history fingerprint dump dir h"
  shows "set (existing_versions dir) = {1 .. int (length h)}" "distinct (existing_versions dir)"
proof -
  have stem: "all_digits s \<and> int_of_digits s \<in> {1 .. int (length h)} \<and> s = str_int (int_of_digits s)" if "s \<in> set (json_stems dir)" for s
    using that history_stems [OF assms] str_int_digits by fastforce
  then have all: "filter all_digits (json_stems dir) = json_stems dir" by (simp add: filter_id_conv)
  show "set (existing_versions dir) = {1 .. int (length h)}"
    using stem history_stems [OF assms] str_int_digits by (force simp: existing_versions_def all image_iff)
  have "inj_on int_of_digits (set (json_stems dir))" using stem by (metis inj_onI)
  then show "distinct (existing_versions dir)"
    using stems_distinct assms by (auto simp: existing_versions_def all distinct_map holds_history_def)
qed

lemma history_next: "holds_history fingerprint dump dir h \<Longrightarrow> next_version dir = int (length h) + 1"
proof -
  assume h: "holds_history fingerprint dump dir h"
  show ?thesis
  proof (cases "existing_versions dir")
    case Nil
    then show ?thesis using history_versions(1) [OF h] by (cases h) (simp_all add: next_version_def)
  next
    case (Cons v vs)
    have "max_of v vs = Max {1 .. int (length h)}" using history_versions(1) [OF h] Cons by (simp add: max_of_eq)
    moreover have "0 < length h" using history_versions(1) [OF h] Cons by auto
    then have "Max {1 .. int (length h)} = int (length h)" by (intro Max_eqI) (auto simp: Suc_le_eq)
    ultimately show ?thesis using Cons by (simp add: next_version_def)
  qed
qed

lemma interval_image: "{1 .. int n} = (\<lambda>k. int k + 1) ` {..<n}"
proof (intro equalityI subsetI)
  fix v
  assume "v \<in> {1 .. int n}"
  then have "v = int (nat (v - 1)) + 1" "nat (v - 1) < n" by auto
  then show "v \<in> (\<lambda>k. int k + 1) ` {..<n}" by blast
qed auto

lemma history_iter:
  assumes "holds_history fingerprint dump dir h" "\<And>s. load (dump s) = Inr s"
  shows "set (iter_promoted fingerprint load dir) = set h"
proof -
  have parsed: "model_validate_json fingerprint load (Option.bind (fs_read dir (Json (str_int (int k + 1)))) id) = Inr (h ! k)" if "k < length h" for k
    using assms that by (simp add: holds_history_def version_file_def model_validate_json_def)
  have "set (json_stems dir) = (\<lambda>k. str_int (int k + 1)) ` {..<length h}"
    using history_stems [OF assms(1)] by (simp add: interval_image image_image)
  then show ?thesis using parsed by (auto simp: iter_promoted_def in_set_conv_nth image_iff)
qed

lemma link_version_clean:
  assumes "map_of (di_names dir) tmp = None" "map_of (di_names dir) (version_file v) = None" "tmp = temp_file v (us_content_sha256 p)"
  shows "link_version dump dir v p =
    (Some True, \<lparr>di_names = di_names dir @ [(version_file v, di_next dir)], di_data = (di_data dir)(di_next dir \<mapsto> dump p), di_next = di_next dir + 1\<rparr>)"
proof -
  have ne: "version_file v \<noteq> tmp" by (simp add: assms(3) version_file_def temp_file_def)
  have new: "n \<notin> fst ` set (di_names dir)" if "map_of (di_names dir) n = None" for n
    using that by (simp add: map_of_eq_None_iff)
  have gone: "AList.delete tmp (di_names dir @ [(tmp, i), (version_file v, i)]) = di_names dir @ [(version_file v, i)]" for i
    using new [OF assms(1)] ne by (force simp: AList.delete_eq filter_id_conv)
  show ?thesis
    using assms(1,2) ne new [OF assms(1)] new [OF assms(2)]
    by (simp add: link_version_def fs_open_def fs_write_def fs_link_def fs_unlink_def assms(3) [symmetric] update_fresh gone map_add_def Let_def)
qed

lemma fresh_inode: "(\<forall>ino \<in> snd ` set (di_names dir). ino < di_next dir) \<Longrightarrow> map_of (di_names dir) n = Some ino \<Longrightarrow> ino < di_next dir"
  by (force dest: map_of_SomeD)

lemma history_grows:
  assumes h: "holds_history fingerprint dump dir h" and p: "us_universe_version p = int (length h) + 1" "us_state p = PROMOTED"
    "mk_universe_snapshot fingerprint p = Inr p" "us_content_sha256 p \<notin> us_content_sha256 ` set h"
    and dir': "dir' = \<lparr>di_names = di_names dir @ [(version_file (int (length h) + 1), di_next dir)],
      di_data = (di_data dir)(di_next dir \<mapsto> dump p), di_next = di_next dir + 1\<rparr>"
  shows "holds_history fingerprint dump dir' (h @ [p])"
proof -
  have names: "fst ` set (di_names dir) = version_file ` {1 .. int (length h)}" using h by (simp add: holds_history_def)
  have fresh: "version_file (int (length h) + 1) \<notin> fst ` set (di_names dir)"
    unfolding names by (auto simp: version_file_inj)
  then have none: "map_of (di_names dir) (version_file (int (length h) + 1)) = None" by (simp add: map_of_eq_None_iff)
  have below: "\<forall>ino \<in> snd ` set (di_names dir). ino < di_next dir" using h by (simp add: holds_history_def)
  have keep: "fs_read dir' n = fs_read dir n" if "n \<noteq> version_file (int (length h) + 1)" for n
    using that fresh_inode [OF below, of n] by (cases "map_of (di_names dir) n") (auto simp: fs_read_def dir' map_add_def)
  have new: "fs_read dir' (version_file (int (length h) + 1)) = Some (Some (dump p))"
    using none by (simp add: fs_read_def dir' map_add_def)
  have "fs_read dir' (version_file (int k + 1)) = Some (Some (dump ((h @ [p]) ! k))) \<and> us_universe_version ((h @ [p]) ! k) = int k + 1
      \<and> us_state ((h @ [p]) ! k) = PROMOTED \<and> mk_universe_snapshot fingerprint ((h @ [p]) ! k) = Inr ((h @ [p]) ! k)"
    if "k < length (h @ [p])" for k
  proof (cases "k < length h")
    case True
    moreover have "version_file (int k + 1) \<noteq> version_file (int (length h) + 1)" using True by (simp add: version_file_inj)
    ultimately show ?thesis using h keep by (simp add: holds_history_def nth_append)
  next
    case False
    then have "k = length h" using that by simp
    then show ?thesis using new p by (simp add: nth_append)
  qed
  moreover have "fst ` set (di_names dir') = version_file ` {1 .. int (length (h @ [p]))}"
  proof -
    have "{1 .. int (length (h @ [p]))} = insert (int (length h) + 1) {1 .. int (length h)}" by auto
    then show ?thesis using names by (simp add: dir')
  qed
  ultimately show ?thesis
    using h fresh below p(4) by (auto simp: holds_history_def dir')
qed

lemma promoted_as_valid:
  "mk_universe_snapshot fingerprint c = Inr c \<Longrightarrow> 0 \<le> v \<Longrightarrow> mk_universe_snapshot fingerprint (promoted_as c v at0) = Inr (promoted_as c v at0)"
  by (auto simp: mk_universe_snapshot_def validate_sorted_unique_and_hash_def promoted_as_def Let_def split: if_splits)

lemma promoted_as_simps [simp]:
  "us_universe_version (promoted_as c v at0) = v" "us_state (promoted_as c v at0) = PROMOTED"
  "us_content_sha256 (promoted_as c v at0) = us_content_sha256 c" "us_trading_date (promoted_as c v at0) = us_trading_date c"
  by (simp_all add: promoted_as_def)

lemma history_find:
  assumes "holds_history fingerprint dump dir h" "\<And>s. load (dump s) = Inr s"
  shows "find_by_content fingerprint load dir sha = Some s \<longleftrightarrow> s \<in> set h \<and> us_content_sha256 s = sha"
    and "find_by_content fingerprint load dir sha = None \<longleftrightarrow> sha \<notin> us_content_sha256 ` set h"
proof -
  have inj: "inj_on us_content_sha256 (set h)" using assms(1) by (simp add: holds_history_def distinct_map)
  have "find (\<lambda>s. us_content_sha256 s = sha) (iter_promoted fingerprint load dir) = Some s \<longleftrightarrow>
      s \<in> set (iter_promoted fingerprint load dir) \<and> us_content_sha256 s = sha"
    using inj history_iter [OF assms] by (intro find_unique) (auto simp: inj_on_def)
  then show "find_by_content fingerprint load dir sha = Some s \<longleftrightarrow> s \<in> set h \<and> us_content_sha256 s = sha"
    by (simp add: find_by_content_def history_iter [OF assms])
  show "find_by_content fingerprint load dir sha = None \<longleftrightarrow> sha \<notin> us_content_sha256 ` set h"
    by (auto simp: find_by_content_def find_None_iff history_iter [OF assms])
qed

lemma history_get:
  assumes "holds_history fingerprint dump dir h" "\<And>s. load (dump s) = Inr s" "s \<in> set h"
  shows "get_by_version fingerprint load dir (us_universe_version s) = Inr s"
proof -
  obtain k where "k < length h" "h ! k = s" using assms(3) by (auto simp: in_set_conv_nth)
  then show ?thesis using assms(1,2) by (auto simp: holds_history_def get_by_version_def model_validate_json_def)
qed

lemma history_promote:
  assumes h: "holds_history fingerprint dump dir h" and json: "\<And>s. load (dump s) = Inr s"
    and c: "mk_universe_snapshot fingerprint (rr_candidate r) = Inr (rr_candidate r)" "validate_promotable r = Inr ()"
    and new: "us_content_sha256 (rr_candidate r) \<notin> us_content_sha256 ` set h"
  shows "\<exists>dir'. promote fingerprint dump load dir r at0 = (Inr (promoted_as (rr_candidate r) (int (length h) + 1) at0), dir')
    \<and> holds_history fingerprint dump dir' (h @ [promoted_as (rr_candidate r) (int (length h) + 1) at0])"
proof -
  let ?v = "int (length h) + 1" and ?p = "promoted_as (rr_candidate r) (int (length h) + 1) at0"
  have names: "fst ` set (di_names dir) = version_file ` {1 .. int (length h)}" using h by (simp add: holds_history_def)
  have "temp_file ?v (us_content_sha256 ?p) \<notin> fst ` set (di_names dir)" unfolding names by (auto simp: temp_file_def version_file_def)
  then have t: "map_of (di_names dir) (temp_file ?v (us_content_sha256 ?p)) = None" by (simp add: map_of_eq_None_iff)
  note next' = history_next [OF h]
  have f: "map_of (di_names dir) (version_file ?v) = None" using next_version_free [of dir] next' by simp
  have find: "find_by_content fingerprint load dir (us_content_sha256 (rr_candidate r)) = None" using history_find(2) [OF h json] new by blast
  have 64: "(64::nat) = Suc 63" by simp
  have "promote fingerprint dump load dir r at0 = (Inr ?p, \<lparr>di_names = di_names dir @ [(version_file ?v, di_next dir)],
      di_data = (di_data dir)(di_next dir \<mapsto> dump ?p), di_next = di_next dir + 1\<rparr>)"
    unfolding promote_def c(2) find 64 allocate_version.simps next' Let_def link_version_clean [OF t f refl] by simp
  moreover have "holds_history fingerprint dump \<lparr>di_names = di_names dir @ [(version_file ?v, di_next dir)],
      di_data = (di_data dir)(di_next dir \<mapsto> dump ?p), di_next = di_next dir + 1\<rparr> (h @ [?p])"
    using promoted_as_valid [OF c(1), of ?v at0] new by (intro history_grows [OF h _ _ _ _ refl]) simp_all
  ultimately show ?thesis by blast
qed

text \<open>
  C22. Promotion round trip. From a store that holds a list of promoted snapshots, promoting a resolution either fails its
  governance check and changes nothing, or returns a snapshot with exactly the content of the candidate that reading the store back by its version
  returns unchanged; the store then holds the same list, or that list with the new snapshot as the next
  version; versions are always 1, 2, ... without gaps, and promoting the same content again, whenever, returns
  the same snapshot and changes nothing.
\<close>

theorem promotion_round_trip:
  assumes "holds_history fingerprint dump dir h" "\<And>s. load (dump s) = Inr s"
    and "mk_universe_snapshot fingerprint (rr_candidate r) = Inr (rr_candidate r)"
    and "promote fingerprint dump load dir r at0 = (res, dir')"
  shows "(\<forall>e. validate_promotable r = Inl e \<longrightarrow> res = Inl e \<and> dir' = dir)
    \<and> (validate_promotable r = Inr () \<longrightarrow>
        (\<exists>s h'. res = Inr s \<and> s \<in> set h' \<and> us_content_sha256 s = us_content_sha256 (rr_candidate r)
           \<and> get_by_version fingerprint load dir' (us_universe_version s) = Inr s
           \<and> promote fingerprint dump load dir' r at1 = (Inr s, dir')
           \<and> holds_history fingerprint dump dir' h' \<and> list_versions dir' = [1 .. int (length h')]
           \<and> (h' = h \<or> h' = h @ [promoted_as (rr_candidate r) (int (length h) + 1) at0])))"
proof (cases "validate_promotable r")
  case (Inl e)
  then show ?thesis using assms(4) by (simp add: promote_def)
next
  case (Inr u)
  then have ok: "validate_promotable r = Inr ()" by simp
  obtain s h' where s: "res = Inr s" "s \<in> set h'" "us_content_sha256 s = us_content_sha256 (rr_candidate r)"
    "holds_history fingerprint dump dir' h'" "h' = h \<or> h' = h @ [promoted_as (rr_candidate r) (int (length h) + 1) at0]"
  proof (cases "us_content_sha256 (rr_candidate r) \<in> us_content_sha256 ` set h")
    case True
    then obtain s where "find_by_content fingerprint load dir (us_content_sha256 (rr_candidate r)) = Some s" "s \<in> set h"
      "us_content_sha256 s = us_content_sha256 (rr_candidate r)"
      using history_find(1) [OF assms(1,2)] by fastforce
    then show thesis using that [of s h] assms(1,4) ok by (auto simp: promote_def)
  next
    case False
    then show thesis
      using history_promote [OF assms(1,2,3) ok False, of at0] assms(4)
        that [of "promoted_as (rr_candidate r) (int (length h) + 1) at0" "h @ [promoted_as (rr_candidate r) (int (length h) + 1) at0]"] by auto
  qed
  have "find_by_content fingerprint load dir' (us_content_sha256 (rr_candidate r)) = Some s"
    using history_find(1) [OF s(4) assms(2)] s(2,3) by blast
  then have again: "promote fingerprint dump load dir' r at1 = (Inr s, dir')" using ok by (simp add: promote_def)
  have "list_versions dir' = [1 .. int (length h')]"
    unfolding list_versions_def using history_versions [OF s(4)] by (intro sorted_distinct_set_unique) simp_all
  then show ?thesis using s again history_get [OF s(4) assms(2) s(2)] Inr by auto
qed

definition demo_candidate :: universe_snapshot where
  "demo_candidate =
     \<lparr>us_schema_version = 1, us_universe_version = 0, us_trading_date = 20000, us_effective_at = 0, us_state = CANDIDATE,
      us_instruments = [\<lparr>ui_instrument = cash_equity ''NSE'' ''TCS'', ui_provider_security_id = ''11536'', ui_exchange_segment = ''NSE_EQ'', ui_sector = None\<rparr>],
      us_source_provenance = demo_provenance, us_content_sha256 = replicate 64 CHR ''0''\<rparr>"

definition demo_resolution :: resolution_result where
  "demo_resolution = \<lparr>rr_candidate = demo_candidate, rr_unresolved = [], rr_unclassified_sector = [''NSE:TCS'']\<rparr>"

lemma demo_candidate_ok: "mk_universe_snapshot demo_fingerprint (rr_candidate demo_resolution) = Inr (rr_candidate demo_resolution)"
  "validate_promotable demo_resolution = Inr ()"
  by (simp_all add: demo_resolution_def demo_candidate_def mk_universe_snapshot_def validate_sorted_unique_and_hash_def content_sha256_def demo_fingerprint_def
      validate_promotable_def Let_def)

theorem promotion_round_trip_witness:
  "\<exists>s dir'. promote demo_fingerprint (\<lambda>s. s) Inr empty_directory demo_resolution 7 = (Inr s, dir')
     \<and> get_by_version demo_fingerprint Inr dir' (us_universe_version s) = Inr s
     \<and> promote demo_fingerprint (\<lambda>s. s) Inr dir' demo_resolution 9 = (Inr s, dir')"
proof -
  obtain res dir' where p: "promote demo_fingerprint (\<lambda>s. s) Inr empty_directory demo_resolution 7 = (res, dir')" by fastforce
  have json: "\<And>s :: universe_snapshot. Inr s = (Inr s :: universe_snapshot res)" by (rule refl)
  have "validate_promotable demo_resolution = Inr () \<longrightarrow> (\<exists>s h'. res = Inr s \<and> s \<in> set h' \<and> us_content_sha256 s = us_content_sha256 (rr_candidate demo_resolution)
           \<and> get_by_version demo_fingerprint Inr dir' (us_universe_version s) = Inr s
           \<and> promote demo_fingerprint (\<lambda>s. s) Inr dir' demo_resolution 9 = (Inr s, dir')
           \<and> holds_history demo_fingerprint (\<lambda>s. s) dir' h' \<and> list_versions dir' = [1 .. int (length h')]
           \<and> (h' = [] \<or> h' = [] @ [promoted_as (rr_candidate demo_resolution) (int (length ([] :: universe_snapshot list)) + 1) 7]))"
    by (rule promotion_round_trip [where dump = "\<lambda>s. s" and load = Inr, OF history_empty json demo_candidate_ok(1) p, THEN conjunct2])
  then show ?thesis using p demo_candidate_ok(2) by blast
qed

section \<open>The active snapshot\<close>

definition newer_or_same :: "universe_snapshot \<Rightarrow> universe_snapshot \<Rightarrow> bool" where
  "newer_or_same a b \<longleftrightarrow> us_trading_date a < us_trading_date b
     \<or> (us_trading_date a = us_trading_date b \<and> us_universe_version a \<le> us_universe_version b)"

lemma newer_or_same_order:
  "newer_or_same a a" "newer_or_same a b \<Longrightarrow> newer_or_same b c \<Longrightarrow> newer_or_same a c" "\<not> newer_or_same a b \<Longrightarrow> newer_or_same b a"
  by (auto simp: newer_or_same_def)

lemma active_step_alt:
  "active_step d best s =
     (if d < us_trading_date s then best
      else case best of None \<Rightarrow> Some s | Some b \<Rightarrow> if newer_or_same s b then best else Some s)"
  by (auto simp: active_step_def newer_or_same_def split: option.splits)

lemma active_fold:
  "case foldl (active_step d) None xs of
     None \<Rightarrow> \<forall>s \<in> set xs. us_trading_date s > d
   | Some b \<Rightarrow> b \<in> set xs \<and> us_trading_date b \<le> d \<and> (\<forall>s \<in> set xs. us_trading_date s \<le> d \<longrightarrow> newer_or_same s b)"
proof (induction xs rule: rev_induct)
  case (snoc x xs)
  define b where "b = foldl (active_step d) None xs"
  have step: "foldl (active_step d) None (xs @ [x]) = active_step d b x" by (simp add: b_def)
  show ?case
    unfolding step using snoc [folded b_def]
    by (cases b) (auto simp: active_step_alt newer_or_same_order(1,3) intro: newer_or_same_order(2) newer_or_same_order(3))
qed simp

text \<open>
  The active snapshot of a date is the promoted one with the greatest trading date not after it and, among those of that date, the greatest
  version; a snapshot effective in the future is never active, and there is none exactly when every promoted snapshot is
  effective later. The universe version reported to the publisher is that snapshot's, and 0 when there is none.
\<close>

lemma active_snapshot_exact:
  assumes "holds_history fingerprint dump dir h" "\<And>s. load (dump s) = Inr s"
  shows "(active_for fingerprint load dir d = Some s \<longleftrightarrow>
      s \<in> set h \<and> us_trading_date s \<le> d \<and> (\<forall>s' \<in> set h. us_trading_date s' \<le> d \<longrightarrow> newer_or_same s' s))
    \<and> (active_for fingerprint load dir d = None \<longleftrightarrow> (\<forall>s' \<in> set h. d < us_trading_date s'))
    \<and> (current_universe_version fingerprint load dir d = 0 \<longleftrightarrow> active_for fingerprint load dir d = None)"
proof -
  have version: "us_universe_version x = int k + 1" if "k < length h" "h ! k = x" for x k using assms(1) that by (auto simp: holds_history_def)
  have unique: "x = y" if "x \<in> set h" "y \<in> set h" "newer_or_same x y" "newer_or_same y x" for x y
    using that version by (auto simp: newer_or_same_def in_set_conv_nth)
  have pos: "us_universe_version x \<noteq> 0" if "x \<in> set h" for x using that version by (fastforce simp: in_set_conv_nth)
  note fold = active_fold [where d = d and xs = "iter_promoted fingerprint load dir", folded active_for_def, unfolded history_iter [OF assms]]
  show ?thesis
  proof (cases "active_for fingerprint load dir d")
    case None
    with fold show ?thesis by (auto simp: current_universe_version_def CANDIDATE_VERSION_def)
  next
    case (Some b)
    with fold have b: "b \<in> set h" "us_trading_date b \<le> d" "\<forall>s \<in> set h. us_trading_date s \<le> d \<longrightarrow> newer_or_same s b" by simp_all
    then have "\<exists>s' \<in> set h. \<not> d < us_trading_date s'" by (intro bexI [of _ b]) simp_all
    then show ?thesis using b Some unique pos by (auto simp: current_universe_version_def)
  qed
qed

lemma active_snapshot_exact_example:
  "\<exists>dir. active_for demo_fingerprint Inr dir 20003 = Some (promoted_as demo_candidate 1 7)
     \<and> active_for demo_fingerprint Inr dir 19999 = None \<and> current_universe_version demo_fingerprint Inr dir 19999 = 0"
proof -
  let ?p = "promoted_as demo_candidate 1 7"
  have json: "\<And>s :: universe_snapshot. Inr s = (Inr s :: universe_snapshot res)" by (rule refl)
  have "\<exists>dir. promote demo_fingerprint (\<lambda>s. s) Inr empty_directory demo_resolution 7 = (Inr (promoted_as (rr_candidate demo_resolution) (int (length ([] :: universe_snapshot list)) + 1) 7), dir)
    \<and> holds_history demo_fingerprint (\<lambda>s. s) dir ([] @ [promoted_as (rr_candidate demo_resolution) (int (length ([] :: universe_snapshot list)) + 1) 7])"
    by (rule history_promote [where dump = "\<lambda>s. s" and load = Inr, OF history_empty json demo_candidate_ok]) simp
  then obtain dir where h: "holds_history demo_fingerprint (\<lambda>s. s) dir [?p]" by (auto simp: demo_resolution_def)
  have date: "us_trading_date ?p = 20000" by (simp add: demo_candidate_def)
  note exact = active_snapshot_exact [where dump = "\<lambda>s. s" and load = Inr, OF h json]
  have "active_for demo_fingerprint Inr dir 20003 = Some ?p"
    using exact [of 20003 ?p] date newer_or_same_order(1) by auto
  moreover have "active_for demo_fingerprint Inr dir 19999 = None \<and> current_universe_version demo_fingerprint Inr dir 19999 = 0"
    using exact [of 19999 ?p] date by auto
  ultimately show ?thesis by blast
qed

end
