(* ===== verification/Universe_Promotion.thy ===== *)
theory Universe_Promotion
  imports Universe_Store
begin

text \<open>
  Concurrent promotions (\<^verbatim>\<open>FileUniverseSnapshotStore.promote\<close>, \<^verbatim>\<open>_link_version\<close>) in one directory. A process is between two file-system calls
  of its promotion; a scheduler lets one process at a time perform its next call. Shown: versions are never shared, a
  version file is complete and final as soon as it is visible provided the contents promoted at the same time differ in the first
  twelve digits of their hash, a promotion runs out of retries only after as many others succeeded, and every promotion ends.
\<close>

datatype phase =
    Scanning
  | Trying nat
  | Chosen nat int
  | Opened nat int nat
  | Written nat int
  | Cleaning nat int link_outcome
  | Finished universe_snapshot
  | Failed py_error

record process =
  pr_candidate :: universe_snapshot
  pr_effective_at :: instant
  pr_phase :: phase

type_synonym 'txt system = "'txt directory \<times> (nat \<Rightarrow> process)"

definition max_allocation_retries :: nat where
  "max_allocation_retries = 64"

definition own_promoted :: "process \<Rightarrow> int \<Rightarrow> universe_snapshot" where
  "own_promoted pr v = promoted_as (pr_candidate pr) v (pr_effective_at pr)"

definition own_temp :: "process \<Rightarrow> int \<Rightarrow> file_name" where
  "own_temp pr v = temp_file v (us_content_sha256 (pr_candidate pr))"

text \<open>One call of a promotion; \<open>Scanning\<close> is \<^verbatim>\<open>_find_by_content\<close>, \<open>Trying\<close> the head of the retry loop with \<^verbatim>\<open>_next_version\<close>.\<close>

definition promotion_call ::
  "(canonical_content \<Rightarrow> string) \<Rightarrow> (universe_snapshot \<Rightarrow> 'txt) \<Rightarrow> ('txt \<Rightarrow> universe_snapshot res) \<Rightarrow> 'txt directory \<Rightarrow> process \<Rightarrow> 'txt directory \<times> phase" where
  "promotion_call fingerprint dump load dir pr =
     (case pr_phase pr of
        Scanning \<Rightarrow>
          (case find_by_content fingerprint load dir (us_content_sha256 (pr_candidate pr)) of
             Some s \<Rightarrow> (dir, Finished s) | None \<Rightarrow> (dir, Trying 0))
      | Trying n \<Rightarrow>
          (if n = max_allocation_retries then (dir, Failed (RuntimeError ''exhausted universe-version allocation retries''))
           else (dir, Chosen n (next_version dir)))
      | Chosen n v \<Rightarrow> (case fs_open dir (own_temp pr v) of (dir1, ino) \<Rightarrow> (dir1, Opened n v ino))
      | Opened n v ino \<Rightarrow> (fs_write dir ino (dump (own_promoted pr v)), Written n v)
      | Written n v \<Rightarrow> (case fs_link dir (own_temp pr v) (version_file v) of (outcome, dir1) \<Rightarrow> (dir1, Cleaning n v outcome))
      | Cleaning n v outcome \<Rightarrow>
          (fs_unlink dir (own_temp pr v),
           case outcome of
             Linked \<Rightarrow> Finished (own_promoted pr v)
           | File_exists \<Rightarrow> Trying (n + 1)
           | File_not_found \<Rightarrow> Failed (OSError ''FileNotFoundError''))
      | Finished s \<Rightarrow> (dir, Finished s)
      | Failed e \<Rightarrow> (dir, Failed e))"

definition system_step ::
  "(canonical_content \<Rightarrow> string) \<Rightarrow> (universe_snapshot \<Rightarrow> 'txt) \<Rightarrow> ('txt \<Rightarrow> universe_snapshot res) \<Rightarrow> 'txt system \<Rightarrow> nat \<Rightarrow> 'txt system" where
  "system_step fingerprint dump load sys p =
     (case promotion_call fingerprint dump load (fst sys) (snd sys p) of
        (dir, ph) \<Rightarrow> (dir, (snd sys)(p := (snd sys p)\<lparr>pr_phase := ph\<rparr>)))"

text \<open>The log of a run: which process linked which version, in order.\<close>

definition link_event :: "'txt system \<Rightarrow> nat \<Rightarrow> (nat \<times> int) list" where
  "link_event sys p =
     (case pr_phase (snd sys p) of
        Written n v \<Rightarrow> (if fst (fs_link (fst sys) (own_temp (snd sys p) v) (version_file v)) = Linked then [(p, v)] else [])
      | _ \<Rightarrow> [])"

definition logged_step ::
  "(canonical_content \<Rightarrow> string) \<Rightarrow> (universe_snapshot \<Rightarrow> 'txt) \<Rightarrow> ('txt \<Rightarrow> universe_snapshot res) \<Rightarrow>
   'txt system \<times> (nat \<times> int) list \<Rightarrow> nat \<Rightarrow> 'txt system \<times> (nat \<times> int) list" where
  "logged_step fingerprint dump load st p = (system_step fingerprint dump load (fst st) p, snd st @ link_event (fst st) p)"

definition promotions ::
  "(canonical_content \<Rightarrow> string) \<Rightarrow> (universe_snapshot \<Rightarrow> 'txt) \<Rightarrow> ('txt \<Rightarrow> universe_snapshot res) \<Rightarrow> 'txt system \<Rightarrow> nat list \<Rightarrow>
   'txt system \<times> (nat \<times> int) list" where
  "promotions fingerprint dump load sys schedule = foldl (logged_step fingerprint dump load) (sys, []) schedule"

lemma promotions_snoc:
  "promotions fingerprint dump load sys (schedule @ [p]) = logged_step fingerprint dump load (promotions fingerprint dump load sys schedule) p"
  by (simp add: promotions_def)

lemma promotions_append:
  "promotions fingerprint dump load sys (a @ b) = foldl (logged_step fingerprint dump load) (promotions fingerprint dump load sys a) b"
  by (simp add: promotions_def)

lemma process_kept [simp]:
  "pr_candidate (snd (system_step fingerprint dump load sys p) q) = pr_candidate (snd sys q)"
  "pr_effective_at (snd (system_step fingerprint dump load sys p) q) = pr_effective_at (snd sys q)"
  by (simp_all add: system_step_def split: prod.split)

lemma others_kept [simp]: "q \<noteq> p \<Longrightarrow> snd (system_step fingerprint dump load sys p) q = snd sys q"
  by (simp add: system_step_def split: prod.split)

lemma own_kept:
  "pr_candidate pr' = pr_candidate pr \<Longrightarrow> own_temp pr' v = own_temp pr v"
  "pr_candidate pr' = pr_candidate pr \<Longrightarrow> pr_effective_at pr' = pr_effective_at pr \<Longrightarrow> own_promoted pr' v = own_promoted pr v"
  by (simp_all add: own_temp_def own_promoted_def)

section \<open>Names\<close>

lemma version_not_temp [simp]: "version_file v \<noteq> own_temp pr w" "own_temp pr w \<noteq> version_file v" "Json s \<noteq> own_temp pr w" "own_temp pr w \<noteq> Json s"
  by (simp_all add: version_file_def own_temp_def temp_file_def)

lemma call_keeps_json:
  assumes "promotion_call fingerprint dump load dir pr = (dir', ph)" "map_of (di_names dir) (Json s) = Some ino"
  shows "map_of (di_names dir') (Json s) = Some ino"
  using assms
  by (auto simp: promotion_call_def fs_open_def fs_write_def fs_link_def fs_unlink_def update_conv' delete_conv'
      split: phase.splits option.splits if_splits)

lemma call_adds_json:
  assumes "promotion_call fingerprint dump load dir pr = (dir', ph)" "map_of (di_names dir) (Json s) = None" "map_of (di_names dir') (Json s) = Some ino"
  shows "\<exists>n v. pr_phase pr = Written n v \<and> Json s = version_file v \<and> ph = Cleaning n v Linked \<and> map_of (di_names dir) (own_temp pr v) = Some ino"
  using assms
  by (auto simp: promotion_call_def fs_open_def fs_write_def fs_link_def fs_unlink_def update_conv' delete_conv'
      split: phase.splits option.splits if_splits)

lemma step_call:
  obtains dir' ph where "promotion_call fingerprint dump load (fst sys) (snd sys p) = (dir', ph)"
    "fst (system_step fingerprint dump load sys p) = dir'" "pr_phase (snd (system_step fingerprint dump load sys p) p) = ph"
  by (cases "promotion_call fingerprint dump load (fst sys) (snd sys p)") (auto simp: system_step_def)

lemma step_keeps_json:
  "map_of (di_names (fst sys)) (Json s) = Some ino \<Longrightarrow> map_of (di_names (fst (system_step fingerprint dump load sys p))) (Json s) = Some ino"
  by (rule step_call [of fingerprint dump load sys p]) (use call_keeps_json in auto)

lemma step_keeps_version:
  "map_of (di_names (fst sys)) (version_file v) \<noteq> None \<Longrightarrow> map_of (di_names (fst (system_step fingerprint dump load sys p))) (version_file v) \<noteq> None"
  using step_keeps_json [of sys "str_int v"] by (auto simp: version_file_def)

lemma step_adds_json:
  assumes "map_of (di_names (fst sys)) (version_file w) = None" "map_of (di_names (fst (system_step fingerprint dump load sys p))) (version_file w) \<noteq> None"
  shows "\<exists>v. link_event sys p = [(p, v)] \<and> version_file v = version_file w"
proof -
  obtain dir' ph where c: "promotion_call fingerprint dump load (fst sys) (snd sys p) = (dir', ph)" "fst (system_step fingerprint dump load sys p) = dir'"
    using step_call [of fingerprint dump load sys p] by blast
  obtain s where s: "version_file w = Json s" by (simp add: version_file_def)
  from call_adds_json [OF c(1), of s] assms obtain n v where nv: "pr_phase (snd sys p) = Written n v" "Json s = version_file v" "ph = Cleaning n v Linked"
    unfolding c(2) s by blast
  then have "fst (fs_link (fst sys) (own_temp (snd sys p) v) (version_file v)) = Linked"
    using c(1) by (auto simp: promotion_call_def split: prod.splits)
  then show ?thesis using nv s by (simp add: link_event_def)
qed

lemma link_event_cases:
  assumes "link_event sys p \<noteq> []"
  obtains n v where "link_event sys p = [(p, v)]" "pr_phase (snd sys p) = Written n v" "map_of (di_names (fst sys)) (version_file v) = None"
    "map_of (di_names (fst (system_step fingerprint dump load sys p))) (version_file v) \<noteq> None"
    "pr_phase (snd (system_step fingerprint dump load sys p) p) = Cleaning n v Linked"
proof -
  obtain n v where nv: "pr_phase (snd sys p) = Written n v" "fst (fs_link (fst sys) (own_temp (snd sys p) v) (version_file v)) = Linked"
    using assms by (auto simp: link_event_def split: phase.splits if_splits)
  then show thesis
    using that [of v n]
    by (auto simp: link_event_def system_step_def promotion_call_def fs_link_def update_conv' split: option.splits if_splits)
qed

section \<open>No version is given twice\<close>

definition took :: "process \<Rightarrow> int \<Rightarrow> bool" where
  "took pr v \<longleftrightarrow> (\<exists>n. pr_phase pr = Cleaning n v Linked) \<or> pr_phase pr = Finished (own_promoted pr v)"

lemma took_step:
  assumes "took (snd sys q) v"
  shows "took (snd (system_step fingerprint dump load sys p) q) v"
proof (cases "q = p")
  case True
  then show ?thesis
    using assms by (auto simp: took_def system_step_def promotion_call_def own_promoted_def split: prod.splits)
qed (use assms in simp)

definition versions_ok :: "'txt system \<times> (nat \<times> int) list \<Rightarrow> bool" where
  "versions_ok st \<longleftrightarrow> distinct (map snd (snd st)) \<and> distinct (map fst (snd st))
     \<and> (\<forall>(p, v) \<in> set (snd st). map_of (di_names (fst (fst st))) (version_file v) \<noteq> None \<and> took (snd (fst st) p) v)"

lemma versions_ok_step: "versions_ok st \<Longrightarrow> versions_ok (logged_step fingerprint dump load st p)"
proof -
  assume ok: "versions_ok st"
  let ?sys = "fst st" and ?sys' = "system_step fingerprint dump load (fst st) p"
  have old: "map_of (di_names (fst ?sys')) (version_file v) \<noteq> None \<and> took (snd ?sys' q) v" if "(q, v) \<in> set (snd st)" for q v
  proof -
    have "map_of (di_names (fst ?sys)) (version_file v) \<noteq> None" "took (snd ?sys q) v" using ok that by (auto simp: versions_ok_def)
    then show ?thesis using step_keeps_version took_step by blast
  qed
  show ?thesis
  proof (cases "link_event ?sys p = []")
    case True
    then show ?thesis using ok old by (auto simp: versions_ok_def logged_step_def)
  next
    case False
    then obtain n v where e: "link_event ?sys p = [(p, v)]" "pr_phase (snd ?sys p) = Written n v" "map_of (di_names (fst ?sys)) (version_file v) = None"
      "map_of (di_names (fst ?sys')) (version_file v) \<noteq> None" "pr_phase (snd ?sys' p) = Cleaning n v Linked"
      by (rule link_event_cases [where fingerprint = fingerprint and dump = dump and load = load]) blast
    have "v \<notin> snd ` set (snd st)" using ok e(3) by (force simp: versions_ok_def)
    moreover have "p \<notin> fst ` set (snd st)" using ok e(2) by (force simp: versions_ok_def took_def)
    moreover have "took (snd ?sys' p) v" using e(5) by (simp add: took_def)
    ultimately show ?thesis using ok old e(1,4) by (auto simp: versions_ok_def logged_step_def)
  qed
qed

section \<open>Retries and termination\<close>

definition exhausted :: py_error where
  "exhausted = RuntimeError ''exhausted universe-version allocation retries''"

definition taken :: "'txt directory \<Rightarrow> int \<Rightarrow> nat" where
  "taken dir v = (if map_of (di_names dir) (version_file v) = None then 0 else 1)"

fun retry_ok :: "'txt directory \<Rightarrow> nat \<Rightarrow> phase \<Rightarrow> bool" where
  "retry_ok dir linked (Trying n) \<longleftrightarrow> n \<le> linked \<and> n \<le> max_allocation_retries"
| "retry_ok dir linked (Chosen n v) \<longleftrightarrow>
     n + taken dir v \<le> linked \<and> n < max_allocation_retries"
| "retry_ok dir linked (Opened n v _) \<longleftrightarrow>
     n + taken dir v \<le> linked \<and> n < max_allocation_retries"
| "retry_ok dir linked (Written n v) \<longleftrightarrow>
     n + taken dir v \<le> linked \<and> n < max_allocation_retries"
| "retry_ok dir linked (Cleaning n v out) \<longleftrightarrow> (out = File_exists \<longrightarrow> n + 1 \<le> linked) \<and> n < max_allocation_retries"
| "retry_ok dir linked (Failed e) \<longleftrightarrow> e = exhausted \<longrightarrow> max_allocation_retries \<le> linked"
| "retry_ok dir linked _ \<longleftrightarrow> True"

definition retries_ok :: "'txt system \<times> (nat \<times> int) list \<Rightarrow> bool" where
  "retries_ok st \<longleftrightarrow> (\<forall>p. retry_ok (fst (fst st)) (length (snd st)) (pr_phase (snd (fst st) p)))"

lemma taken_step: "taken (fst (system_step fingerprint dump load sys p)) v \<le> taken (fst sys) v + length (link_event sys p)"
  using step_adds_json [of sys v fingerprint dump load p] by (force simp: taken_def)

lemma retry_ok_later:
  assumes "retry_ok (fst sys) k ph"
  shows "retry_ok (fst (system_step fingerprint dump load sys p)) (k + length (link_event sys p)) ph"
proof -
  have "n + taken (fst (system_step fingerprint dump load sys p)) v \<le> k + length (link_event sys p)" if "n + taken (fst sys) v \<le> k" for n v
    using taken_step [of fingerprint dump load sys p v] that by linarith
  then show ?thesis using assms by (cases ph) auto
qed

lemma retry_ok_own:
  assumes "retry_ok (fst sys) k (pr_phase (snd sys p))"
  shows "retry_ok (fst (system_step fingerprint dump load sys p)) (k + length (link_event sys p)) (pr_phase (snd (system_step fingerprint dump load sys p) p))"
proof (cases "pr_phase (snd sys p)")
  case (Trying n)
  then show ?thesis
    using assms next_version_free [of "fst sys"] by (auto simp: system_step_def promotion_call_def exhausted_def taken_def)
next
  case (Chosen n v)
  have "taken (fst (fs_open (fst sys) (own_temp (snd sys p) v))) v = taken (fst sys) v"
    by (simp add: fs_open_def taken_def update_conv' split: option.splits)
  then show ?thesis using assms Chosen by (auto simp: system_step_def promotion_call_def split: prod.splits)
next
  case (Opened n v ino)
  then show ?thesis using assms by (auto simp: system_step_def promotion_call_def fs_write_def taken_def)
next
  case (Written n v)
  then show ?thesis using assms by (auto simp: system_step_def promotion_call_def fs_link_def taken_def split: option.splits if_splits)
next
  case (Cleaning n v out)
  then show ?thesis using assms by (cases out) (auto simp: system_step_def promotion_call_def exhausted_def)
qed (use assms in \<open>auto simp: system_step_def promotion_call_def split: option.splits\<close>)

lemma retries_ok_step: "retries_ok st \<Longrightarrow> retries_ok (logged_step fingerprint dump load st p)"
proof -
  assume ok: "retries_ok st"
  have "retry_ok (fst (system_step fingerprint dump load (fst st) p)) (length (snd st) + length (link_event (fst st) p))
      (pr_phase (snd (system_step fingerprint dump load (fst st) p) q))" for q
    using ok retry_ok_own [of "fst st" _ p] retry_ok_later [of "fst st" _ _ fingerprint dump load p] by (cases "q = p") (simp_all add: retries_ok_def)
  then show ?thesis by (simp add: retries_ok_def logged_step_def)
qed

fun rank :: "phase \<Rightarrow> nat" where
  "rank Scanning = 5 * max_allocation_retries + 2"
| "rank (Trying n) = 5 * (max_allocation_retries - n) + 1"
| "rank (Chosen n v) = 5 * (max_allocation_retries - n)"
| "rank (Opened n v _) = 5 * (max_allocation_retries - n) - 1"
| "rank (Written n v) = 5 * (max_allocation_retries - n) - 2"
| "rank (Cleaning n v _) = 5 * (max_allocation_retries - n) - 3"
| "rank _ = 0"

lemma rank_step:
  assumes "retry_ok dir k (pr_phase (snd sys p))"
  shows "rank (pr_phase (snd (system_step fingerprint dump load sys p) p)) \<le> rank (pr_phase (snd sys p)) - 1"
  using assms
  by (cases "pr_phase (snd sys p)")
    (auto simp: system_step_def promotion_call_def split: prod.splits option.splits link_outcome.splits)

lemma rank_run:
  assumes "retries_ok (sys, [])"
  shows "rank (pr_phase (snd (fst (promotions fingerprint dump load sys schedule)) p)) \<le> rank (pr_phase (snd sys p)) - count_list schedule p
    \<and> retries_ok (promotions fingerprint dump load sys schedule)"
proof (induction schedule rule: rev_induct)
  case Nil
  then show ?case using assms by (simp add: promotions_def)
next
  case (snoc q schedule)
  let ?st = "promotions fingerprint dump load sys schedule"
  have "rank (pr_phase (snd (system_step fingerprint dump load (fst ?st) p) p)) \<le> rank (pr_phase (snd (fst ?st) p)) - 1"
    using snoc by (intro rank_step [of "fst (fst ?st)" "length (snd ?st)"]) (simp add: retries_ok_def)
  then have "rank (pr_phase (snd (fst (logged_step fingerprint dump load ?st q)) p)) \<le> rank (pr_phase (snd sys p)) - count_list (schedule @ [q]) p"
    using snoc by (cases "q = p") (auto simp: logged_step_def)
  moreover have "retries_ok (logged_step fingerprint dump load ?st q)" using snoc retries_ok_step by blast
  ultimately show ?case unfolding promotions_snoc by blast
qed

lemma rank_zero: "retry_ok dir k ph \<Longrightarrow> rank ph = 0 \<Longrightarrow> (\<exists>s. ph = Finished s) \<or> (\<exists>e. ph = Failed e)"
  by (cases ph) auto

section \<open>Visible version files are complete and final\<close>

fun temp_version :: "phase \<Rightarrow> int option" where
  "temp_version (Opened n v _) = Some v"
| "temp_version (Written n v) = Some v"
| "temp_version (Cleaning n v _) = Some v"
| "temp_version _ = None"

definition unlinked :: "'txt directory \<Rightarrow> nat \<Rightarrow> bool" where
  "unlinked dir ino \<longleftrightarrow> (\<forall>s. map_of (di_names dir) (Json s) \<noteq> Some ino)"

definition file_ok :: "(universe_snapshot \<Rightarrow> 'txt) \<Rightarrow> 'txt directory \<Rightarrow> process \<Rightarrow> bool" where
  "file_ok dump dir pr \<longleftrightarrow>
     (case pr_phase pr of
        Opened n v ino \<Rightarrow> map_of (di_names dir) (own_temp pr v) = Some ino \<and> unlinked dir ino
      | Written n v \<Rightarrow> (\<exists>ino. map_of (di_names dir) (own_temp pr v) = Some ino \<and> unlinked dir ino \<and> di_data dir ino = Some (dump (own_promoted pr v)))
      | Cleaning n v out \<Rightarrow> out \<noteq> File_not_found
      | _ \<Rightarrow> True)"

definition names_ok :: "nat set \<Rightarrow> 'txt system \<Rightarrow> bool" where
  "names_ok S sys \<longleftrightarrow>
     (\<forall>n ino. map_of (di_names (fst sys)) n = Some ino \<longrightarrow> ino < di_next (fst sys))
     \<and> (\<forall>a b c d ino. map_of (di_names (fst sys)) (Temp a b) = Some ino \<longrightarrow> map_of (di_names (fst sys)) (Temp c d) = Some ino \<longrightarrow> a = c \<and> b = d)
     \<and> (\<forall>a b. map_of (di_names (fst sys)) (Temp a b) \<noteq> None \<longrightarrow>
          (\<exists>p \<in> S. \<exists>v. temp_version (pr_phase (snd sys p)) = Some v \<and> Temp a b = own_temp (snd sys p) v))"

definition complete_files :: "'txt directory \<Rightarrow> bool" where
  "complete_files dir \<longleftrightarrow> (\<forall>s c. fs_read dir (Json s) = Some c \<longrightarrow> c \<noteq> None)"

definition apart :: "nat set \<Rightarrow> 'txt system \<Rightarrow> bool" where
  "apart S sys \<longleftrightarrow> (\<forall>p \<in> S. \<forall>q \<in> S. p \<noteq> q \<longrightarrow>
     take 12 (us_content_sha256 (pr_candidate (snd sys p))) \<noteq> take 12 (us_content_sha256 (pr_candidate (snd sys q))))"

definition files_ok :: "(universe_snapshot \<Rightarrow> 'txt) \<Rightarrow> nat set \<Rightarrow> 'txt system \<Rightarrow> bool" where
  "files_ok dump S sys \<longleftrightarrow> apart S sys \<and> names_ok S sys \<and> complete_files (fst sys) \<and> (\<forall>p \<in> S. file_ok dump (fst sys) (snd sys p))"

lemma own_temp_apart: "apart S sys \<Longrightarrow> p \<in> S \<Longrightarrow> q \<in> S \<Longrightarrow> own_temp (snd sys p) v = own_temp (snd sys q) w \<Longrightarrow> p = q"
  by (auto simp: apart_def own_temp_def temp_file_def)

lemma own_temp_Temp: "\<exists>a b. own_temp pr v = Temp a b"
  by (simp add: own_temp_def temp_file_def)

lemma temp_owner:
  assumes "files_ok dump S sys" "map_of (di_names (fst sys)) (own_temp (snd sys p) v) \<noteq> None" "p \<in> S"
  shows "\<exists>w. temp_version (pr_phase (snd sys p)) = Some w \<and> own_temp (snd sys p) v = own_temp (snd sys p) w"
proof -
  obtain a b where ab: "own_temp (snd sys p) v = Temp a b" using own_temp_Temp by blast
  then obtain q w where "q \<in> S" "temp_version (pr_phase (snd sys q)) = Some w" "Temp a b = own_temp (snd sys q) w"
    using assms(1,2) unfolding files_ok_def names_ok_def by metis
  then show ?thesis using own_temp_apart [of S sys p q v w] assms(1,3) ab by (auto simp: files_ok_def)
qed

lemma temp_inode_private:
  assumes "files_ok dump S sys" "p \<in> S" "q \<in> S" "p \<noteq> q"
    and "map_of (di_names (fst sys)) (own_temp (snd sys p) v) = Some i" "map_of (di_names (fst sys)) (own_temp (snd sys q) w) = Some j"
  shows "i \<noteq> j"
proof
  assume "i = j"
  obtain a b c d where t: "own_temp (snd sys p) v = Temp a b" "own_temp (snd sys q) w = Temp c d" using own_temp_Temp by metis
  then have "a = c \<and> b = d" using assms(1,5,6) \<open>i = j\<close> unfolding files_ok_def names_ok_def by metis
  then show False using own_temp_apart [of S sys p q v w] assms t by (auto simp: files_ok_def)
qed

lemma apart_step: "apart S (system_step fingerprint dump load sys p) = apart S sys"
  by (simp add: apart_def)

lemma quiet_step:
  assumes "files_ok dump S sys" "temp_version (pr_phase (snd sys p)) = None" "temp_version ph = None" "p \<in> S"
  shows "files_ok dump S (fst sys, (snd sys)(p := (snd sys p)\<lparr>pr_phase := ph\<rparr>))"
proof -
  have "\<exists>q \<in> S. \<exists>v. temp_version (pr_phase (((snd sys)(p := (snd sys p)\<lparr>pr_phase := ph\<rparr>)) q)) = Some v
      \<and> Temp a b = own_temp (((snd sys)(p := (snd sys p)\<lparr>pr_phase := ph\<rparr>)) q) v" if present: "map_of (di_names (fst sys)) (Temp a b) \<noteq> None" for a b
  proof -
    obtain q v where q: "q \<in> S" "temp_version (pr_phase (snd sys q)) = Some v" "Temp a b = own_temp (snd sys q) v"
      using assms(1) present unfolding files_ok_def names_ok_def by blast
    moreover have "q \<noteq> p" using q assms(2) by auto
    ultimately show ?thesis by (intro bexI [of _ q] exI [of _ v]) simp_all
  qed
  moreover have "file_ok dump (fst sys) ((snd sys p)\<lparr>pr_phase := ph\<rparr>)"
    using assms(3) by (cases ph) (simp_all add: file_ok_def)
  ultimately show ?thesis using assms(1) by (auto simp: files_ok_def names_ok_def apart_def)
qed

text \<open>
  The steps that touch files. Each keeps what other processes rely on: the name and the data of an inode that belongs to another process's
  temporary file, and every visible version file.
\<close>

lemma other_file_ok:
  assumes "file_ok dump dir pr"
    and "\<And>v ino. temp_version (pr_phase pr) = Some v \<Longrightarrow> map_of (di_names dir) (own_temp pr v) = Some ino \<Longrightarrow> di_data dir' ino = di_data dir ino"
    and "\<And>v ino. temp_version (pr_phase pr) = Some v \<Longrightarrow> map_of (di_names dir) (own_temp pr v) = Some ino \<Longrightarrow> unlinked dir ino \<Longrightarrow> unlinked dir' ino"
    and "\<And>v. temp_version (pr_phase pr) = Some v \<Longrightarrow> map_of (di_names dir') (own_temp pr v) = map_of (di_names dir) (own_temp pr v)"
  shows "file_ok dump dir' pr"
  using assms by (cases "pr_phase pr") (auto simp: file_ok_def)

definition visible_kept :: "'txt directory \<Rightarrow> 'txt directory \<Rightarrow> bool" where
  "visible_kept dir dir' \<longleftrightarrow> (\<forall>s. map_of (di_names dir) (Json s) \<noteq> None \<longrightarrow> fs_read dir' (Json s) = fs_read dir (Json s))"

lemma open_step:
  assumes ok: "files_ok dump S sys" and p: "p \<in> S" "pr_phase (snd sys p) = Chosen n v" and o: "fs_open (fst sys) (own_temp (snd sys p) v) = (dir', ino)"
  shows "files_ok dump S (dir', (snd sys)(p := (snd sys p)\<lparr>pr_phase := Opened n v ino\<rparr>)) \<and> visible_kept (fst sys) dir'"
proof -
  let ?t = "own_temp (snd sys p) v"
  have none: "map_of (di_names (fst sys)) ?t = None" using temp_owner [OF ok _ p(1), of v] p(2) by fastforce
  have dir': "dir' = (fst sys)\<lparr>di_names := AList.update ?t (di_next (fst sys)) (di_names (fst sys)),
      di_data := (di_data (fst sys))(di_next (fst sys) := None), di_next := di_next (fst sys) + 1\<rparr>" and ino: "ino = di_next (fst sys)"
    using o none by (auto simp: fs_open_def)
  have bound: "i < di_next (fst sys)" if "map_of (di_names (fst sys)) x = Some i" for x i
    using ok that unfolding files_ok_def names_ok_def by blast
  have names: "map_of (di_names dir') x = (if x = ?t then Some ino else map_of (di_names (fst sys)) x)" for x
    by (simp add: dir' ino update_conv')
  have data: "di_data dir' i = di_data (fst sys) i" if "i < di_next (fst sys)" for i using that by (simp add: dir')
  have keep: "visible_kept (fst sys) dir'"
    using bound data by (auto simp: visible_kept_def fs_read_def names)
  have new: "unlinked dir' ino" using bound by (fastforce simp: unlinked_def names ino)
  have others: "file_ok dump dir' (snd sys q)" if q: "q \<in> S" "q \<noteq> p" for q
  proof (rule other_file_ok)
    show "file_ok dump (fst sys) (snd sys q)" using ok q by (simp add: files_ok_def)
    show "map_of (di_names dir') (own_temp (snd sys q) w) = map_of (di_names (fst sys)) (own_temp (snd sys q) w)" for w
      using own_temp_apart [of S sys q p w v] ok q p(1) by (auto simp: names files_ok_def)
    show "di_data dir' i = di_data (fst sys) i" if "map_of (di_names (fst sys)) (own_temp (snd sys q) w) = Some i" for w i
      using data bound that by blast
    show "unlinked dir' i" if "unlinked (fst sys) i" for i using that by (simp add: unlinked_def names)
  qed
  have "complete_files dir'"
    using ok keep unfolding files_ok_def complete_files_def visible_kept_def by (metis (mono_tags) fs_read_def map_option_is_None names version_not_temp(3))
  moreover have "names_ok S (dir', (snd sys)(p := (snd sys p)\<lparr>pr_phase := Opened n v ino\<rparr>))"
  proof -
    have "x = y" if "map_of (di_names dir') x = Some i" "map_of (di_names dir') y = Some i" "x = ?t \<or> y = ?t" for x y i
      using that bound by (fastforce simp: names ino split: if_splits)
    then have inj: "a = c \<and> b = d" if "map_of (di_names dir') (Temp a b) = Some i" "map_of (di_names dir') (Temp c d) = Some i" for a b c d i
      using that ok unfolding files_ok_def names_ok_def names by (metis file_name.inject(2))
    have owner: "\<exists>q \<in> S. \<exists>w. temp_version (pr_phase (((snd sys)(p := (snd sys p)\<lparr>pr_phase := Opened n v ino\<rparr>)) q)) = Some w
        \<and> Temp a b = own_temp (((snd sys)(p := (snd sys p)\<lparr>pr_phase := Opened n v ino\<rparr>)) q) w"
      if present: "map_of (di_names dir') (Temp a b) \<noteq> None" for a b
    proof (cases "Temp a b = ?t")
      case True
      then show ?thesis using p(1) by (intro bexI [of _ p] exI [of _ v]) (simp_all add: own_temp_def)
    next
      case False
      then obtain q w where q: "q \<in> S" "temp_version (pr_phase (snd sys q)) = Some w" "Temp a b = own_temp (snd sys q) w"
        using ok present unfolding files_ok_def names_ok_def names by metis
      then have "q \<noteq> p" using p(2) by auto
      then show ?thesis using q by (intro bexI [of _ q] exI [of _ w]) simp_all
    qed
    have "i < di_next dir'" if "map_of (di_names dir') x = Some i" for x i
    proof -
      have "di_next dir' = di_next (fst sys) + 1" by (simp add: dir')
      then show ?thesis using that bound [of x i] by (auto simp: names ino split: if_splits)
    qed
    then show ?thesis unfolding names_ok_def fst_conv snd_conv using inj owner by blast
  qed
  moreover have "file_ok dump dir' ((snd sys p)\<lparr>pr_phase := Opened n v ino\<rparr>)"
    using new by (simp add: file_ok_def names own_temp_def)
  ultimately show ?thesis using ok keep others by (auto simp: files_ok_def apart_def)
qed

lemma names_ok_keep:
  assumes "names_ok S sys" "\<And>a b. map_of (di_names dir') (Temp a b) = map_of (di_names (fst sys)) (Temp a b)"
    and "\<And>x i. map_of (di_names dir') x = Some i \<Longrightarrow> i < di_next dir'" "temp_version ph = temp_version (pr_phase (snd sys p))"
  shows "names_ok S (dir', (snd sys)(p := (snd sys p)\<lparr>pr_phase := ph\<rparr>))"
proof -
  have "\<exists>q \<in> S. \<exists>w. temp_version (pr_phase (((snd sys)(p := (snd sys p)\<lparr>pr_phase := ph\<rparr>)) q)) = Some w
      \<and> Temp a b = own_temp (((snd sys)(p := (snd sys p)\<lparr>pr_phase := ph\<rparr>)) q) w"
    if present: "map_of (di_names (fst sys)) (Temp a b) \<noteq> None" for a b
  proof -
    obtain q w where "q \<in> S" "temp_version (pr_phase (snd sys q)) = Some w" "Temp a b = own_temp (snd sys q) w"
      using assms(1) present unfolding names_ok_def by blast
    then show ?thesis using assms(4) by (intro bexI [of _ q] exI [of _ w]) (auto simp: own_temp_def)
  qed
  then show ?thesis using assms(1-3) unfolding names_ok_def fst_conv snd_conv by simp
qed

lemma write_step:
  assumes ok: "files_ok dump S sys" and p: "p \<in> S" "pr_phase (snd sys p) = Opened n v ino" and dir': "dir' = fs_write (fst sys) ino (dump (own_promoted (snd sys p) v))"
  shows "files_ok dump S (dir', (snd sys)(p := (snd sys p)\<lparr>pr_phase := Written n v\<rparr>)) \<and> visible_kept (fst sys) dir'"
proof -
  have mine: "map_of (di_names (fst sys)) (own_temp (snd sys p) v) = Some ino" "unlinked (fst sys) ino"
    using ok p by (auto simp: files_ok_def file_ok_def dest!: bspec [of _ _ p])
  have names: "di_names dir' = di_names (fst sys)" "di_next dir' = di_next (fst sys)" by (simp_all add: dir' fs_write_def)
  have data: "di_data dir' i = (if i = ino then Some (dump (own_promoted (snd sys p) v)) else di_data (fst sys) i)" for i by (simp add: dir' fs_write_def)
  have keep: "visible_kept (fst sys) dir'" using mine(2) by (auto simp: visible_kept_def fs_read_def names data unlinked_def)
  have others: "file_ok dump dir' (snd sys q)" if q: "q \<in> S" "q \<noteq> p" for q
  proof (rule other_file_ok)
    show "file_ok dump (fst sys) (snd sys q)" using ok q by (simp add: files_ok_def)
    show "di_data dir' i = di_data (fst sys) i" if "map_of (di_names (fst sys)) (own_temp (snd sys q) w) = Some i" for w i
      using temp_inode_private [OF ok q(1) p(1) q(2) that mine(1)] by (simp add: data)
  qed (simp_all add: names unlinked_def)
  have "complete_files dir'"
    using ok keep unfolding files_ok_def complete_files_def visible_kept_def by (metis fs_read_def map_option_is_None names(1))
  moreover have "names_ok S (dir', (snd sys)(p := (snd sys p)\<lparr>pr_phase := Written n v\<rparr>))"
    using ok p by (intro names_ok_keep) (auto simp: names files_ok_def names_ok_def)
  moreover have "file_ok dump dir' ((snd sys p)\<lparr>pr_phase := Written n v\<rparr>)"
    using mine by (simp add: file_ok_def names own_temp_def own_promoted_def unlinked_def data)
  ultimately show ?thesis using ok keep others by (auto simp: files_ok_def apart_def)
qed

lemma link_step:
  assumes ok: "files_ok dump S sys" and p: "p \<in> S" "pr_phase (snd sys p) = Written n v"
    and l: "fs_link (fst sys) (own_temp (snd sys p) v) (version_file v) = (out, dir')"
  shows "files_ok dump S (dir', (snd sys)(p := (snd sys p)\<lparr>pr_phase := Cleaning n v out\<rparr>)) \<and> visible_kept (fst sys) dir'
    \<and> (out = Linked \<longrightarrow> fs_read dir' (version_file v) = Some (Some (dump (own_promoted (snd sys p) v))))"
proof -
  obtain ino where mine: "map_of (di_names (fst sys)) (own_temp (snd sys p) v) = Some ino" "unlinked (fst sys) ino"
      "di_data (fst sys) ino = Some (dump (own_promoted (snd sys p) v))"
    using ok p by (auto simp: files_ok_def file_ok_def dest!: bspec [of _ _ p])
  show ?thesis
  proof (cases "map_of (di_names (fst sys)) (version_file v)")
    case (Some i)
    then have "out = File_exists" "dir' = fst sys" using l mine(1) by (auto simp: fs_link_def)
    moreover have "names_ok S (fst sys, (snd sys)(p := (snd sys p)\<lparr>pr_phase := Cleaning n v File_exists\<rparr>))"
      using ok p by (intro names_ok_keep) (auto simp: files_ok_def names_ok_def)
    ultimately show ?thesis using ok by (auto simp: files_ok_def apart_def visible_kept_def file_ok_def)
  next
    case None
    then have out: "out = Linked" and dir': "dir' = (fst sys)\<lparr>di_names := AList.update (version_file v) ino (di_names (fst sys))\<rparr>"
      using l mine(1) by (auto simp: fs_link_def)
    have names: "map_of (di_names dir') x = (if x = version_file v then Some ino else map_of (di_names (fst sys)) x)" for x
      by (simp add: dir' update_conv')
    have data: "di_data dir' = di_data (fst sys)" "di_next dir' = di_next (fst sys)" by (simp_all add: dir')
    have keep: "visible_kept (fst sys) dir'" using None by (auto simp: visible_kept_def fs_read_def names data)
    have others: "file_ok dump dir' (snd sys q)" if q: "q \<in> S" "q \<noteq> p" for q
    proof (rule other_file_ok)
      show "file_ok dump (fst sys) (snd sys q)" using ok q by (simp add: files_ok_def)
      show "unlinked dir' i" if "map_of (di_names (fst sys)) (own_temp (snd sys q) w) = Some i" "unlinked (fst sys) i" for w i
        using temp_inode_private [OF ok q(1) p(1) q(2) that(1) mine(1)] that(2) by (auto simp: unlinked_def names split: if_splits)
    qed (simp_all add: names data)
    have "complete_files dir'"
      using ok mine(3) by (auto simp: files_ok_def complete_files_def fs_read_def names data split: if_splits)
    moreover have "names_ok S (dir', (snd sys)(p := (snd sys p)\<lparr>pr_phase := Cleaning n v Linked\<rparr>))"
      using ok p mine(1) by (intro names_ok_keep) (auto simp: names data files_ok_def names_ok_def version_file_def split: if_splits)
    moreover have "fs_read dir' (version_file v) = Some (Some (dump (own_promoted (snd sys p) v)))" using mine(3) by (simp add: fs_read_def names data)
    ultimately show ?thesis using ok keep others out by (auto simp: files_ok_def apart_def file_ok_def)
  qed
qed

lemma unlink_step:
  assumes ok: "files_ok dump S sys" and p: "p \<in> S" "pr_phase (snd sys p) = Cleaning n v out" "temp_version ph = None"
    and dir': "dir' = fs_unlink (fst sys) (own_temp (snd sys p) v)"
  shows "files_ok dump S (dir', (snd sys)(p := (snd sys p)\<lparr>pr_phase := ph\<rparr>)) \<and> visible_kept (fst sys) dir'"
proof -
  let ?t = "own_temp (snd sys p) v"
  have names: "map_of (di_names dir') x = (if x = ?t then None else map_of (di_names (fst sys)) x)" for x
    by (simp add: dir' fs_unlink_def delete_conv')
  have data: "di_data dir' = di_data (fst sys)" "di_next dir' = di_next (fst sys)" by (simp_all add: dir' fs_unlink_def)
  have keep: "visible_kept (fst sys) dir'" by (auto simp: visible_kept_def fs_read_def names data)
  have others: "file_ok dump dir' (snd sys q)" if q: "q \<in> S" "q \<noteq> p" for q
  proof (rule other_file_ok)
    show "file_ok dump (fst sys) (snd sys q)" using ok q by (simp add: files_ok_def)
    show "map_of (di_names dir') (own_temp (snd sys q) w) = map_of (di_names (fst sys)) (own_temp (snd sys q) w)" for w
      using own_temp_apart [of S sys q p w v] ok q p(1) by (auto simp: names files_ok_def)
  qed (simp_all add: data unlinked_def names)
  have "complete_files dir'"
    using ok by (auto simp: files_ok_def complete_files_def fs_read_def names data)
  moreover have "names_ok S (dir', (snd sys)(p := (snd sys p)\<lparr>pr_phase := ph\<rparr>))"
  proof -
    have "\<exists>q \<in> S. \<exists>w. temp_version (pr_phase (((snd sys)(p := (snd sys p)\<lparr>pr_phase := ph\<rparr>)) q)) = Some w
        \<and> Temp a b = own_temp (((snd sys)(p := (snd sys p)\<lparr>pr_phase := ph\<rparr>)) q) w"
      if present: "map_of (di_names dir') (Temp a b) \<noteq> None" for a b
    proof -
      have "map_of (di_names (fst sys)) (Temp a b) \<noteq> None" and ne: "Temp a b \<noteq> ?t" using present by (auto simp: names split: if_splits)
      then obtain q w where q: "q \<in> S" "temp_version (pr_phase (snd sys q)) = Some w" "Temp a b = own_temp (snd sys q) w"
        using ok unfolding files_ok_def names_ok_def by blast
      then have "q \<noteq> p" using p(2) ne by auto
      then show ?thesis using q by (intro bexI [of _ q] exI [of _ w]) simp_all
    qed
    then show ?thesis using ok unfolding files_ok_def names_ok_def fst_conv snd_conv data by (simp add: names split: if_splits)
  qed
  moreover have "file_ok dump dir' ((snd sys p)\<lparr>pr_phase := ph\<rparr>)" using p(3) by (cases ph) (simp_all add: file_ok_def)
  ultimately show ?thesis using ok keep others by (auto simp: files_ok_def apart_def)
qed

lemma files_ok_step:
  assumes ok: "files_ok dump S sys" and p: "p \<in> S"
  shows "files_ok dump S (system_step fingerprint dump load sys p) \<and> visible_kept (fst sys) (fst (system_step fingerprint dump load sys p))
    \<and> (\<forall>v. link_event sys p = [(p, v)] \<longrightarrow>
         fs_read (fst (system_step fingerprint dump load sys p)) (version_file v) = Some (Some (dump (own_promoted (snd sys p) v))))"
proof (cases "pr_phase (snd sys p)")
  case (Chosen n v)
  obtain dir' ino where o: "fs_open (fst sys) (own_temp (snd sys p) v) = (dir', ino)" by fastforce
  show ?thesis
    using open_step [OF ok p Chosen o] Chosen o by (simp add: system_step_def promotion_call_def link_event_def)
next
  case (Opened n v ino)
  show ?thesis
    using write_step [OF ok p Opened refl] Opened by (simp add: system_step_def promotion_call_def link_event_def)
next
  case (Written n v)
  obtain out dir' where l: "fs_link (fst sys) (own_temp (snd sys p) v) (version_file v) = (out, dir')" by fastforce
  show ?thesis
    using link_step [OF ok p Written l] Written l by (simp add: system_step_def promotion_call_def link_event_def)
next
  case (Cleaning n v out)
  show ?thesis
    using unlink_step [OF ok p Cleaning _ refl, of "case out of Linked \<Rightarrow> Finished (own_promoted (snd sys p) v) | File_exists \<Rightarrow> Trying (n + 1)
        | File_not_found \<Rightarrow> Failed (OSError ''FileNotFoundError'')"] Cleaning
    by (simp add: system_step_def promotion_call_def link_event_def split: link_outcome.split)
next
  case Scanning
  then show ?thesis
    using quiet_step [OF ok _ _ p] by (simp add: system_step_def promotion_call_def link_event_def visible_kept_def split: option.split)
next
  case (Trying n)
  then show ?thesis
    using quiet_step [OF ok _ _ p] by (simp add: system_step_def promotion_call_def link_event_def visible_kept_def)
next
  case (Finished s)
  then show ?thesis
    using quiet_step [OF ok _ _ p, of "Finished s"] by (simp add: system_step_def promotion_call_def link_event_def visible_kept_def)
next
  case (Failed e)
  then show ?thesis
    using quiet_step [OF ok _ _ p, of "Failed e"] by (simp add: system_step_def promotion_call_def link_event_def visible_kept_def)
qed

definition ended_ok :: "process \<Rightarrow> bool" where
  "ended_ok pr \<longleftrightarrow> (case pr_phase pr of Finished s \<Rightarrow> us_content_sha256 s = us_content_sha256 (pr_candidate pr) | Failed e \<Rightarrow> e = exhausted | _ \<Rightarrow> True)"

lemma ended_ok_step:
  assumes "files_ok dump S sys" "p \<in> S" "ended_ok (snd sys p)"
  shows "ended_ok (snd (system_step fingerprint dump load sys p) p)"
proof (cases "pr_phase (snd sys p)")
  case (Cleaning n v out)
  then have "out \<noteq> File_not_found" using assms(1,2) by (fastforce simp: files_ok_def file_ok_def)
  then show ?thesis using Cleaning by (cases out) (simp_all add: system_step_def promotion_call_def ended_ok_def own_promoted_def)
next
  case Scanning
  then show ?thesis
    by (auto simp: system_step_def promotion_call_def ended_ok_def find_by_content_def find_Some_iff split: option.splits)
qed (use assms(3) in \<open>auto simp: system_step_def promotion_call_def ended_ok_def exhausted_def split: prod.splits\<close>)

section \<open>Runs\<close>

definition idle :: "'txt system \<Rightarrow> bool" where
  "idle sys \<longleftrightarrow> (\<forall>p. pr_phase (snd sys p) = Scanning)"

lemma promotions_kept:
  "pr_candidate (snd (fst (promotions fingerprint dump load sys schedule)) p) = pr_candidate (snd sys p)"
  "pr_effective_at (snd (fst (promotions fingerprint dump load sys schedule)) p) = pr_effective_at (snd sys p)"
  by (induction schedule rule: rev_induct) (simp_all add: promotions_snoc logged_step_def, simp_all add: promotions_def)

lemma versions_run:
  assumes "idle sys"
  shows "versions_ok (promotions fingerprint dump load sys schedule) \<and> fst ` set (snd (promotions fingerprint dump load sys schedule)) \<subseteq> set schedule
    \<and> (\<forall>v. map_of (di_names (fst sys)) (version_file v) \<noteq> None \<longrightarrow>
        map_of (di_names (fst (fst (promotions fingerprint dump load sys schedule)))) (version_file v) \<noteq> None
        \<and> v \<notin> snd ` set (snd (promotions fingerprint dump load sys schedule)))"
proof (induction schedule rule: rev_induct)
  case Nil
  then show ?case by (simp add: promotions_def versions_ok_def)
next
  case (snoc p schedule)
  let ?st = "promotions fingerprint dump load sys schedule"
  have "link_event (fst ?st) p = [] \<or> (\<exists>v. link_event (fst ?st) p = [(p, v)] \<and> map_of (di_names (fst (fst ?st))) (version_file v) = None)"
    by (cases "link_event (fst ?st) p = []") (auto elim: link_event_cases [of "fst ?st" p])
  then have ev: "fst ` set (link_event (fst ?st) p) \<subseteq> {p}" "\<And>v. v \<in> snd ` set (link_event (fst ?st) p) \<Longrightarrow> map_of (di_names (fst (fst ?st))) (version_file v) = None"
    by auto
  have log: "set (snd (logged_step fingerprint dump load ?st p)) = set (snd ?st) \<union> set (link_event (fst ?st) p)" by (simp add: logged_step_def)
  have dir: "fst (fst (logged_step fingerprint dump load ?st p)) = fst (system_step fingerprint dump load (fst ?st) p)" by (simp add: logged_step_def)
  have a: "versions_ok (logged_step fingerprint dump load ?st p)" by (rule versions_ok_step [OF conjunct1 [OF snoc]])
  have b: "fst ` set (snd (logged_step fingerprint dump load ?st p)) \<subseteq> set (schedule @ [p])" using conjunct1 [OF conjunct2 [OF snoc]] ev(1) unfolding log by auto
  have c: "map_of (di_names (fst (fst (logged_step fingerprint dump load ?st p)))) (version_file v) \<noteq> None
      \<and> v \<notin> snd ` set (snd (logged_step fingerprint dump load ?st p))" if "map_of (di_names (fst sys)) (version_file v) \<noteq> None" for v
  proof -
    have old: "map_of (di_names (fst (fst ?st))) (version_file v) \<noteq> None" "v \<notin> snd ` set (snd ?st)"
      using conjunct2 [OF conjunct2 [OF snoc], rule_format, of v] that by (simp_all only: simp_thms not_False_eq_True)
    have "v \<notin> snd ` set (link_event (fst ?st) p)" using old(1) ev(2) [of v] by (rule contrapos_nn)
    then show ?thesis using old(2) step_keeps_version [OF old(1)] unfolding log dir image_Un by simp
  qed
  show ?case unfolding promotions_snoc using a b c by blast
qed

lemma files_run:
  assumes "files_ok dump S sys" "set schedule \<subseteq> S" "\<forall>p \<in> S. ended_ok (snd sys p)"
  shows "files_ok dump S (fst (promotions fingerprint dump load sys schedule)) \<and> visible_kept (fst sys) (fst (fst (promotions fingerprint dump load sys schedule)))
    \<and> (\<forall>(p, v) \<in> set (snd (promotions fingerprint dump load sys schedule)).
         fs_read (fst (fst (promotions fingerprint dump load sys schedule))) (version_file v) = Some (Some (dump (own_promoted (snd sys p) v))))
    \<and> (\<forall>p \<in> S. ended_ok (snd (fst (promotions fingerprint dump load sys schedule)) p))"
  using assms(2)
proof (induction schedule rule: rev_induct)
  case Nil
  then show ?case using assms by (simp add: promotions_def visible_kept_def)
next
  case (snoc p schedule)
  let ?st = "promotions fingerprint dump load sys schedule" and ?s' = "system_step fingerprint dump load (fst (promotions fingerprint dump load sys schedule)) p"
  have p: "p \<in> S" using snoc.prems by simp
  have IH: "files_ok dump S (fst ?st)" "visible_kept (fst sys) (fst (fst ?st))" "\<And>q. q \<in> S \<Longrightarrow> ended_ok (snd (fst ?st) q)"
    "\<And>q v. (q, v) \<in> set (snd ?st) \<Longrightarrow> fs_read (fst (fst ?st)) (version_file v) = Some (Some (dump (own_promoted (snd sys q) v)))"
    using snoc by auto
  note step = files_ok_step [OF IH(1) p, where fingerprint = fingerprint and load = load]
  have same: "own_promoted (snd (fst ?st) q) v = own_promoted (snd sys q) v" for q v
    by (simp add: own_promoted_def promotions_kept)
  have kept: "fs_read (fst ?s') (version_file v) = c" if "fs_read (fst (fst ?st)) (version_file v) = c" "c \<noteq> None" for v c
    using step that unfolding visible_kept_def version_file_def by (metis fs_read_def option.map_disc_iff)
  have "visible_kept (fst sys) (fst ?s')"
    using IH(2) step unfolding visible_kept_def by (metis fs_read_def option.map_disc_iff)
  moreover have "fs_read (fst ?s') (version_file v) = Some (Some (dump (own_promoted (snd sys q) v)))"
    if "(q, v) \<in> set (snd ?st @ link_event (fst ?st) p)" for q v
  proof (cases "(q, v) \<in> set (snd ?st)")
    case True
    then show ?thesis using IH(4) kept by blast
  next
    case False
    then have "link_event (fst ?st) p \<noteq> []" "(q, v) \<in> set (link_event (fst ?st) p)" using that by auto
    then have "link_event (fst ?st) p = [(p, v)]" "q = p" by (auto simp: link_event_def split: phase.splits if_splits)
    then show ?thesis using step same by simp
  qed
  moreover have "ended_ok (snd ?s' q)" if "q \<in> S" for q
    using IH(3) [OF that] ended_ok_step [OF IH(1) p IH(3) [OF p]] by (cases "q = p") simp_all
  ultimately show ?case using step unfolding promotions_snoc logged_step_def fst_conv snd_conv by blast
qed

lemma history_files_ok:
  assumes "holds_history fingerprint dump dir h" "idle (dir, procs)" "apart S (dir, procs)"
  shows "files_ok dump S (dir, procs) \<and> (\<forall>p \<in> S. ended_ok (procs p))"
proof -
  have names: "fst ` set (di_names dir) = version_file ` {1 .. int (length h)}" using assms(1) by (simp add: holds_history_def)
  have "Temp a b \<notin> fst ` set (di_names dir)" for a b unfolding names by (auto simp: version_file_def)
  then have noTemp: "map_of (di_names dir) (Temp a b) = None" for a b by (simp add: map_of_eq_None_iff)
  have "c \<noteq> None" if "fs_read dir (Json s) = Some c" for s c
  proof -
    have "Json s \<in> version_file ` {1 .. int (length h)}" using that names by (force simp: fs_read_def dest: map_of_SomeD)
    then obtain k where "k < length h" "Json s = version_file (int k + 1)" by (auto simp: interval_image)
    then show ?thesis using assms(1) that by (auto simp: holds_history_def)
  qed
  moreover have "i < di_next dir" if "map_of (di_names dir) x = Some i" for x i
    using assms(1) that by (force simp: holds_history_def dest: map_of_SomeD)
  ultimately show ?thesis
    using assms(2,3) noTemp by (auto simp: files_ok_def names_ok_def complete_files_def file_ok_def idle_def ended_ok_def)
qed

text \<open>
  C21. However the calls of any number of concurrent promotions interleave, no version is given to two of them, none of them is given a
  version that existed before, and no process takes two. If, moreover, the contents being promoted differ within
  the first twelve digits of their hashes, then at every moment every visible version file is complete, a version file once visible is
  never changed, and the file of a version holds exactly the snapshot its process promoted.
\<close>

theorem concurrent_promotions_never_collide:
  assumes "holds_history fingerprint dump dir h" "idle (dir, procs)"
    and "st = promotions fingerprint dump load (dir, procs) schedule"
  shows "distinct (map snd (snd st)) \<and> distinct (map fst (snd st))
    \<and> (\<forall>(p, v) \<in> set (snd st). map_of (di_names dir) (version_file v) = None \<and> map_of (di_names (fst (fst st))) (version_file v) \<noteq> None)
    \<and> (apart (set schedule) (dir, procs) \<longrightarrow>
         complete_files (fst (fst st)) \<and> visible_kept dir (fst (fst st))
         \<and> (\<forall>(p, v) \<in> set (snd st). fs_read (fst (fst st)) (version_file v) = Some (Some (dump (own_promoted (procs p) v)))))"
proof -
  have run: "versions_ok st" "\<And>v. map_of (di_names dir) (version_file v) \<noteq> None \<Longrightarrow> v \<notin> snd ` set (snd st)"
    using versions_run [OF assms(2), of fingerprint dump load schedule] by (auto simp: assms(3))
  have "map_of (di_names dir) (version_file v) = None \<and> map_of (di_names (fst (fst st))) (version_file v) \<noteq> None" if "(p, v) \<in> set (snd st)" for p v
    using run that by (force simp: versions_ok_def)
  moreover have "complete_files (fst (fst st)) \<and> visible_kept dir (fst (fst st))
      \<and> (\<forall>(p, v) \<in> set (snd st). fs_read (fst (fst st)) (version_file v) = Some (Some (dump (own_promoted (procs p) v))))"
    if "apart (set schedule) (dir, procs)"
  proof -
    have f: "files_ok dump (set schedule) (dir, procs)" "\<forall>p \<in> set schedule. ended_ok (snd (dir, procs) p)"
      using history_files_ok [OF assms(1,2) that] by auto
    show ?thesis using files_run [OF f(1) subset_refl f(2), of fingerprint load] by (simp add: assms(3) files_ok_def)
  qed
  ultimately show ?thesis using run(1) by (auto simp: versions_ok_def)
qed

definition demo_processes :: "nat \<Rightarrow> process" where
  "demo_processes p = \<lparr>pr_candidate = demo_candidate\<lparr>us_content_sha256 := replicate 64 (if p = 0 then CHR ''0'' else CHR ''1'')\<rparr>,
     pr_effective_at = 0, pr_phase = Scanning\<rparr>"

lemma demo_processes_ok: "idle (empty_directory, demo_processes)" "apart {0, 1} (empty_directory, demo_processes)" "apart {0} (empty_directory, demo_processes)"
  by (auto simp: idle_def apart_def demo_processes_def)

theorem concurrent_promotions_never_collide_witness:
  "complete_files (fst (fst (promotions demo_fingerprint (\<lambda>s. s) Inr (empty_directory, demo_processes) [0, 1, 0, 1, 0, 1, 0, 1, 0, 1])))
   \<and> distinct (map snd (snd (promotions demo_fingerprint (\<lambda>s. s) Inr (empty_directory, demo_processes) [0, 1, 0, 1, 0, 1, 0, 1, 0, 1])))"
proof -
  have "apart (set [0, 1, 0, 1, 0, 1, 0, 1, 0, 1]) (empty_directory :: universe_snapshot directory, demo_processes)"
  proof -
    have "set [0, 1, 0, 1, 0, 1, 0, 1, 0, 1] = {0, 1 :: nat}" by auto
    then show ?thesis using demo_processes_ok(2) by (simp only:)
  qed
  then show ?thesis
    using concurrent_promotions_never_collide [where dump = "\<lambda>s. s" and load = Inr and schedule = "[0, 1, 0, 1, 0, 1, 0, 1, 0, 1]",
        OF history_empty demo_processes_ok(1) refl] by blast
qed

text \<open>
  C24. Every promotion ends with a snapshot of its content: among at most 64 concurrent promotions whose contents differ within the first twelve
  digits of their hashes, a process that is scheduled often enough, however the others are interleaved, finishes with a snapshot of exactly
  the content it was asked to promote, and neither runs out of retries nor fails.
\<close>

theorem every_promotion_finishes:
  assumes "holds_history fingerprint dump dir h" "idle (dir, procs)" "apart (set schedule) (dir, procs)"
    and "card (set schedule) \<le> 64" "322 \<le> count_list schedule p"
  shows "\<exists>s. pr_phase (snd (fst (promotions fingerprint dump load (dir, procs) schedule)) p) = Finished s
    \<and> us_content_sha256 s = us_content_sha256 (pr_candidate (procs p))"
proof -
  let ?st = "promotions fingerprint dump load (dir, procs) schedule"
  let ?ph = "pr_phase (snd (fst ?st) p)"
  have in_schedule: "p \<in> set schedule" using assms(5) by (metis count_notin not_numeral_le_zero)
  have retries: "retries_ok ((dir, procs), [])" using assms(2) by (simp add: retries_ok_def idle_def)
  have rank: "rank ?ph \<le> rank (pr_phase (procs p)) - count_list schedule p" "retries_ok ?st"
    using rank_run [OF retries, of fingerprint dump load schedule p] by simp_all
  have "rank (pr_phase (procs p)) = 322" using assms(2) by (simp add: idle_def max_allocation_retries_def)
  then have "rank ?ph = 0" using rank(1) assms(5) by simp
  moreover have ok: "retry_ok (fst (fst ?st)) (length (snd ?st)) ?ph" using rank(2) by (simp add: retries_ok_def)
  ultimately have ends: "(\<exists>s. ?ph = Finished s) \<or> (\<exists>e. ?ph = Failed e)" by (rule rank_zero [rotated])
  have f: "files_ok dump (set schedule) (dir, procs)" "\<forall>p \<in> set schedule. ended_ok (snd (dir, procs) p)"
    using history_files_ok [OF assms(1-3)] by auto
  have ended: "ended_ok (snd (fst ?st) p)"
    using files_run [OF f(1) subset_refl f(2), of fingerprint load] in_schedule by blast
  have "?ph \<noteq> Failed e" for e
  proof
    assume failed: "?ph = Failed e"
    then have many: "64 \<le> length (snd ?st)" using ended ok by (simp add: ended_ok_def max_allocation_retries_def)
    have v: "versions_ok ?st" "fst ` set (snd ?st) \<subseteq> set schedule"
      using versions_run [OF assms(2), of fingerprint dump load schedule] by auto
    have "p \<notin> fst ` set (snd ?st)" using v(1) failed by (force simp: versions_ok_def took_def)
    then have "fst ` set (snd ?st) \<subseteq> set schedule - {p}" using v(2) by blast
    then have "card (fst ` set (snd ?st)) \<le> card (set schedule - {p})" by (intro card_mono) simp_all
    also have "\<dots> < card (set schedule)" using in_schedule by (intro psubset_card_mono) auto
    finally show False using many assms(4) v(1) distinct_card [of "map fst (snd ?st)"] by (simp add: versions_ok_def)
  qed
  then obtain s where "?ph = Finished s" using ends by blast
  then show ?thesis using ended by (simp add: ended_ok_def promotions_kept)
qed

theorem every_promotion_finishes_witness:
  "\<exists>s. pr_phase (snd (fst (promotions demo_fingerprint (\<lambda>s. s) Inr (empty_directory, demo_processes) (replicate 322 0))) 0) = Finished s"
proof -
  have set: "set (replicate 322 (0::nat)) = {0}" by (rule set_replicate) simp
  have n: "count_list (replicate k (0::nat)) 0 = k" for k by (induction k) simp_all
  have "apart (set (replicate 322 0)) (empty_directory :: universe_snapshot directory, demo_processes)" unfolding set by (rule demo_processes_ok(3))
  moreover have "card (set (replicate 322 (0::nat))) \<le> 64" unfolding set by simp
  moreover have "322 \<le> count_list (replicate 322 (0::nat)) 0" unfolding n by simp
  ultimately show ?thesis
    using every_promotion_finishes [where dump = "\<lambda>s. s" and load = Inr, OF history_empty demo_processes_ok(1)] by blast
qed

section \<open>Identical contents\<close>

definition same_content :: "universe_snapshot \<Rightarrow> nat \<Rightarrow> process" where
  "same_content c p = \<lparr>pr_candidate = c, pr_effective_at = int p, pr_phase = Scanning\<rparr>"

lemmas run_simps =
  promotions_def logged_step_def system_step_def promotion_call_def link_event_def same_content_def empty_directory_def find_by_content_def
  iter_promoted_def json_stems_def existing_versions_def next_version_def fs_open_def fs_write_def fs_link_def fs_unlink_def max_allocation_retries_def
  own_temp_def version_file_def temp_file_def

text \<open>
  Without that proviso two promotions of the same content collide, because both write through the same temporary file: an
  interleaving of two of them makes version 1 visible while its file is empty, so that reading it raises, and lets the second
  promotion fail with \<^verbatim>\<open>FileNotFoundError\<close> although it should return the snapshot the first one promoted.
\<close>

lemma identical_promotions_collide:
  "get_by_version fingerprint load (fst (fst (promotions fingerprint dump load (empty_directory, same_content c) [0, 0, 0, 0, 1, 1, 1, 0]))) 1
     = Inl (ValidationError ''Invalid JSON'')
   \<and> pr_phase (snd (fst (promotions fingerprint dump load (empty_directory, same_content c) [0, 0, 0, 0, 1, 1, 1, 0, 0, 1, 1, 1])) 1)
     = Failed (OSError ''FileNotFoundError'')"
  by (simp add: run_simps get_by_version_def model_validate_json_def fs_read_def)

end
