(* ===== verification/Decimal_Arithmetic.thy ===== *)
theory Decimal_Arithmetic
  imports Apex_Prelude
begin

text \<open>
  The part of Python's \<^verbatim>\<open>decimal\<close> module the strategy calculators use. A finite decimal is its rational value; an operation of a
  context computes the exact result and rounds it to the context's number of significant digits in the context's rounding
  mode. Exponent limits (a million digits away from any price) and the special values, which canonical prices exclude, are left out.
  Shown: the relative error of an operation, and that rounding keeps order and sign.
\<close>

datatype rounding =
    ROUND_CEILING | ROUND_FLOOR | ROUND_UP | ROUND_DOWN | ROUND_HALF_UP | ROUND_HALF_DOWN | ROUND_HALF_EVEN | ROUND_05UP

record decimal_context =
  dc_prec :: nat
  dc_rounding :: rounding

definition default_context :: decimal_context where
  "default_context = \<lparr>dc_prec = 28, dc_rounding = ROUND_HALF_EVEN\<rparr>"

definition round_int :: "rounding \<Rightarrow> rat \<Rightarrow> int" where
  "round_int mode m =
     (let f = \<lfloor>m\<rfloor>; frac = m - of_int f; up = f + 1; zero = (if 0 < m then f else up); away = (if 0 < m then up else f)
      in if frac = 0 then f
         else case mode of
           ROUND_CEILING \<Rightarrow> up
         | ROUND_FLOOR \<Rightarrow> f
         | ROUND_UP \<Rightarrow> away
         | ROUND_DOWN \<Rightarrow> zero
         | ROUND_HALF_UP \<Rightarrow> if frac < 1/2 then f else if frac > 1/2 then up else away
         | ROUND_HALF_DOWN \<Rightarrow> if frac < 1/2 then f else if frac > 1/2 then up else zero
         | ROUND_HALF_EVEN \<Rightarrow> if frac < 1/2 then f else if frac > 1/2 then up else if even f then f else up
         | ROUND_05UP \<Rightarrow> if \<bar>zero\<bar> mod 5 = 0 then away else zero)"

fun ndigits :: "nat \<Rightarrow> nat" where
  "ndigits n = (if n < 10 then 1 else Suc (ndigits (n div 10)))"

declare ndigits.simps [simp del]

text \<open>The exponent of the leading digit of a non-zero value.\<close>

definition adjusted :: "rat \<Rightarrow> int" where
  "adjusted x =
     (case quotient_of \<bar>x\<bar> of (p, q) \<Rightarrow>
        let e = int (ndigits (nat p)) - int (ndigits (nat q))
        in if 10 powi e \<le> \<bar>x\<bar> then e else e - 1)"

definition round_to :: "decimal_context \<Rightarrow> rat \<Rightarrow> rat" where
  "round_to dc x =
     (if x = 0 then 0
      else let ulp = 10 powi (adjusted x - int (dc_prec dc) + 1)
           in of_int (round_int (dc_rounding dc) (x / ulp)) * ulp)"

definition dec_add :: "decimal_context \<Rightarrow> decimal \<Rightarrow> decimal \<Rightarrow> decimal" where
  "dec_add dc a b = round_to dc (a + b)"

definition dec_sub :: "decimal_context \<Rightarrow> decimal \<Rightarrow> decimal \<Rightarrow> decimal" where
  "dec_sub dc a b = round_to dc (a - b)"

definition dec_mul :: "decimal_context \<Rightarrow> decimal \<Rightarrow> decimal \<Rightarrow> decimal" where
  "dec_mul dc a b = round_to dc (a * b)"

definition dec_div :: "decimal_context \<Rightarrow> decimal \<Rightarrow> decimal \<Rightarrow> decimal" where
  "dec_div dc a b = round_to dc (a / b)"

definition dec_neg :: "decimal_context \<Rightarrow> decimal \<Rightarrow> decimal" where
  "dec_neg dc a = round_to dc (- a)"

definition dec_abs :: "decimal_context \<Rightarrow> decimal \<Rightarrow> decimal" where
  "dec_abs dc a = round_to dc \<bar>a\<bar>"

lemmas dec_op_defs = dec_add_def dec_sub_def dec_mul_def dec_div_def dec_neg_def dec_abs_def

section \<open>Rounding to an integer\<close>

lemma round_int_between: "\<lfloor>m\<rfloor> \<le> round_int mode m \<and> round_int mode m \<le> \<lceil>m\<rceil>"
proof (cases "m = of_int \<lfloor>m\<rfloor>")
  case True
  then show ?thesis by (simp add: round_int_def Let_def)
next
  case False
  then have "\<lceil>m\<rceil> = \<lfloor>m\<rfloor> + 1" by (metis ceiling_altdef)
  then show ?thesis by (auto simp: round_int_def Let_def split: rounding.splits)
qed

lemma round_int_of_int [simp]: "round_int mode (of_int n) = n"
  by (simp add: round_int_def)

lemma round_int_error: "\<bar>of_int (round_int mode m) - m\<bar> < 1"
proof -
  have "of_int \<lfloor>m\<rfloor> \<le> (of_int (round_int mode m) :: rat)" "(of_int (round_int mode m) :: rat) \<le> of_int \<lceil>m\<rceil>"
    using round_int_between [of m mode] by simp_all
  then show ?thesis using floor_correct [of m] ceiling_correct [of m] by linarith
qed

lemma round_int_ge: "of_int n \<le> m \<Longrightarrow> n \<le> round_int mode m"
  using round_int_between [of m mode] by (meson le_floor_iff order_trans)

lemma round_int_le: "m \<le> of_int n \<Longrightarrow> round_int mode m \<le> n"
  using round_int_between [of m mode] by (meson ceiling_le_iff order_trans)

section \<open>The leading digit\<close>

lemma ndigits_pos: "0 < ndigits n"
  by (subst ndigits.simps) simp

lemma ndigits_bounds: "0 < n \<Longrightarrow> 10 ^ (ndigits n - 1) \<le> n \<and> n < 10 ^ ndigits n"
proof (induction n rule: ndigits.induct)
  case (1 n)
  show ?case
  proof (cases "n < 10")
    case True
    then show ?thesis using 1 by (simp add: ndigits.simps [of n])
  next
    case False
    then have IH: "10 ^ (ndigits (n div 10) - 1) \<le> n div 10" "n div 10 < 10 ^ ndigits (n div 10)" using 1 by auto
    obtain k where k: "ndigits (n div 10) = Suc k" using ndigits_pos [of "n div 10"] gr0_implies_Suc by blast
    then have "10 * 10 ^ k \<le> n" "n < 100 * 10 ^ k" using IH by simp_all
    then show ?thesis using False k by (simp add: ndigits.simps [of n])
  qed
qed

lemma adjusted_bounds:
  assumes "x \<noteq> 0"
  shows "10 powi adjusted x \<le> \<bar>x\<bar>" "\<bar>x\<bar> < 10 powi (adjusted x + 1)"
proof -
  obtain p q where pq: "quotient_of \<bar>x\<bar> = (p, q)" by fastforce
  have q: "0 < q" using quotient_of_denom_pos [OF pq] .
  have x: "\<bar>x\<bar> = of_int p / of_int q" using quotient_of_div [OF pq] .
  have p: "0 < p" using x q assms by (metis abs_ge_zero abs_zero div_0 divide_eq_0_iff linorder_neqE_linordered_idom of_int_0 of_int_pos abs_eq_0 divide_neg_pos leD of_int_less_0_iff)
  define dp dq where "dp = ndigits (nat p)" and "dq = ndigits (nat q)"
  have "10 ^ (dp - 1) \<le> nat p" "nat p < 10 ^ dp" "10 ^ (dq - 1) \<le> nat q" "nat q < 10 ^ dq"
    using ndigits_bounds [of "nat p"] ndigits_bounds [of "nat q"] p q by (simp_all add: dp_def dq_def)
  then have "(10 :: int) ^ (dp - 1) \<le> p" "p < 10 ^ dp" "10 ^ (dq - 1) \<le> q" "q < 10 ^ dq"
    using p q by (simp_all add: nat_less_iff le_nat_iff)
  then have rp: "(10 :: rat) ^ (dp - 1) \<le> of_int p" "of_int p < (10 :: rat) ^ dp" "(10 :: rat) ^ (dq - 1) \<le> of_int q" "of_int q < (10 :: rat) ^ dq"
    by (metis of_int_le_iff of_int_less_iff of_int_numeral of_int_power)+
  have pos: "0 < dp" "0 < dq" by (simp_all add: dp_def dq_def ndigits_pos)
  have pow: "(10 :: rat) powi (int a - int b) = 10 ^ a / 10 ^ b" for a b
    by (simp add: power_int_diff)
  have low: "10 powi (int dp - int dq - 1) \<le> \<bar>x\<bar>"
  proof -
    have "(10 :: rat) powi (int dp - int dq - 1) = 10 ^ (dp - 1) / 10 ^ dq" using pow [of "dp - 1" dq] pos by (simp add: of_nat_diff algebra_simps)
    also have "\<dots> \<le> of_int p / of_int q" using rp q p by (intro frac_le) auto
    finally show ?thesis by (simp add: x)
  qed
  have high: "\<bar>x\<bar> < 10 powi (int dp - int dq + 1)"
  proof -
    have "\<bar>x\<bar> < 10 ^ dp / 10 ^ (dq - 1)" unfolding x using rp q p by (intro frac_less) auto
    also have "\<dots> = 10 powi (int dp - int dq + 1)" using pow [of dp "dq - 1"] pos by (simp add: of_nat_diff algebra_simps)
    finally show ?thesis .
  qed
  show "10 powi adjusted x \<le> \<bar>x\<bar>" "\<bar>x\<bar> < 10 powi (adjusted x + 1)"
    using low high by (auto simp: adjusted_def pq Let_def dp_def dq_def)
qed

section \<open>Error and sign of an operation\<close>

definition unit_error :: "decimal_context \<Rightarrow> rat" where
  "unit_error dc = 10 powi (1 - int (dc_prec dc))"

lemma unit_error_pos: "0 < unit_error dc"
  by (simp add: unit_error_def)

lemma round_to_0 [simp]: "round_to dc 0 = 0"
  by (simp add: round_to_def)

lemma round_to_error: "\<bar>round_to dc x - x\<bar> \<le> unit_error dc * \<bar>x\<bar>"
proof (cases "x = 0")
  case False
  define ulp :: rat where "ulp = 10 powi (adjusted x - int (dc_prec dc) + 1)"
  have pos: "0 < ulp" by (simp add: ulp_def)
  have "round_to dc x - x = (of_int (round_int (dc_rounding dc) (x / ulp)) - x / ulp) * ulp"
    using False pos by (simp add: round_to_def ulp_def Let_def algebra_simps)
  then have "\<bar>round_to dc x - x\<bar> = \<bar>of_int (round_int (dc_rounding dc) (x / ulp)) - x / ulp\<bar> * ulp"
    using pos by (simp add: abs_mult)
  also have "\<dots> \<le> 1 * ulp" using round_int_error [of "dc_rounding dc" "x / ulp"] pos by (intro mult_right_mono) simp_all
  also have "\<dots> = unit_error dc * 10 powi adjusted x"
    by (simp add: ulp_def unit_error_def add.commute add_diff_eq flip: power_int_add)
  also have "\<dots> \<le> unit_error dc * \<bar>x\<bar>"
    using adjusted_bounds(1) [OF False] unit_error_pos [of dc] by (intro mult_left_mono) simp_all
  finally show ?thesis .
qed simp

lemma round_to_nonneg: "0 \<le> x \<Longrightarrow> 0 \<le> round_to dc x"
  using round_int_ge [of 0] by (auto simp: round_to_def Let_def intro!: mult_nonneg_nonneg)

lemma round_to_pos:
  assumes "0 < x" "unit_error dc < 1"
  shows "0 < round_to dc x"
proof -
  have "unit_error dc * x < 1 * x" using assms by (intro mult_strict_right_mono)
  moreover have "\<bar>round_to dc x - x\<bar> \<le> unit_error dc * x" using round_to_error [of dc x] assms(1) by simp
  ultimately show ?thesis by linarith
qed

section \<open>Representable values\<close>

definition representable :: "decimal_context \<Rightarrow> rat \<Rightarrow> bool" where
  "representable dc x \<longleftrightarrow> (\<exists>n e. x = of_int n * 10 powi e \<and> \<bar>n\<bar> < 10 ^ dc_prec dc)"

lemma representable_uminus [simp]: "representable dc (- x) = representable dc x"
proof -
  have "representable dc (- y)" if "representable dc y" for y
  proof -
    from that obtain n e where "y = of_int n * 10 powi e" "\<bar>n\<bar> < 10 ^ dc_prec dc" by (auto simp: representable_def)
    then have "- y = of_int (- n) * 10 powi e" "\<bar>- n\<bar> < 10 ^ dc_prec dc" by simp_all
    then show ?thesis unfolding representable_def by blast
  qed
  from this [of x] this [of "- x"] show ?thesis by auto
qed

lemma round_to_representable:
  assumes "representable dc x"
  shows "round_to dc x = x"
proof (cases "x = 0")
  case False
  obtain n e where x: "x = of_int n * 10 powi e" and n: "\<bar>n\<bar> < 10 ^ dc_prec dc" using assms by (auto simp: representable_def)
  define u where "u = adjusted x - int (dc_prec dc) + 1"
  have "\<bar>x\<bar> = \<bar>of_int n\<bar> * 10 powi e" by (simp add: x abs_mult)
  also have "\<dots> < 10 ^ dc_prec dc * 10 powi e"
  proof (rule mult_strict_right_mono)
    have "(of_int \<bar>n\<bar> :: rat) < of_int (10 ^ dc_prec dc)" using n by (simp only: of_int_less_iff)
    then show "\<bar>of_int n :: rat\<bar> < 10 ^ dc_prec dc" by simp
  qed simp
  also have "\<dots> = 10 powi (int (dc_prec dc) + e)" by (simp add: power_int_add)
  finally have "10 powi adjusted x < (10 :: rat) powi (int (dc_prec dc) + e)" using adjusted_bounds(1) [OF False] by simp
  then have "adjusted x < int (dc_prec dc) + e" by (rule contrapos_pp) (simp add: not_less power_int_increasing)
  then have e: "0 \<le> e - u" by (simp add: u_def)
  have "x / 10 powi u = of_int n * 10 powi (e - u)" by (simp add: x power_int_diff)
  also have "\<dots> = of_int (n * 10 ^ nat (e - u))" using e by (simp add: power_int_def)
  finally have "round_int (dc_rounding dc) (x / 10 powi u) = n * 10 ^ nat (e - u)" by (simp only: round_int_of_int)
  moreover have "(10 :: rat) ^ nat (e - u) * 10 powi u = 10 powi (e - u + u)"
    using e unfolding power_int_add [OF disjI1 [OF numeral_neq_zero]] by (simp add: power_int_def)
  then have "of_int (n * 10 ^ nat (e - u)) * 10 powi u = x" by (simp add: x)
  ultimately show ?thesis using False by (simp add: round_to_def Let_def u_def)
qed simp

section \<open>Order\<close>

lemma round_int_mono:
  assumes "m \<le> m'"
  shows "round_int mode m \<le> round_int mode m'"
proof (cases "\<lfloor>m\<rfloor> < \<lfloor>m'\<rfloor>")
  case True
  have "round_int mode m \<le> \<lceil>m\<rceil>" "\<lfloor>m'\<rfloor> \<le> round_int mode m'" by (simp_all add: round_int_between)
  moreover have "\<lceil>m\<rceil> \<le> \<lfloor>m\<rfloor> + 1" by (simp add: ceiling_altdef)
  ultimately show ?thesis using True by linarith
next
  case False
  then have fl: "\<lfloor>m'\<rfloor> = \<lfloor>m\<rfloor>" using floor_mono [OF assms] by simp
  show ?thesis
  proof (cases "m = of_int \<lfloor>m\<rfloor>")
    case True
    then have "round_int mode m = \<lfloor>m\<rfloor>" by (metis round_int_of_int)
    then show ?thesis using round_int_between [of m' mode] fl by simp
  next
    case ne: False
    then have "of_int \<lfloor>m\<rfloor> < m" using of_int_floor_le [of m] by linarith
    then have ne': "m' \<noteq> of_int \<lfloor>m\<rfloor>" using assms by linarith
    have pos: "0 < m \<longleftrightarrow> 0 < m'"
    proof
      assume "0 < m'"
      then have "0 \<le> \<lfloor>m\<rfloor>" using fl by (metis less_imp_le zero_le_floor)
      then have "0 \<le> (of_int \<lfloor>m\<rfloor> :: rat)" by simp
      then show "0 < m" using \<open>of_int \<lfloor>m\<rfloor> < m\<close> by linarith
    qed (use assms in linarith)
    show ?thesis using ne ne' assms fl
      by (cases mode) (auto simp: round_int_def Let_def pos)
  qed
qed

lemma round_to_le_power:
  assumes "x \<noteq> 0" "1 \<le> dc_prec dc"
  shows "\<bar>round_to dc x\<bar> \<le> 10 powi (adjusted x + 1)" "10 powi adjusted x \<le> \<bar>round_to dc x\<bar>"
    "0 < x \<Longrightarrow> 0 < round_to dc x" "x < 0 \<Longrightarrow> round_to dc x < 0"
proof -
  define u where "u = adjusted x - int (dc_prec dc) + 1"
  define n where "n = round_int (dc_rounding dc) (x / 10 powi u)"
  have r: "round_to dc x = of_int n * 10 powi u" using assms by (simp add: round_to_def Let_def u_def n_def)
  have up: "(0 :: rat) < 10 powi u" by simp
  obtain k where k: "dc_prec dc = Suc k" using assms(2) by (cases "dc_prec dc") simp_all
  have au: "(10 :: rat) powi adjusted x = 10 ^ k * 10 powi u"
    by (simp add: u_def k flip: power_int_of_nat power_int_add)
  have au1: "(10 :: rat) powi (adjusted x + 1) = 10 ^ Suc k * 10 powi u" by (simp add: power_int_add au)
  have b: "10 ^ k \<le> \<bar>x / 10 powi u\<bar>" "\<bar>x / 10 powi u\<bar> \<le> 10 ^ Suc k"
    using adjusted_bounds [OF assms(1)] up by (simp_all add: abs_divide au au1 pos_le_divide_eq pos_divide_le_eq)
  have K: "(10 :: rat) ^ k = of_int (10 ^ k)" "(10 :: rat) ^ Suc k = of_int (10 ^ Suc k)" by simp_all
  have n: "if 0 < x then 10 ^ k \<le> n \<and> n \<le> 10 ^ Suc k else - (10 ^ Suc k) \<le> n \<and> n \<le> - (10 ^ k)"
  proof (cases "0 < x")
    case True
    then have "of_int (10 ^ k) \<le> x / 10 powi u" "x / 10 powi u \<le> of_int (10 ^ Suc k)" using b up unfolding K by simp_all
    then show ?thesis using True round_int_ge round_int_le unfolding n_def by auto
  next
    case False
    then have "x / 10 powi u \<le> 0" using assms(1) up by (simp add: divide_nonpos_pos)
    then have "of_int (- (10 ^ Suc k)) \<le> x / 10 powi u" "x / 10 powi u \<le> of_int (- (10 ^ k))" using b unfolding K by simp_all
    then show ?thesis using False round_int_ge round_int_le unfolding n_def by presburger
  qed
  have ten: "(0 :: int) < 10 ^ k" by simp
  then have "10 ^ k \<le> \<bar>n\<bar>" "\<bar>n\<bar> \<le> 10 ^ Suc k" using n by (auto split: if_splits)
  then have "of_int (10 ^ k) \<le> (of_int \<bar>n\<bar> :: rat)" "(of_int \<bar>n\<bar> :: rat) \<le> of_int (10 ^ Suc k)" by (simp_all only: of_int_le_iff)
  then have bn: "10 ^ k \<le> \<bar>of_int n :: rat\<bar>" "\<bar>of_int n :: rat\<bar> \<le> 10 ^ Suc k" by simp_all
  show "\<bar>round_to dc x\<bar> \<le> 10 powi (adjusted x + 1)" "10 powi adjusted x \<le> \<bar>round_to dc x\<bar>"
    unfolding r au au1 abs_mult using bn up by (simp_all add: mult_right_mono)
  have "0 < x \<Longrightarrow> 10 ^ k \<le> n" "x < 0 \<Longrightarrow> n \<le> - (10 ^ k)" using n by simp_all
  then have "0 < x \<Longrightarrow> 0 < n" "x < 0 \<Longrightarrow> n < 0" using ten by linarith+
  then show "0 < x \<Longrightarrow> 0 < round_to dc x" "x < 0 \<Longrightarrow> round_to dc x < 0"
    using up by (simp_all add: r mult_less_0_iff)
qed

lemma round_to_mono_same:
  assumes "x \<noteq> 0" "y \<noteq> 0" "x \<le> y" "adjusted x = adjusted y"
  shows "round_to dc x \<le> round_to dc y"
proof -
  have "round_int (dc_rounding dc) (x / 10 powi (adjusted y - int (dc_prec dc) + 1)) \<le>
      round_int (dc_rounding dc) (y / 10 powi (adjusted y - int (dc_prec dc) + 1))"
    using assms(3) by (intro round_int_mono divide_right_mono) simp_all
  then show ?thesis using assms by (simp add: round_to_def Let_def mult_right_mono)
qed

lemma adjusted_less:
  assumes "x \<noteq> 0" "y \<noteq> 0" "\<bar>x\<bar> \<le> \<bar>y\<bar>" "adjusted x \<noteq> adjusted y"
  shows "10 powi (adjusted x + 1) \<le> (10 :: rat) powi adjusted y"
proof -
  have "10 powi adjusted x < (10 :: rat) powi (adjusted y + 1)"
    using adjusted_bounds(1) [OF assms(1)] adjusted_bounds(2) [OF assms(2)] assms(3) by linarith
  then have "adjusted x < adjusted y + 1" by (rule contrapos_pp) (simp add: not_less power_int_increasing)
  then show ?thesis using assms(4) by (simp add: power_int_increasing)
qed

lemma round_to_mono:
  assumes "x \<le> y" "1 \<le> dc_prec dc"
  shows "round_to dc x \<le> round_to dc y"
proof -
  note b = round_to_le_power [OF _ assms(2)]
  consider "x = 0 \<or> y = 0 \<or> x < 0 \<and> 0 < y" | "0 < x" "0 < y" | "x < 0" "y < 0" using assms(1) by linarith
  then show ?thesis
  proof cases
    case 1
    then show ?thesis using assms(1) b(3) [of y] b(4) [of x] by (cases "x = 0"; cases "y = 0") auto
  next
    case 2
    show ?thesis
    proof (cases "adjusted x = adjusted y")
      case False
      then show ?thesis using adjusted_less [of x y] b(1) [of x] b(2,3) [of y] 2 assms(1) by simp
    qed (use 2 assms(1) round_to_mono_same in simp)
  next
    case 3
    show ?thesis
    proof (cases "adjusted x = adjusted y")
      case False
      then show ?thesis using adjusted_less [of y x] b(1) [of y] b(2,4) [of x] 3 assms(1) by simp
    qed (use 3 assms(1) round_to_mono_same in simp)
  qed
qed

lemma representable_round_to:
  assumes "1 \<le> dc_prec dc"
  shows "representable dc (round_to dc x)"
proof (cases "x = 0")
  case True
  then show ?thesis unfolding representable_def by (intro exI [of _ 0]) simp
next
  case False
  define u where "u = adjusted x - int (dc_prec dc) + 1"
  define n where "n = round_int (dc_rounding dc) (x / 10 powi u)"
  have r: "round_to dc x = of_int n * 10 powi u" using False by (simp add: round_to_def Let_def u_def n_def)
  have e: "(10 :: rat) powi (adjusted x + 1) = 10 ^ dc_prec dc * 10 powi u"
    by (simp add: u_def flip: power_int_of_nat power_int_add)
  have "\<bar>of_int n :: rat\<bar> * 10 powi u \<le> 10 ^ dc_prec dc * 10 powi u"
    using round_to_le_power(1) [OF False assms] by (simp add: r e abs_mult)
  then have "\<bar>of_int n :: rat\<bar> \<le> 10 ^ dc_prec dc" by simp
  then have "of_int \<bar>n\<bar> \<le> (of_int (10 ^ dc_prec dc) :: rat)" by simp
  then have "\<bar>n\<bar> \<le> 10 ^ dc_prec dc" by (simp only: of_int_le_iff)
  then consider "\<bar>n\<bar> < 10 ^ dc_prec dc" | "\<bar>n\<bar> = 10 ^ dc_prec dc" by linarith
  then show ?thesis
  proof cases
    case 1
    then show ?thesis using r unfolding representable_def by blast
  next
    case 2
    then have "n = sgn n * 10 ^ dc_prec dc" by (metis mult_sgn_abs)
    then have "round_to dc x = of_int (sgn n) * (of_int (10 ^ dc_prec dc) * 10 powi u)" unfolding r by (metis mult.assoc of_int_mult)
    then have "round_to dc x = of_int (sgn n) * 10 powi (int (dc_prec dc) + u)" by (simp add: power_int_add)
    moreover have "\<bar>sgn n\<bar> < (10 :: int) ^ dc_prec dc"
    proof -
      have "\<bar>sgn n\<bar> \<le> 1" by (simp add: sgn_if)
      moreover have "(1 :: int) < 10 ^ dc_prec dc" using assms by (simp add: one_less_power)
      ultimately show ?thesis by linarith
    qed
    ultimately show ?thesis unfolding representable_def by blast
  qed
qed

lemma round_to_idem [simp]: "1 \<le> dc_prec dc \<Longrightarrow> round_to dc (round_to dc x) = round_to dc x"
  by (rule round_to_representable) (rule representable_round_to)

lemma representable_dec_div: "1 \<le> dc_prec dc \<Longrightarrow> representable dc (dec_div dc a b)"
  by (simp add: dec_div_def representable_round_to)

lemma dec_neg_representable: "representable dc x \<Longrightarrow> dec_neg dc x = - x"
  by (simp add: dec_neg_def round_to_representable)

lemma representable_1: "1 \<le> dc_prec dc \<Longrightarrow> representable dc 1"
  unfolding representable_def by (intro exI [of _ 1] exI [of _ 0]) (simp add: one_less_power)

lemma round_to_unit_interval:
  assumes "0 \<le> x" "x \<le> 1" "1 \<le> dc_prec dc"
  shows "0 \<le> round_to dc x \<and> round_to dc x \<le> 1"
  using round_to_nonneg [OF assms(1)] round_to_mono [OF assms(2,3)] round_to_representable [OF representable_1 [OF assms(3)]] by simp

lemma round_to_pos_iff: "1 \<le> dc_prec dc \<Longrightarrow> 0 < round_to dc x \<longleftrightarrow> 0 < x"
  using round_to_le_power(3,4) [of x dc] by (cases x "0 :: rat" rule: linorder_cases) auto

lemma round_to_neg_iff: "1 \<le> dc_prec dc \<Longrightarrow> round_to dc x < 0 \<longleftrightarrow> x < 0"
  using round_to_le_power(3,4) [of x dc] by (cases x "0 :: rat" rule: linorder_cases) auto

end
