(* ===== verification/Strategy_Calculators.thy ===== *)
theory Strategy_Calculators
  imports Decimal_Arithmetic "HOL-Library.Multiset"
begin

text \<open>
  The pure calculators of the strategies (\<^verbatim>\<open>strategies/implementations/*/calculator.py\<close>): central pivot range, body, range and relative
  range of completed sessions. The ambient decimal context is an argument; \<^verbatim>\<open>localcontext\<close> replaces its precision only. Shown:
  they raise exactly on malformed prices, and how far their results are from the exact values.
\<close>

definition PRECISION :: nat where
  "PRECISION = 28"

definition local_context :: "decimal_context \<Rightarrow> decimal_context" where
  "local_context dc = dc\<lparr>dc_prec := PRECISION\<rparr>"

section \<open>Central pivot range\<close>

record cpr_result =
  cpr_pivot :: decimal
  cpr_bc :: decimal
  cpr_tc :: decimal
  cpr_bottom :: decimal
  cpr_top :: decimal
  cpr_width :: decimal
  cpr_width_pct :: decimal

definition validate_cpr :: "decimal \<Rightarrow> decimal \<Rightarrow> decimal \<Rightarrow> unit res" where
  "validate_cpr high low close =
     (if high \<le> 0 \<or> low \<le> 0 \<or> close \<le> 0 then Inl (ValueError ''CPR inputs must be strictly positive prices'')
      else if high < low then Inl (ValueError ''CPR high must be greater than or equal to low'')
      else if \<not> (low \<le> close \<and> close \<le> high) then Inl (ValueError ''CPR close must lie within the high-low range'')
      else Inr ())"

definition compute_cpr :: "decimal_context \<Rightarrow> decimal \<Rightarrow> decimal \<Rightarrow> decimal \<Rightarrow> cpr_result res" where
  "compute_cpr dc high low close =
     res_bind (validate_cpr high low close) (\<lambda>_.
       let ctx = local_context dc;
           pivot = dec_div ctx (dec_add ctx (dec_add ctx high low) close) 3;
           bc = dec_div ctx (dec_add ctx high low) 2;
           tc = dec_sub ctx (dec_mul ctx 2 pivot) bc;
           bottom = min bc tc;
           top = max bc tc;
           width = dec_sub ctx top bottom;
           width_pct = dec_mul ctx (dec_div ctx width pivot) 100
       in Inr \<lparr>cpr_pivot = pivot, cpr_bc = bc, cpr_tc = tc, cpr_bottom = bottom, cpr_top = top, cpr_width = width, cpr_width_pct = width_pct\<rparr>)"

section \<open>Body and range of a session\<close>

record body_result =
  br_previous_body :: decimal
  br_previous_body_pct :: decimal

definition compute_previous_session_body :: "decimal_context \<Rightarrow> decimal \<Rightarrow> decimal \<Rightarrow> body_result res" where
  "compute_previous_session_body dc open_price close_price =
     (if open_price \<le> 0 then Inl (ValueError ''previous-session open must be strictly positive'')
      else let ctx = local_context dc;
               body = dec_abs ctx (dec_sub ctx close_price open_price);
               pct = dec_mul ctx (dec_div ctx body open_price) 100
           in Inr \<lparr>br_previous_body = body, br_previous_body_pct = pct\<rparr>)"

record range_result =
  rg_previous_range :: decimal
  rg_previous_range_pct :: decimal

definition validate_range :: "decimal \<Rightarrow> decimal \<Rightarrow> decimal \<Rightarrow> unit res" where
  "validate_range open_price high low =
     (if open_price \<le> 0 then Inl (ValueError ''previous-session open must be strictly positive'')
      else if high < low then Inl (ValueError ''previous-session high must be greater than or equal to low'')
      else Inr ())"

definition compute_previous_session_range :: "decimal_context \<Rightarrow> decimal \<Rightarrow> decimal \<Rightarrow> decimal \<Rightarrow> range_result res" where
  "compute_previous_session_range dc open_price high low =
     res_bind (validate_range open_price high low) (\<lambda>_.
       let ctx = local_context dc;
           rng = dec_sub ctx high low;
           pct = dec_mul ctx (dec_div ctx rng open_price) 100
       in Inr \<lparr>rg_previous_range = rng, rg_previous_range_pct = pct\<rparr>)"

section \<open>Relative range\<close>

record relative_range_result =
  rr_relative_range_ratio :: decimal
  rr_previous_range_pct :: decimal
  rr_baseline_range_pct :: decimal

definition range_percent :: "decimal_context \<Rightarrow> decimal \<times> decimal \<times> decimal \<Rightarrow> decimal res" where
  "range_percent ctx ohl =
     (case ohl of (open_price, high, low) \<Rightarrow>
        if open_price \<le> 0 then Inl (ValueError ''session open must be strictly positive'')
        else Inr (dec_mul ctx (dec_div ctx (dec_sub ctx high low) open_price) 100))"

definition median :: "decimal_context \<Rightarrow> decimal list \<Rightarrow> decimal res" where
  "median ctx values =
     (let ordered = sort values; count = length ordered; mid = count div 2
      in if count = 0 then Inl (ValueError ''median requires at least one value'')
         else if count mod 2 = 1 then Inr (ordered ! mid)
         else Inr (dec_div ctx (dec_add ctx (ordered ! (mid - 1)) (ordered ! mid)) 2))"

datatype relative_range_error = Degenerate_baseline | Input_error py_error

definition compute_previous_session_relative_range ::
  "decimal_context \<Rightarrow> decimal \<times> decimal \<times> decimal \<Rightarrow> (decimal \<times> decimal \<times> decimal) list \<Rightarrow> relative_range_error + relative_range_result" where
  "compute_previous_session_relative_range dc subject baseline =
     (let ctx = local_context dc
      in case res_bind (range_percent ctx subject) (\<lambda>prev.
               res_bind (map_res (range_percent ctx) baseline) (\<lambda>pcts.
               res_bind (median ctx pcts) (\<lambda>base. Inr (prev, base)))) of
           Inl e \<Rightarrow> Inl (Input_error e)
         | Inr (prev, base) \<Rightarrow>
             (if base = 0 then Inl Degenerate_baseline
              else Inr \<lparr>rr_relative_range_ratio = dec_div ctx prev base, rr_previous_range_pct = prev, rr_baseline_range_pct = base\<rparr>))"

section \<open>Errors of one operation\<close>

lemma local_unit_error [simp]: "unit_error (local_context dc) = 1 / 10 ^ 27"
  by (simp add: unit_error_def local_context_def PRECISION_def power_int_def field_simps)

lemma local_rounding:
  assumes "\<bar>x\<bar> \<le> b"
  shows "\<bar>round_to (local_context dc) x - x\<bar> \<le> b / 10 ^ 27"
  using round_to_error [of "local_context dc" x] assms by simp

lemma local_round_pos: "0 < x \<Longrightarrow> 0 < round_to (local_context dc) x"
  by (rule round_to_pos) simp_all

section \<open>Accuracy of the central pivot range\<close>

text \<open>
  The geometry relative to the sum \<open>S\<close> of the three prices, with \<open>E\<close> the rounding error of a value of that size. Each lemma is one
  step of \<^verbatim>\<open>compute_cpr\<close>.
\<close>

lemma cpr_pivot_near:
  assumes "0 < l" "l \<le> c" "c \<le> h" and a: "\<bar>a - (h + l)\<bar> \<le> E" and S: "S = h + l + c" and E: "E = S / 10 ^ 27"
  shows "\<bar>dec_div (local_context dc) (dec_add (local_context dc) a c) 3 - S / 3\<bar> \<le> 11/10 * E"
proof -
  define s where "s = dec_add (local_context dc) a c"
  have small: "1000 * E \<le> S" "0 < E" using assms by simp_all
  have "\<bar>a + c\<bar> \<le> 11/10 * S" using small assms by linarith
  from local_rounding [OF this, of dc] have "\<bar>s - (a + c)\<bar> \<le> 11/10 * E" by (simp add: s_def dec_add_def E)
  then have s: "\<bar>s - S\<bar> \<le> 21/10 * E" using a unfolding S by linarith
  then have "\<bar>s / 3\<bar> \<le> 12/10 * S / 3" using small by linarith
  from local_rounding [OF this, of dc] have "\<bar>dec_div (local_context dc) s 3 - s / 3\<bar> \<le> 12/10 * E / 3" by (simp add: dec_div_def E)
  then show ?thesis using s small unfolding s_def by linarith
qed

lemma cpr_bc_near:
  assumes "0 < l" "l \<le> c" "c \<le> h" and a: "\<bar>a - (h + l)\<bar> \<le> E" and S: "S = h + l + c" and E: "E = S / 10 ^ 27"
  shows "\<bar>dec_div (local_context dc) a 2 - (h / 2 + l / 2)\<bar> \<le> 11/10 * E"
proof -
  have small: "1000 * E \<le> S" "0 < E" using assms by simp_all
  have "\<bar>a / 2\<bar> \<le> 11/10 * S / 2" using small assms by linarith
  from local_rounding [OF this, of dc] have "\<bar>dec_div (local_context dc) a 2 - a / 2\<bar> \<le> 11/10 * E / 2" by (simp add: dec_div_def E)
  then show ?thesis using a small by linarith
qed

lemma cpr_tc_near:
  assumes "0 < l" "l \<le> c" "c \<le> h" and p: "\<bar>pivot - S / 3\<bar> \<le> 11/10 * E" and bc: "\<bar>bc - (h / 2 + l / 2)\<bar> \<le> 11/10 * E"
    and S: "S = h + l + c" and E: "E = S / 10 ^ 27"
  shows "\<bar>dec_sub (local_context dc) (dec_mul (local_context dc) 2 pivot) bc - (2 * S / 3 - (h / 2 + l / 2))\<bar> \<le> 5 * E"
proof -
  define t where "t = dec_mul (local_context dc) 2 pivot"
  have small: "1000 * E \<le> S" "0 < E" using assms by simp_all
  have "\<bar>2 * pivot\<bar> \<le> 7/10 * S" using small p by linarith
  from local_rounding [OF this, of dc] have "\<bar>t - 2 * pivot\<bar> \<le> 7/10 * E" by (simp add: t_def dec_mul_def E)
  then have t: "\<bar>t - 2 * S / 3\<bar> \<le> 29/10 * E" using p by linarith
  have "\<bar>t - bc\<bar> \<le> S" using t bc small assms(1-3) S by linarith
  from local_rounding [OF this, of dc] have "\<bar>dec_sub (local_context dc) t bc - (t - bc)\<bar> \<le> E" by (simp add: dec_sub_def E)
  then show ?thesis using t bc unfolding t_def by linarith
qed

lemma cpr_width_near:
  assumes "0 < l" "l \<le> c" "c \<le> h" and bc: "\<bar>bc - (h / 2 + l / 2)\<bar> \<le> 11/10 * E" and tc: "\<bar>tc - (2 * S / 3 - (h / 2 + l / 2))\<bar> \<le> 5 * E"
    and S: "S = h + l + c" and E: "E = S / 10 ^ 27"
  shows "\<bar>dec_sub (local_context dc) (max bc tc) (min bc tc) - \<bar>2 * c - h - l\<bar> / 3\<bar> \<le> 65/10 * E"
proof -
  have small: "1000 * E \<le> S" "0 < E" using assms by simp_all
  have d: "max bc tc - min bc tc = \<bar>tc - bc\<bar>" by simp
  have "\<bar>(tc - bc) - (2 * c / 3 - h / 3 - l / 3)\<bar> \<le> 61/10 * E" using bc tc S by linarith
  then have "\<bar>\<bar>tc - bc\<bar> - \<bar>2 * c / 3 - h / 3 - l / 3\<bar>\<bar> \<le> 61/10 * E" using abs_triangle_ineq3 order_trans by blast
  moreover have "\<bar>2 * c / 3 - h / 3 - l / 3\<bar> = \<bar>2 * c - h - l\<bar> / 3" by (simp flip: diff_divide_distrib)
  ultimately have w: "\<bar>\<bar>tc - bc\<bar> - \<bar>2 * c - h - l\<bar> / 3\<bar> \<le> 61/10 * E" by (simp only:)
  define D where "D = \<bar>2 * c - h - l\<bar> / 3"
  have "\<bar>2 * c - h - l\<bar> \<le> S" using assms(1-3) S by linarith
  then have "D \<le> S / 3" by (simp add: D_def)
  then have "\<bar>\<bar>tc - bc\<bar>\<bar> \<le> 4/10 * S" using w small unfolding D_def [symmetric] by linarith
  from local_rounding [OF this, of dc] have near: "\<bar>dec_sub (local_context dc) (max bc tc) (min bc tc) - \<bar>tc - bc\<bar>\<bar> \<le> 4/10 * E"
    by (simp add: dec_sub_def d E)
  have step: "\<bar>x - D\<bar> \<le> 65/10 * E" if "\<bar>x - y\<bar> \<le> 4/10 * E" "\<bar>y - D\<bar> \<le> 61/10 * E" for x y
    using that by linarith
  show ?thesis using step [OF near] w by (simp only: D_def)
qed

lemma cpr_pct_near:
  assumes "0 < S" and p: "\<bar>pivot - S / 3\<bar> \<le> 11/10 * E" and w: "\<bar>width - W / 3\<bar> \<le> 65/10 * E" and "0 \<le> W" "W \<le> S" and E: "E = S / 10 ^ 27"
  shows "\<bar>dec_mul (local_context dc) (dec_div (local_context dc) width pivot) 100 - 100 * W / S\<bar> \<le> 1 / 10 ^ 23"
proof -
  define q Q e :: rat where "q = dec_div (local_context dc) width pivot" and "Q = W / S" and "e = 1 / 10 ^ 27"
  have e: "0 < e" "1000 * e \<le> 1" by (simp_all add: e_def)
  have small: "1000 * E \<le> S" "0 < E" using assms by simp_all
  have pivot: "33/100 * S \<le> pivot" using p small by linarith
  then have pos: "0 < pivot" using assms(1) by linarith
  have Q: "0 \<le> Q" "Q \<le> 1" "Q * S = W" using assms by (simp_all add: Q_def)
  have "\<bar>Q * (S / 3 - pivot)\<bar> \<le> 1 * (11/10 * E)"
    unfolding abs_mult using Q p small by (intro mult_mono) (auto simp: abs_minus_commute)
  moreover have "width - Q * pivot = width - W / 3 + Q * (S / 3 - pivot)" using Q(3) by (simp add: algebra_simps)
  ultimately have "\<bar>width - Q * pivot\<bar> \<le> 76/10 * E" using w by linarith
  then have num: "\<bar>width - Q * pivot\<bar> \<le> 24 / 10 ^ 27 * pivot" using pivot assms(1) unfolding E by simp
  have "width / pivot - Q = (width - Q * pivot) / pivot" using pos by (simp add: field_simps)
  then have "\<bar>width / pivot - Q\<bar> = \<bar>width - Q * pivot\<bar> / pivot" using pos by simp
  also have "\<dots> \<le> 24 / 10 ^ 27" using num pos by (simp add: pos_divide_le_eq)
  finally have r: "\<bar>width / pivot - Q\<bar> \<le> 24 * e" by (simp add: e_def)
  then have "\<bar>width / pivot\<bar> \<le> 2" using e Q(1,2) by linarith
  from local_rounding [OF this, of dc] have "\<bar>q - width / pivot\<bar> \<le> 2 * e" by (simp add: q_def dec_div_def e_def)
  then have q: "\<bar>q - Q\<bar> \<le> 26 * e" using r by linarith
  then have "\<bar>q * 100\<bar> \<le> 200" using e Q(1,2) by linarith
  from local_rounding [OF this, of dc] have "\<bar>dec_mul (local_context dc) q 100 - q * 100\<bar> \<le> 200 * e" by (simp add: dec_mul_def e_def)
  then have "\<bar>dec_mul (local_context dc) q 100 - 100 * Q\<bar> \<le> 10000 * e" using q e by linarith
  then show ?thesis by (simp add: q_def Q_def e_def)
qed

text \<open>
  C33. Accuracy of the central pivot range: for every well-formed session and whatever the ambient decimal context, the calculator
  returns, the pivot, the two central values and the width differ from the exact ones by at most five digits in the
  twenty-seventh place relative to the prices, the range is never inverted, and the ranking metric is within \<open>10^-23\<close> percentage points of the
  exact \<open>100 |2 C - H - L| / (H + L + C)\<close>; on every other triple it raises.
\<close>

theorem cpr_accurate:
  "if 0 < low \<and> low \<le> close \<and> close \<le> high
   then \<exists>r. compute_cpr dc high low close = Inr r
      \<and> \<bar>cpr_pivot r - (high + low + close) / 3\<bar> \<le> 5 * (high + low + close) / 10 ^ 27
      \<and> \<bar>cpr_bc r - (high + low) / 2\<bar> \<le> 5 * (high + low + close) / 10 ^ 27
      \<and> \<bar>cpr_tc r - (2 * (high + low + close) / 3 - (high + low) / 2)\<bar> \<le> 5 * (high + low + close) / 10 ^ 27
      \<and> cpr_bottom r \<le> cpr_top r \<and> 0 \<le> cpr_width r \<and> 0 \<le> cpr_width_pct r
      \<and> \<bar>cpr_width_pct r - 100 * \<bar>2 * close - high - low\<bar> / (high + low + close)\<bar> \<le> 1 / 10 ^ 23
   else \<exists>msg. compute_cpr dc high low close = Inl (ValueError msg)"
proof (cases "0 < low \<and> low \<le> close \<and> close \<le> high")
  case True
  then have prices: "0 < low" "low \<le> close" "close \<le> high" by simp_all
  define ctx where "ctx = local_context dc"
  define S where "S = high + low + close"
  define E where "E = S / 10 ^ 27"
  define a where "a = dec_add ctx high low"
  define pivot where "pivot = dec_div ctx (dec_add ctx a close) 3"
  define bc where "bc = dec_div ctx a 2"
  define tc where "tc = dec_sub ctx (dec_mul ctx 2 pivot) bc"
  define width where "width = dec_sub ctx (max bc tc) (min bc tc)"
  have ok: "validate_cpr high low close = Inr ()" using prices by (simp add: validate_cpr_def)
  have result: "compute_cpr dc high low close = Inr \<lparr>cpr_pivot = pivot, cpr_bc = bc, cpr_tc = tc, cpr_bottom = min bc tc, cpr_top = max bc tc,
      cpr_width = width, cpr_width_pct = dec_mul ctx (dec_div ctx width pivot) 100\<rparr>"
    by (simp add: compute_cpr_def ok Let_def flip: ctx_def a_def pivot_def bc_def tc_def width_def)
  have "\<bar>high + low\<bar> \<le> S" using prices by (simp add: S_def)
  from local_rounding [OF this, of dc] have a: "\<bar>a - (high + low)\<bar> \<le> E" by (simp add: a_def dec_add_def ctx_def E_def)
  have pivot: "\<bar>pivot - S / 3\<bar> \<le> 11/10 * E" unfolding pivot_def ctx_def by (rule cpr_pivot_near [OF prices a S_def E_def])
  have bc: "\<bar>bc - (high / 2 + low / 2)\<bar> \<le> 11/10 * E" unfolding bc_def ctx_def by (rule cpr_bc_near [OF prices a S_def E_def])
  have tc: "\<bar>tc - (2 * S / 3 - (high / 2 + low / 2))\<bar> \<le> 5 * E" unfolding tc_def ctx_def by (rule cpr_tc_near [OF prices pivot bc S_def E_def])
  have width: "\<bar>width - \<bar>2 * close - high - low\<bar> / 3\<bar> \<le> 65/10 * E"
    unfolding width_def ctx_def by (rule cpr_width_near [OF prices bc tc S_def E_def])
  have S: "0 < S" "\<bar>2 * close - high - low\<bar> \<le> S" using prices by (auto simp: S_def)
  have pct: "\<bar>dec_mul ctx (dec_div ctx width pivot) 100 - 100 * \<bar>2 * close - high - low\<bar> / S\<bar> \<le> 1 / 10 ^ 23"
    unfolding ctx_def by (rule cpr_pct_near [OF S(1) pivot width _ S(2) E_def]) simp
  have E: "0 < E" "1000 * E \<le> S" using S by (simp_all add: E_def)
  have w0: "0 \<le> width" unfolding width_def dec_sub_def by (rule round_to_nonneg) simp
  moreover have "0 \<le> pivot" using pivot E by linarith
  ultimately have "0 \<le> dec_mul ctx (dec_div ctx width pivot) 100" unfolding dec_mul_def dec_div_def by (intro round_to_nonneg mult_nonneg_nonneg) simp_all
  then show ?thesis
    using True result pct w0 pivot bc tc E by (simp add: S_def E_def add_divide_distrib)
next
  case False
  then show ?thesis by (auto simp: compute_cpr_def validate_cpr_def)
qed

section \<open>Relative errors\<close>

definition off_by :: "rat \<Rightarrow> rat \<Rightarrow> rat \<Rightarrow> bool" where
  "off_by r x y \<longleftrightarrow> (1 - r) * x \<le> y \<and> y \<le> (1 + r) * x"

definition eps :: rat where
  "eps = 1 / 10 ^ 27"

lemma off_by_abs: "\<bar>y - x\<bar> \<le> r * x \<Longrightarrow> off_by r x y"
  by (simp add: off_by_def algebra_simps abs_le_iff)

lemma off_by_round: "0 \<le> x \<Longrightarrow> off_by eps x (round_to (local_context dc) x)"
  using round_to_error [of "local_context dc" x] by (intro off_by_abs) (simp add: eps_def)

lemma off_by_scale: "off_by r x y \<Longrightarrow> 0 \<le> k \<Longrightarrow> off_by r (x * k) (y * k)"
  unfolding off_by_def by (metis mult.assoc mult_right_mono)

lemma off_by_trans:
  assumes "off_by r x y" "off_by s y z" "0 \<le> s" "s \<le> 1" "0 \<le> r" "0 \<le> x" "r + s + r * s \<le> t"
  shows "off_by t x z"
proof -
  have "(1 - s) * ((1 - r) * x) \<le> (1 - s) * y" "(1 + s) * y \<le> (1 + s) * ((1 + r) * x)"
    using assms by (auto simp: off_by_def intro: mult_left_mono)
  moreover have "(1 - t) * x \<le> (1 - s) * ((1 - r) * x)"
  proof -
    have "1 - t \<le> (1 - s) * (1 - r)" using assms(7) mult_nonneg_nonneg [OF assms(5,3)] by (simp add: algebra_simps)
    then show ?thesis using assms(6) by (metis mult.assoc mult_right_mono)
  qed
  moreover have "(1 + s) * ((1 + r) * x) \<le> (1 + t) * x"
  proof -
    have "(1 + s) * (1 + r) \<le> 1 + t" using assms(7) by (simp add: algebra_simps)
    then show ?thesis using assms(6) by (metis mult.assoc mult_right_mono)
  qed
  ultimately show ?thesis using assms(2) unfolding off_by_def by linarith
qed

lemma off_by_nonneg: "off_by r x y \<Longrightarrow> r \<le> 1 \<Longrightarrow> 0 \<le> x \<Longrightarrow> 0 \<le> y"
  unfolding off_by_def by (meson diff_ge_0_iff_ge mult_nonneg_nonneg order_trans)

text \<open>A percentage of a non-negative amount, as all three calculators form it.\<close>

lemma percentage_near:
  assumes "0 \<le> x" "0 < b"
  shows "off_by (4 * eps) (x / b * 100) (dec_mul (local_context dc) (dec_div (local_context dc) (round_to (local_context dc) x) b) 100)"
proof -
  define y where "y = round_to (local_context dc) x"
  define q where "q = dec_div (local_context dc) y b"
  have y: "off_by eps x y" "0 \<le> y" using assms(1) by (simp_all add: y_def off_by_round round_to_nonneg)
  then have "off_by eps (x * (1 / b)) (y * (1 / b))" using assms(2) by (intro off_by_scale) simp_all
  moreover have "off_by eps (y * (1 / b)) q"
    using off_by_round [of "y / b" dc] y assms(2) by (simp add: q_def dec_div_def)
  ultimately have "off_by (5/2 * eps) (x * (1 / b)) q" by (rule off_by_trans) (use assms in \<open>simp_all add: eps_def\<close>)
  then have q: "off_by (5/2 * eps) (x / b * 100) (q * 100)" "0 \<le> q"
    using off_by_scale [of "5/2 * eps" "x * (1 / b)" q 100] off_by_nonneg [of "5/2 * eps" "x * (1 / b)" q] assms by (simp_all add: eps_def)
  have "off_by eps (q * 100) (dec_mul (local_context dc) q 100)"
    using off_by_round [of "q * 100" dc] q by (simp add: dec_mul_def)
  from off_by_trans [OF q(1) this, of "4 * eps"] show ?thesis using assms by (simp add: q_def y_def eps_def)
qed

lemma range_near:
  assumes "0 < open_price" "low \<le> high"
  shows "\<exists>r. compute_previous_session_range dc open_price high low = Inr r
    \<and> off_by (4 * eps) ((high - low) / open_price * 100) (rg_previous_range_pct r)"
  using percentage_near [of "high - low" open_price dc] assms
  by (simp add: compute_previous_session_range_def validate_range_def Let_def dec_sub_def)

lemma range_percent_near:
  assumes "0 < open_price" "low \<le> high"
  shows "\<exists>p. range_percent (local_context dc) (open_price, high, low) = Inr p \<and> off_by (4 * eps) ((high - low) / open_price * 100) p"
  using percentage_near [of "high - low" open_price dc] assms by (simp add: range_percent_def dec_sub_def)

section \<open>Order statistics\<close>

lemma sorted_nth_le_iff: "sorted ys \<Longrightarrow> k < length ys \<Longrightarrow> ys ! k \<le> v \<longleftrightarrow> k < length (filter (\<lambda>x. x \<le> v) ys)"
proof (induction ys arbitrary: k)
  case (Cons y ys)
  show ?case
  proof (cases k)
    case 0
    then show ?thesis using Cons.prems by (auto simp: filter_empty_conv)
  next
    case (Suc j)
    have none: "filter (\<lambda>x. x \<le> v) ys = [] \<and> \<not> ys ! j \<le> v" if "\<not> y \<le> v"
    proof -
      have "\<not> x \<le> v" if "x \<in> set ys" for x using Cons.prems(1) that \<open>\<not> y \<le> v\<close> by (meson order_trans sorted_simps(2))
      then show ?thesis using Cons.prems(2) Suc by (simp add: filter_empty_conv)
    qed
    then show ?thesis using Cons Suc by (cases "y \<le> v") auto
  qed
qed simp

lemma sort_nth_le_iff:
  assumes "k < length xs"
  shows "sort xs ! k \<le> v \<longleftrightarrow> k < length (filter (\<lambda>x. x \<le> v) xs)"
proof -
  have "mset (filter (\<lambda>x. x \<le> v) (sort xs)) = mset (filter (\<lambda>x. x \<le> v) xs)" by simp
  then have "length (filter (\<lambda>x. x \<le> v) (sort xs)) = length (filter (\<lambda>x. x \<le> v) xs)" by (rule mset_eq_length)
  then show ?thesis using sorted_nth_le_iff [of "sort xs" k v] assms by simp
qed

lemma sort_nth_mono:
  assumes "list_all2 (\<le>) xs ys" "k < length xs"
  shows "sort xs ! k \<le> sort ys ! k"
proof -
  have len: "length ys = length xs" using assms(1) by (simp add: list_all2_lengthD)
  have "length (filter (\<lambda>x. x \<le> v) ys) \<le> length (filter (\<lambda>x. x \<le> v) xs)" for v
    using assms(1) by (induction rule: list_all2_induct) auto
  from less_le_trans [OF _ this] show ?thesis
    using sort_nth_le_iff [of k ys "sort ys ! k"] sort_nth_le_iff [of k xs "sort ys ! k"] assms(2) len by simp
qed

lemma sort_scaled: "0 \<le> a \<Longrightarrow> sort (map (\<lambda>x. a * x) xs) = map (\<lambda>x :: rat. a * x) (sort xs)"
  by (rule properties_for_sort) (auto simp: sorted_map intro: sorted_wrt_mono_rel [OF _ sorted_sort] mult_left_mono)

lemma sort_nth_off_by:
  assumes "list_all2 (off_by r) xs ys" "0 \<le> r" "r \<le> 1" "k < length xs"
  shows "off_by r (sort xs ! k) (sort ys ! k)"
proof -
  have len: "length ys = length xs" using assms(1) by (simp add: list_all2_lengthD)
  have "list_all2 (\<le>) (map (\<lambda>x. (1 - r) * x) xs) ys" "list_all2 (\<le>) ys (map (\<lambda>x. (1 + r) * x) xs)"
    using assms(1) by (auto simp: list_all2_conv_all_nth off_by_def)
  from sort_nth_mono [OF this(1), of k] sort_nth_mono [OF this(2), of k] show ?thesis
    using assms len by (simp add: sort_scaled off_by_def)
qed

section \<open>Accuracy of the relative range\<close>

definition exact_percent :: "decimal \<times> decimal \<times> decimal \<Rightarrow> rat" where
  "exact_percent ohl = (case ohl of (open_price, high, low) \<Rightarrow> (high - low) / open_price * 100)"

definition exact_median :: "rat list \<Rightarrow> rat" where
  "exact_median xs =
     (let ordered = sort xs; mid = length xs div 2
      in if odd (length xs) then ordered ! mid else (ordered ! (mid - 1) + ordered ! mid) / 2)"

definition wf_session :: "decimal \<times> decimal \<times> decimal \<Rightarrow> bool" where
  "wf_session ohl \<longleftrightarrow> (case ohl of (open_price, high, low) \<Rightarrow> 0 < open_price \<and> low \<le> high)"

lemma exact_percent_nonneg: "wf_session s \<Longrightarrow> 0 \<le> exact_percent s"
  by (cases s) (auto simp: wf_session_def exact_percent_def)

lemma sort_nth_nonneg: "\<forall>x \<in> set xs. 0 \<le> x \<Longrightarrow> k < length xs \<Longrightarrow> (0 :: rat) \<le> sort xs ! k"
  by (metis length_sort nth_mem set_sort)

lemma off_by_add: "off_by r x y \<Longrightarrow> off_by r x' y' \<Longrightarrow> off_by r (x + x') (y + y')"
  by (simp add: off_by_def algebra_simps)

lemma middle_less: "xs \<noteq> [] \<Longrightarrow> length xs div 2 < length xs" "xs \<noteq> [] \<Longrightarrow> length xs div 2 - 1 < length xs"
  by (cases xs; simp)+

lemma exact_median_nonneg: "\<forall>x \<in> set xs. 0 \<le> x \<Longrightarrow> xs \<noteq> [] \<Longrightarrow> 0 \<le> exact_median xs"
  using sort_nth_nonneg [of xs "length xs div 2"] sort_nth_nonneg [of xs "length xs div 2 - 1"]
    middle_less [of xs] by (auto simp: exact_median_def Let_def)

lemma median_near:
  assumes "list_all2 (off_by (4 * eps)) xs ys" "\<forall>x \<in> set xs. 0 \<le> x" "xs \<noteq> []"
  shows "\<exists>m. median (local_context dc) ys = Inr m \<and> off_by (7 * eps) (exact_median xs) m"
proof -
  have len: "length ys = length xs" using assms(1) by (simp add: list_all2_lengthD)
  have each: "off_by (4 * eps) (sort xs ! k) (sort ys ! k) \<and> 0 \<le> sort xs ! k" if "k < length xs" for k
    using sort_nth_off_by [OF assms(1) _ _ that] sort_nth_nonneg [OF assms(2) that] by (simp add: eps_def)
  let ?m = "length xs div 2"
  note m = middle_less [OF assms(3)]
  have ne: "sort ys \<noteq> []" using len assms(3) by (metis length_0_conv length_sort)
  show ?thesis
  proof (cases "odd (length xs)")
    case True
    have "off_by (7 * eps) (sort xs ! ?m) (sort ys ! ?m)"
      using each [OF m(1)] by (auto simp: off_by_def eps_def)
    then show ?thesis using True len ne by (simp add: median_def exact_median_def Let_def odd_iff_mod_2_eq_one)
  next
    case False
    define x where "x = sort xs ! (?m - 1) + sort xs ! ?m"
    define y where "y = sort ys ! (?m - 1) + sort ys ! ?m"
    define z where "z = dec_add (local_context dc) (sort ys ! (?m - 1)) (sort ys ! ?m)"
    have x: "off_by (4 * eps) x y" "0 \<le> x" using each m off_by_add by (simp_all add: x_def y_def)
    then have y: "0 \<le> y" using off_by_nonneg by (simp add: eps_def)
    then have "off_by eps y z" by (simp add: z_def y_def dec_add_def off_by_round)
    from off_by_trans [OF x(1) this, of "11/2 * eps"] have "off_by (11/2 * eps) x z" using x by (simp add: eps_def)
    then have z: "off_by (11/2 * eps) (x / 2) (z / 2)" "0 \<le> z"
      using off_by_scale [of _ x z "1/2"] off_by_nonneg [of _ x z] x by (simp_all add: eps_def)
    have "off_by eps (z / 2) (dec_div (local_context dc) z 2)" using z by (simp add: dec_div_def off_by_round)
    from off_by_trans [OF z(1) this, of "7 * eps"] have "off_by (7 * eps) (x / 2) (dec_div (local_context dc) z 2)" using x by (simp add: eps_def)
    then show ?thesis using False len ne by (simp add: median_def exact_median_def Let_def x_def z_def)
  qed
qed

lemma baseline_near:
  "\<forall>s \<in> set baseline. wf_session s \<Longrightarrow>
   \<exists>ys. map_res (range_percent (local_context dc)) baseline = Inr ys \<and> list_all2 (off_by (4 * eps)) (map exact_percent baseline) ys"
proof (induction baseline)
  case (Cons s baseline)
  obtain p where "range_percent (local_context dc) s = Inr p" "off_by (4 * eps) (exact_percent s) p"
    using range_percent_near [of "fst s" "snd (snd s)" "fst (snd s)" dc] Cons.prems by (cases s) (auto simp: wf_session_def exact_percent_def)
  then show ?case using Cons by auto
qed simp

lemma off_by_zero: "off_by r 0 y \<longleftrightarrow> y = 0"
  by (auto simp: off_by_def)

lemma off_by_pos: "off_by r x y \<Longrightarrow> r < 1 \<Longrightarrow> 0 < x \<Longrightarrow> 0 < y"
  unfolding off_by_def by (meson diff_gt_0_iff_gt mult_pos_pos order_less_le_trans)

lemma ratio_near:
  assumes "off_by (4 * eps) x x'" "off_by (7 * eps) m m'" "0 \<le> x" "0 < m"
  shows "off_by (20 * eps) (x / m) (dec_div (local_context dc) x' m')"
proof -
  have m': "0 < m'" using off_by_pos [OF assms(2) _ assms(4)] by (simp add: eps_def)
  have x': "0 \<le> x'" using off_by_nonneg [OF assms(1) _ assms(3)] by (simp add: eps_def)
  have "m' * (1 - 8 * eps) \<le> m' / (1 + 7 * eps)" using m' by (simp add: eps_def field_simps)
  also have "m' / (1 + 7 * eps) \<le> m" using assms(2) by (simp add: off_by_def eps_def field_simps)
  finally have low: "m' * (1 - 8 * eps) \<le> m" .
  have "m \<le> m' / (1 - 7 * eps)" using assms(2) by (simp add: off_by_def eps_def field_simps)
  also have "\<dots> \<le> m' * (1 + 8 * eps)" using m' by (simp add: eps_def field_simps)
  finally have high: "m \<le> m' * (1 + 8 * eps)" .
  have "off_by (8 * eps) (1 / m) (1 / m')"
    using low high m' assms(4) by (simp add: off_by_def field_simps)
  then have "off_by (8 * eps) (x' / m) (x' / m')" using off_by_scale [OF _ x', of _ "1 / m" "1 / m'"] by simp
  moreover have "off_by (4 * eps) (x / m) (x' / m)" using off_by_scale [OF assms(1), of "1 / m"] assms(4) by simp
  ultimately have "off_by (13 * eps) (x / m) (x' / m')" using off_by_trans assms(3,4) by (simp add: eps_def)
  moreover have "off_by eps (x' / m') (dec_div (local_context dc) x' m')" using x' m' by (simp add: dec_div_def off_by_round)
  ultimately show ?thesis using off_by_trans assms(3,4) by (simp add: eps_def)
qed

text \<open>
  Accuracy of the relative range: for well-formed sessions and a non-empty baseline, whatever the ambient decimal context, the calculator
  reports a degenerate baseline exactly when the true median range of the baseline is zero; otherwise it returns, and the ratio, the
  range percentage and the median percentage differ from their exact values by at most 20, 4 and 7 units in
  the twenty-seventh significant digit, because sorting keeps order statistics within the error of the single values.
\<close>

lemma relative_range_accurate:
  assumes "wf_session subject" "\<forall>s \<in> set baseline. wf_session s" "baseline \<noteq> []"
  shows "if exact_median (map exact_percent baseline) = 0
    then compute_previous_session_relative_range dc subject baseline = Inl Degenerate_baseline
    else \<exists>r. compute_previous_session_relative_range dc subject baseline = Inr r
      \<and> off_by (20 / 10 ^ 27) (exact_percent subject / exact_median (map exact_percent baseline)) (rr_relative_range_ratio r)
      \<and> off_by (4 / 10 ^ 27) (exact_percent subject) (rr_previous_range_pct r)
      \<and> off_by (7 / 10 ^ 27) (exact_median (map exact_percent baseline)) (rr_baseline_range_pct r)"
proof -
  let ?m = "exact_median (map exact_percent baseline)"
  have nonneg: "\<forall>x \<in> set (map exact_percent baseline). 0 \<le> x" using assms(2) exact_percent_nonneg by auto
  obtain p where p: "range_percent (local_context dc) subject = Inr p" "off_by (4 * eps) (exact_percent subject) p"
    using baseline_near [of "[subject]" dc] assms(1) by (auto split: sum.splits)
  obtain ys where ys: "map_res (range_percent (local_context dc)) baseline = Inr ys" "list_all2 (off_by (4 * eps)) (map exact_percent baseline) ys"
    using baseline_near [OF assms(2)] by blast
  obtain m where m: "median (local_context dc) ys = Inr m" "off_by (7 * eps) ?m m"
    using median_near [OF ys(2) nonneg] assms(3) by auto
  have m0: "0 \<le> ?m" using exact_median_nonneg [OF nonneg] assms(3) by simp
  show ?thesis
  proof (cases "?m = 0")
    case True
    then have "m = 0" using m(2) by (simp add: off_by_zero)
    then show ?thesis using True p ys m by (simp add: compute_previous_session_relative_range_def Let_def)
  next
    case False
    then have pos: "0 < ?m" using m0 by simp
    then have "0 < m" using off_by_pos [OF m(2)] by (simp add: eps_def)
    moreover have "off_by (20 * eps) (exact_percent subject / ?m) (dec_div (local_context dc) p m)"
      by (rule ratio_near [OF p(2) m(2) exact_percent_nonneg [OF assms(1)] pos])
    ultimately show ?thesis using False p ys m by (simp add: compute_previous_session_relative_range_def Let_def eps_def)
  qed
qed

lemma relative_range_accurate_example:
  "\<exists>r. compute_previous_session_relative_range default_context (100, 103, 99) [(100, 102, 100), (50, 52, 50)] = Inr r
    \<and> off_by (20 / 10 ^ 27) (4 / 3) (rr_relative_range_ratio r)"
proof -
  have m: "exact_median (map exact_percent [(100, 102, 100), (50, 52, 50)]) = 3"
    by (simp add: exact_median_def exact_percent_def Let_def)
  have "wf_session (100, 103, 99)" "\<forall>s \<in> set [(100, 102, 100), (50, 52, 50)]. wf_session s" "[(100, 102, 100), (50, 52, 50)] \<noteq> ([] :: (rat \<times> rat \<times> rat) list)"
    by (simp_all add: wf_session_def)
  from relative_range_accurate [OF this, of default_context] show ?thesis unfolding m by (auto simp: exact_percent_def)
qed

end
