(* ===== verification/Strategy_Implementations.thy ===== *)
theory Strategy_Implementations
  imports Strategy_Routing Strategy_Calculators
begin

text \<open>
  The six strategies of \<^verbatim>\<open>strategies/implementations/\<close>: descriptors, requirements and \<^verbatim>\<open>evaluate\<close>. The ambient decimal context in which
  a strategy runs is an argument. The locale \<open>lawful_strategy\<close> is what the manager and the scanner rely on: valid
  declarations, and an evaluation that never raises on a well-formed context, answers for that context, and carries the ranking metric when it
  matches. It is interpreted for each of the six. The dash of the descriptions is written as a hyphen.
\<close>

section \<open>Dates as text\<close>

text \<open>\<^verbatim>\<open>date.isoformat\<close>; the proleptic ordinal of the first of January 1970 is 719163.\<close>

definition days_before_month :: "int \<Rightarrow> int" where
  "days_before_month m = [0, 0, 31, 59, 90, 120, 151, 181, 212, 243, 273, 304, 334] ! nat m"

definition days_in_month :: "int \<Rightarrow> int" where
  "days_in_month m = [0, 31, 28, 31, 30, 31, 30, 31, 31, 30, 31, 30, 31] ! nat m"

definition ymd_of :: "date \<Rightarrow> int \<times> int \<times> int" where
  "ymd_of d =
     (let n = d + 719163 - 1;
          n400 = n div 146097; n = n mod 146097;
          n100 = n div 36524; n = n mod 36524;
          n4 = n div 1461; n = n mod 1461;
          n1 = n div 365; n = n mod 365;
          year = n400 * 400 + 1 + n100 * 100 + n4 * 4 + n1
      in if n1 = 4 \<or> n100 = 4 then (year - 1, 12, 31)
         else let leap = (n1 = 3 \<and> (n4 \<noteq> 24 \<or> n100 = 3));
                  month = (n + 50) div 32;
                  preceding = days_before_month month + (if month > 2 \<and> leap then 1 else 0)
              in if preceding > n
                 then let month = month - 1;
                          preceding = preceding - (days_in_month month + (if month = 2 \<and> leap then 1 else 0))
                      in (year, month, n - preceding + 1)
                 else (year, month, n - preceding + 1))"

fun padded :: "nat \<Rightarrow> int \<Rightarrow> string" where
  "padded 0 n = []"
| "padded (Suc w) n = padded w (n div 10) @ [char_of (nat (48 + n mod 10))]"

definition isoformat :: "date \<Rightarrow> string" where
  "isoformat d = (case ymd_of d of (y, m, dd) \<Rightarrow> padded 4 y @ ''-'' @ padded 2 m @ ''-'' @ padded 2 dd)"

section \<open>Shared steps\<close>

definition metric :: "string \<Rightarrow> decimal \<Rightarrow> metric_entry" where
  "metric name v = \<lparr>me_name = name, me_value = MetricDecimal v\<rparr>"

definition source_session_date :: "previous_session_facts \<Rightarrow> metric_entry" where
  "source_session_date previous = \<lparr>me_name = ''source_session_date'', me_value = MetricStr (isoformat (ps_trading_date previous))\<rparr>"

definition evaluation_of :: "market_context \<Rightarrow> evaluation_status \<Rightarrow> string \<Rightarrow> metric_entry list \<Rightarrow> strategy_evaluation res" where
  "evaluation_of c status reason metrics =
     mk_strategy_evaluation
       \<lparr>ev_instrument = mc_instrument c, ev_context_version = mc_version c, ev_status = status, ev_score = None, ev_confidence = None,
        ev_reason_codes = [reason], ev_metrics = metrics, ev_diagnostics = []\<rparr>"

definition previous_session :: "market_context \<Rightarrow> previous_session_facts option" where
  "previous_session c = (case mc_historical c of None \<Rightarrow> None | Some h \<Rightarrow> hc_previous_session h)"

definition session_requirements :: "int \<Rightarrow> strategy_requirements" where
  "session_requirements lookback =
     \<lparr>sr_historical = [\<lparr>hr_timeframe = tf_session, hr_lookback = lookback\<rparr>], sr_live_timeframes = [], sr_fact_needs = [PREVIOUS_SESSION],
      sr_trigger = ON_HISTORICAL_READY, sr_candle_completeness = AUTHORITATIVE_ONLY, sr_min_context_version = 1, sr_freshness = []\<rparr>"

section \<open>Narrow CPR\<close>

definition narrow_cpr_descriptor :: strategy_descriptor where
  "narrow_cpr_descriptor =
     \<lparr>sd_strategy_id = ''narrow_cpr'', sd_display_name = ''Narrow CPR'',
      sd_description = ''Ranks instruments by the narrowness of today's Central Pivot Range derived from the previous completed trading session. A non-directional compression/context feature - never a buy/sell signal.'',
      sd_version = ''1.0.0'', sd_category = MARKET_STRUCTURE, sd_emission_policy = ONE_SHOT_PER_SESSION, sd_min_context_version = 1,
      sd_max_context_version = None\<rparr>"

definition classify_cpr :: "cpr_result \<Rightarrow> decimal option \<Rightarrow> evaluation_status \<times> string" where
  "classify_cpr result threshold =
     (case threshold of
        None \<Rightarrow> (MATCHED, ''NARROW_CPR_VALID'')
      | Some t \<Rightarrow> (if cpr_width_pct result \<le> t then (MATCHED, ''NARROW_CPR_WITHIN_THRESHOLD'') else (UNMATCHED, ''NARROW_CPR_ABOVE_THRESHOLD'')))"

definition narrow_cpr_metrics :: "cpr_result \<Rightarrow> previous_session_facts \<Rightarrow> metric_entry list" where
  "narrow_cpr_metrics r previous =
     [metric ''cpr_width_pct'' (cpr_width_pct r), metric ''pivot'' (cpr_pivot r), metric ''bc'' (cpr_bc r), metric ''tc'' (cpr_tc r),
      metric ''cpr_top'' (cpr_top r), metric ''cpr_bottom'' (cpr_bottom r), metric ''cpr_width'' (cpr_width r),
      metric ''previous_high'' (candle_high (ps_candle previous)), metric ''previous_low'' (candle_low (ps_candle previous)),
      metric ''previous_close'' (candle_close (ps_candle previous)), source_session_date previous]"

definition narrow_cpr_threshold :: "strategy_configuration \<Rightarrow> decimal option res" where
  "narrow_cpr_threshold cfg =
     (if sc_type cfg \<noteq> NarrowCprConfiguration then Inl (TypeError ''NarrowCprStrategy requires a NarrowCprConfiguration'')
      else Inr (sc_narrow_cpr_max_width_pct cfg))"

definition narrow_cpr_evaluate :: "decimal_context \<Rightarrow> market_context \<Rightarrow> strategy_configuration \<Rightarrow> evaluation_metadata \<Rightarrow> strategy_evaluation res" where
  "narrow_cpr_evaluate dc c cfg md =
     (case previous_session c of
        None \<Rightarrow> evaluation_of c SKIPPED ''NARROW_CPR_NO_PREVIOUS_SESSION'' []
      | Some previous \<Rightarrow>
          res_bind (narrow_cpr_threshold cfg) (\<lambda>threshold.
          res_bind (compute_cpr dc (candle_high (ps_candle previous)) (candle_low (ps_candle previous)) (candle_close (ps_candle previous))) (\<lambda>result.
            case classify_cpr result threshold of (status, reason) \<Rightarrow>
              evaluation_of c status reason (narrow_cpr_metrics result previous))))"

definition narrow_cpr_strategy :: "decimal_context \<Rightarrow> strategy" where
  "narrow_cpr_strategy dc =
     \<lparr>st_descriptor = narrow_cpr_descriptor, st_requirements = session_requirements 1, st_configuration_type = NarrowCprConfiguration,
      st_evaluate = narrow_cpr_evaluate dc\<rparr>"

section \<open>Body and range of the previous session\<close>

definition body_pct_descriptor :: strategy_descriptor where
  "body_pct_descriptor =
     \<lparr>sd_strategy_id = ''previous_session_body_pct'', sd_display_name = ''Previous Session Body %'',
      sd_description = ''Ranks instruments by the absolute candle-body size of the previous completed trading session as a percentage of its open (largest body first). A non-directional magnitude feature - never a buy/sell signal.'',
      sd_version = ''1.0.0'', sd_category = MARKET_STRUCTURE, sd_emission_policy = ONE_SHOT_PER_SESSION, sd_min_context_version = 1,
      sd_max_context_version = None\<rparr>"

definition body_pct_metrics :: "body_result \<Rightarrow> previous_session_facts \<Rightarrow> metric_entry list" where
  "body_pct_metrics r previous =
     [metric ''previous_body_pct'' (br_previous_body_pct r), metric ''previous_body'' (br_previous_body r),
      metric ''previous_open'' (candle_open (ps_candle previous)), metric ''previous_close'' (candle_close (ps_candle previous)),
      source_session_date previous]"

definition body_pct_evaluate :: "decimal_context \<Rightarrow> market_context \<Rightarrow> strategy_configuration \<Rightarrow> evaluation_metadata \<Rightarrow> strategy_evaluation res" where
  "body_pct_evaluate dc c cfg md =
     (if sc_type cfg \<noteq> PreviousSessionBodyPctConfiguration
      then Inl (TypeError ''PreviousSessionBodyPctStrategy requires a PreviousSessionBodyPctConfiguration'')
      else case previous_session c of
        None \<Rightarrow> evaluation_of c SKIPPED ''PREVIOUS_SESSION_BODY_NO_PREVIOUS'' []
      | Some previous \<Rightarrow>
          res_bind (compute_previous_session_body dc (candle_open (ps_candle previous)) (candle_close (ps_candle previous))) (\<lambda>result.
            evaluation_of c MATCHED ''PREVIOUS_SESSION_BODY_VALID'' (body_pct_metrics result previous)))"

definition body_pct_strategy :: "decimal_context \<Rightarrow> strategy" where
  "body_pct_strategy dc =
     \<lparr>st_descriptor = body_pct_descriptor, st_requirements = session_requirements 1, st_configuration_type = PreviousSessionBodyPctConfiguration,
      st_evaluate = body_pct_evaluate dc\<rparr>"

definition range_pct_descriptor :: strategy_descriptor where
  "range_pct_descriptor =
     \<lparr>sd_strategy_id = ''previous_session_range_pct'', sd_display_name = ''Previous Session Range %'',
      sd_description = ''Ranks instruments by the previous completed trading session's range as a percentage of its open (largest range first). A non-directional range-expansion feature - never a buy/sell signal.'',
      sd_version = ''1.0.0'', sd_category = MARKET_STRUCTURE, sd_emission_policy = ONE_SHOT_PER_SESSION, sd_min_context_version = 1,
      sd_max_context_version = None\<rparr>"

definition range_pct_metrics :: "range_result \<Rightarrow> previous_session_facts \<Rightarrow> metric_entry list" where
  "range_pct_metrics r previous =
     [metric ''previous_range_pct'' (rg_previous_range_pct r), metric ''previous_range'' (rg_previous_range r),
      metric ''previous_open'' (candle_open (ps_candle previous)), metric ''previous_high'' (candle_high (ps_candle previous)),
      metric ''previous_low'' (candle_low (ps_candle previous)), metric ''previous_close'' (candle_close (ps_candle previous)),
      source_session_date previous]"

definition range_pct_evaluate :: "decimal_context \<Rightarrow> market_context \<Rightarrow> strategy_configuration \<Rightarrow> evaluation_metadata \<Rightarrow> strategy_evaluation res" where
  "range_pct_evaluate dc c cfg md =
     (if sc_type cfg \<noteq> PreviousSessionRangePctConfiguration
      then Inl (TypeError ''PreviousSessionRangePctStrategy requires a PreviousSessionRangePctConfiguration'')
      else case previous_session c of
        None \<Rightarrow> evaluation_of c SKIPPED ''PREVIOUS_SESSION_RANGE_NO_PREVIOUS'' []
      | Some previous \<Rightarrow>
          res_bind (compute_previous_session_range dc (candle_open (ps_candle previous)) (candle_high (ps_candle previous)) (candle_low (ps_candle previous))) (\<lambda>result.
            evaluation_of c MATCHED ''PREVIOUS_SESSION_RANGE_VALID'' (range_pct_metrics result previous)))"

definition range_pct_strategy :: "decimal_context \<Rightarrow> strategy" where
  "range_pct_strategy dc =
     \<lparr>st_descriptor = range_pct_descriptor, st_requirements = session_requirements 1, st_configuration_type = PreviousSessionRangePctConfiguration,
      st_evaluate = range_pct_evaluate dc\<rparr>"

section \<open>Relative range\<close>

definition BASELINE_SESSIONS :: int where
  "BASELINE_SESSIONS = 20"

definition REQUIRED_SESSIONS :: int where
  "REQUIRED_SESSIONS = 21"

definition relative_range_descriptor :: strategy_descriptor where
  "relative_range_descriptor =
     \<lparr>sd_strategy_id = ''previous_session_relative_range'', sd_display_name = ''Previous Session Relative Range'',
      sd_description = ''Ranks instruments by how compressed the previous completed session's normalized range was relative to the instrument's own 20-session median. A non-directional historical compression feature - never a buy/sell signal.'',
      sd_version = ''1.0.0'', sd_category = MARKET_STRUCTURE, sd_emission_policy = ONE_SHOT_PER_SESSION, sd_min_context_version = 1,
      sd_max_context_version = None\<rparr>"

definition session_series :: "market_context \<Rightarrow> historical_series option" where
  "session_series c = (case mc_historical c of None \<Rightarrow> None | Some h \<Rightarrow> find (\<lambda>s. is_session (hs_timeframe s)) (hc_series h))"

definition relative_range_metrics :: "relative_range_result \<Rightarrow> previous_session_facts \<Rightarrow> metric_entry list" where
  "relative_range_metrics r previous =
     [metric ''relative_range_ratio'' (rr_relative_range_ratio r), metric ''previous_range_pct'' (rr_previous_range_pct r),
      metric ''baseline_range_pct'' (rr_baseline_range_pct r), \<lparr>me_name = ''baseline_sessions'', me_value = MetricInt BASELINE_SESSIONS\<rparr>,
      source_session_date previous]"

definition ohl :: "candle \<Rightarrow> decimal \<times> decimal \<times> decimal" where
  "ohl k = (candle_open k, candle_high k, candle_low k)"

definition relative_range_evaluate :: "decimal_context \<Rightarrow> market_context \<Rightarrow> strategy_configuration \<Rightarrow> evaluation_metadata \<Rightarrow> strategy_evaluation res" where
  "relative_range_evaluate dc c cfg md =
     (if sc_type cfg \<noteq> PreviousSessionRelativeRangeConfiguration
      then Inl (TypeError ''PreviousSessionRelativeRangeStrategy requires a PreviousSessionRelativeRangeConfiguration'')
      else case (session_series c, previous_session c) of
        (Some sessions, Some previous) \<Rightarrow>
          (if int (length (hs_candles sessions)) \<noteq> REQUIRED_SESSIONS
           then evaluation_of c SKIPPED ''PREVIOUS_SESSION_RELATIVE_RANGE_NO_HISTORY'' []
           else case compute_previous_session_relative_range dc (ohl (last (hs_candles sessions))) (map ohl (butlast (hs_candles sessions))) of
             Inl Degenerate_baseline \<Rightarrow> evaluation_of c SKIPPED ''PREVIOUS_SESSION_RELATIVE_RANGE_DEGENERATE_BASELINE'' []
           | Inl (Input_error e) \<Rightarrow> Inl e
           | Inr result \<Rightarrow> evaluation_of c MATCHED ''PREVIOUS_SESSION_RELATIVE_RANGE_VALID'' (relative_range_metrics result previous))
      | _ \<Rightarrow> evaluation_of c SKIPPED ''PREVIOUS_SESSION_RELATIVE_RANGE_NO_HISTORY'' [])"

definition relative_range_strategy :: "decimal_context \<Rightarrow> strategy" where
  "relative_range_strategy dc =
     \<lparr>st_descriptor = relative_range_descriptor, st_requirements = session_requirements REQUIRED_SESSIONS,
      st_configuration_type = PreviousSessionRelativeRangeConfiguration, st_evaluate = relative_range_evaluate dc\<rparr>"

section \<open>Open at an extreme\<close>

definition open_extreme_requirements :: strategy_requirements where
  "open_extreme_requirements =
     \<lparr>sr_historical = [], sr_live_timeframes = [], sr_fact_needs = [SESSION_FACT, SESSION_STATISTICS], sr_trigger = ON_TICK,
      sr_candle_completeness = AUTHORITATIVE_ONLY, sr_min_context_version = 1,
      sr_freshness = [\<lparr>ff_fact = SESSION_STATISTICS, ff_max_age = 2 * MINUTE\<rparr>]\<rparr>"

definition authoritative_statistics :: "market_context \<Rightarrow> session_statistics option" where
  "authoritative_statistics c =
     (case mc_session_statistics c of None \<Rightarrow> None | Some st \<Rightarrow> if ss_quality st \<noteq> AUTHORITATIVE then None else Some st)"

text \<open>The assertion of \<^verbatim>\<open>_session_metrics\<close> is a branch of its own.\<close>

definition session_metrics :: "decimal_context \<Rightarrow> session_statistics \<Rightarrow> metric_entry list res" where
  "session_metrics dc st =
     (case (ss_open st, ss_high st, ss_low st) of
        (Some op, Some hi, Some lo) \<Rightarrow>
          Inr [metric ''session_range_pct'' (dec_mul dc (dec_div dc (dec_sub dc hi lo) op) 100), metric ''session_open'' op,
               metric ''session_high'' hi, metric ''session_low'' lo]
      | _ \<Rightarrow> Inl (RuntimeError ''AssertionError''))"

definition evaluate_open_extreme :: "decimal_context \<Rightarrow> market_context \<Rightarrow> bool \<Rightarrow> string \<Rightarrow> string \<Rightarrow> strategy_evaluation res" where
  "evaluate_open_extreme dc c match_when_equals_high matched_reason no_match_reason =
     (case authoritative_statistics c of
        None \<Rightarrow> evaluation_of c SKIPPED ''SESSION_STATISTICS_UNAVAILABLE'' []
      | Some st \<Rightarrow>
          (let extreme = (if match_when_equals_high then ss_high st else ss_low st); matched = (ss_open st = extreme)
           in res_bind (session_metrics dc st) (\<lambda>ms.
                evaluation_of c (if matched then MATCHED else UNMATCHED) (if matched then matched_reason else no_match_reason) ms)))"

definition open_high_strategy :: "decimal_context \<Rightarrow> strategy" where
  "open_high_strategy dc =
     \<lparr>st_descriptor =
        \<lparr>sd_strategy_id = ''open_high'', sd_display_name = ''Open = High'',
         sd_description = ''Flags instruments whose authoritative current-session open equals the session high (the session has not traded above its open) - a bearish opening-structure scanner feature, never a buy/sell signal.'',
         sd_version = ''1.0.0'', sd_category = OPENING_SESSION, sd_emission_policy = EDGE_TRIGGERED, sd_min_context_version = 1,
         sd_max_context_version = None\<rparr>,
      st_requirements = open_extreme_requirements, st_configuration_type = OpenExtremeConfiguration,
      st_evaluate = (\<lambda>c _ _. evaluate_open_extreme dc c True ''OPEN_EQUALS_HIGH'' ''HIGH_ABOVE_OPEN'')\<rparr>"

definition open_low_strategy :: "decimal_context \<Rightarrow> strategy" where
  "open_low_strategy dc =
     \<lparr>st_descriptor =
        \<lparr>sd_strategy_id = ''open_low'', sd_display_name = ''Open = Low'',
         sd_description = ''Flags instruments whose authoritative current-session open equals the session low (the session has not traded below its open) - a bullish opening-structure scanner feature, never a buy/sell signal.'',
         sd_version = ''1.0.0'', sd_category = OPENING_SESSION, sd_emission_policy = EDGE_TRIGGERED, sd_min_context_version = 1,
         sd_max_context_version = None\<rparr>,
      st_requirements = open_extreme_requirements, st_configuration_type = OpenExtremeConfiguration,
      st_evaluate = (\<lambda>c _ _. evaluate_open_extreme dc c False ''OPEN_EQUALS_LOW'' ''LOW_BELOW_OPEN'')\<rparr>"

section \<open>What the manager and the scanner rely on\<close>

definition wf_context :: "market_context \<Rightarrow> bool" where
  "wf_context c \<longleftrightarrow> 1 \<le> mc_version c
     \<and> (case mc_historical c of None \<Rightarrow> True
        | Some h \<Rightarrow> (case hc_previous_session h of None \<Rightarrow> True | Some p \<Rightarrow> wf_candle (ps_candle p))
            \<and> (\<forall>s \<in> set (hc_series h). list_all wf_candle (hs_candles s)))
     \<and> (case mc_session_statistics c of None \<Rightarrow> True | Some st \<Rightarrow> wf_statistics st)"

definition answers :: "string \<Rightarrow> market_context \<Rightarrow> strategy_evaluation \<Rightarrow> bool" where
  "answers name c ev \<longleftrightarrow> ev_instrument ev = mc_instrument c \<and> ev_context_version ev = mc_version c \<and> ev_status ev \<noteq> EVALUATION_ERROR
     \<and> mk_strategy_evaluation ev = Inr ev
     \<and> (ev_status ev = MATCHED \<longrightarrow> (\<exists>v. metric name v \<in> set (ev_metrics ev)))"

locale lawful_strategy =
  fixes s :: strategy and name :: string
  assumes descriptor_valid: "validate_descriptor (st_descriptor s) = Inr (st_descriptor s)"
    and requirements_valid: "mk_strategy_requirements (st_requirements s) = Inr (st_requirements s)"
    and evaluates: "wf_context c \<Longrightarrow> sc_type cfg = st_configuration_type s \<Longrightarrow> \<exists>ev. st_evaluate s c cfg md = Inr ev \<and> answers name c ev"
begin

lemma ready_verdict:
  assumes "wf_context c" "verdict cfgs c s = Some r"
  shows "\<exists>ev. r = Inr ev \<and> answers name c ev"
proof -
  obtain cfg where cfg: "cfgs (sd_strategy_id (st_descriptor s)) = Some cfg"
    "assess_readiness (st_descriptor s) (st_requirements s) (Some cfg) (st_configuration_type s) c = READY"
    using assms(2) by (auto simp: verdict_def split: option.splits if_splits)
  then have "sc_type cfg = st_configuration_type s" by (auto simp: assess_readiness_def configuration_ok_def split: if_splits)
  from evaluates [OF assms(1) this] obtain ev
    where "st_evaluate s c cfg (metadata_for (sr_trigger (st_requirements s)) c) = Inr ev" "answers name c ev" by blast
  then have "verdict cfgs c s = Some (Inr ev)" using cfg by (simp add: verdict_def answers_def)
  then show ?thesis using assms(2) \<open>answers name c ev\<close> by simp
qed

end

lemma sorted_metrics: "sort_key f (sort_key f xs) = sort_key f (xs :: metric_entry list)"
  by (intro sort_key_id_if_sorted) simp

definition good_names :: "string list \<Rightarrow> bool" where
  "good_names ns \<longleftrightarrow> list_all is_metric_name ns \<and> distinct ns"

lemma validate_good_metrics: "good_names (map me_name ms) \<Longrightarrow> validate_metrics ms = Inr (sort_key me_name ms)"
  using distinct_card [of "map me_name ms"] by (simp add: good_names_def validate_metrics_def list.pred_map comp_def)

lemma good_names_sorted: "good_names (map me_name (sort_key f ms)) = good_names (map me_name ms)"
proof -
  have "distinct (map me_name (sort_key f ms)) = distinct (map me_name ms)" by (metis mset_eq_imp_distinct_iff mset_map mset_sort)
  then show ?thesis by (simp add: good_names_def list_all_iff)
qed

lemma evaluation_of_ok:
  assumes "1 \<le> mc_version c" "is_reason_code reason" "good_names (map me_name ms)"
    and "status \<noteq> EVALUATION_ERROR" "status = MATCHED \<Longrightarrow> \<exists>v. metric name v \<in> set ms"
  shows "\<exists>ev. evaluation_of c status reason ms = Inr ev \<and> answers name c ev \<and> ev_status ev = status"
proof -
  let ?ev = "\<lparr>ev_instrument = mc_instrument c, ev_context_version = mc_version c, ev_status = status, ev_score = None, ev_confidence = None,
        ev_reason_codes = [reason], ev_metrics = sort_key me_name ms, ev_diagnostics = []\<rparr>"
  have r: "validate_reason_codes [reason] = Inr [reason]" using assms(2) by (simp add: validate_reason_codes_def)
  have "evaluation_of c status reason ms = Inr ?ev"
    using assms(1) validate_good_metrics [OF assms(3)] by (simp add: evaluation_of_def mk_strategy_evaluation_def r)
  moreover have "validate_metrics (sort_key me_name ms) = Inr (sort_key me_name ms)"
    using validate_good_metrics [of "sort_key me_name ms"] assms(3) by (simp add: good_names_sorted sorted_metrics)
  then have "mk_strategy_evaluation ?ev = Inr ?ev" using assms(1) by (simp add: mk_strategy_evaluation_def r)
  ultimately show ?thesis using assms(4,5) by (simp add: answers_def)
qed

lemma skipped_ok: "1 \<le> mc_version c \<Longrightarrow> is_reason_code reason \<Longrightarrow> \<exists>ev. evaluation_of c SKIPPED reason [] = Inr ev \<and> answers name c ev \<and> ev_status ev = SKIPPED"
  by (rule evaluation_of_ok) (simp_all add: good_names_def)

lemma reason_codes [simp]:
  "is_reason_code ''NARROW_CPR_VALID''" "is_reason_code ''NARROW_CPR_WITHIN_THRESHOLD''" "is_reason_code ''NARROW_CPR_ABOVE_THRESHOLD''"
  "is_reason_code ''NARROW_CPR_NO_PREVIOUS_SESSION''" "is_reason_code ''PREVIOUS_SESSION_BODY_VALID''" "is_reason_code ''PREVIOUS_SESSION_BODY_NO_PREVIOUS''"
  "is_reason_code ''PREVIOUS_SESSION_RANGE_VALID''" "is_reason_code ''PREVIOUS_SESSION_RANGE_NO_PREVIOUS''"
  "is_reason_code ''PREVIOUS_SESSION_RELATIVE_RANGE_VALID''" "is_reason_code ''PREVIOUS_SESSION_RELATIVE_RANGE_NO_HISTORY''"
  "is_reason_code ''PREVIOUS_SESSION_RELATIVE_RANGE_DEGENERATE_BASELINE''" "is_reason_code ''SESSION_STATISTICS_UNAVAILABLE''"
  "is_reason_code ''OPEN_EQUALS_HIGH''" "is_reason_code ''HIGH_ABOVE_OPEN''" "is_reason_code ''OPEN_EQUALS_LOW''" "is_reason_code ''LOW_BELOW_OPEN''"
  by code_simp+

lemma metric_names [simp]:
  "good_names (map me_name (narrow_cpr_metrics x p))" "good_names (map me_name (body_pct_metrics y p))" "good_names (map me_name (range_pct_metrics z p))"
  "good_names (map me_name (relative_range_metrics w p))" "session_metrics dc st = Inr ms \<Longrightarrow> good_names (map me_name ms)"
proof -
  have names: "good_names [''cpr_width_pct'', ''pivot'', ''bc'', ''tc'', ''cpr_top'', ''cpr_bottom'', ''cpr_width'', ''previous_high'', ''previous_low'', ''previous_close'', ''source_session_date'']"
    "good_names [''previous_body_pct'', ''previous_body'', ''previous_open'', ''previous_close'', ''source_session_date'']"
    "good_names [''previous_range_pct'', ''previous_range'', ''previous_open'', ''previous_high'', ''previous_low'', ''previous_close'', ''source_session_date'']"
    "good_names [''relative_range_ratio'', ''previous_range_pct'', ''baseline_range_pct'', ''baseline_sessions'', ''source_session_date'']"
    "good_names [''session_range_pct'', ''session_open'', ''session_high'', ''session_low'']"
    by code_simp+
  then show "good_names (map me_name (narrow_cpr_metrics x p))" "good_names (map me_name (body_pct_metrics y p))"
    "good_names (map me_name (range_pct_metrics z p))" "good_names (map me_name (relative_range_metrics w p))"
    by (simp_all add: narrow_cpr_metrics_def body_pct_metrics_def range_pct_metrics_def relative_range_metrics_def metric_def source_session_date_def)
  assume "session_metrics dc st = Inr ms"
  then show "good_names (map me_name ms)" using names(5) by (auto simp: session_metrics_def metric_def split: option.splits)
qed

lemma ranking_metrics [simp]:
  "\<exists>v. metric ''cpr_width_pct'' v \<in> set (narrow_cpr_metrics x p)" "\<exists>v. metric ''previous_body_pct'' v \<in> set (body_pct_metrics y p)"
  "\<exists>v. metric ''previous_range_pct'' v \<in> set (range_pct_metrics z p)" "\<exists>v. metric ''relative_range_ratio'' v \<in> set (relative_range_metrics w p)"
  "session_metrics dc st = Inr ms \<Longrightarrow> \<exists>v. metric ''session_range_pct'' v \<in> set ms"
  by (auto simp: narrow_cpr_metrics_def body_pct_metrics_def range_pct_metrics_def relative_range_metrics_def session_metrics_def split: option.splits)

lemma wf_version: "wf_context c \<Longrightarrow> 1 \<le> mc_version c"
  by (simp add: wf_context_def)

lemma wf_previous:
  assumes "wf_context c" "previous_session c = Some p"
  shows "0 < candle_low (ps_candle p) \<and> candle_low (ps_candle p) \<le> candle_open (ps_candle p) \<and> candle_open (ps_candle p) \<le> candle_high (ps_candle p)
    \<and> candle_low (ps_candle p) \<le> candle_close (ps_candle p) \<and> candle_close (ps_candle p) \<le> candle_high (ps_candle p)"
  using assms by (auto simp: wf_context_def previous_session_def wf_simps split: option.splits)

section \<open>Every strategy evaluates\<close>

lemma narrow_cpr_evaluates:
  assumes "wf_context c" "sc_type cfg = NarrowCprConfiguration"
  shows "\<exists>ev. narrow_cpr_evaluate dc c cfg md = Inr ev \<and> answers ''cpr_width_pct'' c ev
    \<and> (ev_status ev = SKIPPED \<longleftrightarrow> previous_session c = None)"
proof (cases "previous_session c")
  case None
  then show ?thesis using skipped_ok [of c "''NARROW_CPR_NO_PREVIOUS_SESSION''"] assms(1) by (auto simp: narrow_cpr_evaluate_def wf_version)
next
  case (Some p)
  obtain r where r: "compute_cpr dc (candle_high (ps_candle p)) (candle_low (ps_candle p)) (candle_close (ps_candle p)) = Inr r"
    using wf_previous [OF assms(1) Some] by (auto simp: compute_cpr_def validate_cpr_def Let_def)
  obtain status reason where cl: "classify_cpr r (sc_narrow_cpr_max_width_pct cfg) = (status, reason)" by fastforce
  then have ok: "is_reason_code reason" "status \<in> {MATCHED, UNMATCHED}" by (auto simp: classify_cpr_def split: option.splits if_splits)
  have "\<exists>ev. evaluation_of c status reason (narrow_cpr_metrics r p) = Inr ev \<and> answers ''cpr_width_pct'' c ev \<and> ev_status ev = status"
    using assms(1) ok by (intro evaluation_of_ok) (auto simp: wf_version)
  then show ?thesis using Some r cl ok(2) assms(2) by (auto simp: narrow_cpr_evaluate_def narrow_cpr_threshold_def)
qed

lemma body_pct_evaluates:
  assumes "wf_context c" "sc_type cfg = PreviousSessionBodyPctConfiguration"
  shows "\<exists>ev. body_pct_evaluate dc c cfg md = Inr ev \<and> answers ''previous_body_pct'' c ev \<and> (ev_status ev = SKIPPED \<longleftrightarrow> previous_session c = None)"
proof (cases "previous_session c")
  case None
  then show ?thesis using skipped_ok [of c "''PREVIOUS_SESSION_BODY_NO_PREVIOUS''"] assms by (auto simp: body_pct_evaluate_def wf_version)
next
  case (Some p)
  obtain r where r: "compute_previous_session_body dc (candle_open (ps_candle p)) (candle_close (ps_candle p)) = Inr r"
    using wf_previous [OF assms(1) Some] by (auto simp: compute_previous_session_body_def Let_def)
  have "\<exists>ev. evaluation_of c MATCHED ''PREVIOUS_SESSION_BODY_VALID'' (body_pct_metrics r p) = Inr ev \<and> answers ''previous_body_pct'' c ev \<and> ev_status ev = MATCHED"
    using assms(1) by (intro evaluation_of_ok) (auto simp: wf_version)
  then show ?thesis using Some r assms(2) by (auto simp: body_pct_evaluate_def)
qed

lemma range_pct_evaluates:
  assumes "wf_context c" "sc_type cfg = PreviousSessionRangePctConfiguration"
  shows "\<exists>ev. range_pct_evaluate dc c cfg md = Inr ev \<and> answers ''previous_range_pct'' c ev \<and> (ev_status ev = SKIPPED \<longleftrightarrow> previous_session c = None)"
proof (cases "previous_session c")
  case None
  then show ?thesis using skipped_ok [of c "''PREVIOUS_SESSION_RANGE_NO_PREVIOUS''"] assms by (auto simp: range_pct_evaluate_def wf_version)
next
  case (Some p)
  obtain r where r: "compute_previous_session_range dc (candle_open (ps_candle p)) (candle_high (ps_candle p)) (candle_low (ps_candle p)) = Inr r"
    using wf_previous [OF assms(1) Some] by (auto simp: compute_previous_session_range_def validate_range_def Let_def)
  have "\<exists>ev. evaluation_of c MATCHED ''PREVIOUS_SESSION_RANGE_VALID'' (range_pct_metrics r p) = Inr ev \<and> answers ''previous_range_pct'' c ev \<and> ev_status ev = MATCHED"
    using assms(1) by (intro evaluation_of_ok) (auto simp: wf_version)
  then show ?thesis using Some r assms(2) by (auto simp: range_pct_evaluate_def)
qed

lemma wf_sessions:
  assumes "wf_context c" "session_series c = Some ss" "k \<in> set (hs_candles ss)"
  shows "wf_session (ohl k)"
proof -
  obtain h where "mc_historical c = Some h" "find (\<lambda>s. is_session (hs_timeframe s)) (hc_series h) = Some ss"
    using assms(2) by (auto simp: session_series_def split: option.splits)
  then have "ss \<in> set (hc_series h)" "\<forall>s \<in> set (hc_series h). list_all wf_candle (hs_candles s)"
    using assms(1) by (auto simp: wf_context_def find_Some_iff)
  then have "wf_candle k" using assms(3) by (auto simp: list_all_iff)
  then show ?thesis by (auto simp: ohl_def wf_session_def wf_simps)
qed

lemma relative_range_total:
  assumes "wf_session x" "\<forall>s \<in> set xs. wf_session s" "xs \<noteq> []"
  shows "compute_previous_session_relative_range dc x xs \<noteq> Inl (Input_error e)"
proof -
  obtain p where p: "range_percent (local_context dc) x = Inr p" using baseline_near [of "[x]" dc] assms(1) by (auto split: sum.splits)
  obtain ys where ys: "map_res (range_percent (local_context dc)) xs = Inr ys" using baseline_near [OF assms(2)] by blast
  then have "length ys = length xs" by (simp add: map_res_eq_Inr)
  then have "sort ys \<noteq> []" using assms(3) by (metis length_0_conv length_sort)
  then obtain m where "median (local_context dc) ys = Inr m" by (cases "length ys mod 2 = 1") (auto simp: median_def Let_def)
  then show ?thesis using p ys by (simp add: compute_previous_session_relative_range_def Let_def)
qed

lemma relative_range_evaluates:
  assumes "wf_context c" "sc_type cfg = PreviousSessionRelativeRangeConfiguration"
  shows "\<exists>ev. relative_range_evaluate dc c cfg md = Inr ev \<and> answers ''relative_range_ratio'' c ev"
proof -
  note version = wf_version [OF assms(1)]
  have skip: "\<exists>ev. evaluation_of c SKIPPED ''PREVIOUS_SESSION_RELATIVE_RANGE_NO_HISTORY'' [] = Inr ev \<and> answers ''relative_range_ratio'' c ev"
    "\<exists>ev. evaluation_of c SKIPPED ''PREVIOUS_SESSION_RELATIVE_RANGE_DEGENERATE_BASELINE'' [] = Inr ev \<and> answers ''relative_range_ratio'' c ev"
    using skipped_ok [OF version] reason_codes by blast+
  have match: "\<exists>ev. evaluation_of c MATCHED ''PREVIOUS_SESSION_RELATIVE_RANGE_VALID'' (relative_range_metrics r p) = Inr ev \<and> answers ''relative_range_ratio'' c ev" for r p
    using evaluation_of_ok [OF version, of "''PREVIOUS_SESSION_RELATIVE_RANGE_VALID''" "relative_range_metrics r p" MATCHED "''relative_range_ratio''"] by auto
  show ?thesis
  proof (cases "\<exists>ss p. session_series c = Some ss \<and> previous_session c = Some p \<and> int (length (hs_candles ss)) = REQUIRED_SESSIONS")
    case True
    then obtain ss p where ss: "session_series c = Some ss" "previous_session c = Some p" "length (hs_candles ss) = 21"
      by (auto simp: REQUIRED_SESSIONS_def)
    have sessions: "wf_session (ohl (last (hs_candles ss)))" "\<forall>s \<in> set (map ohl (butlast (hs_candles ss))). wf_session s" "map ohl (butlast (hs_candles ss)) \<noteq> []"
      using wf_sessions [OF assms(1) ss(1)] ss(3) by (auto dest: in_set_butlastD simp flip: length_greater_0_conv)
    show ?thesis
      using relative_range_total [OF sessions] ss assms(2) skip match
      by (cases "compute_previous_session_relative_range dc (ohl (last (hs_candles ss))) (map ohl (butlast (hs_candles ss)))")
        (auto simp: relative_range_evaluate_def REQUIRED_SESSIONS_def split: relative_range_error.splits)
  next
    case False
    then show ?thesis using skip(1) assms(2) by (auto simp: relative_range_evaluate_def split: option.splits)
  qed
qed

lemma open_extreme_evaluates:
  assumes "wf_context c" "is_reason_code yes" "is_reason_code no"
  shows "\<exists>ev. evaluate_open_extreme dc c high yes no = Inr ev \<and> answers ''session_range_pct'' c ev
    \<and> (ev_status ev = SKIPPED \<longleftrightarrow> authoritative_statistics c = None)
    \<and> (ev_status ev = MATCHED \<longleftrightarrow> (\<exists>st. authoritative_statistics c = Some st \<and> ss_open st = (if high then ss_high st else ss_low st)))"
proof (cases "authoritative_statistics c")
  case None
  then show ?thesis using skipped_ok [OF wf_version [OF assms(1)], of "''SESSION_STATISTICS_UNAVAILABLE''"] by (fastforce simp: evaluate_open_extreme_def)
next
  case (Some st)
  then have "wf_statistics st" "ss_quality st = AUTHORITATIVE"
    using assms(1) by (auto simp: authoritative_statistics_def wf_context_def split: option.splits if_splits)
  then obtain ms where ms: "session_metrics dc st = Inr ms" by (auto simp: wf_statistics_def session_metrics_def split: option.splits)
  let ?m = "ss_open st = (if high then ss_high st else ss_low st)"
  have "\<exists>ev. evaluation_of c (if ?m then MATCHED else UNMATCHED) (if ?m then yes else no) ms = Inr ev \<and> answers ''session_range_pct'' c ev
      \<and> ev_status ev = (if ?m then MATCHED else UNMATCHED)"
    using assms ms by (intro evaluation_of_ok) (auto simp: wf_version)
  then show ?thesis using Some ms by (auto simp: evaluate_open_extreme_def Let_def split: if_splits)
qed

section \<open>The six strategies are lawful\<close>

lemma session_requirements_valid: "mk_strategy_requirements (session_requirements n) = Inr (session_requirements n)"
  by (simp add: mk_strategy_requirements_def validate_freshness_def normalize_requirements_def session_requirements_def ordered_historical_def
      ordered_timeframes_def ordered_fact_needs_def ordered_freshness_def dict_fromkeys_def)

lemma open_extreme_requirements_valid: "mk_strategy_requirements open_extreme_requirements = Inr open_extreme_requirements"
  by (simp add: mk_strategy_requirements_def validate_freshness_def normalize_requirements_def open_extreme_requirements_def ordered_historical_def
      ordered_timeframes_def ordered_fact_needs_def ordered_freshness_def dict_fromkeys_def fact_need_value_def)

lemma strategy_texts [simp]:
  "is_strategy_id ''narrow_cpr''" "is_strategy_id ''previous_session_body_pct''" "is_strategy_id ''previous_session_range_pct''"
  "is_strategy_id ''previous_session_relative_range''" "is_strategy_id ''open_high''" "is_strategy_id ''open_low''" "is_semver_lite ''1.0.0''"
  by code_simp+

interpretation narrow_cpr: lawful_strategy "narrow_cpr_strategy dc" "''cpr_width_pct''" for dc
  by unfold_locales
    (use narrow_cpr_evaluates in \<open>fastforce simp: narrow_cpr_strategy_def validate_descriptor_def narrow_cpr_descriptor_def session_requirements_valid\<close>)+

interpretation body_pct: lawful_strategy "body_pct_strategy dc" "''previous_body_pct''" for dc
  by unfold_locales
    (use body_pct_evaluates in \<open>fastforce simp: body_pct_strategy_def validate_descriptor_def body_pct_descriptor_def session_requirements_valid\<close>)+

interpretation range_pct: lawful_strategy "range_pct_strategy dc" "''previous_range_pct''" for dc
  by unfold_locales
    (use range_pct_evaluates in \<open>fastforce simp: range_pct_strategy_def validate_descriptor_def range_pct_descriptor_def session_requirements_valid\<close>)+

interpretation relative_range: lawful_strategy "relative_range_strategy dc" "''relative_range_ratio''" for dc
  by unfold_locales
    (use relative_range_evaluates in \<open>fastforce simp: relative_range_strategy_def validate_descriptor_def relative_range_descriptor_def session_requirements_valid\<close>)+

interpretation open_high: lawful_strategy "open_high_strategy dc" "''session_range_pct''" for dc
  by unfold_locales
    (use open_extreme_evaluates [of _ "''OPEN_EQUALS_HIGH''" "''HIGH_ABOVE_OPEN''" dc True] in \<open>fastforce simp: open_high_strategy_def validate_descriptor_def open_extreme_requirements_valid\<close>)+

interpretation open_low: lawful_strategy "open_low_strategy dc" "''session_range_pct''" for dc
  by unfold_locales
    (use open_extreme_evaluates [of _ "''OPEN_EQUALS_LOW''" "''LOW_BELOW_OPEN''" dc False] in \<open>fastforce simp: open_low_strategy_def validate_descriptor_def open_extreme_requirements_valid\<close>)+

end
