(* ===== verification/Result_Scanner.thy ===== *)
theory Result_Scanner
  imports Strategy_Manager Decimal_Arithmetic
begin

text \<open>
  The cross-instrument scanner (\<^verbatim>\<open>services/cross_instrument_scanner.py\<close>): it turns published strategy results into one ranked snapshot per
  strategy. A dict is an association list in insertion order. Shown: after any sequence of events the snapshot of a
  strategy ranks exactly the newest report of every instrument for the newest trading date.
\<close>

datatype scanner_ordering = ASCENDING | DESCENDING

datatype snapshot_completeness = PARTIAL_SNAPSHOT | COMPLETE_SNAPSHOT

record ranking_policy =
  pol_strategy_id :: string
  pol_metric_name :: string
  pol_ordering :: scanner_ordering

definition mk_ranking_policy :: "string \<Rightarrow> string \<Rightarrow> scanner_ordering \<Rightarrow> ranking_policy res" where
  "mk_ranking_policy sid name direction =
     (if blank sid then Inl (ValueError ''ranking policy requires a non-empty strategy_id'')
      else if blank name then Inl (ValueError ''ranking policy requires a non-empty metric_name'')
      else Inr \<lparr>pol_strategy_id = sid, pol_metric_name = name, pol_ordering = direction\<rparr>)"

record scanner_candidate =
  ca_instrument :: instrument
  ca_strategy_id :: string
  ca_strategy_version :: string
  ca_config_version :: string
  ca_status :: evaluation_status
  ca_ranking_metric_name :: string
  ca_ranking_metric_value :: decimal
  ca_rank :: nat

record scanner_snapshot =
  sn_strategy_id :: string
  sn_strategy_version :: string
  sn_config_version :: string
  sn_trading_date :: date
  sn_expected_count :: nat
  sn_evaluated_count :: nat
  sn_eligible_count :: nat
  sn_completeness :: snapshot_completeness
  sn_candidates :: "scanner_candidate list"

section \<open>Ranking policies\<close>

type_synonym policy_registry = "(string \<times> ranking_policy) list"

definition policy_register :: "policy_registry \<Rightarrow> ranking_policy \<Rightarrow> policy_registry res" where
  "policy_register reg p =
     (case map_of reg (pol_strategy_id p) of
        None \<Rightarrow> Inr (AList.update (pol_strategy_id p) p reg)
      | Some q \<Rightarrow> (if q \<noteq> p then Inl (ValueError ''a different ranking policy is already registered'')
                    else Inr (AList.update (pol_strategy_id p) p reg)))"

fun register_policies :: "policy_registry \<Rightarrow> ranking_policy list \<Rightarrow> policy_registry res" where
  "register_policies reg [] = Inr reg"
| "register_policies reg (p # ps) = res_bind (policy_register reg p) (\<lambda>reg1. register_policies reg1 ps)"

definition mk_policy_registry :: "ranking_policy list \<Rightarrow> policy_registry res" where
  "mk_policy_registry ps = register_policies [] ps"

definition policy_get :: "policy_registry \<Rightarrow> string \<Rightarrow> ranking_policy option" where
  "policy_get reg sid = map_of reg sid"

definition policy_strategy_ids :: "policy_registry \<Rightarrow> string list" where
  "policy_strategy_ids reg = sort (map fst reg)"

section \<open>The scanner\<close>

record candidate_record =
  cr_instrument :: instrument
  cr_status :: evaluation_status
  cr_metric_value :: "decimal option"
  cr_context_version :: int

definition cr_eligible :: "candidate_record \<Rightarrow> bool" where
  "cr_eligible k \<longleftrightarrow> cr_status k = MATCHED \<and> cr_metric_value k \<noteq> None"

record scan_state =
  sst_trading_date :: date
  sst_strategy_version :: string
  sst_config_version :: string
  sst_records :: "(instrument \<times> candidate_record) list"

record scanner =
  scn_universe :: "instrument set"
  scn_policies :: policy_registry
  scn_snapshots :: "(string \<times> scan_state) list"
  scn_subscription :: "unit subscription option"

definition mk_scanner :: "instrument list \<Rightarrow> policy_registry \<Rightarrow> scanner" where
  "mk_scanner instruments policies =
     \<lparr>scn_universe = set instruments, scn_policies = policies, scn_snapshots = [], scn_subscription = None\<rparr>"

text \<open>The bus is the part of the event bus that carries \<^verbatim>\<open>StrategyResultsPublished\<close>, its one event type being \<open>()\<close>.\<close>

definition scanner_subscribe :: "handler \<Rightarrow> unit event_bus \<Rightarrow> scanner \<Rightarrow> unit event_bus \<times> scanner" where
  "scanner_subscribe handle bus sc =
     (case scn_subscription sc of
        Some _ \<Rightarrow> (bus, sc)
      | None \<Rightarrow> (case subscribe bus () handle of (bus1, s) \<Rightarrow> (bus1, sc\<lparr>scn_subscription := Some s\<rparr>)))"

definition scanner_unsubscribe :: "unit event_bus \<Rightarrow> scanner \<Rightarrow> unit event_bus \<times> scanner" where
  "scanner_unsubscribe bus sc =
     (case scn_subscription sc of
        None \<Rightarrow> (bus, sc)
      | Some s \<Rightarrow> (unsubscribe bus s, sc\<lparr>scn_subscription := None\<rparr>))"

definition ranking_value :: "strategy_result \<Rightarrow> string \<Rightarrow> decimal option" where
  "ranking_value r name =
     (case find (\<lambda>m. me_name m = name) (rs_metrics r) of
        None \<Rightarrow> None
      | Some m \<Rightarrow> (case me_value m of MetricDecimal v \<Rightarrow> Some v | _ \<Rightarrow> None))"

definition resolve_state :: "scanner \<Rightarrow> strategy_result \<Rightarrow> date \<Rightarrow> scan_state option \<times> scanner" where
  "resolve_state sc r d =
     (let fresh = \<lparr>sst_trading_date = d, sst_strategy_version = rs_strategy_version r, sst_config_version = rs_config_version r, sst_records = []\<rparr>;
          renewed = (Some fresh, sc\<lparr>scn_snapshots := AList.update (rs_strategy_id r) fresh (scn_snapshots sc)\<rparr>)
      in case map_of (scn_snapshots sc) (rs_strategy_id r) of
           None \<Rightarrow> renewed
         | Some st \<Rightarrow>
             (if sst_trading_date st < d then renewed
              else if d < sst_trading_date st then (None, sc)
              else if (rs_strategy_version r, rs_config_version r) \<noteq> (sst_strategy_version st, sst_config_version st) then (None, sc)
              else (Some st, sc)))"

definition store_record :: "scan_state \<Rightarrow> strategy_result \<Rightarrow> decimal option \<Rightarrow> scan_state" where
  "store_record st r value =
     (let k = \<lparr>cr_instrument = rs_instrument r, cr_status = rs_status r, cr_metric_value = value, cr_context_version = rs_context_version r\<rparr>;
          stored = st\<lparr>sst_records := AList.update (rs_instrument r) k (sst_records st)\<rparr>
      in case map_of (sst_records st) (rs_instrument r) of
           None \<Rightarrow> stored
         | Some old \<Rightarrow>
             (if rs_context_version r < cr_context_version old then st
              else if rs_context_version r = cr_context_version old then st
              else stored))"

text \<open>The state that \<^verbatim>\<open>_resolve_state\<close> returns is shared with the map, so storing into it is storing into the map.\<close>

definition ingest :: "scanner \<Rightarrow> strategy_result \<Rightarrow> date \<Rightarrow> scanner" where
  "ingest sc r d =
     (case policy_get (scn_policies sc) (rs_strategy_id r) of
        None \<Rightarrow> sc
      | Some p \<Rightarrow>
          (if rs_instrument r \<notin> scn_universe sc then sc
           else if rs_status r \<notin> {MATCHED, UNMATCHED} then sc
           else case resolve_state sc r d of
             (None, sc1) \<Rightarrow> sc1
           | (Some st, sc1) \<Rightarrow>
               (let value = (if rs_status r = MATCHED then ranking_value r (pol_metric_name p) else None)
                in sc1\<lparr>scn_snapshots := AList.update (rs_strategy_id r) (store_record st r value) (scn_snapshots sc1)\<rparr>)))"

definition scanner_handle :: "scanner \<Rightarrow> results_published \<Rightarrow> scanner" where
  "scanner_handle sc e =
     (case rp_trading_date e of None \<Rightarrow> sc | Some d \<Rightarrow> foldl (\<lambda>s r. ingest s r d) sc (rp_results e))"

definition scanner_key :: "decimal_context \<Rightarrow> ranking_policy \<Rightarrow> candidate_record \<Rightarrow> decimal \<times> string \<times> string" where
  "scanner_key dc p k =
     (let v = the (cr_metric_value k)
      in (if pol_ordering p = DESCENDING then round_to dc (- v) else v, exchange (cr_instrument k), symbol (cr_instrument k)))"

definition scanner_rank :: "decimal_context \<Rightarrow> candidate_record list \<Rightarrow> ranking_policy \<Rightarrow> candidate_record list" where
  "scanner_rank dc ks p = sort_key (scanner_key dc p) ks"

definition ranked_snapshot :: "decimal_context \<Rightarrow> scanner \<Rightarrow> string \<Rightarrow> scanner_snapshot option" where
  "ranked_snapshot dc sc sid =
     (case (map_of (scn_snapshots sc) sid, policy_get (scn_policies sc) sid) of
        (Some st, Some p) \<Rightarrow>
          (let ranked = scanner_rank dc (filter cr_eligible (map snd (sst_records st))) p;
               candidates = map (\<lambda>(i, k).
                 \<lparr>ca_instrument = cr_instrument k, ca_strategy_id = sid, ca_strategy_version = sst_strategy_version st,
                  ca_config_version = sst_config_version st, ca_status = MATCHED, ca_ranking_metric_name = pol_metric_name p,
                  ca_ranking_metric_value = the (cr_metric_value k), ca_rank = i\<rparr>) (enumerate 1 ranked);
               evaluated = length (sst_records st); expected = card (scn_universe sc)
           in Some \<lparr>sn_strategy_id = sid, sn_strategy_version = sst_strategy_version st, sn_config_version = sst_config_version st,
                    sn_trading_date = sst_trading_date st, sn_expected_count = expected, sn_evaluated_count = evaluated,
                    sn_eligible_count = length candidates,
                    sn_completeness = (if evaluated = expected then COMPLETE_SNAPSHOT else PARTIAL_SNAPSHOT), sn_candidates = candidates\<rparr>)
      | _ \<Rightarrow> None)"

section \<open>What the scanner should hold\<close>

text \<open>The reports of a strategy that count, oldest first, each with the trading date of its event.\<close>

definition log_of :: "results_published list \<Rightarrow> (strategy_result \<times> date) list" where
  "log_of es = concat (map (\<lambda>e. case rp_trading_date e of None \<Rightarrow> [] | Some d \<Rightarrow> map (\<lambda>r. (r, d)) (rp_results e)) es)"

definition counts :: "instrument set \<Rightarrow> string \<Rightarrow> strategy_result \<Rightarrow> bool" where
  "counts uni sid r \<longleftrightarrow> rs_strategy_id r = sid \<and> rs_instrument r \<in> uni \<and> rs_status r \<in> {MATCHED, UNMATCHED}"

definition reports :: "instrument set \<Rightarrow> string \<Rightarrow> (strategy_result \<times> date) list \<Rightarrow> (strategy_result \<times> date) list" where
  "reports uni sid ledger = filter (\<lambda>x. counts uni sid (fst x)) ledger"

definition newest_date :: "(strategy_result \<times> date) list \<Rightarrow> date" where
  "newest_date rs = Max (set (map snd rs))"

definition versions :: "strategy_result \<Rightarrow> string \<times> string" where
  "versions r = (rs_strategy_version r, rs_config_version r)"

text \<open>The reports of the newest date that agree in version with the first of them.\<close>

definition current :: "(strategy_result \<times> date) list \<Rightarrow> strategy_result list" where
  "current rs =
     (let today = map fst (filter (\<lambda>x. snd x = newest_date rs) rs) in filter (\<lambda>r. versions r = versions (hd today)) today)"

text \<open>A report is the newest of its instrument if it is the first of those with the largest context version.\<close>

definition is_newest :: "strategy_result list \<Rightarrow> strategy_result \<Rightarrow> bool" where
  "is_newest xs r \<longleftrightarrow> (\<exists>as bs. xs = as @ r # bs
     \<and> (\<forall>a \<in> set as. rs_instrument a = rs_instrument r \<longrightarrow> rs_context_version a < rs_context_version r)
     \<and> (\<forall>b \<in> set bs. rs_instrument b = rs_instrument r \<longrightarrow> rs_context_version b \<le> rs_context_version r))"

definition record_of :: "ranking_policy \<Rightarrow> strategy_result \<Rightarrow> candidate_record" where
  "record_of p r =
     \<lparr>cr_instrument = rs_instrument r, cr_status = rs_status r,
      cr_metric_value = (if rs_status r = MATCHED then ranking_value r (pol_metric_name p) else None), cr_context_version = rs_context_version r\<rparr>"

lemma newest_date_snoc: "rs \<noteq> [] \<Longrightarrow> newest_date (rs @ [(r, d)]) = max d (newest_date rs)"
  by (simp add: newest_date_def)

lemma newest_date_ge: "x \<in> set rs \<Longrightarrow> snd x \<le> newest_date rs"
  by (simp add: newest_date_def)

lemma today_nonempty: "rs \<noteq> [] \<Longrightarrow> filter (\<lambda>x. snd x = newest_date rs) rs \<noteq> []"
proof -
  assume "rs \<noteq> []"
  then have "newest_date rs \<in> set (map snd rs)" unfolding newest_date_def by (intro Max_in) simp_all
  then show ?thesis unfolding filter_empty_conv set_map by (metis imageE)
qed

lemma current_hd:
  assumes "rs \<noteq> []"
  shows "current rs \<noteq> []" "hd (current rs) = fst (hd (filter (\<lambda>x. snd x = newest_date rs) rs))"
proof -
  obtain x xs where "filter (\<lambda>x. snd x = newest_date rs) rs = x # xs" using today_nonempty [OF assms] by (auto simp: neq_Nil_conv)
  then show "current rs \<noteq> []" "hd (current rs) = fst (hd (filter (\<lambda>x. snd x = newest_date rs) rs))" by (simp_all add: current_def Let_def)
qed

lemma current_newer:
  assumes "rs = [] \<or> newest_date rs < d"
  shows "current (rs @ [(r, d)]) = [r]" "newest_date (rs @ [(r, d)]) = d"
proof -
  show d: "newest_date (rs @ [(r, d)]) = d" using assms newest_date_snoc by (cases "rs = []") (auto simp: newest_date_def)
  have "filter (\<lambda>x. snd x = d) rs = []" using assms newest_date_ge by (fastforce simp: filter_empty_conv)
  then show "current (rs @ [(r, d)]) = [r]" by (simp add: current_def d)
qed

lemma current_older: "rs \<noteq> [] \<Longrightarrow> d < newest_date rs \<Longrightarrow> current (rs @ [(r, d)]) = current rs \<and> newest_date (rs @ [(r, d)]) = newest_date rs"
  by (simp add: current_def newest_date_snoc)

lemma current_same:
  assumes "rs \<noteq> []" "d = newest_date rs"
  shows "current (rs @ [(r, d)]) = (if versions r = versions (hd (current rs)) then current rs @ [r] else current rs)"
    "newest_date (rs @ [(r, d)]) = newest_date rs"
proof -
  show d: "newest_date (rs @ [(r, d)]) = newest_date rs" using assms by (simp add: newest_date_snoc)
  have "hd (map fst (filter (\<lambda>x. snd x = newest_date rs) rs)) = hd (current rs)"
    using current_hd(2) [OF assms(1)] today_nonempty [OF assms(1)] by (simp add: hd_map)
  then show "current (rs @ [(r, d)]) = (if versions r = versions (hd (current rs)) then current rs @ [r] else current rs)"
    using today_nonempty [OF assms(1)] assms(2) unfolding current_def d by (simp add: Let_def hd_append)
qed

lemma is_newest_mem: "is_newest xs q \<Longrightarrow> q \<in> set xs"
  by (auto simp: is_newest_def)

lemma is_newest_max: "is_newest xs q \<Longrightarrow> a \<in> set xs \<Longrightarrow> rs_instrument a = rs_instrument q \<Longrightarrow> rs_context_version a \<le> rs_context_version q"
  by (fastforce simp: is_newest_def)

lemma is_newest_snoc:
  "is_newest (xs @ [r]) q \<longleftrightarrow>
     q = r \<and> (\<forall>a \<in> set xs. rs_instrument a = rs_instrument r \<longrightarrow> rs_context_version a < rs_context_version r)
     \<or> is_newest xs q \<and> (rs_instrument r = rs_instrument q \<longrightarrow> rs_context_version r \<le> rs_context_version q)"
proof
  assume "is_newest (xs @ [r]) q"
  then obtain as bs where s: "xs @ [r] = as @ q # bs"
    "\<forall>a \<in> set as. rs_instrument a = rs_instrument q \<longrightarrow> rs_context_version a < rs_context_version q"
    "\<forall>b \<in> set bs. rs_instrument b = rs_instrument q \<longrightarrow> rs_context_version b \<le> rs_context_version q"
    by (auto simp: is_newest_def)
  show "q = r \<and> (\<forall>a \<in> set xs. rs_instrument a = rs_instrument r \<longrightarrow> rs_context_version a < rs_context_version r)
     \<or> is_newest xs q \<and> (rs_instrument r = rs_instrument q \<longrightarrow> rs_context_version r \<le> rs_context_version q)"
  proof (cases bs rule: rev_cases)
    case (snoc bs' b)
    then have "xs = as @ q # bs'" "b = r" using s(1) by simp_all
    then show ?thesis using s snoc unfolding is_newest_def by auto
  qed (use s in auto)
next
  assume "q = r \<and> (\<forall>a \<in> set xs. rs_instrument a = rs_instrument r \<longrightarrow> rs_context_version a < rs_context_version r)
     \<or> is_newest xs q \<and> (rs_instrument r = rs_instrument q \<longrightarrow> rs_context_version r \<le> rs_context_version q)"
  then show "is_newest (xs @ [r]) q"
  proof
    assume "is_newest xs q \<and> (rs_instrument r = rs_instrument q \<longrightarrow> rs_context_version r \<le> rs_context_version q)"
    then obtain as bs where "xs = as @ q # bs"
      "\<forall>a \<in> set as. rs_instrument a = rs_instrument q \<longrightarrow> rs_context_version a < rs_context_version q"
      "\<forall>b \<in> set (bs @ [r]). rs_instrument b = rs_instrument q \<longrightarrow> rs_context_version b \<le> rs_context_version q"
      by (auto simp: is_newest_def)
    then show ?thesis unfolding is_newest_def by (intro exI [of _ as] exI [of _ "bs @ [r]"]) simp
  next
    assume "q = r \<and> (\<forall>a \<in> set xs. rs_instrument a = rs_instrument r \<longrightarrow> rs_context_version a < rs_context_version r)"
    then show ?thesis unfolding is_newest_def by (intro exI [of _ xs] exI [of _ "[]"]) simp
  qed
qed

lemma is_newest_exists: "a \<in> set xs \<Longrightarrow> \<exists>q. is_newest xs q \<and> rs_instrument q = rs_instrument a"
proof (induction xs arbitrary: a rule: rev_induct)
  case (snoc r xs)
  show ?case
  proof (cases "\<exists>q. is_newest xs q \<and> rs_instrument q = rs_instrument a \<and> (rs_instrument r = rs_instrument a \<longrightarrow> rs_context_version r \<le> rs_context_version q)")
    case False
    then have r: "rs_instrument r = rs_instrument a" using snoc by fastforce
    have "rs_context_version x < rs_context_version r" if "x \<in> set xs" "rs_instrument x = rs_instrument r" for x
      using snoc.IH [OF that(1)] False r that is_newest_max [of xs _ x] by fastforce
    then show ?thesis using r by (auto simp: is_newest_snoc)
  qed (auto simp: is_newest_snoc)
qed simp

section \<open>The scanner holds it\<close>

definition state_ok :: "ranking_policy \<Rightarrow> (strategy_result \<times> date) list \<Rightarrow> scan_state \<Rightarrow> bool" where
  "state_ok p rs st \<longleftrightarrow> rs \<noteq> [] \<and> sst_trading_date st = newest_date rs
     \<and> (sst_strategy_version st, sst_config_version st) = versions (hd (current rs)) \<and> distinct (map fst (sst_records st))
     \<and> (\<forall>i k. map_of (sst_records st) i = Some k \<longleftrightarrow> (\<exists>r. is_newest (current rs) r \<and> rs_instrument r = i \<and> k = record_of p r))"

lemma is_newest_single: "is_newest [r] q \<longleftrightarrow> q = r"
  using is_newest_snoc [of "[]" r q] by (auto simp: is_newest_def)

text \<open>Storing a report into the state of the reports before it.\<close>

lemma store_record_ok:
  assumes records: "\<And>i k. map_of (sst_records st) i = Some k \<longleftrightarrow> (\<exists>r. is_newest xs r \<and> rs_instrument r = i \<and> k = record_of p r)"
    and st': "st' = store_record st r (cr_metric_value (record_of p r))"
  shows "map_of (sst_records st') i = Some k \<longleftrightarrow> (\<exists>q. is_newest (xs @ [r]) q \<and> rs_instrument q = i \<and> k = record_of p q)"
proof (cases "map_of (sst_records st) (rs_instrument r)")
  case None
  have "rs_instrument a \<noteq> rs_instrument r" if "a \<in> set xs" for a
    using is_newest_exists [OF that] None records by (metis option.distinct(1))
  then have new: "is_newest (xs @ [r]) q \<longleftrightarrow> q = r \<or> is_newest xs q" for q
    using is_newest_mem by (fastforce simp: is_newest_snoc)
  have m: "map_of (sst_records st') = (map_of (sst_records st))(rs_instrument r \<mapsto> record_of p r)"
    using None by (simp add: st' store_record_def record_of_def Let_def update_conv')
  show ?thesis
  proof (cases "i = rs_instrument r")
    case True
    have "\<not> (\<exists>q. is_newest xs q \<and> rs_instrument q = i)" using None True records by (metis option.distinct(1))
    then show ?thesis unfolding m new using True by auto
  next
    case False
    then show ?thesis unfolding new m using records [of i k] by auto
  qed
next
  case (Some old)
  then obtain q where q: "is_newest xs q" "rs_instrument q = rs_instrument r" "old = record_of p q" using records by blast
  show ?thesis
  proof (cases "rs_context_version r \<le> rs_context_version q")
    case True
    then have "sst_records st' = sst_records st" using Some q by (simp add: st' store_record_def record_of_def Let_def)
    moreover have "is_newest (xs @ [r]) x \<longleftrightarrow> is_newest xs x" for x
    proof -
      have "\<not> (\<forall>a \<in> set xs. rs_instrument a = rs_instrument r \<longrightarrow> rs_context_version a < rs_context_version r)"
        using True q is_newest_mem by fastforce
      moreover have "rs_context_version r \<le> rs_context_version x" if "is_newest xs x" "rs_instrument r = rs_instrument x"
        using True q is_newest_max [OF that(1) is_newest_mem [OF q(1)]] that by simp
      ultimately show ?thesis by (auto simp: is_newest_snoc)
    qed
    ultimately show ?thesis using records by simp
  next
    case False
    then have m: "map_of (sst_records st') = (map_of (sst_records st))(rs_instrument r \<mapsto> record_of p r)"
      using Some q by (simp add: st' store_record_def record_of_def Let_def update_conv')
    have "rs_context_version a < rs_context_version r" if "a \<in> set xs" "rs_instrument a = rs_instrument r" for a
      using is_newest_max [OF q(1) that(1)] q(2) that(2) False by simp
    then have new: "is_newest (xs @ [r]) x \<longleftrightarrow> x = r \<or> is_newest xs x \<and> rs_instrument r \<noteq> rs_instrument x" for x
      unfolding is_newest_snoc using is_newest_mem [of xs x] by (metis not_less)
    show ?thesis
    proof (cases "i = rs_instrument r")
      case True
      then show ?thesis unfolding m new by auto
    next
      case False
      then have "map_of (sst_records st') i = map_of (sst_records st) i" unfolding m by simp
      moreover have "(\<exists>q. is_newest (xs @ [r]) q \<and> rs_instrument q = i \<and> k = record_of p q) \<longleftrightarrow> (\<exists>q. is_newest xs q \<and> rs_instrument q = i \<and> k = record_of p q)"
        unfolding new using False by auto
      ultimately show ?thesis by (simp only: records)
    qed
  qed
qed

lemma store_record_keeps:
  "sst_trading_date (store_record st r v) = sst_trading_date st" "sst_strategy_version (store_record st r v) = sst_strategy_version st"
  "sst_config_version (store_record st r v) = sst_config_version st"
  "distinct (map fst (sst_records st)) \<Longrightarrow> distinct (map fst (sst_records (store_record st r v)))"
  by (auto simp: store_record_def Let_def distinct_update split: option.splits)

definition holds_reports :: "scanner \<Rightarrow> string \<Rightarrow> ranking_policy \<Rightarrow> (strategy_result \<times> date) list \<Rightarrow> bool" where
  "holds_reports sc sid p rs \<longleftrightarrow>
     (case map_of (scn_snapshots sc) sid of None \<Rightarrow> rs = [] | Some st \<Rightarrow> state_ok p rs st)"

lemma fresh_state_ok:
  assumes "rs = [] \<or> newest_date rs < d"
  shows "state_ok p (rs @ [(r, d)])
    (store_record \<lparr>sst_trading_date = d, sst_strategy_version = rs_strategy_version r, sst_config_version = rs_config_version r, sst_records = []\<rparr> r
      (cr_metric_value (record_of p r)))"
  using current_newer [OF assms, of r]
  by (auto simp: state_ok_def versions_def is_newest_single store_record_def record_of_def Let_def split: if_splits)

lemma ingest_holds:
  assumes "holds_reports sc sid p (reports (scn_universe sc) sid ledger)" "policy_get (scn_policies sc) sid = Some p"
  shows "holds_reports (ingest sc r d) sid p (reports (scn_universe sc) sid (ledger @ [(r, d)]))"
proof (cases "counts (scn_universe sc) sid r")
  case False
  then have "map_of (scn_snapshots (ingest sc r d)) sid = map_of (scn_snapshots sc) sid"
    by (auto simp: counts_def ingest_def resolve_state_def Let_def update_conv' split: option.splits if_splits)
  then show ?thesis using assms(1) False by (simp add: holds_reports_def reports_def)
next
  case True
  then have r: "rs_strategy_id r = sid" "rs_instrument r \<in> scn_universe sc" "rs_status r \<in> {MATCHED, UNMATCHED}" by (simp_all add: counts_def)
  let ?rs = "reports (scn_universe sc) sid ledger"
  let ?v = "cr_metric_value (record_of p r)"
  let ?fresh = "\<lparr>sst_trading_date = d, sst_strategy_version = rs_strategy_version r, sst_config_version = rs_config_version r, sst_records = []\<rparr>"
  have rs': "reports (scn_universe sc) sid (ledger @ [(r, d)]) = ?rs @ [(r, d)]" using True by (simp add: reports_def)
  show ?thesis
  proof (cases "\<exists>st. map_of (scn_snapshots sc) sid = Some st \<and> d \<le> sst_trading_date st")
    case False
    then have old: "?rs = [] \<or> newest_date ?rs < d"
      using assms(1) by (auto simp: holds_reports_def state_ok_def split: option.splits)
    have "map_of (scn_snapshots (ingest sc r d)) sid = Some (store_record ?fresh r ?v)"
      using False r assms(2) by (auto simp: ingest_def resolve_state_def Let_def update_conv' record_of_def split: option.splits)
    then show ?thesis unfolding rs' using fresh_state_ok [OF old] by (simp add: holds_reports_def)
  next
    case True
    then obtain st where st: "map_of (scn_snapshots sc) sid = Some st" "d \<le> sst_trading_date st" by blast
    then have ok: "state_ok p ?rs st" using assms(1) by (simp add: holds_reports_def)
    then have ne: "?rs \<noteq> []" "sst_trading_date st = newest_date ?rs" by (simp_all add: state_ok_def)
    show ?thesis
    proof (cases "d = newest_date ?rs \<and> versions r = versions (hd (current ?rs))")
      case True
      then have "(rs_strategy_version r, rs_config_version r) = (sst_strategy_version st, sst_config_version st)"
        using ok by (simp add: state_ok_def versions_def)
      then have "map_of (scn_snapshots (ingest sc r d)) sid = Some (store_record st r ?v)"
        using st True ne r assms(2) by (auto simp: ingest_def resolve_state_def Let_def update_conv' record_of_def)
      moreover have "current (?rs @ [(r, d)]) = current ?rs @ [r]" "newest_date (?rs @ [(r, d)]) = newest_date ?rs"
        using current_same [OF ne(1) conjunct1 [OF True]] True by simp_all
      moreover have "hd (current ?rs @ [r]) = hd (current ?rs)" using current_hd(1) [OF ne(1)] by simp
      ultimately show ?thesis
        unfolding rs' using ok store_record_ok [OF _ refl, of st "current ?rs" p r]
        by (simp add: holds_reports_def state_ok_def store_record_keeps)
    next
      case False
      then have "(rs_strategy_version r, rs_config_version r) \<noteq> (sst_strategy_version st, sst_config_version st) \<or> d < sst_trading_date st"
        using ok ne st(2) by (auto simp: state_ok_def versions_def)
      then have "map_of (scn_snapshots (ingest sc r d)) sid = Some st"
        using st ne r assms(2) by (auto simp: ingest_def resolve_state_def Let_def split: if_splits)
      moreover have "current (?rs @ [(r, d)]) = current ?rs" "newest_date (?rs @ [(r, d)]) = newest_date ?rs"
        using False st(2) ne current_same [OF ne(1), of d r] current_older [OF ne(1), of d r] by (cases "d = newest_date ?rs"; simp)+
      ultimately show ?thesis unfolding rs' using ok by (simp add: holds_reports_def state_ok_def)
    qed
  qed
qed

lemma ingest_keeps: "scn_universe (ingest sc r d) = scn_universe sc" "scn_policies (ingest sc r d) = scn_policies sc"
  by (simp_all add: ingest_def resolve_state_def Let_def split: option.split)

lemma events_hold:
  assumes "policy_get policies sid = Some p"
  shows "holds_reports (foldl scanner_handle (mk_scanner instruments policies) es) sid p (reports (set instruments) sid (log_of es))
    \<and> scn_universe (foldl scanner_handle (mk_scanner instruments policies) es) = set instruments
    \<and> scn_policies (foldl scanner_handle (mk_scanner instruments policies) es) = policies"
proof (induction es rule: rev_induct)
  case Nil
  then show ?case by (simp add: holds_reports_def mk_scanner_def reports_def log_of_def)
next
  case (snoc e es)
  let ?sc = "foldl scanner_handle (mk_scanner instruments policies) es"
  have step: "holds_reports (foldl (\<lambda>s r. ingest s r d) ?sc rs) sid p (reports (set instruments) sid (log_of es @ map (\<lambda>r. (r, d)) rs))
      \<and> scn_universe (foldl (\<lambda>s r. ingest s r d) ?sc rs) = set instruments \<and> scn_policies (foldl (\<lambda>s r. ingest s r d) ?sc rs) = policies" for d rs
  proof (induction rs rule: rev_induct)
    case (snoc r rs)
    then show ?case using ingest_holds [of "foldl (\<lambda>s r. ingest s r d) ?sc rs" sid p "log_of es @ map (\<lambda>r. (r, d)) rs" r d] assms
      by (simp add: ingest_keeps)
  qed (use snoc in simp)
  have log: "log_of (es @ [e]) = log_of es @ (case rp_trading_date e of None \<Rightarrow> [] | Some d \<Rightarrow> map (\<lambda>r. (r, d)) (rp_results e))"
    by (simp add: log_of_def)
  show ?case
  proof (cases "rp_trading_date e")
    case None
    then show ?thesis using snoc log by (simp add: scanner_handle_def [of ?sc e])
  next
    case (Some d)
    then show ?thesis using step [of d "rp_results e"] log by (simp add: scanner_handle_def [of ?sc e])
  qed
qed

text \<open>The records of a state that holds the reports, as values keyed by their instruments.\<close>

lemma records_of_state:
  assumes "state_ok p rs st"
  shows "map cr_instrument (map snd (sst_records st)) = map fst (sst_records st)"
    "k \<in> snd ` set (sst_records st) \<longleftrightarrow> (\<exists>r. is_newest (current rs) r \<and> k = record_of p r)"
    "fst ` set (sst_records st) = rs_instrument ` set (current rs)"
proof -
  have d: "distinct (map fst (sst_records st))"
    and recs: "\<And>i k. map_of (sst_records st) i = Some k \<longleftrightarrow> (\<exists>r. is_newest (current rs) r \<and> rs_instrument r = i \<and> k = record_of p r)"
    using assms by (simp_all add: state_ok_def)
  have mem: "(i, k) \<in> set (sst_records st) \<longleftrightarrow> (\<exists>r. is_newest (current rs) r \<and> rs_instrument r = i \<and> k = record_of p r)" for i k
    using recs [of i k] map_of_eq_Some_iff [OF d] by simp
  show "map cr_instrument (map snd (sst_records st)) = map fst (sst_records st)"
    using mem by (auto simp: record_of_def)
  have "k \<in> snd ` set (sst_records st) \<longleftrightarrow> (\<exists>i. (i, k) \<in> set (sst_records st))" by force
  then show "k \<in> snd ` set (sst_records st) \<longleftrightarrow> (\<exists>r. is_newest (current rs) r \<and> k = record_of p r)" unfolding mem by blast
  have "i \<in> fst ` set (sst_records st) \<longleftrightarrow> (\<exists>k. (i, k) \<in> set (sst_records st))" for i by force
  then have "i \<in> fst ` set (sst_records st) \<longleftrightarrow> (\<exists>r. is_newest (current rs) r \<and> rs_instrument r = i)" for i unfolding mem by blast
  moreover have "i \<in> rs_instrument ` set (current rs) \<longleftrightarrow> (\<exists>r. is_newest (current rs) r \<and> rs_instrument r = i)" for i
    using is_newest_exists [of _ "current rs"] is_newest_mem [of "current rs"] by (metis imageE image_eqI)
  ultimately show "fst ` set (sst_records st) = rs_instrument ` set (current rs)" by blast
qed

definition outranks :: "ranking_policy \<Rightarrow> scanner_candidate \<Rightarrow> scanner_candidate \<Rightarrow> bool" where
  "outranks p a b \<longleftrightarrow>
     (let x = ca_ranking_metric_value a; y = ca_ranking_metric_value b; i = ca_instrument a; j = ca_instrument b
      in (if pol_ordering p = DESCENDING then y < x else x < y) \<or> x = y \<and> (exchange i, symbol i) \<le> (exchange j, symbol j))"

definition candidate_of :: "string \<Rightarrow> scan_state \<Rightarrow> ranking_policy \<Rightarrow> nat \<times> candidate_record \<Rightarrow> scanner_candidate" where
  "candidate_of sid st p x =
     \<lparr>ca_instrument = cr_instrument (snd x), ca_strategy_id = sid, ca_strategy_version = sst_strategy_version st,
      ca_config_version = sst_config_version st, ca_status = MATCHED, ca_ranking_metric_name = pol_metric_name p,
      ca_ranking_metric_value = the (cr_metric_value (snd x)), ca_rank = fst x\<rparr>"

lemma candidates_list:
  "map ca_instrument (map (candidate_of sid st p) (enumerate n ks)) = map cr_instrument ks"
  "map ca_rank (map (candidate_of sid st p) (enumerate n ks)) = [n..<n + length ks]"
  "(\<exists>c \<in> set (map (candidate_of sid st p) (enumerate n ks)). ca_instrument c = i \<and> ca_ranking_metric_value c = v) \<longleftrightarrow>
     (\<exists>k \<in> set ks. cr_instrument k = i \<and> the (cr_metric_value k) = v)"
  by (induction ks arbitrary: n) (simp_all add: candidate_of_def upt_conv_Cons del: upt_Suc)

lemma candidates_sorted:
  assumes "\<forall>k \<in> set ks. representable dc (the (cr_metric_value k))"
  shows "sorted_wrt (outranks p) (map (candidate_of sid st p) (enumerate n (sort_key (scanner_key dc p) ks)))"
proof -
  let ?le = "\<lambda>k k'. outranks p (candidate_of sid st p (0, k)) (candidate_of sid st p (0, k'))"
  have rank: "(\<lambda>x y. outranks p (candidate_of sid st p x) (candidate_of sid st p y)) = (\<lambda>x y. ?le (snd x) (snd y))"
    by (intro ext) (simp add: outranks_def candidate_of_def)
  have "sorted_wrt (\<lambda>k k'. scanner_key dc p k \<le> scanner_key dc p k') (sort_key (scanner_key dc p) ks)"
    using sorted_sort_key [of "scanner_key dc p" ks] by (simp only: sorted_map)
  then have "sorted_wrt ?le (sort_key (scanner_key dc p) ks)"
    by (rule sorted_wrt_mono_rel [rotated])
      (use assms in \<open>auto simp: scanner_key_def outranks_def candidate_of_def Let_def round_to_representable split: if_splits\<close>)
  then have "sorted_wrt ?le (map snd (enumerate n (sort_key (scanner_key dc p) ks)))" by (simp only: map_snd_enumerate)
  then show ?thesis unfolding sorted_wrt_map rank .
qed

lemma record_of_simps:
  "cr_instrument (record_of p r) = rs_instrument r" "rs_status r = MATCHED \<Longrightarrow> cr_metric_value (record_of p r) = ranking_value r (pol_metric_name p)"
  "cr_eligible (record_of p r) \<longleftrightarrow> rs_status r = MATCHED \<and> ranking_value r (pol_metric_name p) \<noteq> None"
  by (simp_all add: record_of_def cr_eligible_def)

lemma current_reports: "r \<in> set (current rs) \<Longrightarrow> r \<in> fst ` set rs"
  by (auto simp: current_def Let_def)

lemma current_universe: "rs_instrument ` set (current (reports uni sid ledger)) \<subseteq> uni"
  using current_reports by (fastforce simp: reports_def counts_def)

lemma ranked_records:
  assumes st: "state_ok p rs st" and ks: "ks = sort_key (scanner_key dc p) (filter cr_eligible (map snd (sst_records st)))"
    and fits: "\<forall>r \<in> fst ` set rs. \<forall>v. ranking_value r (pol_metric_name p) = Some v \<longrightarrow> representable dc v"
  shows "distinct (map cr_instrument ks)"
    "(\<exists>k \<in> set ks. cr_instrument k = i \<and> the (cr_metric_value k) = v) \<longleftrightarrow>
       (\<exists>r. is_newest (current rs) r \<and> rs_instrument r = i \<and> rs_status r = MATCHED \<and> ranking_value r (pol_metric_name p) = Some v)"
    "sorted_wrt (outranks p) (map (candidate_of sid st p) (enumerate n ks))"
proof -
  note records = records_of_state [OF st]
  have eligible: "k \<in> set ks \<longleftrightarrow> (\<exists>r. is_newest (current rs) r \<and> k = record_of p r \<and> rs_status r = MATCHED \<and> ranking_value r (pol_metric_name p) \<noteq> None)" for k
  proof -
    have "k \<in> set ks \<longleftrightarrow> k \<in> snd ` set (sst_records st) \<and> cr_eligible k" by (auto simp: ks)
    then show ?thesis unfolding records(2) using record_of_simps(3) [of p] by blast
  qed
  have "mset (map cr_instrument ks) = mset (map cr_instrument (filter cr_eligible (map snd (sst_records st))))" by (simp add: ks)
  moreover have "distinct (map fst (sst_records st))" using st by (simp add: state_ok_def)
  ultimately show "distinct (map cr_instrument ks)"
    using records(1) distinct_map_filter [of cr_instrument "map snd (sst_records st)" cr_eligible] mset_eq_imp_distinct_iff by metis
  show "(\<exists>k \<in> set ks. cr_instrument k = i \<and> the (cr_metric_value k) = v) \<longleftrightarrow>
       (\<exists>r. is_newest (current rs) r \<and> rs_instrument r = i \<and> rs_status r = MATCHED \<and> ranking_value r (pol_metric_name p) = Some v)"
  proof
    assume "\<exists>k \<in> set ks. cr_instrument k = i \<and> the (cr_metric_value k) = v"
    then obtain k where k: "k \<in> set ks" "cr_instrument k = i" "the (cr_metric_value k) = v" by blast
    from k(1) obtain r where r: "is_newest (current rs) r" "k = record_of p r" "rs_status r = MATCHED" "ranking_value r (pol_metric_name p) \<noteq> None"
      unfolding eligible by blast
    then show "\<exists>r. is_newest (current rs) r \<and> rs_instrument r = i \<and> rs_status r = MATCHED \<and> ranking_value r (pol_metric_name p) = Some v"
      using k(2,3) by (intro exI [of _ r]) (auto simp: record_of_simps)
  next
    assume "\<exists>r. is_newest (current rs) r \<and> rs_instrument r = i \<and> rs_status r = MATCHED \<and> ranking_value r (pol_metric_name p) = Some v"
    then obtain r where "is_newest (current rs) r" "rs_instrument r = i" "rs_status r = MATCHED" "ranking_value r (pol_metric_name p) = Some v" by blast
    then show "\<exists>k \<in> set ks. cr_instrument k = i \<and> the (cr_metric_value k) = v"
      using eligible [of "record_of p r"] by (intro bexI [of _ "record_of p r"]) (simp_all add: record_of_simps, blast)
  qed
  have "representable dc (the (cr_metric_value k))" if present: "k \<in> set ks" for k
  proof -
    obtain r v where r: "is_newest (current rs) r" "k = record_of p r" "rs_status r = MATCHED" "ranking_value r (pol_metric_name p) = Some v"
      using present unfolding eligible by blast
    then have "r \<in> fst ` set rs" using current_reports is_newest_mem by blast
    then have "representable dc v" using fits r(4) by blast
    then show ?thesis using r by (simp add: record_of_simps)
  qed
  then show "sorted_wrt (outranks p) (map (candidate_of sid st p) (enumerate n ks))" unfolding ks by (intro candidates_sorted) simp
qed

text \<open>
  C5. The scanner ranks exactly what was reported: after any sequence of published events the snapshot of a scannable strategy exists exactly
  when one of its results counts; it belongs to the newest trading date and to the versions that date began with; its candidates are,
  once each, the instruments whose newest report of that date matched with a ranking metric, with that metric; they are in
  order of the metric, ties by exchange and symbol, with the ranks 1, 2, 3 and so on; and it is complete exactly when every instrument of the
  universe has reported. Metrics are assumed to fit the precision of the ambient decimal context, because negating a longer one would round it.
\<close>

theorem scanner_ranks_newest_reports:
  assumes "policy_get policies sid = Some p" and rs: "rs = reports (set instruments) sid (log_of es)"
    and "sc = foldl scanner_handle (mk_scanner instruments policies) es"
    and fits: "\<forall>r \<in> fst ` set rs. \<forall>v. ranking_value r (pol_metric_name p) = Some v \<longrightarrow> representable dc v"
  shows "if rs = [] then ranked_snapshot dc sc sid = None
    else \<exists>sn. ranked_snapshot dc sc sid = Some sn \<and> sn_trading_date sn = newest_date rs
      \<and> (sn_strategy_version sn, sn_config_version sn) = versions (hd (current rs))
      \<and> distinct (map ca_instrument (sn_candidates sn))
      \<and> (\<forall>i v. (\<exists>c \<in> set (sn_candidates sn). ca_instrument c = i \<and> ca_ranking_metric_value c = v) \<longleftrightarrow>
           (\<exists>r. is_newest (current rs) r \<and> rs_instrument r = i \<and> rs_status r = MATCHED \<and> ranking_value r (pol_metric_name p) = Some v))
      \<and> sorted_wrt (outranks p) (sn_candidates sn) \<and> map ca_rank (sn_candidates sn) = [1..<Suc (sn_eligible_count sn)]
      \<and> (sn_completeness sn = COMPLETE_SNAPSHOT \<longleftrightarrow> set instruments = rs_instrument ` set (current rs))"
proof -
  have inv: "holds_reports sc sid p rs" "scn_universe sc = set instruments" "scn_policies sc = policies"
    using events_hold [OF assms(1)] by (simp_all add: assms(2,3))
  show ?thesis
  proof (cases "map_of (scn_snapshots sc) sid")
    case None
    then show ?thesis using inv by (simp add: holds_reports_def ranked_snapshot_def)
  next
    case (Some st)
    then have st: "state_ok p rs st" using inv(1) by (simp add: holds_reports_def)
    then have ok: "rs \<noteq> []" "sst_trading_date st = newest_date rs" "(sst_strategy_version st, sst_config_version st) = versions (hd (current rs))"
      "distinct (map fst (sst_records st))"
      by (simp_all add: state_ok_def)
    define ks where "ks = sort_key (scanner_key dc p) (filter cr_eligible (map snd (sst_records st)))"
    obtain sn where sn: "ranked_snapshot dc sc sid = Some sn" "sn_candidates sn = map (candidate_of sid st p) (enumerate 1 ks)" "sn_trading_date sn = sst_trading_date st"
      "sn_strategy_version sn = sst_strategy_version st" "sn_config_version sn = sst_config_version st" "sn_eligible_count sn = length ks"
      "sn_completeness sn = (if length (sst_records st) = card (set instruments) then COMPLETE_SNAPSHOT else PARTIAL_SNAPSHOT)"
      using Some assms(1) inv by (simp add: ranked_snapshot_def Let_def scanner_rank_def ks_def candidate_of_def split_def)
    note ranked = ranked_records [OF st ks_def fits]
    have "length (sst_records st) = card (set instruments) \<longleftrightarrow> set instruments = rs_instrument ` set (current rs)"
      using distinct_card [OF ok(4)] records_of_state(3) [OF st] current_universe [of "set instruments" sid "log_of es"]
        card_subset_eq [of "set instruments" "rs_instrument ` set (current rs)"] by (auto simp: rs)
    moreover have "(\<exists>c \<in> set (sn_candidates sn). ca_instrument c = i \<and> ca_ranking_metric_value c = v) \<longleftrightarrow>
           (\<exists>r. is_newest (current rs) r \<and> rs_instrument r = i \<and> rs_status r = MATCHED \<and> ranking_value r (pol_metric_name p) = Some v)" for i v
      unfolding sn(2) candidates_list by (rule ranked(2))
    moreover have "distinct (map ca_instrument (sn_candidates sn))" "map ca_rank (sn_candidates sn) = [1..<Suc (sn_eligible_count sn)]"
      unfolding sn(2,6) candidates_list using ranked(1) by simp_all
    ultimately show ?thesis using sn ok ranked(3) [of sid 1] by simp
  qed
qed

definition demo_result :: "string \<Rightarrow> int \<Rightarrow> decimal \<Rightarrow> strategy_result" where
  "demo_result name version v =
     \<lparr>rs_result_id = None, rs_strategy_id = ''cpr'', rs_strategy_version = ''1.0.0'', rs_config_version = ''1.0.0'',
      rs_instrument = cash_equity ''NSE'' name, rs_context_version = version, rs_evaluation_timestamp = 0, rs_status = MATCHED, rs_score = None,
      rs_confidence = None, rs_reason_codes = [''A''], rs_metrics = [\<lparr>me_name = ''width'', me_value = MetricDecimal v\<rparr>], rs_metadata = [], rs_diagnostics = []\<rparr>"

definition demo_event :: "strategy_result list \<Rightarrow> results_published" where
  "demo_event rs = \<lparr>rp_instrument = cash_equity ''NSE'' ''TCS'', rp_context_version = 1, rp_results = rs, rp_ranked = [], rp_trading_date = Some 20000\<rparr>"

definition demo_policy :: ranking_policy where
  "demo_policy = \<lparr>pol_strategy_id = ''cpr'', pol_metric_name = ''width'', pol_ordering = DESCENDING\<rparr>"

theorem scanner_ranks_newest_reports_witness:
  "\<exists>sn. ranked_snapshot default_context (foldl scanner_handle (mk_scanner [cash_equity ''NSE'' ''TCS'', cash_equity ''NSE'' ''INFY''] [(''cpr'', demo_policy)])
       [demo_event [demo_result ''TCS'' 1 5], demo_event [demo_result ''INFY'' 1 7], demo_event [demo_result ''TCS'' 2 9]]) ''cpr'' = Some sn
     \<and> sorted_wrt (outranks demo_policy) (sn_candidates sn) \<and> sn_completeness sn = COMPLETE_SNAPSHOT"
proof -
  let ?es = "[demo_event [demo_result ''TCS'' 1 5], demo_event [demo_result ''INFY'' 1 7], demo_event [demo_result ''TCS'' 2 9]]"
  let ?is = "[cash_equity ''NSE'' ''TCS'', cash_equity ''NSE'' ''INFY'']"
  have rs: "reports (set ?is) ''cpr'' (log_of ?es) = [(demo_result ''TCS'' 1 5, 20000), (demo_result ''INFY'' 1 7, 20000), (demo_result ''TCS'' 2 9, 20000)]"
    by (simp add: reports_def log_of_def counts_def demo_event_def demo_result_def)
  have cur: "set ?is = rs_instrument ` set (current (reports (set ?is) ''cpr'' (log_of ?es)))"
    unfolding rs by (auto simp: current_def newest_date_def versions_def demo_result_def)
  have small: "representable default_context (of_int n)" if "\<bar>n\<bar> < 10 ^ 28" for n
    using that unfolding representable_def by (intro exI [of _ n] exI [of _ 0]) (simp add: default_context_def)
  have "\<forall>r \<in> fst ` set (reports (set ?is) ''cpr'' (log_of ?es)). \<forall>v. ranking_value r (pol_metric_name demo_policy) = Some v \<longrightarrow> representable default_context v"
    unfolding rs using small [of 5] small [of 7] small [of 9] by (simp add: demo_result_def ranking_value_def demo_policy_def)
  moreover have "policy_get [(''cpr'', demo_policy)] ''cpr'' = Some demo_policy" by (simp add: policy_get_def)
  ultimately show ?thesis
    using scanner_ranks_newest_reports [of "[(''cpr'', demo_policy)]" "''cpr''" demo_policy _ ?is ?es _ default_context, OF _ refl refl] cur rs by auto
qed

end
