(* ===== verification/Strategy_Catalog.thy ===== *)
theory Strategy_Catalog
  imports Strategy_Implementations Result_Scanner
begin

text \<open>
  The production catalog (\<^verbatim>\<open>services/strategy_catalog.py\<close>) and how the strategies in it work together with the readiness gate, the manager
  and the scanner.
\<close>

section \<open>The catalog\<close>

record catalog_entry =
  ce_strategy :: strategy
  ce_configuration :: strategy_configuration
  ce_ranking_policy :: "ranking_policy option"

definition ce_strategy_id :: "catalog_entry \<Rightarrow> string" where
  "ce_strategy_id e = sd_strategy_id (st_descriptor (ce_strategy e))"

definition mk_catalog_entry :: "strategy \<Rightarrow> strategy_configuration \<Rightarrow> ranking_policy option \<Rightarrow> catalog_entry res" where
  "mk_catalog_entry s cfg policy =
     (if sc_type cfg \<noteq> st_configuration_type s then Inl (ValueError ''configuration must be of the type of its strategy'')
      else case policy of
        None \<Rightarrow> Inr \<lparr>ce_strategy = s, ce_configuration = cfg, ce_ranking_policy = None\<rparr>
      | Some p \<Rightarrow>
          (if pol_strategy_id p \<noteq> sd_strategy_id (st_descriptor s) then Inl (ValueError ''ranking policy strategy_id does not match strategy id'')
           else Inr \<lparr>ce_strategy = s, ce_configuration = cfg, ce_ranking_policy = Some p\<rparr>))"

type_synonym catalog = "(string \<times> catalog_entry) list"

fun add_entries :: "catalog \<Rightarrow> catalog_entry list \<Rightarrow> catalog res" where
  "add_entries cat [] = Inr cat"
| "add_entries cat (e # es) =
     (if map_of cat (ce_strategy_id e) \<noteq> None then Inl (ValueError ''duplicate strategy id in catalog'')
      else add_entries (AList.update (ce_strategy_id e) e cat) es)"

definition mk_catalog :: "catalog_entry list \<Rightarrow> catalog res" where
  "mk_catalog es = add_entries [] es"

definition catalog_resolve :: "catalog \<Rightarrow> string list \<Rightarrow> catalog_entry list res" where
  "catalog_resolve cat ids =
     map_res (\<lambda>sid. case map_of cat sid of None \<Rightarrow> Inl (RuntimeError ''UnknownEnabledStrategyError'') | Some e \<Rightarrow> Inr e) ids"

text \<open>One entry of \<^verbatim>\<open>production_catalog\<close>: its strategy, the class of its configuration, and its policy.\<close>

definition production_entry :: "strategy \<Rightarrow> configuration_type \<Rightarrow> string \<Rightarrow> string \<Rightarrow> scanner_ordering \<Rightarrow> catalog_entry res" where
  "production_entry s ty sid name direction =
     res_bind (mk_strategy_configuration \<lparr>sc_type = ty, sc_config_version = ''1.0.0'', sc_narrow_cpr_max_width_pct = None\<rparr>) (\<lambda>cfg.
     res_bind (mk_ranking_policy sid name direction) (\<lambda>p. mk_catalog_entry s cfg (Some p)))"

definition production_entries :: "decimal_context \<Rightarrow> catalog_entry res list" where
  "production_entries dc =
     [production_entry (narrow_cpr_strategy dc) NarrowCprConfiguration ''narrow_cpr'' ''cpr_width_pct'' ASCENDING,
      production_entry (range_pct_strategy dc) PreviousSessionRangePctConfiguration ''previous_session_range_pct'' ''previous_range_pct'' DESCENDING,
      production_entry (body_pct_strategy dc) PreviousSessionBodyPctConfiguration ''previous_session_body_pct'' ''previous_body_pct'' DESCENDING,
      production_entry (relative_range_strategy dc) PreviousSessionRelativeRangeConfiguration ''previous_session_relative_range'' ''relative_range_ratio'' ASCENDING,
      production_entry (open_high_strategy dc) OpenExtremeConfiguration ''open_high'' ''session_range_pct'' DESCENDING,
      production_entry (open_low_strategy dc) OpenExtremeConfiguration ''open_low'' ''session_range_pct'' DESCENDING]"

definition production_catalog :: "decimal_context \<Rightarrow> catalog res" where
  "production_catalog dc = res_bind (map_res (\<lambda>e. e) (production_entries dc)) mk_catalog"

section \<open>What the catalog holds\<close>

definition entry_of :: "strategy \<Rightarrow> string \<Rightarrow> scanner_ordering \<Rightarrow> catalog_entry" where
  "entry_of s name direction =
     \<lparr>ce_strategy = s, ce_configuration = \<lparr>sc_type = st_configuration_type s, sc_config_version = ''1.0.0'', sc_narrow_cpr_max_width_pct = None\<rparr>,
      ce_ranking_policy = Some \<lparr>pol_strategy_id = sd_strategy_id (st_descriptor s), pol_metric_name = name, pol_ordering = direction\<rparr>\<rparr>"

lemma production_entry_ok:
  assumes "st_configuration_type s = ty" "sd_strategy_id (st_descriptor s) = sid" "\<not> blank sid" "\<not> blank name"
  shows "production_entry s ty sid name direction = Inr (entry_of s name direction)"
  using assms by (simp add: production_entry_def mk_strategy_configuration_def positive_if_some_def mk_ranking_policy_def mk_catalog_entry_def entry_of_def)

definition production_list :: "decimal_context \<Rightarrow> catalog_entry list" where
  "production_list dc =
     [entry_of (narrow_cpr_strategy dc) ''cpr_width_pct'' ASCENDING, entry_of (range_pct_strategy dc) ''previous_range_pct'' DESCENDING,
      entry_of (body_pct_strategy dc) ''previous_body_pct'' DESCENDING, entry_of (relative_range_strategy dc) ''relative_range_ratio'' ASCENDING,
      entry_of (open_high_strategy dc) ''session_range_pct'' DESCENDING, entry_of (open_low_strategy dc) ''session_range_pct'' DESCENDING]"

lemmas strategy_defs = narrow_cpr_strategy_def body_pct_strategy_def range_pct_strategy_def relative_range_strategy_def open_high_strategy_def
  open_low_strategy_def narrow_cpr_descriptor_def body_pct_descriptor_def range_pct_descriptor_def relative_range_descriptor_def

lemma not_blank: "\<not> is_space c \<Longrightarrow> \<not> blank (c # cs)"
  by (simp add: blank_def)

lemma production_catalog_ok: "production_catalog dc = Inr (map (\<lambda>e. (ce_strategy_id e, e)) (production_list dc))"
proof -
  have "map_res (\<lambda>e. e) (production_entries dc) = Inr (production_list dc)"
    by (simp add: production_entries_def production_list_def production_entry_ok strategy_defs not_blank is_space_def)
  moreover have "mk_catalog (production_list dc) = Inr (map (\<lambda>e. (ce_strategy_id e, e)) (production_list dc))"
    by (simp add: mk_catalog_def production_list_def ce_strategy_id_def entry_of_def strategy_defs)
  ultimately show ?thesis by (simp add: production_catalog_def)
qed

section \<open>Lawful strategies in the manager\<close>

lemma answers_valid:
  assumes "answers name c ev"
  shows "1 \<le> ev_context_version ev" "validate_reason_codes (ev_reason_codes ev) = Inr (ev_reason_codes ev)"
    "validate_metrics (ev_metrics ev) = Inr (ev_metrics ev)" "ev_status ev = MATCHED \<Longrightarrow> ev_reason_codes ev \<noteq> []"
proof -
  have ok: "mk_strategy_evaluation ev = Inr ev" using assms by (simp add: answers_def)
  show "1 \<le> ev_context_version ev" using ok by (auto simp: mk_strategy_evaluation_def split: if_splits)
  obtain codes ms where v: "validate_reason_codes (ev_reason_codes ev) = Inr codes" "validate_metrics (ev_metrics ev) = Inr ms"
    "ev\<lparr>ev_reason_codes := codes, ev_metrics := ms\<rparr> = ev" "ev_status ev = MATCHED \<Longrightarrow> codes \<noteq> []"
    using ok by (auto simp: mk_strategy_evaluation_def res_bind_def split: if_splits sum.splits)
  from arg_cong [OF v(3), of ev_reason_codes] arg_cong [OF v(3), of ev_metrics] have "codes = ev_reason_codes ev" "ms = ev_metrics ev" by simp_all
  then show "validate_reason_codes (ev_reason_codes ev) = Inr (ev_reason_codes ev)" "validate_metrics (ev_metrics ev) = Inr (ev_metrics ev)"
    "ev_status ev = MATCHED \<Longrightarrow> ev_reason_codes ev \<noteq> []" using v by simp_all
qed

lemma find_named:
  assumes "distinct (map me_name ms)" "metric name v \<in> set ms"
  shows "find (\<lambda>m. me_name m = name) ms = Some (metric name v)"
  using assms by (induction ms) (auto simp: metric_def dest: imageI [of _ _ me_name])

lemma answers_ranking:
  assumes "answers name c ev" "ev_status ev = MATCHED" "rs_metrics r = ev_metrics ev"
  shows "ranking_value r name \<noteq> None"
proof -
  obtain v where v: "metric name v \<in> set (ev_metrics ev)" using assms(1,2) by (auto simp: answers_def)
  have "card (set (map me_name (ev_metrics ev))) = length (map me_name (ev_metrics ev))"
    using answers_valid(3) [OF assms(1)] by (auto simp: validate_metrics_def split: if_splits)
  then have "distinct (map me_name (ev_metrics ev))" by (rule card_distinct)
  from find_named [OF this v] show ?thesis by (simp add: ranking_value_def assms(3) metric_def)
qed

context lawful_strategy
begin

lemma promotes:
  assumes "answers name c ev" "is_semver_lite cv"
  shows "\<exists>r. promote_evaluation ev (st_descriptor s) cv ts = Inr r \<and> rs_strategy_id r = sd_strategy_id (st_descriptor s)
    \<and> rs_instrument r = mc_instrument c \<and> rs_context_version r = mc_version c \<and> rs_status r = ev_status ev
    \<and> (rs_status r = MATCHED \<longrightarrow> ranking_value r name \<noteq> None)"
proof -
  have d: "is_strategy_id (sd_strategy_id (st_descriptor s))" "is_semver_lite (sd_version (st_descriptor s))"
    using descriptor_valid by (auto simp: validate_descriptor_def split: if_splits)
  note valid = answers_valid [OF assms(1)]
  have "ev_instrument ev = mc_instrument c" "ev_context_version ev = mc_version c" using assms(1) by (simp_all add: answers_def)
  then show ?thesis
    using d assms(2) valid answers_ranking [OF assms(1)] by (auto simp: promote_evaluation_def mk_strategy_result_def)
qed

end

text \<open>A manager all of whose strategies are lawful and whose configurations are valid.\<close>

definition lawful_manager :: "strategy_manager \<Rightarrow> bool" where
  "lawful_manager mg \<longleftrightarrow> wf_registry (mg_registry mg)
     \<and> (\<forall>s \<in> snd ` set (mg_registry mg). \<exists>name. lawful_strategy s name)
     \<and> (\<forall>sid cfg. mg_configurations mg sid = Some cfg \<longrightarrow> mk_strategy_configuration cfg = Inr cfg)"

lemma lawful_strategy_of:
  assumes "lawful_manager mg" "map_of (mg_registry mg) sid = Some s"
  shows "\<exists>name. lawful_strategy s name" "sd_strategy_id (st_descriptor s) = sid"
  using assms map_of_SomeD [OF assms(2)] by (force simp: lawful_manager_def wf_registry_def)+

lemma due_registered: "sid \<in> set (due mg c) \<Longrightarrow> \<exists>s. map_of (mg_registry mg) sid = Some s \<and> strategy_of mg sid = s"
  using running_ids_running [of sid mg] by (auto simp: due_def strategy_of_def)

lemma lawful_no_fault:
  assumes "lawful_manager mg" "wf_context c" "sid \<in> set (due mg c)"
  shows "\<not> faults mg c sid" "ev_status (er_evaluation (record_for (mg_configurations mg) c (strategy_of mg sid))) \<noteq> EVALUATION_ERROR"
    "errors_after mg c sid \<in> {mg_error_counts mg sid, Some 0}"
proof -
  obtain s where s: "map_of (mg_registry mg) sid = Some s" "strategy_of mg sid = s" using due_registered [OF assms(3)] by blast
  obtain name where law: "lawful_strategy s name" using lawful_strategy_of [OF assms(1) s(1)] by blast
  have v: "\<exists>ev. r = Inr ev \<and> ev_status ev \<noteq> EVALUATION_ERROR" if "verdict (mg_configurations mg) c s = Some r" for r
    using lawful_strategy.ready_verdict [OF law assms(2) that] by (auto simp: answers_def)
  show "\<not> faults mg c sid" "errors_after mg c sid \<in> {mg_error_counts mg sid, Some 0}"
    "ev_status (er_evaluation (record_for (mg_configurations mg) c (strategy_of mg sid))) \<noteq> EVALUATION_ERROR"
    using v s(2) by (auto simp: faults_def errors_after_def record_for_def Let_def blank_evaluation_def split: option.splits sum.splits)
qed

text \<open>Emission never raises: every record is skipped or the answer of a lawful strategy.\<close>

definition emittable :: "strategy_manager \<Rightarrow> market_context \<Rightarrow> evaluation_record \<Rightarrow> bool" where
  "emittable mg c rec \<longleftrightarrow> ev_status (er_evaluation rec) \<notin> {MATCHED, UNMATCHED}
     \<or> (\<exists>s name. map_of (mg_registry mg) (er_strategy_id rec) = Some s \<and> lawful_strategy s name \<and> answers name c (er_evaluation rec))"

lemma emit_candidate_ok:
  assumes "lawful_manager mg" "emittable mg c rec"
  shows "\<exists>r dd. emit_candidate mg rec c = (Inr r, mg\<lparr>mg_dedup := dd\<rparr>)"
proof (cases "ev_status (er_evaluation rec) \<in> {MATCHED, UNMATCHED} \<and> mg_configurations mg (er_strategy_id rec) \<noteq> None")
  case True
  then obtain s name cfg where s: "map_of (mg_registry mg) (er_strategy_id rec) = Some s" "lawful_strategy s name" "answers name c (er_evaluation rec)"
    and cfg: "mg_configurations mg (er_strategy_id rec) = Some cfg" using assms(2) by (auto simp: emittable_def)
  have "is_semver_lite (sc_config_version cfg)"
    using assms(1) cfg by (fastforce simp: lawful_manager_def mk_strategy_configuration_def split: if_splits)
  then obtain r where r: "promote_evaluation (er_evaluation rec) (st_descriptor s) (sc_config_version cfg) (mc_observed_at c) = Inr r"
    using lawful_strategy.promotes [OF s(2,3)] by blast
  obtain b dd where "should_emit (mg_dedup mg) r (sd_emission_policy (st_descriptor s)) (context_trading_date c) = (b, dd)" by fastforce
  then show ?thesis using True s(1) cfg r by (auto simp: emit_candidate_def registry_get_def)
next
  case False
  then show ?thesis by (intro exI [of _ None] exI [of _ "mg_dedup mg"]) (auto simp: emit_candidate_def)
qed

lemma emit_loop_ok:
  assumes "lawful_manager mg" "\<forall>rec \<in> set recs. emittable mg c rec"
  shows "\<exists>rs dd. emit_loop mg c recs = (Inr rs, mg\<lparr>mg_dedup := dd\<rparr>)"
  using assms
proof (induction recs arbitrary: mg)
  case Nil
  then show ?case by (intro exI [of _ "[]"] exI [of _ "mg_dedup mg"]) simp
next
  case (Cons rec recs)
  obtain r dd where e: "emit_candidate mg rec c = (Inr r, mg\<lparr>mg_dedup := dd\<rparr>)" using emit_candidate_ok Cons.prems by fastforce
  have "lawful_manager (mg\<lparr>mg_dedup := dd\<rparr>)" "\<forall>rec \<in> set recs. emittable (mg\<lparr>mg_dedup := dd\<rparr>) c rec"
    using Cons.prems by (simp_all add: lawful_manager_def emittable_def)
  from Cons.IH [OF this] show ?case using e by auto
qed

section \<open>Properties of the catalog\<close>

lemma ready_facts:
  assumes "assess_readiness d r cfg ty c = READY"
  shows "PREVIOUS_SESSION \<in> set (sr_fact_needs r) \<Longrightarrow> previous_session c \<noteq> None"
    "SESSION_STATISTICS \<in> set (sr_fact_needs r) \<Longrightarrow> authoritative_statistics c \<noteq> None"
proof -
  have f: "facts_ready (sr_fact_needs r) c" "session_statistics_verdict r c = None"
    using assms by (auto simp: assess_readiness_def session_statistics_verdict_def Let_def split: if_splits option.splits)
  show "previous_session c \<noteq> None" if "PREVIOUS_SESSION \<in> set (sr_fact_needs r)"
    using f(1) that by (auto simp: facts_ready_def list_all_iff fact_available_def previous_session_def split: option.splits)
  show "authoritative_statistics c \<noteq> None" if "SESSION_STATISTICS \<in> set (sr_fact_needs r)"
    using f(2) that by (auto simp: session_statistics_verdict_def authoritative_statistics_def Let_def split: option.splits if_splits)
qed

definition entry_conforms :: "catalog_entry \<Rightarrow> ranking_policy \<Rightarrow> bool" where
  "entry_conforms e p \<longleftrightarrow>
     validate_descriptor (st_descriptor (ce_strategy e)) = Inr (st_descriptor (ce_strategy e))
     \<and> mk_strategy_requirements (st_requirements (ce_strategy e)) = Inr (st_requirements (ce_strategy e))
     \<and> mk_strategy_configuration (ce_configuration e) = Inr (ce_configuration e) \<and> sc_type (ce_configuration e) = st_configuration_type (ce_strategy e)
     \<and> pol_strategy_id p = ce_strategy_id e
     \<and> (\<forall>c cfg md. wf_context c \<longrightarrow> sc_type cfg = st_configuration_type (ce_strategy e) \<longrightarrow>
          (\<exists>ev. st_evaluate (ce_strategy e) c cfg md = Inr ev \<and> answers (pol_metric_name p) c ev
             \<and> (assess_readiness (st_descriptor (ce_strategy e)) (st_requirements (ce_strategy e)) (Some cfg) (st_configuration_type (ce_strategy e)) c = READY
                \<longrightarrow> ev_status ev = SKIPPED \<longrightarrow> ce_strategy_id e = ''previous_session_relative_range'')))"

lemma entry_conforms_lawful:
  assumes law: "lawful_strategy s name"
    and ready: "\<And>c cfg md ev. wf_context c \<Longrightarrow> sc_type cfg = st_configuration_type s \<Longrightarrow>
      assess_readiness (st_descriptor s) (st_requirements s) (Some cfg) (st_configuration_type s) c = READY \<Longrightarrow>
      st_evaluate s c cfg md = Inr ev \<Longrightarrow> ev_status ev = SKIPPED \<Longrightarrow> sd_strategy_id (st_descriptor s) = ''previous_session_relative_range''"
  shows "\<exists>p. ce_ranking_policy (entry_of s name direction) = Some p \<and> entry_conforms (entry_of s name direction) p"
proof -
  have "\<exists>ev. st_evaluate s c cfg md = Inr ev \<and> answers name c ev \<and>
      (assess_readiness (st_descriptor s) (st_requirements s) (Some cfg) (st_configuration_type s) c = READY \<longrightarrow>
        ev_status ev = SKIPPED \<longrightarrow> sd_strategy_id (st_descriptor s) = ''previous_session_relative_range'')"
    if "wf_context c" "sc_type cfg = st_configuration_type s" for c cfg md
    using lawful_strategy.evaluates [OF law that, of md] ready [OF that, of md] by blast
  then show ?thesis
    using lawful_strategy.descriptor_valid [OF law] lawful_strategy.requirements_valid [OF law]
    by (simp add: entry_conforms_def entry_of_def ce_strategy_id_def mk_strategy_configuration_def positive_if_some_def)
qed

lemma session_needs: "PREVIOUS_SESSION \<in> set (sr_fact_needs (session_requirements n))"
  by (simp add: session_requirements_def)

lemma statistics_needs: "SESSION_STATISTICS \<in> set (sr_fact_needs open_extreme_requirements)"
  by (simp add: open_extreme_requirements_def)

lemma not_skipped: "\<exists>ev. r = Inr ev \<and> P ev \<and> (ev_status ev = SKIPPED \<longleftrightarrow> x = None) \<Longrightarrow> x \<noteq> None \<Longrightarrow> r = Inr e \<Longrightarrow> ev_status e \<noteq> SKIPPED"
  by auto

lemma previous_session_ready:
  assumes "assess_readiness d (session_requirements n) cfg ty c = READY"
  shows "previous_session c \<noteq> None"
  using ready_facts(1) [OF assms session_needs] .

lemma statistics_ready:
  assumes "assess_readiness d open_extreme_requirements cfg ty c = READY"
  shows "authoritative_statistics c \<noteq> None"
  using ready_facts(2) [OF assms statistics_needs] .

lemma narrow_cpr_conforms: "\<exists>p. ce_ranking_policy (entry_of (narrow_cpr_strategy dc) ''cpr_width_pct'' d) = Some p \<and> entry_conforms (entry_of (narrow_cpr_strategy dc) ''cpr_width_pct'' d) p"
proof -
  have "ev_status ev \<noteq> SKIPPED" if "wf_context c" "sc_type cfg = NarrowCprConfiguration"
    "assess_readiness narrow_cpr_descriptor (session_requirements 1) (Some cfg) NarrowCprConfiguration c = READY" "narrow_cpr_evaluate dc c cfg md = Inr ev" for c cfg md ev
    by (rule not_skipped [OF narrow_cpr_evaluates [OF that(1,2)] previous_session_ready [OF that(3)] that(4)])
  then show ?thesis
    by (intro entry_conforms_lawful [OF narrow_cpr.lawful_strategy_axioms]) (auto simp: narrow_cpr_strategy_def)
qed

lemma body_pct_conforms: "\<exists>p. ce_ranking_policy (entry_of (body_pct_strategy dc) ''previous_body_pct'' d) = Some p \<and> entry_conforms (entry_of (body_pct_strategy dc) ''previous_body_pct'' d) p"
proof -
  have "ev_status ev \<noteq> SKIPPED" if "wf_context c" "sc_type cfg = PreviousSessionBodyPctConfiguration"
    "assess_readiness body_pct_descriptor (session_requirements 1) (Some cfg) PreviousSessionBodyPctConfiguration c = READY" "body_pct_evaluate dc c cfg md = Inr ev" for c cfg md ev
    by (rule not_skipped [OF body_pct_evaluates [OF that(1,2)] previous_session_ready [OF that(3)] that(4)])
  then show ?thesis
    by (intro entry_conforms_lawful [OF body_pct.lawful_strategy_axioms]) (auto simp: body_pct_strategy_def)
qed

lemma range_pct_conforms: "\<exists>p. ce_ranking_policy (entry_of (range_pct_strategy dc) ''previous_range_pct'' d) = Some p \<and> entry_conforms (entry_of (range_pct_strategy dc) ''previous_range_pct'' d) p"
proof -
  have "ev_status ev \<noteq> SKIPPED" if "wf_context c" "sc_type cfg = PreviousSessionRangePctConfiguration"
    "assess_readiness range_pct_descriptor (session_requirements 1) (Some cfg) PreviousSessionRangePctConfiguration c = READY" "range_pct_evaluate dc c cfg md = Inr ev" for c cfg md ev
    by (rule not_skipped [OF range_pct_evaluates [OF that(1,2)] previous_session_ready [OF that(3)] that(4)])
  then show ?thesis
    by (intro entry_conforms_lawful [OF range_pct.lawful_strategy_axioms]) (auto simp: range_pct_strategy_def)
qed

lemma relative_range_conforms: "\<exists>p. ce_ranking_policy (entry_of (relative_range_strategy dc) ''relative_range_ratio'' d) = Some p \<and> entry_conforms (entry_of (relative_range_strategy dc) ''relative_range_ratio'' d) p"
  by (rule entry_conforms_lawful [OF relative_range.lawful_strategy_axioms])
    (auto simp: relative_range_strategy_def relative_range_descriptor_def)

lemma open_extreme_not_skipped:
  assumes "wf_context c" "is_reason_code yes" "is_reason_code no" "assess_readiness d open_extreme_requirements (Some cfg) ty c = READY"
    and "evaluate_open_extreme dc c high yes no = Inr ev"
  shows "ev_status ev \<noteq> SKIPPED"
  using open_extreme_evaluates [OF assms(1-3), of dc high] statistics_ready [OF assms(4)] assms(5) by auto

lemma open_high_conforms: "\<exists>p. ce_ranking_policy (entry_of (open_high_strategy dc) ''session_range_pct'' d) = Some p \<and> entry_conforms (entry_of (open_high_strategy dc) ''session_range_pct'' d) p"
  by (rule entry_conforms_lawful [OF open_high.lawful_strategy_axioms])
    (auto simp: open_high_strategy_def dest: open_extreme_not_skipped [rotated 3])

lemma open_low_conforms: "\<exists>p. ce_ranking_policy (entry_of (open_low_strategy dc) ''session_range_pct'' d) = Some p \<and> entry_conforms (entry_of (open_low_strategy dc) ''session_range_pct'' d) p"
  by (rule entry_conforms_lawful [OF open_low.lawful_strategy_axioms])
    (auto simp: open_low_strategy_def dest: open_extreme_not_skipped [rotated 3])


lemma production_list_lawful: "e \<in> set (production_list dc) \<Longrightarrow> \<exists>name. lawful_strategy (ce_strategy e) name"
  using narrow_cpr.lawful_strategy_axioms [of dc] body_pct.lawful_strategy_axioms [of dc] range_pct.lawful_strategy_axioms [of dc]
    relative_range.lawful_strategy_axioms [of dc] open_high.lawful_strategy_axioms [of dc] open_low.lawful_strategy_axioms [of dc]
  by (auto simp: production_list_def entry_of_def)

lemma lawful_record_emittable:
  assumes "lawful_manager mg" "wf_context c" "sid \<in> set (due mg c)"
  shows "emittable mg c (record_for (mg_configurations mg) c (strategy_of mg sid))"
proof -
  obtain s where s: "map_of (mg_registry mg) sid = Some s" "strategy_of mg sid = s" using due_registered [OF assms(3)] by blast
  obtain name where law: "lawful_strategy s name" "sd_strategy_id (st_descriptor s) = sid" using lawful_strategy_of [OF assms(1) s(1)] by blast
  show ?thesis
  proof (cases "verdict (mg_configurations mg) c s")
    case None
    then show ?thesis using s(2) by (simp add: emittable_def record_for_def Let_def blank_evaluation_def)
  next
    case (Some v)
    then obtain ev where "v = Inr ev" "answers name c ev" using lawful_strategy.ready_verdict [OF law(1) assms(2)] by blast
    then show ?thesis using Some s law by (auto simp: emittable_def record_for_def Let_def)
  qed
qed

lemma observe_quiet: "\<forall>x. \<not> sink_raises x \<Longrightarrow> observe sink_raises rs = (rs, False)"
  by (induction rs) simp_all

lemma lawful_handle_returns:
  assumes "lawful_manager mg" "wf_context c" "handle_context sink_raises bus_raises mg c = (r, mg')"
    and "\<forall>x. \<not> sink_raises x" "\<forall>x. \<not> bus_raises x"
  shows "r = Inr ()"
proof -
  let ?recs = "map (\<lambda>sid. record_for (mg_configurations mg) c (strategy_of mg sid)) (due mg c)"
  have wf: "wf_registry (mg_registry mg)" using assms(1) by (simp add: lawful_manager_def)
  obtain lc cs where l: "records_loop mg c (mg_previous mg (mc_instrument c)) (running_ids mg) = (Inr (), ?recs, mg\<lparr>mg_lifecycle := lc, mg_error_counts := cs\<rparr>)"
    using records_loop_exact [OF wf conjunct1 [OF running_ids_distinct] running_ids_running due_def] by blast
  let ?mg = "mg\<lparr>mg_lifecycle := lc, mg_error_counts := cs, mg_previous := (mg_previous mg)(mc_instrument c \<mapsto> c),
      mg_latest := (mg_latest mg)(mc_instrument c \<mapsto> ?recs), mg_observed := mg_observed mg @ ?recs\<rparr>"
  have "lawful_manager ?mg" "\<forall>rec \<in> set ?recs. emittable ?mg c rec"
    using assms(1) lawful_record_emittable [OF assms(1,2)] by (simp_all add: lawful_manager_def emittable_def)
  then obtain rs dd where "emit_loop ?mg c ?recs = (Inr rs, ?mg\<lparr>mg_dedup := dd\<rparr>)" using emit_loop_ok by blast
  then show ?thesis
    using assms(3-5) by (auto simp: handle_context_def l observe_quiet publish_results_def Let_def split: if_splits option.splits)
qed

text \<open>
  C6. Production strategies never fault: a manager whose registry holds only strategies of the production catalog, with valid
  configurations, handles every well-formed context without any strategy changing its lifecycle state or being counted as failed, and none of the
  recorded evaluations is an error; and unless the observation sink or a subscriber raises, handling returns normally, so no result is
  refused by the validation of results on its way out.
\<close>

theorem production_strategies_never_fault:
  assumes "production_catalog dc = Inr cat" "\<forall>s \<in> snd ` set (mg_registry mg). s \<in> ce_strategy ` snd ` set cat" "wf_registry (mg_registry mg)"
    and "\<forall>sid cfg. mg_configurations mg sid = Some cfg \<longrightarrow> mk_strategy_configuration cfg = Inr cfg"
    and "wf_context c" "handle_context sink_raises bus_raises mg c = (r, mg')"
  shows "(\<forall>sid. map_of (mg_lifecycle mg') sid = map_of (mg_lifecycle mg) sid)
    \<and> (\<forall>sid. mg_error_counts mg' sid \<in> {mg_error_counts mg sid, Some 0})
    \<and> (mg' \<noteq> mg \<longrightarrow> (\<forall>rec \<in> set (evaluations_for mg' (mc_instrument c)). ev_status (er_evaluation rec) \<noteq> EVALUATION_ERROR))
    \<and> ((\<forall>x. \<not> sink_raises x) \<and> (\<forall>x. \<not> bus_raises x) \<longrightarrow> r = Inr ())"
proof -
  have law: "lawful_manager mg"
    using assms(1-4) production_list_lawful by (fastforce simp: lawful_manager_def production_catalog_ok)
  have returns: "(\<forall>x. \<not> sink_raises x) \<and> (\<forall>x. \<not> bus_raises x) \<longrightarrow> r = Inr ()"
    using lawful_handle_returns [OF law assms(5,6)] by blast
  show ?thesis
  proof (cases "\<exists>p. mg_previous mg (mc_instrument c) = Some p \<and> mc_version c \<le> mc_version p")
    case True
    then show ?thesis using routing_exact [OF assms(3,6)] by auto
  next
    case False
    have exact: "mg_latest mg' (mc_instrument c) = Some (map (\<lambda>sid. record_for (mg_configurations mg) c (strategy_of mg sid)) (due mg c))"
      "\<And>sid. map_of (mg_lifecycle mg') sid = (if sid \<in> set (due mg c) \<and> faults mg c sid then Some FAULTED else map_of (mg_lifecycle mg) sid)"
      "\<And>sid. mg_error_counts mg' sid = (if sid \<in> set (due mg c) then errors_after mg c sid else mg_error_counts mg sid)"
      using routing_exact [OF assms(3,6)] unfolding if_not_P [OF False] by blast+
    show ?thesis
      using returns lawful_no_fault [OF law assms(5)] by (auto simp: exact evaluations_for_def)
  qed
qed

section \<open>A context and a manager for the production strategies\<close>

definition demo_session_candle :: "nat \<Rightarrow> candle" where
  "demo_session_candle n = \<lparr>candle_instrument = cash_equity ''NSE'' ''TCS'', candle_start = int n, candle_end = int n + 1, candle_open = 100, candle_high = 104,
     candle_low = 98, candle_close = 101, candle_quantity = 10\<rparr>"

definition demo_history :: "nat \<Rightarrow> market_context" where
  "demo_history n = demo_context\<lparr>mc_historical := Some \<lparr>hc_instrument = cash_equity ''NSE'' ''TCS'',
     hc_previous_session = Some \<lparr>ps_trading_date = 20000, ps_candle = demo_session_candle 0\<rparr>,
     hc_series = [\<lparr>hs_timeframe = tf_session, hs_candles = map demo_session_candle [0..<n]\<rparr>]\<rparr>\<rparr>"

lemma demo_history_wf: "wf_context (demo_history n)"
  by (simp add: wf_context_def demo_history_def demo_context_def demo_session_candle_def wf_simps list_all_iff)

definition demo_production_manager :: strategy_manager where
  "demo_production_manager = demo_manager\<lparr>mg_registry := [(''narrow_cpr'', narrow_cpr_strategy default_context)], mg_lifecycle := [(''narrow_cpr'', RUNNING)],
     mg_configurations := [''narrow_cpr'' \<mapsto> \<lparr>sc_type = NarrowCprConfiguration, sc_config_version = ''1.0.0'', sc_narrow_cpr_max_width_pct = None\<rparr>]\<rparr>"

theorem production_strategies_never_fault_witness:
  "\<exists>r mg'. handle_context (\<lambda>_. False) (\<lambda>_. False) demo_production_manager (demo_history 1) = (r, mg') \<and> r = Inr ()
     \<and> map_of (mg_lifecycle mg') ''narrow_cpr'' = Some RUNNING"
proof -
  obtain r mg' where h: "handle_context (\<lambda>_. False) (\<lambda>_. False) demo_production_manager (demo_history 1) = (r, mg')" by fastforce
  have cat: "production_catalog default_context = Inr (map (\<lambda>e. (ce_strategy_id e, e)) (production_list default_context))" by (rule production_catalog_ok)
  have reg: "\<forall>s \<in> snd ` set (mg_registry demo_production_manager). s \<in> ce_strategy ` snd ` set (map (\<lambda>e. (ce_strategy_id e, e)) (production_list default_context))"
    by (simp add: demo_production_manager_def production_list_def entry_of_def)
  have wf: "wf_registry (mg_registry demo_production_manager)"
    by (simp add: wf_registry_def demo_production_manager_def narrow_cpr_strategy_def narrow_cpr_descriptor_def)
  have cfg: "\<forall>sid cfg. mg_configurations demo_production_manager sid = Some cfg \<longrightarrow> mk_strategy_configuration cfg = Inr cfg"
    by (auto simp: demo_production_manager_def mk_strategy_configuration_def positive_if_some_def split: if_splits)
  have "map_of (mg_lifecycle demo_production_manager) ''narrow_cpr'' = Some RUNNING" by (simp add: demo_production_manager_def)
  then show ?thesis using production_strategies_never_fault [OF cat reg wf cfg demo_history_wf h] h by auto
qed

section \<open>Longer histories\<close>

text \<open>
  The relative-range strategy is evaluated only with exactly 21 sessions although the readiness gate asks for at least 21: on every
  well-formed context that passes the gate with a longer session series, as when another strategy asks for a longer lookback, it is skipped
  for lack of history.
\<close>

lemma longer_history_is_skipped:
  assumes "wf_context c" "session_series c = Some sessions" "21 < length (hs_candles sessions)"
    and "assess_readiness relative_range_descriptor (session_requirements REQUIRED_SESSIONS) (Some cfg) PreviousSessionRelativeRangeConfiguration c = READY"
  shows "\<exists>ev. st_evaluate (relative_range_strategy dc) c cfg md = Inr ev \<and> ev_status ev = SKIPPED
    \<and> ev_reason_codes ev = [''PREVIOUS_SESSION_RELATIVE_RANGE_NO_HISTORY'']"
proof -
  have ty: "sc_type cfg = PreviousSessionRelativeRangeConfiguration"
    using assms(4) by (auto simp: assess_readiness_def configuration_ok_def split: if_splits)
  have "st_evaluate (relative_range_strategy dc) c cfg md = evaluation_of c SKIPPED ''PREVIOUS_SESSION_RELATIVE_RANGE_NO_HISTORY'' []"
    using assms(2,3) ty by (auto simp: relative_range_strategy_def relative_range_evaluate_def REQUIRED_SESSIONS_def split: option.splits)
  then show ?thesis
    using wf_version [OF assms(1)]
    by (simp add: evaluation_of_def mk_strategy_evaluation_def validate_reason_codes_def validate_metrics_def)
qed

lemma longer_history_is_skipped_example:
  "\<exists>ev. st_evaluate (relative_range_strategy default_context) (demo_history 22)
       \<lparr>sc_type = PreviousSessionRelativeRangeConfiguration, sc_config_version = ''1.0.0'', sc_narrow_cpr_max_width_pct = None\<rparr>
       \<lparr>em_trigger = ON_HISTORICAL_READY, em_context_version = 1, em_observed_at = 0, em_trading_date = None\<rparr> = Inr ev \<and> ev_status ev = SKIPPED"
proof -
  have s: "session_series (demo_history 22) = Some \<lparr>hs_timeframe = tf_session, hs_candles = map demo_session_candle [0..<22]\<rparr>"
    by (simp add: session_series_def demo_history_def is_session_def tf_session_def del: upt_Suc upt_rec_numeral)
  have len: "21 < length (hs_candles \<lparr>hs_timeframe = tf_session, hs_candles = map demo_session_candle [0..<22]\<rparr>)" by (simp del: upt_Suc upt_rec_numeral)
  have ready: "assess_readiness relative_range_descriptor (session_requirements REQUIRED_SESSIONS)
      (Some \<lparr>sc_type = PreviousSessionRelativeRangeConfiguration, sc_config_version = ''1.0.0'', sc_narrow_cpr_max_width_pct = None\<rparr>)
      PreviousSessionRelativeRangeConfiguration (demo_history 22) = READY"
    by (simp add: assess_readiness_def version_compatible_def configuration_ok_def facts_ready_def fact_available_def historical_ready_def live_ready_def
        session_statistics_verdict_def session_requirements_def relative_range_descriptor_def REQUIRED_SESSIONS_def demo_history_def demo_context_def
        dict_of_def Let_def del: upt_Suc upt_rec_numeral)
  from longer_history_is_skipped [OF demo_history_wf s len ready] show ?thesis by blast
qed

end
