(* ===== verification/Sector_Metrics.thy ===== *)
theory Sector_Metrics
  imports Sector_Membership Decimal_Arithmetic "HOL-Library.Multiset"
begin

text \<open>
  The sector metrics of \<^verbatim>\<open>market_intelligence/sector/metrics\<close>: the order statistics of \<^verbatim>\<open>statistics.py\<close>, the inputs, policy and outputs
  of \<^verbatim>\<open>models.py\<close> and the calculations of \<^verbatim>\<open>engine.py\<close>. Arithmetic runs under the caller's decimal context, the parameter \<open>dc\<close>.
  Shown: the order of the observations does not matter to a statistic, exactly which inputs are rejected, every expected constituent is
  counted once as valid, stale or missing, and what each raw direction means.
\<close>

section \<open>Order statistics\<close>

definition stat_median :: "decimal_context \<Rightarrow> decimal list \<Rightarrow> decimal option" where
  "stat_median dc values =
     (let count = length values
      in if count = 0 then None
         else let ordered = sort values; mid = count div 2
              in if count mod 2 = 1 then Some (ordered ! mid)
                 else Some (dec_div dc (dec_add dc (ordered ! (mid - 1)) (ordered ! mid)) 2))"

definition stat_mad :: "decimal_context \<Rightarrow> decimal list \<Rightarrow> decimal option" where
  "stat_mad dc values =
     (case stat_median dc values of
        None \<Rightarrow> None
      | Some center \<Rightarrow> stat_median dc (map (\<lambda>v. dec_abs dc (dec_sub dc v center)) values))"

definition stat_halves :: "decimal list \<Rightarrow> decimal list \<times> decimal list" where
  "stat_halves values =
     (let ordered = sort values; count = length ordered; half = count div 2
      in (take half ordered, drop (count - half) ordered))"

definition stat_iqr :: "decimal_context \<Rightarrow> decimal list \<Rightarrow> decimal option" where
  "stat_iqr dc values =
     (if length values < 2 then None
      else case stat_halves values of (lower, upper) \<Rightarrow>
        case (stat_median dc lower, stat_median dc upper) of
          (Some q1, Some q3) \<Rightarrow> Some (dec_sub dc q3 q1)
        | _ \<Rightarrow> None)"

section \<open>Inputs, policy and outputs\<close>

datatype constituent_direction = ADVANCING | UNCHANGED | DECLINING

datatype raw_sector_direction = BULLISH | BEARISH | NEUTRAL | MIXED | INSUFFICIENT_DATA

record calculation_policy =
  cp_direction_epsilon :: decimal
  cp_freshness_limit :: timedelta
  cp_minimum_valid_count :: int
  cp_minimum_coverage_ratio :: "decimal option"

definition mk_calculation_policy :: "calculation_policy \<Rightarrow> calculation_policy res" where
  "mk_calculation_policy p =
     (if cp_direction_epsilon p < 0 then Inl (ValidationError ''direction_epsilon ge 0'')
      else if cp_freshness_limit p \<le> 0 then Inl (ValidationError ''freshness_limit must be positive'')
      else if cp_minimum_valid_count p < 1 then Inl (ValidationError ''minimum_valid_count ge 1'')
      else if (\<exists>r. cp_minimum_coverage_ratio p = Some r \<and> (r < 0 \<or> 1 < r)) then Inl (ValidationError ''minimum_coverage_ratio'')
      else Inr p)"

record constituent_observation =
  cob_identity :: string
  cob_sector_id :: string
  cob_trading_date :: date
  cob_observation_timestamp :: instant
  cob_last_price :: decimal
  cob_previous_close :: decimal
  cob_session_open :: decimal

definition mk_constituent_observation ::
  "string \<Rightarrow> string \<Rightarrow> date \<Rightarrow> py_datetime \<Rightarrow> decimal \<Rightarrow> decimal \<Rightarrow> decimal \<Rightarrow> constituent_observation res" where
  "mk_constituent_observation i sid d ts price prev op =
     (if i = [] then Inl (ValidationError ''identity min_length'')
      else if sid = [] then Inl (ValidationError ''sector_id min_length'')
      else res_bind (require_aware_timestamp ts) (\<lambda>t.
        if price \<le> 0 \<or> prev \<le> 0 \<or> op \<le> 0 then Inl (ValidationError ''price gt 0'')
        else Inr \<lparr>cob_identity = i, cob_sector_id = sid, cob_trading_date = d, cob_observation_timestamp = t,
                  cob_last_price = price, cob_previous_close = prev, cob_session_open = op\<rparr>))"

record constituent_metrics =
  cm_identity :: string
  cm_sector_id :: string
  cm_overnight_return :: decimal
  cm_intraday_return :: decimal
  cm_total_return :: decimal
  cm_direction :: constituent_direction

record sector_breadth =
  br_valid_count :: int
  br_advance_count :: int
  br_decline_count :: int
  br_unchanged_count :: int
  br_advance_ratio :: "decimal option"
  br_decline_ratio :: "decimal option"
  br_unchanged_ratio :: "decimal option"
  br_net_breadth :: "decimal option"

record sector_dispersion =
  dp_mad_intraday_return :: "decimal option"
  dp_iqr_intraday_return :: "decimal option"

record universe_proxy_metrics =
  up_valid_count :: int
  up_median_intraday_return :: "decimal option"

record sector_metrics =
  sx_sector_id :: string
  sx_trading_date :: date
  sx_evaluation_timestamp :: instant
  sx_expected_count :: int
  sx_valid_count :: int
  sx_stale_count :: int
  sx_missing_count :: int
  sx_invalid_count :: int
  sx_coverage_ratio :: decimal
  sx_breadth :: sector_breadth
  sx_median_overnight_return :: "decimal option"
  sx_median_intraday_return :: "decimal option"
  sx_median_total_return :: "decimal option"
  sx_dispersion :: sector_dispersion
  sx_directional_agreement :: "decimal option"
  sx_directional_participant_count :: int
  sx_directional_participation_ratio :: "decimal option"
  sx_raw_direction :: raw_sector_direction
  sx_universe_proxy_intraday_return :: "decimal option"
  sx_relative_strength :: "decimal option"
  sx_constituents :: "constituent_metrics list"

section \<open>Calculations\<close>

datatype tilt = TILT_BULL | TILT_NEUTRAL | TILT_BEAR

definition tilt_of :: "decimal_context \<Rightarrow> decimal option \<Rightarrow> decimal \<Rightarrow> tilt" where
  "tilt_of dc value epsilon =
     (case value of
        None \<Rightarrow> TILT_NEUTRAL
      | Some v \<Rightarrow> (if v > epsilon then TILT_BULL
                  else if v < dec_neg dc epsilon then TILT_BEAR
                  else TILT_NEUTRAL))"

definition ratio :: "decimal_context \<Rightarrow> int \<Rightarrow> int \<Rightarrow> decimal option" where
  "ratio dc numerator denominator =
     (if denominator = 0 then None else Some (dec_div dc (of_int numerator) (of_int denominator)))"

definition direction_of_tilt :: "tilt \<Rightarrow> constituent_direction" where
  "direction_of_tilt t = (case t of TILT_BULL \<Rightarrow> ADVANCING | TILT_BEAR \<Rightarrow> DECLINING | TILT_NEUTRAL \<Rightarrow> UNCHANGED)"

definition calculate_constituent_metrics :: "decimal_context \<Rightarrow> constituent_observation \<Rightarrow> decimal \<Rightarrow> constituent_metrics" where
  "calculate_constituent_metrics dc ob epsilon =
     (let overnight = dec_div dc (dec_sub dc (cob_session_open ob) (cob_previous_close ob)) (cob_previous_close ob);
          intraday = dec_div dc (dec_sub dc (cob_last_price ob) (cob_session_open ob)) (cob_session_open ob);
          total = dec_div dc (dec_sub dc (cob_last_price ob) (cob_previous_close ob)) (cob_previous_close ob)
      in \<lparr>cm_identity = cob_identity ob, cm_sector_id = cob_sector_id ob, cm_overnight_return = overnight, cm_intraday_return = intraday,
          cm_total_return = total, cm_direction = direction_of_tilt (tilt_of dc (Some intraday) epsilon)\<rparr>)"

fun reject_duplicates :: "string set \<Rightarrow> constituent_observation list \<Rightarrow> unit res" where
  "reject_duplicates seen [] = Inr ()"
| "reject_duplicates seen (ob # obs) =
     (if cob_identity ob \<in> seen then Inl (ValueError ''DuplicateConstituentError'')
      else reject_duplicates (insert (cob_identity ob) seen) obs)"

definition is_fresh :: "constituent_observation \<Rightarrow> instant \<Rightarrow> timedelta \<Rightarrow> bool" where
  "is_fresh ob evaluation_time limit =
     (let age = evaluation_time - cob_observation_timestamp ob in 0 \<le> age \<and> age \<le> limit)"

definition sector_breadth_of :: "decimal_context \<Rightarrow> constituent_metrics list \<Rightarrow> sector_breadth" where
  "sector_breadth_of dc cs =
     (let valid = int (length cs);
          advancing = int (length (filter (\<lambda>c. cm_direction c = ADVANCING) cs));
          declining = int (length (filter (\<lambda>c. cm_direction c = DECLINING) cs));
          unchanged = valid - advancing - declining
      in \<lparr>br_valid_count = valid, br_advance_count = advancing, br_decline_count = declining, br_unchanged_count = unchanged,
          br_advance_ratio = ratio dc advancing valid, br_decline_ratio = ratio dc declining valid,
          br_unchanged_ratio = ratio dc unchanged valid, br_net_breadth = ratio dc (advancing - declining) valid\<rparr>)"

definition agreement :: "tilt \<Rightarrow> sector_breadth \<Rightarrow> decimal option" where
  "agreement median_tilt b =
     (case median_tilt of TILT_BULL \<Rightarrow> br_advance_ratio b | TILT_BEAR \<Rightarrow> br_decline_ratio b | TILT_NEUTRAL \<Rightarrow> br_unchanged_ratio b)"

definition participation :: "decimal_context \<Rightarrow> tilt \<Rightarrow> constituent_metrics list \<Rightarrow> decimal \<Rightarrow> int \<times> decimal option" where
  "participation dc median_tilt cs epsilon =
     (let count = (case median_tilt of
                     TILT_BULL \<Rightarrow> int (length (filter (\<lambda>c. cm_intraday_return c > epsilon) cs))
                   | TILT_BEAR \<Rightarrow> int (length (filter (\<lambda>c. cm_intraday_return c < dec_neg dc epsilon) cs))
                   | TILT_NEUTRAL \<Rightarrow> 0)
      in (count, ratio dc count (int (length cs))))"

definition raw_direction :: "tilt \<Rightarrow> tilt \<Rightarrow> int \<Rightarrow> decimal \<Rightarrow> calculation_policy \<Rightarrow> raw_sector_direction" where
  "raw_direction median_tilt breadth_tilt valid_count coverage p =
     (if valid_count = 0 \<or> valid_count < cp_minimum_valid_count p then INSUFFICIENT_DATA
      else if (\<exists>r. cp_minimum_coverage_ratio p = Some r \<and> coverage < r) then INSUFFICIENT_DATA
      else if median_tilt = TILT_BULL \<and> breadth_tilt = TILT_BULL then BULLISH
      else if median_tilt = TILT_BEAR \<and> breadth_tilt = TILT_BEAR then BEARISH
      else if median_tilt = TILT_NEUTRAL \<and> breadth_tilt = TILT_NEUTRAL then NEUTRAL
      else MIXED)"

fun scope_loop :: "string \<Rightarrow> string set \<Rightarrow> date \<Rightarrow> constituent_observation list \<Rightarrow> unit res" where
  "scope_loop sid expected d [] = Inr ()"
| "scope_loop sid expected d (ob # obs) =
     (if cob_sector_id ob \<noteq> sid then Inl (ValueError ''SectorMembershipMismatchError'')
      else if cob_identity ob \<notin> expected then Inl (ValueError ''SectorMembershipMismatchError'')
      else if cob_trading_date ob \<noteq> d then Inl (ValueError ''MixedTradingDateError'')
      else scope_loop sid expected d obs)"

definition validate_scope :: "string \<Rightarrow> string set \<Rightarrow> constituent_observation list \<Rightarrow> date \<Rightarrow> unit res" where
  "validate_scope sid expected obs d = res_bind (reject_duplicates {} obs) (\<lambda>_. scope_loop sid expected d obs)"

definition calculate_universe_proxy ::
  "decimal_context \<Rightarrow> constituent_observation list \<Rightarrow> calculation_policy \<Rightarrow> date \<Rightarrow> instant \<Rightarrow> universe_proxy_metrics res" where
  "calculate_universe_proxy dc obs p d evaluation_time =
     res_bind (reject_duplicates {} obs) (\<lambda>_.
       if list_ex (\<lambda>ob. cob_trading_date ob \<noteq> d) obs then Inl (ValueError ''MixedTradingDateError'')
       else let fresh = filter (\<lambda>ob. is_fresh ob evaluation_time (cp_freshness_limit p)) obs;
                intraday = map (\<lambda>ob. cm_intraday_return (calculate_constituent_metrics dc ob (cp_direction_epsilon p))) fresh
            in Inr \<lparr>up_valid_count = int (length fresh), up_median_intraday_return = stat_median dc intraday\<rparr>)"

definition calculate_relative_strength :: "decimal_context \<Rightarrow> decimal option \<Rightarrow> decimal option \<Rightarrow> decimal option" where
  "calculate_relative_strength dc sector_median proxy =
     (case (sector_median, proxy) of (Some a, Some b) \<Rightarrow> Some (dec_sub dc a b) | _ \<Rightarrow> None)"

text \<open>\<^verbatim>\<open>_ratio(...) or Decimal(0)\<close>: a missing or zero ratio reads as zero.\<close>

definition calculate_sector_metrics ::
  "decimal_context \<Rightarrow> string \<Rightarrow> string set \<Rightarrow> constituent_observation list \<Rightarrow> calculation_policy \<Rightarrow> date \<Rightarrow> instant \<Rightarrow>
   universe_proxy_metrics option \<Rightarrow> sector_metrics res" where
  "calculate_sector_metrics dc sid expected obs p d evaluation_time proxy =
     res_bind (validate_scope sid expected obs d) (\<lambda>_.
       let fresh = filter (\<lambda>ob. is_fresh ob evaluation_time (cp_freshness_limit p)) obs;
           cs = map (\<lambda>ob. calculate_constituent_metrics dc ob (cp_direction_epsilon p)) fresh;
           expected_count = int (card expected);
           valid_count = int (length fresh);
           stale_count = int (length obs) - valid_count;
           missing_count = expected_count - int (length obs);
           coverage = (case ratio dc valid_count expected_count of None \<Rightarrow> 0 | Some r \<Rightarrow> r);
           breadth = sector_breadth_of dc cs;
           median_intraday = stat_median dc (map cm_intraday_return cs);
           median_overnight = stat_median dc (map cm_overnight_return cs);
           median_total = stat_median dc (map cm_total_return cs);
           median_tilt = tilt_of dc median_intraday (cp_direction_epsilon p);
           breadth_tilt = tilt_of dc (br_net_breadth breadth) 0;
           (participant_count, participation_ratio) = participation dc median_tilt cs (cp_direction_epsilon p);
           proxy_value = (case proxy of None \<Rightarrow> None | Some u \<Rightarrow> up_median_intraday_return u)
       in Inr \<lparr>sx_sector_id = sid, sx_trading_date = d, sx_evaluation_timestamp = evaluation_time,
               sx_expected_count = expected_count, sx_valid_count = valid_count, sx_stale_count = stale_count,
               sx_missing_count = missing_count, sx_invalid_count = 0, sx_coverage_ratio = coverage, sx_breadth = breadth,
               sx_median_overnight_return = median_overnight, sx_median_intraday_return = median_intraday,
               sx_median_total_return = median_total,
               sx_dispersion = \<lparr>dp_mad_intraday_return = stat_mad dc (map cm_intraday_return cs),
                                dp_iqr_intraday_return = stat_iqr dc (map cm_intraday_return cs)\<rparr>,
               sx_directional_agreement = (if valid_count \<noteq> 0 then agreement median_tilt breadth else None),
               sx_directional_participant_count = participant_count,
               sx_directional_participation_ratio = participation_ratio,
               sx_raw_direction = raw_direction median_tilt breadth_tilt valid_count coverage p,
               sx_universe_proxy_intraday_return = proxy_value,
               sx_relative_strength = calculate_relative_strength dc median_intraday proxy_value,
               sx_constituents = cs\<rparr>)"

section \<open>Order of the observations\<close>

lemma sort_mset_eq: "mset xs = mset ys \<Longrightarrow> sort xs = sort (ys :: 'a::linorder list)"
  by (metis mset_sort properties_for_sort sorted_sort)

lemma stat_median_mset:
  assumes "mset xs = mset ys"
  shows "stat_median dc xs = stat_median dc ys"
  using mset_eq_length [OF assms] sort_mset_eq [OF assms] by (simp add: stat_median_def Let_def)

lemma stat_mad_mset: "mset xs = mset ys \<Longrightarrow> stat_mad dc xs = stat_mad dc ys"
  unfolding stat_mad_def by (auto simp: stat_median_mset [of xs ys] split: option.splits intro!: stat_median_mset)

lemma stat_iqr_mset:
  assumes "mset xs = mset ys"
  shows "stat_iqr dc xs = stat_iqr dc ys"
  using mset_eq_length [OF assms] sort_mset_eq [OF assms] by (simp add: stat_iqr_def stat_halves_def)

lemma length_filter_mset: "mset xs = mset ys \<Longrightarrow> length (filter P xs) = length (filter P ys)"
  by (metis mset_filter size_mset)

lemma sector_breadth_mset:
  assumes "mset xs = mset ys"
  shows "sector_breadth_of dc xs = sector_breadth_of dc ys"
  by (simp add: sector_breadth_of_def mset_eq_length [OF assms] length_filter_mset [OF assms] Let_def)

lemma participation_mset:
  assumes "mset xs = mset ys"
  shows "participation dc t xs e = participation dc t ys e"
  by (simp add: participation_def mset_eq_length [OF assms] length_filter_mset [OF assms] Let_def split: tilt.splits)

section \<open>What is rejected\<close>

lemma reject_duplicates_ok:
  "reject_duplicates seen obs = Inr () \<longleftrightarrow> distinct (map cob_identity obs) \<and> cob_identity ` set obs \<inter> seen = {}"
  by (induction obs arbitrary: seen) auto

definition in_scope :: "string \<Rightarrow> string set \<Rightarrow> date \<Rightarrow> constituent_observation list \<Rightarrow> bool" where
  "in_scope sid expected d obs \<longleftrightarrow> distinct (map cob_identity obs)
     \<and> (\<forall>ob \<in> set obs. cob_sector_id ob = sid \<and> cob_identity ob \<in> expected \<and> cob_trading_date ob = d)"

lemma scope_loop_ok:
  "scope_loop sid expected d obs = Inr () \<longleftrightarrow>
     (\<forall>ob \<in> set obs. cob_sector_id ob = sid \<and> cob_identity ob \<in> expected \<and> cob_trading_date ob = d)"
  by (induction obs) auto

lemma validate_scope_ok: "validate_scope sid expected obs d = Inr () \<longleftrightarrow> in_scope sid expected d obs"
  by (auto simp: validate_scope_def reject_duplicates_ok scope_loop_ok in_scope_def)

lemma calculate_sector_metrics_ok_iff:
  "is_ok (calculate_sector_metrics dc sid expected obs p d t proxy) \<longleftrightarrow> in_scope sid expected d obs"
proof (cases "validate_scope sid expected obs d")
  case (Inl e)
  then have "\<not> in_scope sid expected d obs" by (metis Inl_Inr_False validate_scope_ok)
  then show ?thesis using Inl by (simp add: calculate_sector_metrics_def)
next
  case (Inr u)
  then show ?thesis using validate_scope_ok [of sid expected obs d]
    by (simp add: calculate_sector_metrics_def Let_def split: prod.splits)
qed

lemma universe_proxy_ok:
  assumes "distinct (map cob_identity obs)" "\<forall>ob \<in> set obs. cob_trading_date ob = d"
  shows "\<exists>u. calculate_universe_proxy dc obs p d t = Inr u
    \<and> up_valid_count u = int (length (filter (\<lambda>ob. is_fresh ob t (cp_freshness_limit p)) obs))"
proof -
  have "reject_duplicates {} obs = Inr ()" using assms(1) by (simp add: reject_duplicates_ok)
  moreover have "\<not> list_ex (\<lambda>ob. cob_trading_date ob \<noteq> d) obs" using assms(2) by (simp add: list_ex_iff)
  ultimately show ?thesis by (simp add: calculate_universe_proxy_def Let_def)
qed

section \<open>What the counts and directions mean\<close>

lemma ratio_bounds:
  assumes "1 \<le> dc_prec dc" "0 \<le> a" "a \<le> b" "ratio dc a b = Some r"
  shows "0 \<le> r \<and> r \<le> 1"
proof -
  have b: "0 < b" using assms(2-4) by (cases "b = 0") (auto simp: ratio_def)
  then have "0 \<le> (of_int a / of_int b :: rat)" "(of_int a / of_int b :: rat) \<le> 1" using assms(2,3) by (simp_all add: divide_le_eq)
  from round_to_unit_interval [OF this assms(1)] show ?thesis using assms(4) b by (simp add: ratio_def dec_div_def)
qed

lemma ratio_tilt:
  assumes "1 \<le> dc_prec dc" "0 \<le> n"
  shows "tilt_of dc (ratio dc a n) 0 = (if n = 0 \<or> a = 0 then TILT_NEUTRAL else if 0 < a then TILT_BULL else TILT_BEAR)"
proof (cases "n = 0")
  case False
  then have n: "0 < n" using assms(2) by simp
  have pos: "0 < dec_div dc (of_int a) (of_int n) \<longleftrightarrow> 0 < a"
    using n by (simp add: dec_div_def round_to_pos_iff [OF assms(1)] zero_less_divide_iff)
  have neg: "dec_div dc (of_int a) (of_int n) < 0 \<longleftrightarrow> a < 0"
    using n by (simp add: dec_div_def round_to_neg_iff [OF assms(1)] divide_less_0_iff)
  show ?thesis using False by (cases "a = 0") (simp_all add: tilt_of_def ratio_def dec_neg_def pos neg, simp_all add: dec_div_def)
qed (simp add: tilt_of_def ratio_def)

lemma intraday_direction:
  "cm_direction (calculate_constituent_metrics dc ob e) = ADVANCING \<longleftrightarrow> e < cm_intraday_return (calculate_constituent_metrics dc ob e)"
  by (auto simp: calculate_constituent_metrics_def Let_def direction_of_tilt_def tilt_of_def)


lemma intraday_declining:
  assumes "0 \<le> e" "1 \<le> dc_prec dc"
  shows "cm_direction (calculate_constituent_metrics dc ob e) = DECLINING \<longleftrightarrow>
     cm_intraday_return (calculate_constituent_metrics dc ob e) < dec_neg dc e"
proof -
  have "dec_neg dc e \<le> e" using round_to_mono [of "- e" 0 dc] assms by (simp add: dec_neg_def)
  then show ?thesis by (auto simp: calculate_constituent_metrics_def Let_def direction_of_tilt_def tilt_of_def)
qed

definition sufficient :: "calculation_policy \<Rightarrow> sector_metrics \<Rightarrow> bool" where
  "sufficient p m \<longleftrightarrow> 0 < sx_valid_count m \<and> cp_minimum_valid_count p \<le> sx_valid_count m
     \<and> (\<forall>r. cp_minimum_coverage_ratio p = Some r \<longrightarrow> r \<le> sx_coverage_ratio m)"

definition intraday_return_of :: "decimal_context \<Rightarrow> constituent_observation \<Rightarrow> decimal" where
  "intraday_return_of dc ob = dec_div dc (dec_sub dc (cob_last_price ob) (cob_session_open ob)) (cob_session_open ob)"

lemma cm_intraday [simp]: "cm_intraday_return (calculate_constituent_metrics dc ob e) = intraday_return_of dc ob"
  by (simp add: calculate_constituent_metrics_def intraday_return_of_def Let_def)

lemma in_scope_length:
  assumes "in_scope sid expected d obs" "finite expected"
  shows "length obs \<le> card expected"
proof -
  have "length obs = card (cob_identity ` set obs)" using assms(1) by (metis distinct_card in_scope_def length_map list.set_map)
  also have "\<dots> \<le> card expected" using assms by (intro card_mono) (auto simp: in_scope_def)
  finally show ?thesis .
qed

lemma calculate_sector_metrics_Inr:
  assumes "calculate_sector_metrics dc sid expected obs p d t proxy = Inr m"
  defines "fresh \<equiv> filter (\<lambda>ob. is_fresh ob t (cp_freshness_limit p)) obs"
  shows "sx_sector_id m = sid" "sx_trading_date m = d" "sx_evaluation_timestamp m = t"
    "sx_expected_count m = int (card expected)" "sx_valid_count m = int (length fresh)"
    "sx_stale_count m = int (length obs) - int (length fresh)" "sx_missing_count m = int (card expected) - int (length obs)"
    "sx_coverage_ratio m = (case ratio dc (int (length fresh)) (int (card expected)) of None \<Rightarrow> 0 | Some r \<Rightarrow> r)"
    "sx_constituents m = map (\<lambda>ob. calculate_constituent_metrics dc ob (cp_direction_epsilon p)) fresh"
    "sx_breadth m = sector_breadth_of dc (sx_constituents m)"
    "sx_median_intraday_return m = stat_median dc (map (intraday_return_of dc) fresh)"
    "sx_raw_direction m = raw_direction (tilt_of dc (sx_median_intraday_return m) (cp_direction_epsilon p))
       (tilt_of dc (br_net_breadth (sx_breadth m)) 0) (sx_valid_count m) (sx_coverage_ratio m) p"
    "in_scope sid expected d obs"
proof -
  have sc: "validate_scope sid expected obs d = Inr ()" using assms(1) by (auto simp: calculate_sector_metrics_def)
  then show "in_scope sid expected d obs" by (simp add: validate_scope_ok)
  note m = assms(1) [unfolded calculate_sector_metrics_def sc res_bind_simps Let_def fresh_def [symmetric] split_beta, simplified]
  show "sx_sector_id m = sid" "sx_trading_date m = d" "sx_evaluation_timestamp m = t"
    "sx_expected_count m = int (card expected)" "sx_valid_count m = int (length fresh)"
    "sx_stale_count m = int (length obs) - int (length fresh)" "sx_missing_count m = int (card expected) - int (length obs)"
    "sx_coverage_ratio m = (case ratio dc (int (length fresh)) (int (card expected)) of None \<Rightarrow> 0 | Some r \<Rightarrow> r)"
    "sx_constituents m = map (\<lambda>ob. calculate_constituent_metrics dc ob (cp_direction_epsilon p)) fresh"
    "sx_breadth m = sector_breadth_of dc (sx_constituents m)"
    "sx_median_intraday_return m = stat_median dc (map (intraday_return_of dc) fresh)"
    "sx_raw_direction m = raw_direction (tilt_of dc (sx_median_intraday_return m) (cp_direction_epsilon p))
       (tilt_of dc (br_net_breadth (sx_breadth m)) 0) (sx_valid_count m) (sx_coverage_ratio m) p"
    by (simp_all add: m [symmetric] comp_def)
qed

lemma sector_breadth_counts:
  fixes obs :: "constituent_observation list"
  assumes "0 \<le> e" "1 \<le> dc_prec dc"
  defines "b \<equiv> sector_breadth_of dc (map (\<lambda>ob. calculate_constituent_metrics dc ob e) obs)"
  shows "br_advance_count b = int (length (filter (\<lambda>ob. e < intraday_return_of dc ob) obs))"
    "br_decline_count b = int (length (filter (\<lambda>ob. intraday_return_of dc ob < dec_neg dc e) obs))"
    "br_advance_count b + br_decline_count b + br_unchanged_count b = int (length obs)"
    "0 \<le> br_unchanged_count b"
    "br_net_breadth b = ratio dc (br_advance_count b - br_decline_count b) (int (length obs))"
proof -
  let ?adv = "\<lambda>ob. e < intraday_return_of dc ob" and ?dec = "\<lambda>ob. intraday_return_of dc ob < dec_neg dc e"
  show adv: "br_advance_count b = int (length (filter ?adv obs))"
    by (simp add: b_def sector_breadth_of_def Let_def filter_map comp_def intraday_direction)
  show dec: "br_decline_count b = int (length (filter ?dec obs))"
    by (simp add: b_def sector_breadth_of_def Let_def filter_map comp_def intraday_declining [OF assms(1,2)])
  show sum: "br_advance_count b + br_decline_count b + br_unchanged_count b = int (length obs)"
    by (simp add: b_def sector_breadth_of_def Let_def)
  have "dec_neg dc e \<le> e" using round_to_mono [of "- e" 0 dc] assms(1,2) by (simp add: dec_neg_def)
  then have "length (filter ?dec obs) \<le> length (filter (\<lambda>ob. \<not> ?adv ob) obs)" by (induction obs) auto
  then have "length (filter ?adv obs) + length (filter ?dec obs) \<le> length obs" using sum_length_filter_compl [of ?adv obs] by linarith
  then show "0 \<le> br_unchanged_count b" using sum adv dec by linarith
  show "br_net_breadth b = ratio dc (br_advance_count b - br_decline_count b) (int (length obs))"
    by (simp add: b_def sector_breadth_of_def Let_def)
qed

lemma raw_direction_table:
  "raw_direction mt bt n c p = INSUFFICIENT_DATA \<longleftrightarrow> \<not> (n \<noteq> 0 \<and> cp_minimum_valid_count p \<le> n \<and> (\<forall>r. cp_minimum_coverage_ratio p = Some r \<longrightarrow> r \<le> c))"
  "raw_direction mt bt n c p = BULLISH \<longleftrightarrow> raw_direction mt bt n c p \<noteq> INSUFFICIENT_DATA \<and> mt = TILT_BULL \<and> bt = TILT_BULL"
  "raw_direction mt bt n c p = BEARISH \<longleftrightarrow> raw_direction mt bt n c p \<noteq> INSUFFICIENT_DATA \<and> mt = TILT_BEAR \<and> bt = TILT_BEAR"
  by (auto simp: raw_direction_def not_le)

lemma tilt_of_iff:
  assumes "0 \<le> e" "1 \<le> dc_prec dc"
  shows "tilt_of dc v e = TILT_BULL \<longleftrightarrow> (\<exists>x. v = Some x \<and> e < x)"
    "tilt_of dc v e = TILT_BEAR \<longleftrightarrow> (\<exists>x. v = Some x \<and> x < dec_neg dc e)"
proof -
  have "dec_neg dc e \<le> e" using round_to_mono [of "- e" 0 dc] assms by (simp add: dec_neg_def)
  then show "tilt_of dc v e = TILT_BULL \<longleftrightarrow> (\<exists>x. v = Some x \<and> e < x)"
    "tilt_of dc v e = TILT_BEAR \<longleftrightarrow> (\<exists>x. v = Some x \<and> x < dec_neg dc e)"
    by (auto simp: tilt_of_def split: option.splits)
qed

lemma sector_direction_meaning:
  assumes "1 \<le> dc_prec dc" "0 \<le> cp_direction_epsilon p"
    "calculate_sector_metrics dc sid expected obs p d t proxy = Inr m"
  shows "sx_raw_direction m = INSUFFICIENT_DATA \<longleftrightarrow> \<not> sufficient p m"
    "sx_raw_direction m = BULLISH \<longleftrightarrow> sufficient p m \<and> (\<exists>x. sx_median_intraday_return m = Some x \<and> cp_direction_epsilon p < x)
       \<and> br_decline_count (sx_breadth m) < br_advance_count (sx_breadth m)"
    "sx_raw_direction m = BEARISH \<longleftrightarrow> sufficient p m \<and> (\<exists>x. sx_median_intraday_return m = Some x \<and> x < dec_neg dc (cp_direction_epsilon p))
       \<and> br_advance_count (sx_breadth m) < br_decline_count (sx_breadth m)"
proof -
  note f = calculate_sector_metrics_Inr [OF assms(3)]
  define fresh where "fresh = filter (\<lambda>ob. is_fresh ob t (cp_freshness_limit p)) obs"
  note b = sector_breadth_counts [OF assms(2,1), of fresh, folded f(9) [folded fresh_def] f(10)]
  have n: "sx_valid_count m = int (length fresh)" using f(5) by (simp add: fresh_def)
  have bt: "tilt_of dc (br_net_breadth (sx_breadth m)) 0 =
      (if fresh = [] \<or> br_advance_count (sx_breadth m) = br_decline_count (sx_breadth m) then TILT_NEUTRAL
       else if br_decline_count (sx_breadth m) < br_advance_count (sx_breadth m) then TILT_BULL else TILT_BEAR)"
    unfolding b(5) using ratio_tilt [OF assms(1), of "int (length fresh)"] by simp
  show ins: "sx_raw_direction m = INSUFFICIENT_DATA \<longleftrightarrow> \<not> sufficient p m"
    unfolding f(12) raw_direction_table(1) sufficient_def using n by auto
  have dir: "sx_raw_direction m = BULLISH \<longleftrightarrow> sx_raw_direction m \<noteq> INSUFFICIENT_DATA
      \<and> tilt_of dc (sx_median_intraday_return m) (cp_direction_epsilon p) = TILT_BULL \<and> tilt_of dc (br_net_breadth (sx_breadth m)) 0 = TILT_BULL"
    "sx_raw_direction m = BEARISH \<longleftrightarrow> sx_raw_direction m \<noteq> INSUFFICIENT_DATA
      \<and> tilt_of dc (sx_median_intraday_return m) (cp_direction_epsilon p) = TILT_BEAR \<and> tilt_of dc (br_net_breadth (sx_breadth m)) 0 = TILT_BEAR"
    unfolding f(12) by (rule raw_direction_table)+
  have "sufficient p m \<Longrightarrow> fresh \<noteq> []" using n by (auto simp: sufficient_def)
  then show "sx_raw_direction m = BULLISH \<longleftrightarrow> sufficient p m \<and> (\<exists>x. sx_median_intraday_return m = Some x \<and> cp_direction_epsilon p < x)
       \<and> br_decline_count (sx_breadth m) < br_advance_count (sx_breadth m)"
    "sx_raw_direction m = BEARISH \<longleftrightarrow> sufficient p m \<and> (\<exists>x. sx_median_intraday_return m = Some x \<and> x < dec_neg dc (cp_direction_epsilon p))
       \<and> br_advance_count (sx_breadth m) < br_decline_count (sx_breadth m)"
    unfolding dir ins tilt_of_iff [OF assms(2,1)] bt by auto
qed


lemma in_scope_mset:
  assumes "mset obs' = mset obs"
  shows "in_scope sid expected d obs' \<longleftrightarrow> in_scope sid expected d obs"
proof -
  have "mset (map cob_identity obs') = mset (map cob_identity obs)" using assms by (metis mset_map)
  then show ?thesis using assms by (metis in_scope_def mset_eq_imp_distinct_iff mset_eq_setD)
qed

text \<open>Only the order in which the constituents are listed depends on the order of the observations.\<close>

lemma sector_metrics_order_independent:
  assumes "mset obs' = mset obs" "calculate_sector_metrics dc sid expected obs p d t proxy = Inr m"
  shows "\<exists>m'. calculate_sector_metrics dc sid expected obs' p d t proxy = Inr m' \<and> mset (sx_constituents m') = mset (sx_constituents m)
    \<and> m'\<lparr>sx_constituents := sx_constituents m\<rparr> = m"
proof -
  let ?fresh = "\<lambda>os. filter (\<lambda>ob. is_fresh ob t (cp_freshness_limit p)) os"
  let ?cs = "\<lambda>os. map (\<lambda>ob. calculate_constituent_metrics dc ob (cp_direction_epsilon p)) (?fresh os)"
  have sc: "validate_scope sid expected obs d = Inr ()" "validate_scope sid expected obs' d = Inr ()"
    using calculate_sector_metrics_Inr(13) [OF assms(2)] in_scope_mset [OF assms(1)] by (simp_all add: validate_scope_ok)
  have fr: "mset (?fresh obs') = mset (?fresh obs)" by (simp add: assms(1))
  then have ms: "mset (?cs obs') = mset (?cs obs)" by simp
  have med: "stat_median dc (map g (?cs obs')) = stat_median dc (map g (?cs obs))" for g
    by (rule stat_median_mset) (simp add: assms(1))
  have mad: "stat_mad dc (map g (?cs obs')) = stat_mad dc (map g (?cs obs))" for g by (rule stat_mad_mset) (simp add: assms(1))
  have iq: "stat_iqr dc (map g (?cs obs')) = stat_iqr dc (map g (?cs obs))" for g by (rule stat_iqr_mset) (simp add: assms(1))
  note eqs = med mad iq sector_breadth_mset [OF ms] participation_mset [OF ms] mset_eq_length [OF fr] mset_eq_length [OF assms(1)]
  have "calculate_sector_metrics dc sid expected obs' p d t proxy =
      map_sum id (\<lambda>m. m\<lparr>sx_constituents := ?cs obs'\<rparr>) (calculate_sector_metrics dc sid expected obs p d t proxy)"
    by (simp only: calculate_sector_metrics_def sc res_bind_simps Let_def split_beta eqs map_sum.simps sector_metrics.update_convs)
  then have "calculate_sector_metrics dc sid expected obs' p d t proxy = Inr (m\<lparr>sx_constituents := ?cs obs'\<rparr>)"
    using assms(2) by simp
  moreover have "sx_constituents m = ?cs obs" using calculate_sector_metrics_Inr(9) [OF assms(2)] .
  ultimately show ?thesis using ms by simp
qed

section \<open>An evaluation\<close>

definition shadow_policy :: calculation_policy where
  "shadow_policy = \<lparr>cp_direction_epsilon = 1/1000, cp_freshness_limit = 5 * MINUTE, cp_minimum_valid_count = 1, cp_minimum_coverage_ratio = None\<rparr>"

definition demo_constituent :: "string \<Rightarrow> decimal \<Rightarrow> instant \<Rightarrow> constituent_observation" where
  "demo_constituent i price t = \<lparr>cob_identity = i, cob_sector_id = ''FMCG'', cob_trading_date = 20000, cob_observation_timestamp = t,
     cob_last_price = price, cob_previous_close = 100, cob_session_open = 100\<rparr>"


end
