(* ===== verification/Sector_Participation.thy ===== *)
theory Sector_Participation
  imports Sector_Metrics "HOL-Library.Product_Lexorder"
begin

text \<open>
  The stock participation of \<^verbatim>\<open>market_intelligence/sector/participation\<close>: the evidence of one stock relative to its sector and the universe
  proxy, and the ranking of a sector's constituents. Shown: which inputs are rejected, that every observation is either ranked or
  excluded as stale, and that in a directional sector the rank of a stock is one more than the number of stronger eligible stocks.
\<close>

section \<open>Vocabulary\<close>

datatype stock_sector_alignment = ALIGNED | OPPOSED | ALIGN_NEUTRAL | MIXED_CONTEXT | ALIGN_INSUFFICIENT_DATA

datatype stock_exclusion_reason = STALE

record stock_sector_metrics =
  st_identity :: string
  st_sector_id :: string
  st_trading_date :: date
  st_evaluation_timestamp :: instant
  st_intraday_return :: decimal
  st_overnight_return :: decimal
  st_total_return :: decimal
  st_direction :: constituent_direction
  st_sector_raw_direction :: raw_sector_direction
  st_sector_median_intraday_return :: "decimal option"
  st_universe_proxy_intraday_return :: "decimal option"
  st_vs_sector :: "decimal option"
  st_vs_universe :: "decimal option"
  st_sector_alignment :: stock_sector_alignment
  st_directional_strength :: "decimal option"
  st_robust_relative_magnitude :: "decimal option"
  st_within_sector_rank :: "int option"
  st_within_sector_percentile :: "decimal option"
  st_eligible :: bool
  st_exclusion_reason :: "stock_exclusion_reason option"

record sector_stock_ranking =
  sr_sector_id :: string
  sr_trading_date :: date
  sr_evaluation_timestamp :: instant
  sr_sector_raw_direction :: raw_sector_direction
  sr_directional_ranking_available :: bool
  sr_eligible_count :: int
  sr_ranked_stocks :: "stock_sector_metrics list"
  sr_excluded_stocks :: "stock_sector_metrics list"

section \<open>The evidence of one stock\<close>

definition directional :: "raw_sector_direction set" where
  "directional = {BULLISH, BEARISH}"

definition alignment :: "constituent_direction \<Rightarrow> raw_sector_direction \<Rightarrow> stock_sector_alignment" where
  "alignment stock sector =
     (if sector = MIXED then MIXED_CONTEXT
      else if sector = INSUFFICIENT_DATA then ALIGN_INSUFFICIENT_DATA
      else if sector = NEUTRAL then ALIGN_NEUTRAL
      else if stock = UNCHANGED then ALIGN_NEUTRAL
      else let advancing = (stock = ADVANCING); bullish = (sector = BULLISH)
           in if advancing = bullish then ALIGNED else OPPOSED)"

definition directional_strength :: "decimal_context \<Rightarrow> decimal \<Rightarrow> raw_sector_direction \<Rightarrow> decimal option" where
  "directional_strength dc intraday sector =
     (if sector = BULLISH then Some intraday
      else if sector = BEARISH then Some (dec_neg dc intraday)
      else None)"

definition robust_relative_magnitude :: "decimal_context \<Rightarrow> decimal \<Rightarrow> decimal option \<Rightarrow> decimal option \<Rightarrow> decimal option" where
  "robust_relative_magnitude dc intraday sector_median mad =
     (case (sector_median, mad) of
        (Some c, Some s) \<Rightarrow> (if s = 0 then None else Some (dec_div dc (dec_sub dc intraday c) s))
      | _ \<Rightarrow> None)"

definition relative :: "decimal_context \<Rightarrow> decimal \<Rightarrow> decimal option \<Rightarrow> decimal option" where
  "relative dc v benchmark = (case benchmark of None \<Rightarrow> None | Some b \<Rightarrow> Some (dec_sub dc v b))"

fun validate_ranking_input :: "sector_metrics \<Rightarrow> string set \<Rightarrow> constituent_observation list \<Rightarrow> unit res" where
  "validate_ranking_input m seen [] = Inr ()"
| "validate_ranking_input m seen (ob # obs) =
     (if cob_identity ob \<in> seen then Inl (ValueError ''DuplicateRankedConstituentError'')
      else if cob_sector_id ob \<noteq> sx_sector_id m then Inl (ValueError ''StockSectorContextMismatchError'')
      else if cob_trading_date ob \<noteq> sx_trading_date m then Inl (ValueError ''StockSectorContextMismatchError'')
      else validate_ranking_input m (insert (cob_identity ob) seen) obs)"

definition base_metrics :: "decimal_context \<Rightarrow> constituent_observation \<Rightarrow> sector_metrics \<Rightarrow> calculation_policy \<Rightarrow> bool \<Rightarrow> stock_sector_metrics" where
  "base_metrics dc ob m p eligible =
     (let cm = calculate_constituent_metrics dc ob (cp_direction_epsilon p);
          sector_median = sx_median_intraday_return m;
          proxy = sx_universe_proxy_intraday_return m;
          direction = sx_raw_direction m
      in \<lparr>st_identity = cm_identity cm, st_sector_id = sx_sector_id m, st_trading_date = sx_trading_date m,
          st_evaluation_timestamp = sx_evaluation_timestamp m, st_intraday_return = cm_intraday_return cm,
          st_overnight_return = cm_overnight_return cm, st_total_return = cm_total_return cm, st_direction = cm_direction cm,
          st_sector_raw_direction = direction, st_sector_median_intraday_return = sector_median,
          st_universe_proxy_intraday_return = proxy,
          st_vs_sector = relative dc (cm_intraday_return cm) sector_median,
          st_vs_universe = relative dc (cm_intraday_return cm) proxy,
          st_sector_alignment = alignment (cm_direction cm) direction,
          st_directional_strength = directional_strength dc (cm_intraday_return cm) direction,
          st_robust_relative_magnitude =
            robust_relative_magnitude dc (cm_intraday_return cm) sector_median (dp_mad_intraday_return (sx_dispersion m)),
          st_within_sector_rank = None, st_within_sector_percentile = None, st_eligible = eligible,
          st_exclusion_reason = (if eligible then None else Some STALE)\<rparr>)"

definition calculate_stock_sector_metrics ::
  "decimal_context \<Rightarrow> constituent_observation \<Rightarrow> sector_metrics \<Rightarrow> calculation_policy \<Rightarrow> stock_sector_metrics res" where
  "calculate_stock_sector_metrics dc ob m p =
     (if cob_sector_id ob \<noteq> sx_sector_id m then Inl (ValueError ''StockSectorContextMismatchError'')
      else if cob_trading_date ob \<noteq> sx_trading_date m then Inl (ValueError ''StockSectorContextMismatchError'')
      else let age = sx_evaluation_timestamp m - cob_observation_timestamp ob;
               eligible = (0 \<le> age \<and> age \<le> cp_freshness_limit p)
           in Inr (base_metrics dc ob m p eligible))"

section \<open>The ranking of a sector\<close>

definition rank_among :: "decimal option list \<Rightarrow> decimal option \<Rightarrow> int" where
  "rank_among strengths strength =
     1 + int (length (filter (\<lambda>other. \<exists>a b. other = Some a \<and> strength = Some b \<and> a > b) strengths))"

definition ranking_key :: "decimal_context \<Rightarrow> stock_sector_metrics \<Rightarrow> decimal \<times> string" where
  "ranking_key dc s = (dec_neg dc (case st_directional_strength s of None \<Rightarrow> 0 | Some x \<Rightarrow> x), st_identity s)"

definition apply_ranking :: "decimal_context \<Rightarrow> stock_sector_metrics list \<Rightarrow> stock_sector_metrics list" where
  "apply_ranking dc eligible =
     (let strengths = map st_directional_strength eligible; count = int (length eligible);
          ranked = map (\<lambda>stock.
            let rank = rank_among strengths (st_directional_strength stock);
                percentile = (if count < 2 then None else Some (dec_div dc (of_int (count - rank)) (of_int (count - 1))))
            in stock\<lparr>st_within_sector_rank := Some rank, st_within_sector_percentile := percentile\<rparr>) eligible
      in sort_key (ranking_key dc) ranked)"

definition rank_sector_constituents ::
  "decimal_context \<Rightarrow> sector_metrics \<Rightarrow> constituent_observation list \<Rightarrow> calculation_policy \<Rightarrow> sector_stock_ranking res" where
  "rank_sector_constituents dc m obs p =
     res_bind (validate_ranking_input m {} obs) (\<lambda>_.
       let limit = cp_freshness_limit p; eval_at = sx_evaluation_timestamp m;
           fresh = filter (\<lambda>ob. is_fresh ob eval_at limit) obs;
           stale = filter (\<lambda>ob. \<not> is_fresh ob eval_at limit) obs;
           excluded = map (\<lambda>ob. base_metrics dc ob m p False) stale;
           eligible = map (\<lambda>ob. base_metrics dc ob m p True) fresh;
           is_directional = (sx_raw_direction m \<in> directional);
           ranked = (if is_directional then apply_ranking dc eligible else sort_key st_identity eligible)
       in Inr \<lparr>sr_sector_id = sx_sector_id m, sr_trading_date = sx_trading_date m, sr_evaluation_timestamp = eval_at,
               sr_sector_raw_direction = sx_raw_direction m, sr_directional_ranking_available = is_directional,
               sr_eligible_count = int (length eligible), sr_ranked_stocks = ranked,
               sr_excluded_stocks = sort_key st_identity excluded\<rparr>)"

section \<open>What is rejected\<close>

lemma validate_ranking_input_ok:
  "validate_ranking_input m seen obs = Inr () \<longleftrightarrow> distinct (map cob_identity obs) \<and> cob_identity ` set obs \<inter> seen = {}
     \<and> (\<forall>ob \<in> set obs. cob_sector_id ob = sx_sector_id m \<and> cob_trading_date ob = sx_trading_date m)"
  by (induction obs arbitrary: seen) auto

lemma rank_sector_ok_iff:
  "is_ok (rank_sector_constituents dc m obs p) \<longleftrightarrow> distinct (map cob_identity obs)
     \<and> (\<forall>ob \<in> set obs. cob_sector_id ob = sx_sector_id m \<and> cob_trading_date ob = sx_trading_date m)"
proof (cases "validate_ranking_input m {} obs")
  case (Inl e)
  then show ?thesis using validate_ranking_input_ok [of m "{}" obs] by (simp add: rank_sector_constituents_def)
next
  case (Inr u)
  then show ?thesis using validate_ranking_input_ok [of m "{}" obs] by (simp add: rank_sector_constituents_def Let_def)
qed

section \<open>What the ranking means\<close>

text \<open>The since-open return, counted in the direction of the sector.\<close>

definition strength_in :: "raw_sector_direction \<Rightarrow> stock_sector_metrics \<Rightarrow> decimal" where
  "strength_in direction s = (if direction = BULLISH then st_intraday_return s else - st_intraday_return s)"

lemma base_metrics_simps [simp]:
  "st_identity (base_metrics dc ob m p e) = cob_identity ob"
  "st_intraday_return (base_metrics dc ob m p e) = intraday_return_of dc ob"
  "st_eligible (base_metrics dc ob m p e) = e"
  "st_exclusion_reason (base_metrics dc ob m p e) = (if e then None else Some STALE)"
  "st_within_sector_rank (base_metrics dc ob m p e) = None"
  "st_within_sector_percentile (base_metrics dc ob m p e) = None"
  by (simp_all add: base_metrics_def Let_def calculate_constituent_metrics_def intraday_return_of_def)

lemma base_metrics_strength:
  assumes "1 \<le> dc_prec dc" "sx_raw_direction m \<in> directional"
  shows "st_directional_strength (base_metrics dc ob m p e) = Some (strength_in (sx_raw_direction m) (base_metrics dc ob m p e))"
    "representable dc (strength_in (sx_raw_direction m) (base_metrics dc ob m p e))"
proof -
  have rep: "representable dc (intraday_return_of dc ob)" unfolding intraday_return_of_def by (rule representable_dec_div [OF assms(1)])
  then show "representable dc (strength_in (sx_raw_direction m) (base_metrics dc ob m p e))" by (simp add: strength_in_def)
  have "st_directional_strength (base_metrics dc ob m p e) = directional_strength dc (intraday_return_of dc ob) (sx_raw_direction m)"
    by (simp add: base_metrics_def Let_def)
  then show "st_directional_strength (base_metrics dc ob m p e) = Some (strength_in (sx_raw_direction m) (base_metrics dc ob m p e))"
    using assms(2) by (auto simp: directional_def directional_strength_def strength_in_def dec_neg_representable [OF rep])
qed

definition ranked_stock :: "decimal_context \<Rightarrow> stock_sector_metrics list \<Rightarrow> stock_sector_metrics \<Rightarrow> stock_sector_metrics" where
  "ranked_stock dc eligible stock =
     (let count = int (length eligible); rank = rank_among (map st_directional_strength eligible) (st_directional_strength stock)
      in stock\<lparr>st_within_sector_rank := Some rank,
               st_within_sector_percentile := (if count < 2 then None else Some (dec_div dc (of_int (count - rank)) (of_int (count - 1))))\<rparr>)"

lemma apply_ranking_eq: "apply_ranking dc es = sort_key (ranking_key dc) (map (ranked_stock dc es) es)"
  by (simp add: apply_ranking_def ranked_stock_def [abs_def] Let_def)

lemma ranked_stock_simps [simp]:
  "st_identity (ranked_stock dc es s) = st_identity s"
  "st_intraday_return (ranked_stock dc es s) = st_intraday_return s"
  "st_directional_strength (ranked_stock dc es s) = st_directional_strength s"
  "st_eligible (ranked_stock dc es s) = st_eligible s"
  "strength_in d (ranked_stock dc es s) = strength_in d s"
  "st_within_sector_rank (ranked_stock dc es s) = Some (rank_among (map st_directional_strength es) (st_directional_strength s))"
  by (simp_all add: ranked_stock_def Let_def strength_in_def)

lemma rank_among_counts:
  assumes "\<forall>x \<in> set es. st_directional_strength x = Some (strength_in d x)" "s \<in> set es"
  shows "rank_among (map st_directional_strength es) (st_directional_strength s) =
    1 + int (length (filter (\<lambda>x. strength_in d s < strength_in d x) es))"
proof -
  have "filter (\<lambda>other. \<exists>a b. other = Some a \<and> st_directional_strength s = Some b \<and> a > b) (map st_directional_strength es) =
      map st_directional_strength (filter (\<lambda>x. strength_in d s < strength_in d x) es)"
    using assms unfolding filter_map comp_def by (intro arg_cong [where f = "map st_directional_strength"] filter_cong) auto
  then show ?thesis by (simp add: rank_among_def)
qed

lemma rank_within:
  assumes "\<forall>x \<in> set es. st_directional_strength x = Some (strength_in d x)" "s \<in> set es"
  shows "1 \<le> rank_among (map st_directional_strength es) (st_directional_strength s)"
    "rank_among (map st_directional_strength es) (st_directional_strength s) \<le> int (length es)"
proof -
  let ?P = "\<lambda>x. strength_in d s < strength_in d x"
  have "length (filter ?P es) < length es" using assms(2) by (intro length_filter_less) auto
  then show "1 \<le> rank_among (map st_directional_strength es) (st_directional_strength s)"
    "rank_among (map st_directional_strength es) (st_directional_strength s) \<le> int (length es)"
    by (simp_all add: rank_among_counts [OF assms])
qed

lemma percentile_bounds:
  assumes "1 \<le> dc_prec dc" "\<forall>x \<in> set es. st_directional_strength x = Some (strength_in d x)" "s \<in> set es"
  shows "case st_within_sector_percentile (ranked_stock dc es s) of None \<Rightarrow> length es < 2 | Some q \<Rightarrow> 2 \<le> length es \<and> 0 \<le> q \<and> q \<le> 1"
proof (cases "length es < 2")
  case False
  define r where "r = rank_among (map st_directional_strength es) (st_directional_strength s)"
  have r: "1 \<le> r" "r \<le> int (length es)" using rank_within [OF assms(2,3)] by (simp_all add: r_def)
  have q: "st_within_sector_percentile (ranked_stock dc es s) = ratio dc (int (length es) - r) (int (length es) - 1)"
    using False by (simp add: ranked_stock_def Let_def ratio_def r_def [symmetric])
  have "ratio dc (int (length es) - r) (int (length es) - 1) \<noteq> None" using False by (simp add: ratio_def)
  then show ?thesis using ratio_bounds [OF assms(1), of "int (length es) - r" "int (length es) - 1"] r False by (auto simp: q)
qed (simp add: ranked_stock_def Let_def)

lemma sorted_wrt_imp:
  assumes "sorted_wrt P xs" "\<And>x y. x \<in> set xs \<Longrightarrow> y \<in> set xs \<Longrightarrow> P x y \<Longrightarrow> f x \<noteq> f y \<Longrightarrow> Q x y" "distinct (map f xs)"
  shows "sorted_wrt Q xs"
  using assms
proof (induction xs)
  case (Cons x xs)
  have "Q x y" if "y \<in> set xs" for y using Cons.prems(1,3) that by (intro Cons.prems(2)) (auto simp: image_iff)
  moreover have "sorted_wrt Q xs" using Cons.prems by (intro Cons.IH) auto
  ultimately show ?case by simp
qed simp

lemma apply_ranking_sorted:
  assumes "\<forall>x \<in> set es. st_directional_strength x = Some (strength_in d x) \<and> representable dc (strength_in d x)"
    "distinct (map st_identity es)"
  shows "sorted_wrt (\<lambda>a b. strength_in d b < strength_in d a \<or> strength_in d a = strength_in d b \<and> st_identity a < st_identity b) (apply_ranking dc es)"
proof (rule sorted_wrt_imp [where f = st_identity])
  let ?R = "apply_ranking dc es"
  show "sorted_wrt (\<lambda>a b. ranking_key dc a \<le> ranking_key dc b) ?R"
    using sorted_sort_key [of "ranking_key dc"] unfolding apply_ranking_eq sorted_map .
  have "mset (map st_identity ?R) = mset (map st_identity es)" by (simp add: apply_ranking_eq comp_def multiset.map_comp)
  then show "distinct (map st_identity ?R)" using assms(2) by (metis mset_eq_imp_distinct_iff)
  have key: "ranking_key dc x = (- strength_in d x, st_identity x)" if x: "x \<in> set ?R" for x
  proof -
    obtain y where "y \<in> set es" "x = ranked_stock dc es y" using x by (auto simp: apply_ranking_eq)
    then show ?thesis using assms(1) by (simp add: ranking_key_def dec_neg_representable)
  qed
  fix a b assume "a \<in> set ?R" "b \<in> set ?R" "ranking_key dc a \<le> ranking_key dc b" "st_identity a \<noteq> st_identity b"
  then show "strength_in d b < strength_in d a \<or> strength_in d a = strength_in d b \<and> st_identity a < st_identity b"
    by (auto simp: key less_eq_prod_def)
qed

lemma rank_sector_Inr:
  assumes "rank_sector_constituents dc m obs p = Inr r"
  defines "fresh \<equiv> filter (\<lambda>ob. is_fresh ob (sx_evaluation_timestamp m) (cp_freshness_limit p)) obs"
    and "stale \<equiv> filter (\<lambda>ob. \<not> is_fresh ob (sx_evaluation_timestamp m) (cp_freshness_limit p)) obs"
  shows "sr_eligible_count r = int (length fresh)" "sr_sector_raw_direction r = sx_raw_direction m"
    "sr_directional_ranking_available r \<longleftrightarrow> sx_raw_direction m \<in> directional"
    "sr_ranked_stocks r = (if sx_raw_direction m \<in> directional then apply_ranking dc (map (\<lambda>ob. base_metrics dc ob m p True) fresh)
       else sort_key st_identity (map (\<lambda>ob. base_metrics dc ob m p True) fresh))"
    "sr_excluded_stocks r = sort_key st_identity (map (\<lambda>ob. base_metrics dc ob m p False) stale)"
    "distinct (map cob_identity obs)"
proof -
  have v: "validate_ranking_input m {} obs = Inr ()" using assms(1) by (auto simp: rank_sector_constituents_def)
  then show "distinct (map cob_identity obs)" by (simp add: validate_ranking_input_ok)
  note r = assms(1) [unfolded rank_sector_constituents_def v res_bind_simps Let_def fresh_def [symmetric] stale_def [symmetric], simplified]
  show "sr_eligible_count r = int (length fresh)" "sr_sector_raw_direction r = sx_raw_direction m"
    "sr_directional_ranking_available r \<longleftrightarrow> sx_raw_direction m \<in> directional"
    "sr_ranked_stocks r = (if sx_raw_direction m \<in> directional then apply_ranking dc (map (\<lambda>ob. base_metrics dc ob m p True) fresh)
       else sort_key st_identity (map (\<lambda>ob. base_metrics dc ob m p True) fresh))"
    "sr_excluded_stocks r = sort_key st_identity (map (\<lambda>ob. base_metrics dc ob m p False) stale)"
    by (simp_all add: r [symmetric])
qed

lemma ranked_identities:
  assumes "rank_sector_constituents dc m obs p = Inr r"
  shows "set (map st_identity (sr_ranked_stocks r)) =
      cob_identity ` {ob \<in> set obs. is_fresh ob (sx_evaluation_timestamp m) (cp_freshness_limit p)}"
    "set (map st_identity (sr_excluded_stocks r)) =
      cob_identity ` {ob \<in> set obs. \<not> is_fresh ob (sx_evaluation_timestamp m) (cp_freshness_limit p)}"
    "distinct (map st_identity (sr_ranked_stocks r @ sr_excluded_stocks r))"
    "sr_eligible_count r = int (length (sr_ranked_stocks r))"
proof -
  note f = rank_sector_Inr [OF assms]
  let ?P = "\<lambda>ob. is_fresh ob (sx_evaluation_timestamp m) (cp_freshness_limit p)"
  have m1: "mset (map st_identity (sr_ranked_stocks r)) = mset (map cob_identity (filter ?P obs))"
    unfolding f(4) apply_ranking_eq by (simp add: comp_def multiset.map_comp)
  have m2: "mset (map st_identity (sr_excluded_stocks r)) = mset (map cob_identity (filter (\<lambda>ob. \<not> ?P ob) obs))"
    unfolding f(5) by (simp add: comp_def multiset.map_comp)
  show "set (map st_identity (sr_ranked_stocks r)) = cob_identity ` {ob \<in> set obs. ?P ob}"
    "set (map st_identity (sr_excluded_stocks r)) = cob_identity ` {ob \<in> set obs. \<not> ?P ob}"
    using mset_eq_setD [OF m1] mset_eq_setD [OF m2] by simp_all
  have "mset (map st_identity (sr_ranked_stocks r @ sr_excluded_stocks r)) = mset (map cob_identity obs)"
    using m1 m2 unfolding map_append mset_append by (simp add: multiset_partition [symmetric] flip: image_mset_union)
  then show "distinct (map st_identity (sr_ranked_stocks r @ sr_excluded_stocks r))" using f(6) by (metis mset_eq_imp_distinct_iff)
  show "sr_eligible_count r = int (length (sr_ranked_stocks r))"
    using mset_eq_length [OF m1] f(1) by simp
qed

lemma directional_rank:
  assumes "1 \<le> dc_prec dc" "rank_sector_constituents dc m obs p = Inr r" "sx_raw_direction m \<in> directional" "s \<in> set (sr_ranked_stocks r)"
  shows "st_within_sector_rank s =
      Some (1 + int (length (filter (\<lambda>x. strength_in (sx_raw_direction m) s < strength_in (sx_raw_direction m) x) (sr_ranked_stocks r))))"
    "case st_within_sector_percentile s of None \<Rightarrow> sr_eligible_count r < 2 | Some q \<Rightarrow> 2 \<le> sr_eligible_count r \<and> 0 \<le> q \<and> q \<le> 1"
proof -
  note f = rank_sector_Inr [OF assms(2)]
  let ?d = "sx_raw_direction m"
  define es where "es = map (\<lambda>ob. base_metrics dc ob m p True) (filter (\<lambda>ob. is_fresh ob (sx_evaluation_timestamp m) (cp_freshness_limit p)) obs)"
  have R: "sr_ranked_stocks r = apply_ranking dc es" using f(4) assms(3) by (simp add: es_def)
  have str: "\<forall>x \<in> set es. st_directional_strength x = Some (strength_in ?d x)"
    using base_metrics_strength(1) [OF assms(1,3)] by (auto simp: es_def)
  obtain y where y: "y \<in> set es" "s = ranked_stock dc es y" using assms(4) by (auto simp: R apply_ranking_eq)
  have "mset (map (strength_in ?d) (apply_ranking dc es)) = mset (map (strength_in ?d) es)"
    by (simp add: apply_ranking_eq comp_def multiset.map_comp)
  from length_filter_mset [OF this] have len: "length (filter (\<lambda>x. c < strength_in ?d x) (apply_ranking dc es)) = length (filter (\<lambda>x. c < strength_in ?d x) es)" for c
    by (simp add: filter_map comp_def)
  show "st_within_sector_rank s = Some (1 + int (length (filter (\<lambda>x. strength_in ?d s < strength_in ?d x) (sr_ranked_stocks r))))"
    unfolding R using y rank_among_counts [OF str y(1)] by (simp add: len)
  have "length es = nat (sr_eligible_count r)" using f(1) by (simp add: es_def)
  then show "case st_within_sector_percentile s of None \<Rightarrow> sr_eligible_count r < 2 | Some q \<Rightarrow> 2 \<le> sr_eligible_count r \<and> 0 \<le> q \<and> q \<le> 1"
    using percentile_bounds [OF assms(1) str y(1)] y(2) f(1) by (auto split: option.splits)
qed

lemma directional_order:
  assumes "1 \<le> dc_prec dc" "rank_sector_constituents dc m obs p = Inr r" "sx_raw_direction m \<in> directional"
  shows "sorted_wrt (\<lambda>a b. strength_in (sx_raw_direction m) b < strength_in (sx_raw_direction m) a
     \<or> strength_in (sx_raw_direction m) a = strength_in (sx_raw_direction m) b \<and> st_identity a < st_identity b) (sr_ranked_stocks r)"
proof -
  note f = rank_sector_Inr [OF assms(2)]
  define es where "es = map (\<lambda>ob. base_metrics dc ob m p True) (filter (\<lambda>ob. is_fresh ob (sx_evaluation_timestamp m) (cp_freshness_limit p)) obs)"
  have "\<forall>x \<in> set es. st_directional_strength x = Some (strength_in (sx_raw_direction m) x) \<and> representable dc (strength_in (sx_raw_direction m) x)"
    using base_metrics_strength [OF assms(1,3)] by (auto simp: es_def)
  moreover have "distinct (map st_identity es)" using f(6) by (simp add: es_def comp_def distinct_map_filter)
  ultimately show ?thesis using apply_ranking_sorted f(4) assms(3) by (simp add: es_def)
qed

text \<open>
  C27. Ranking a sector succeeds exactly when the observations name each instrument once and share the sector and trading date of the metrics.
  Then every observation appears once: the fresh ones ranked, the stale ones excluded. In a bullish or bearish sector the stocks are listed by strength,
  which is the since-open return taken in the direction of the sector, and by identity among equals; the rank of a stock is one more than the number of strictly stronger ones
  and the percentile, absent below two stocks, lies between 0 and 1. In any other sector no rank is given and the stocks are listed by identity.
\<close>

theorem sector_ranking_exact:
  assumes "1 \<le> dc_prec dc"
  shows "(is_ok (rank_sector_constituents dc m obs p) \<longleftrightarrow> distinct (map cob_identity obs)
      \<and> (\<forall>ob \<in> set obs. cob_sector_id ob = sx_sector_id m \<and> cob_trading_date ob = sx_trading_date m))
    \<and> (\<forall>r. rank_sector_constituents dc m obs p = Inr r \<longrightarrow>
        set (map st_identity (sr_ranked_stocks r)) = cob_identity ` {ob \<in> set obs. is_fresh ob (sx_evaluation_timestamp m) (cp_freshness_limit p)}
      \<and> set (map st_identity (sr_excluded_stocks r)) = cob_identity ` {ob \<in> set obs. \<not> is_fresh ob (sx_evaluation_timestamp m) (cp_freshness_limit p)}
      \<and> distinct (map st_identity (sr_ranked_stocks r @ sr_excluded_stocks r))
      \<and> (if sx_raw_direction m \<in> {BULLISH, BEARISH}
         then sorted_wrt (\<lambda>a b. strength_in (sx_raw_direction m) b < strength_in (sx_raw_direction m) a
               \<or> strength_in (sx_raw_direction m) a = strength_in (sx_raw_direction m) b \<and> st_identity a < st_identity b) (sr_ranked_stocks r)
            \<and> (\<forall>s \<in> set (sr_ranked_stocks r).
                 st_within_sector_rank s = Some (1 + int (length (filter (\<lambda>x. strength_in (sx_raw_direction m) s < strength_in (sx_raw_direction m) x) (sr_ranked_stocks r))))
               \<and> (case st_within_sector_percentile s of None \<Rightarrow> sr_eligible_count r < 2 | Some q \<Rightarrow> 2 \<le> sr_eligible_count r \<and> 0 \<le> q \<and> q \<le> 1))
         else sorted (map st_identity (sr_ranked_stocks r)) \<and> (\<forall>s \<in> set (sr_ranked_stocks r). st_within_sector_rank s = None)))"
proof (intro conjI allI impI)
  fix r assume r: "rank_sector_constituents dc m obs p = Inr r"
  note f = rank_sector_Inr [OF r] and ids = ranked_identities [OF r]
  show "set (map st_identity (sr_ranked_stocks r)) = cob_identity ` {ob \<in> set obs. is_fresh ob (sx_evaluation_timestamp m) (cp_freshness_limit p)}"
    "set (map st_identity (sr_excluded_stocks r)) = cob_identity ` {ob \<in> set obs. \<not> is_fresh ob (sx_evaluation_timestamp m) (cp_freshness_limit p)}"
    "distinct (map st_identity (sr_ranked_stocks r @ sr_excluded_stocks r))" by (rule ids)+
  show "if sx_raw_direction m \<in> {BULLISH, BEARISH}
         then sorted_wrt (\<lambda>a b. strength_in (sx_raw_direction m) b < strength_in (sx_raw_direction m) a
               \<or> strength_in (sx_raw_direction m) a = strength_in (sx_raw_direction m) b \<and> st_identity a < st_identity b) (sr_ranked_stocks r)
            \<and> (\<forall>s \<in> set (sr_ranked_stocks r).
                 st_within_sector_rank s = Some (1 + int (length (filter (\<lambda>x. strength_in (sx_raw_direction m) s < strength_in (sx_raw_direction m) x) (sr_ranked_stocks r))))
               \<and> (case st_within_sector_percentile s of None \<Rightarrow> sr_eligible_count r < 2 | Some q \<Rightarrow> 2 \<le> sr_eligible_count r \<and> 0 \<le> q \<and> q \<le> 1))
         else sorted (map st_identity (sr_ranked_stocks r)) \<and> (\<forall>s \<in> set (sr_ranked_stocks r). st_within_sector_rank s = None)"
  proof (cases "sx_raw_direction m \<in> {BULLISH, BEARISH}")
    case True
    then have d: "sx_raw_direction m \<in> directional" by (simp add: directional_def)
    show ?thesis unfolding if_P [OF True] by (intro conjI ballI directional_order [OF assms r d] directional_rank [OF assms r d])
  next
    case False
    then show ?thesis by (simp add: f(4) directional_def)
  qed
qed (rule rank_sector_ok_iff)

theorem sector_ranking_exact_witness:
  "\<exists>m r. calculate_sector_metrics default_context ''FMCG'' {''NSE:ITC''} [demo_constituent ''NSE:ITC'' 110 0] shadow_policy 20000 0 None = Inr m
    \<and> rank_sector_constituents default_context m [demo_constituent ''NSE:ITC'' 110 0] shadow_policy = Inr r
    \<and> set (map st_identity (sr_ranked_stocks r)) = {''NSE:ITC''}"
proof -
  have "is_ok (calculate_sector_metrics default_context ''FMCG'' {''NSE:ITC''} [demo_constituent ''NSE:ITC'' 110 0] shadow_policy 20000 0 None)"
    by (simp add: calculate_sector_metrics_ok_iff in_scope_def demo_constituent_def)
  then obtain m where m: "calculate_sector_metrics default_context ''FMCG'' {''NSE:ITC''} [demo_constituent ''NSE:ITC'' 110 0] shadow_policy 20000 0 None = Inr m"
    by (auto simp: is_ok_iff)
  have "1 \<le> dc_prec default_context" by (simp add: default_context_def)
  note t = sector_ranking_exact [OF this, of m "[demo_constituent ''NSE:ITC'' 110 0]" shadow_policy]
  have fr: "is_fresh (demo_constituent ''NSE:ITC'' 110 0) 0 (cp_freshness_limit shadow_policy)"
    by (simp add: is_fresh_def demo_constituent_def shadow_policy_def)
  have "is_ok (rank_sector_constituents default_context m [demo_constituent ''NSE:ITC'' 110 0] shadow_policy)"
    using conjunct1 [OF t] calculate_sector_metrics_Inr(1,2) [OF m] by (simp add: demo_constituent_def)
  then obtain r where r: "rank_sector_constituents default_context m [demo_constituent ''NSE:ITC'' 110 0] shadow_policy = Inr r"
    by (auto simp: is_ok_iff)
  have "{ob \<in> set [demo_constituent ''NSE:ITC'' 110 0]. is_fresh ob (sx_evaluation_timestamp m) (cp_freshness_limit shadow_policy)}
      = {demo_constituent ''NSE:ITC'' 110 0}" using fr calculate_sector_metrics_Inr(3) [OF m] by auto
  then have "set (map st_identity (sr_ranked_stocks r)) = {''NSE:ITC''}"
    using conjunct1 [OF mp [OF spec [OF conjunct2 [OF t]] r]] by (simp add: demo_constituent_def)
  with m r show ?thesis by blast
qed

end
