(* ===== verification/Sector_Shadow.thy ===== *)
theory Sector_Shadow
  imports Sector_Participation Tick_Engine
begin

text \<open>
  The sector shadow runtime (\<^verbatim>\<open>services/sector_intelligence\<close>): the bounded state of latest observations (\<^verbatim>\<open>state.py\<close>), the bus observer that
  feeds it (\<^verbatim>\<open>observer.py\<close>), the counters (\<^verbatim>\<open>diagnostics.py\<close>) and the evaluation that turns a copy of the state into a snapshot of metrics and
  rankings (\<^verbatim>\<open>runtime.py\<close>). An evaluation is two steps, the capture of the state and the calculation, because the code may be suspended between
  them; clock readings are arguments. The ISO text of the last success is kept as its instant. Shown: the state holds exactly the newest
  observation of each expected instrument of the current session, and an evaluation over a validated resolver never fails and accounts for every
  observation.
\<close>

section \<open>Latest observations\<close>

record latest_observation =
  lo_identity :: string
  lo_trading_date :: "date option"
  lo_observation_timestamp :: instant
  lo_last_price :: "decimal option"
  lo_previous_close :: "decimal option"
  lo_session_open :: "decimal option"
  lo_version :: int

definition lo_is_complete :: "latest_observation \<Rightarrow> bool" where
  "lo_is_complete ob \<longleftrightarrow> lo_trading_date ob \<noteq> None \<and> lo_last_price ob \<noteq> None \<and> lo_previous_close ob \<noteq> None \<and> lo_session_open ob \<noteq> None"

datatype record_outcome = ACCEPTED | ROLLED | DUPLICATE | REJECTED_UNKNOWN | REJECTED_OUT_OF_ORDER | REJECTED_LATE_DATE

record observation_state =
  os_expected :: "string set"
  os_latest :: "(string \<times> latest_observation) list"
  os_trading_date :: "date option"

definition empty_observation_state :: "string set \<Rightarrow> observation_state" where
  "empty_observation_state expected = \<lparr>os_expected = expected, os_latest = [], os_trading_date = None\<rparr>"

definition os_expected_count :: "observation_state \<Rightarrow> nat" where
  "os_expected_count st = card (os_expected st)"

definition os_is_expected :: "observation_state \<Rightarrow> string \<Rightarrow> bool" where
  "os_is_expected st i \<longleftrightarrow> i \<in> os_expected st"

definition os_len :: "observation_state \<Rightarrow> nat" where
  "os_len st = length (os_latest st)"

definition apply_trading_date :: "observation_state \<Rightarrow> latest_observation \<Rightarrow> observation_state \<times> record_outcome option" where
  "apply_trading_date st ob =
     (case (lo_trading_date ob, os_trading_date st) of
        (Some d, Some cur) \<Rightarrow>
          (if d > cur
           then (st\<lparr>os_latest := AList.update (lo_identity ob) ob [], os_trading_date := Some d\<rparr>, Some ROLLED)
           else if d < cur then (st, Some REJECTED_LATE_DATE)
           else (st, None))
      | (Some d, None) \<Rightarrow> (st\<lparr>os_trading_date := Some d\<rparr>, None)
      | (None, _) \<Rightarrow> (st, None))"

definition record_observation :: "observation_state \<Rightarrow> latest_observation \<Rightarrow> observation_state \<times> record_outcome" where
  "record_observation st ob =
     (if lo_identity ob \<notin> os_expected st then (st, REJECTED_UNKNOWN)
      else case apply_trading_date st ob of
        (st1, Some outcome) \<Rightarrow> (st1, outcome)
      | (st1, None) \<Rightarrow>
          (let stored = st1\<lparr>os_latest := AList.update (lo_identity ob) ob (os_latest st1)\<rparr>
           in case map_of (os_latest st1) (lo_identity ob) of
                Some existing \<Rightarrow>
                  (if lo_observation_timestamp ob < lo_observation_timestamp existing then (st1, REJECTED_OUT_OF_ORDER)
                   else if lo_observation_timestamp ob = lo_observation_timestamp existing then (stored, DUPLICATE)
                   else (stored, ACCEPTED))
              | None \<Rightarrow> (stored, ACCEPTED)))"

definition coherent_copy :: "observation_state \<Rightarrow> latest_observation list" where
  "coherent_copy st = map snd (os_latest st)"

section \<open>Counters and the observer\<close>

record shadow_diagnostics =
  sg_events_received :: int
  sg_events_accepted :: int
  sg_events_rejected :: int
  sg_unknown_instruments :: int
  sg_duplicate_events :: int
  sg_out_of_order_events :: int
  sg_late_trading_date_events :: int
  sg_rollovers :: int
  sg_snapshot_attempts :: int
  sg_snapshot_successes :: int
  sg_snapshot_failures :: int
  sg_evaluation_overruns :: int
  sg_last_evaluation_duration :: "timedelta option"
  sg_last_success_timestamp :: "instant option"

definition zero_diagnostics :: shadow_diagnostics where
  "zero_diagnostics = \<lparr>sg_events_received = 0, sg_events_accepted = 0, sg_events_rejected = 0, sg_unknown_instruments = 0,
     sg_duplicate_events = 0, sg_out_of_order_events = 0, sg_late_trading_date_events = 0, sg_rollovers = 0, sg_snapshot_attempts = 0,
     sg_snapshot_successes = 0, sg_snapshot_failures = 0, sg_evaluation_overruns = 0, sg_last_evaluation_duration = None,
     sg_last_success_timestamp = None\<rparr>"

definition apply_outcome :: "record_outcome \<Rightarrow> shadow_diagnostics \<Rightarrow> shadow_diagnostics" where
  "apply_outcome outcome g =
     (case outcome of
        ACCEPTED \<Rightarrow> g\<lparr>sg_events_accepted := sg_events_accepted g + 1\<rparr>
      | ROLLED \<Rightarrow> g\<lparr>sg_events_accepted := sg_events_accepted g + 1, sg_rollovers := sg_rollovers g + 1\<rparr>
      | DUPLICATE \<Rightarrow> g\<lparr>sg_duplicate_events := sg_duplicate_events g + 1\<rparr>
      | REJECTED_OUT_OF_ORDER \<Rightarrow> g\<lparr>sg_events_rejected := sg_events_rejected g + 1, sg_out_of_order_events := sg_out_of_order_events g + 1\<rparr>
      | REJECTED_LATE_DATE \<Rightarrow>
          g\<lparr>sg_events_rejected := sg_events_rejected g + 1, sg_late_trading_date_events := sg_late_trading_date_events g + 1\<rparr>
      | REJECTED_UNKNOWN \<Rightarrow> g\<lparr>sg_events_rejected := sg_events_rejected g + 1, sg_unknown_instruments := sg_unknown_instruments g + 1\<rparr>)"

definition observation_of_context :: "market_context \<Rightarrow> latest_observation" where
  "observation_of_context c =
     (let ohlc = (case mc_latest_tick c of Some tk \<Rightarrow> tick_session_ohlc tk | None \<Rightarrow> None)
      in \<lparr>lo_identity = instrument_identity (mc_instrument c),
          lo_trading_date = map_option sc_trading_date (mc_session c),
          lo_observation_timestamp = mc_event_timestamp c,
          lo_last_price = map_option last_price (mc_latest_tick c),
          lo_previous_close = mc_previous_close c,
          lo_session_open = map_option agg_open ohlc,
          lo_version = mc_version c\<rparr>)"

text \<open>None of the calls of \<^verbatim>\<open>_record\<close> raises on a context, so the handler's guard is never taken.\<close>

definition observe_context :: "observation_state \<times> shadow_diagnostics \<Rightarrow> market_context \<Rightarrow> observation_state \<times> shadow_diagnostics" where
  "observe_context s c =
     (case s of (st, g) \<Rightarrow>
        let g1 = g\<lparr>sg_events_received := sg_events_received g + 1\<rparr>; identity = instrument_identity (mc_instrument c)
        in if \<not> os_is_expected st identity
           then (st, g1\<lparr>sg_unknown_instruments := sg_unknown_instruments g1 + 1, sg_events_rejected := sg_events_rejected g1 + 1\<rparr>)
           else case record_observation st (observation_of_context c) of (st1, outcome) \<Rightarrow> (st1, apply_outcome outcome g1))"

record 'k shadow_observer =
  ob_bus :: "'k event_bus"
  ob_subscriptions :: "'k subscription list"

definition shadow_subscribe :: "handler \<Rightarrow> context_event_type shadow_observer \<Rightarrow> context_event_type shadow_observer" where
  "shadow_subscribe h o1 =
     (if ob_subscriptions o1 \<noteq> [] then o1
      else case subscribe (ob_bus o1) Created h of (bus1, s1) \<Rightarrow>
           case subscribe bus1 Updated h of (bus2, s2) \<Rightarrow> \<lparr>ob_bus = bus2, ob_subscriptions = [s1, s2]\<rparr>)"

definition shadow_unsubscribe :: "context_event_type shadow_observer \<Rightarrow> context_event_type shadow_observer" where
  "shadow_unsubscribe o1 = \<lparr>ob_bus = foldl unsubscribe (ob_bus o1) (ob_subscriptions o1), ob_subscriptions = []\<rparr>"

section \<open>Evaluation\<close>

record shadow_config =
  sf_interval_seconds :: rat
  sf_policy :: calculation_policy

definition mk_shadow_config :: "rat \<Rightarrow> calculation_policy \<Rightarrow> shadow_config res" where
  "mk_shadow_config interval p =
     (if \<not> (0 < interval \<and> interval \<le> 3600) then Inl (ValueError ''sector_shadow_interval_seconds must be in (0, 3600]'')
      else Inr \<lparr>sf_interval_seconds = interval, sf_policy = p\<rparr>)"

record sector_shadow_snapshot =
  sw_schema_version :: string
  sw_trading_date :: "date option"
  sw_evaluation_timestamp :: instant
  sw_expected_universe_count :: int
  sw_observed_count :: int
  sw_complete_count :: int
  sw_fresh_count :: int
  sw_stale_count :: int
  sw_missing_previous_close_count :: int
  sw_missing_session_open_count :: int
  sw_missing_last_price_count :: int
  sw_other_incomplete_count :: int
  sw_universe_proxy :: "universe_proxy_metrics option"
  sw_sector_metrics :: "sector_metrics list"
  sw_stock_rankings :: "sector_stock_ranking list"
  sw_runtime_diagnostics :: shadow_diagnostics

record shadow_runtime =
  sh_resolver :: membership_resolver
  sh_config :: shadow_config
  sh_expected_universe_count :: int
  sh_diag :: shadow_diagnostics
  sh_state :: observation_state
  sh_latest_snapshot :: "sector_shadow_snapshot option"
  sh_evaluating :: bool

definition expected_universe :: "membership_resolver \<Rightarrow> string set" where
  "expected_universe r = set (concat (map (\<lambda>sid. members_of_primary_sector r sid None) (all_primary_sectors r)))"

definition mk_shadow_runtime :: "membership_resolver \<Rightarrow> shadow_config \<Rightarrow> shadow_runtime" where
  "mk_shadow_runtime r cfg =
     \<lparr>sh_resolver = r, sh_config = cfg, sh_expected_universe_count = int (card (expected_universe r)), sh_diag = zero_diagnostics,
      sh_state = empty_observation_state (expected_universe r), sh_latest_snapshot = None, sh_evaluating = False\<rparr>"

definition runtime_observe :: "shadow_runtime \<Rightarrow> market_context \<Rightarrow> shadow_runtime" where
  "runtime_observe rt c = (case observe_context (sh_state rt, sh_diag rt) c of (st, g) \<Rightarrow> rt\<lparr>sh_state := st, sh_diag := g\<rparr>)"

definition other_incomplete :: "latest_observation list \<Rightarrow> date option \<Rightarrow> int" where
  "other_incomplete obs trading_date =
     int (length (filter (\<lambda>ob. lo_last_price ob \<noteq> None \<and> lo_previous_close ob \<noteq> None \<and> lo_session_open ob \<noteq> None
       \<and> \<not> (lo_trading_date ob \<noteq> None \<and> lo_trading_date ob = trading_date)) obs))"

fun shadow_constituents :: "membership_resolver \<Rightarrow> date \<Rightarrow> latest_observation list \<Rightarrow> constituent_observation list res" where
  "shadow_constituents r d [] = Inr []"
| "shadow_constituents r d (ob # obs) =
     (case resolve_primary r (lo_identity ob) (Some d) of
        None \<Rightarrow> shadow_constituents r d obs
      | Some sid \<Rightarrow>
          res_bind (mk_constituent_observation (lo_identity ob) sid d (utc (lo_observation_timestamp ob))
                      (the (lo_last_price ob)) (the (lo_previous_close ob)) (the (lo_session_open ob))) (\<lambda>c.
          res_bind (shadow_constituents r d obs) (\<lambda>cs. Inr (c # cs))))"

definition add_constituent :: "(string \<times> constituent_observation list) list \<Rightarrow> constituent_observation \<Rightarrow> (string \<times> constituent_observation list) list" where
  "add_constituent g c = AList.update (cob_sector_id c) ((case map_of g (cob_sector_id c) of None \<Rightarrow> [] | Some cs \<Rightarrow> cs) @ [c]) g"

definition evaluate_sector ::
  "decimal_context \<Rightarrow> shadow_runtime \<Rightarrow> (string \<times> constituent_observation list) list \<Rightarrow> universe_proxy_metrics \<Rightarrow> date \<Rightarrow> instant \<Rightarrow> string \<Rightarrow>
   (sector_metrics \<times> sector_stock_ranking) res" where
  "evaluate_sector dc rt by_sector proxy d evaluation_time sid =
     (let expected = set (members_of_primary_sector (sh_resolver rt) sid (Some d));
          sector_obs = (case map_of by_sector sid of None \<Rightarrow> [] | Some cs \<Rightarrow> cs);
          p = sf_policy (sh_config rt)
      in res_bind (calculate_sector_metrics dc sid expected sector_obs p d evaluation_time (Some proxy)) (\<lambda>m.
         res_bind (rank_sector_constituents dc m sector_obs p) (\<lambda>r. Inr (m, r))))"

definition build_shadow_snapshot :: "decimal_context \<Rightarrow> shadow_runtime \<Rightarrow> latest_observation list \<Rightarrow> instant \<Rightarrow> sector_shadow_snapshot res" where
  "build_shadow_snapshot dc rt obs evaluation_time =
     (let trading_date = os_trading_date (sh_state rt);
          complete = sort_key lo_identity (filter (\<lambda>ob. lo_is_complete ob \<and> lo_trading_date ob = trading_date) obs)
      in res_bind
           (case trading_date of
              None \<Rightarrow> Inr (None, [])
            | Some d \<Rightarrow>
                res_bind (shadow_constituents (sh_resolver rt) d complete) (\<lambda>cs.
                res_bind (calculate_universe_proxy dc cs (sf_policy (sh_config rt)) d evaluation_time) (\<lambda>proxy.
                res_bind (map_res (evaluate_sector dc rt (foldl add_constituent [] cs) proxy d evaluation_time) (all_primary_sectors (sh_resolver rt)))
                  (\<lambda>sectors. Inr (Some proxy, sectors)))))
           (\<lambda>(proxy, sectors).
              let fresh_count = (case proxy of Some u \<Rightarrow> up_valid_count u | None \<Rightarrow> 0)
              in Inr \<lparr>sw_schema_version = ''sector-shadow-1'', sw_trading_date = trading_date, sw_evaluation_timestamp = evaluation_time,
                      sw_expected_universe_count = sh_expected_universe_count rt, sw_observed_count = int (length obs),
                      sw_complete_count = int (length complete), sw_fresh_count = fresh_count,
                      sw_stale_count = int (length complete) - fresh_count,
                      sw_missing_previous_close_count = int (length (filter (\<lambda>ob. lo_previous_close ob = None) obs)),
                      sw_missing_session_open_count = int (length (filter (\<lambda>ob. lo_session_open ob = None) obs)),
                      sw_missing_last_price_count = int (length (filter (\<lambda>ob. lo_last_price ob = None) obs)),
                      sw_other_incomplete_count = other_incomplete obs trading_date, sw_universe_proxy = proxy,
                      sw_sector_metrics = map fst sectors, sw_stock_rankings = map snd sectors,
                      sw_runtime_diagnostics = sh_diag rt\<rparr>))"

text \<open>
  \<^verbatim>\<open>evaluate_once\<close> up to the point where it may be suspended: a second entry is counted as an overrun, otherwise the state is copied.
\<close>

definition begin_evaluation :: "shadow_runtime \<Rightarrow> instant \<Rightarrow> instant \<Rightarrow> shadow_runtime \<times> (instant \<times> latest_observation list \<times> instant) option" where
  "begin_evaluation rt started evaluation_time =
     (if sh_evaluating rt
      then (rt\<lparr>sh_diag := (sh_diag rt)\<lparr>sg_evaluation_overruns := sg_evaluation_overruns (sh_diag rt) + 1\<rparr>\<rparr>, None)
      else (rt\<lparr>sh_evaluating := True, sh_diag := (sh_diag rt)\<lparr>sg_snapshot_attempts := sg_snapshot_attempts (sh_diag rt) + 1\<rparr>\<rparr>,
            Some (started, coherent_copy (sh_state rt), evaluation_time)))"

definition finish_evaluation :: "decimal_context \<Rightarrow> shadow_runtime \<Rightarrow> instant \<times> latest_observation list \<times> instant \<Rightarrow> instant \<Rightarrow> shadow_runtime" where
  "finish_evaluation dc rt captured finished =
     (case captured of (started, obs, evaluation_time) \<Rightarrow>
        let rt1 = (case build_shadow_snapshot dc rt obs evaluation_time of
                     Inr snap \<Rightarrow> rt\<lparr>sh_latest_snapshot := Some snap,
                                    sh_diag := (sh_diag rt)\<lparr>sg_snapshot_successes := sg_snapshot_successes (sh_diag rt) + 1,
                                                            sg_last_success_timestamp := Some evaluation_time\<rparr>\<rparr>
                   | Inl _ \<Rightarrow> rt\<lparr>sh_diag := (sh_diag rt)\<lparr>sg_snapshot_failures := sg_snapshot_failures (sh_diag rt) + 1\<rparr>\<rparr>)
        in rt1\<lparr>sh_diag := (sh_diag rt1)\<lparr>sg_last_evaluation_duration := Some (finished - started)\<rparr>, sh_evaluating := False\<rparr>)"

text \<open>Without the instrumentation hook nothing runs between the two steps.\<close>

definition evaluate_once :: "decimal_context \<Rightarrow> shadow_runtime \<Rightarrow> instant \<Rightarrow> instant \<Rightarrow> instant \<Rightarrow> shadow_runtime \<times> sector_shadow_snapshot option" where
  "evaluate_once dc rt started evaluation_time finished =
     (case begin_evaluation rt started evaluation_time of
        (rt1, None) \<Rightarrow> (rt1, sh_latest_snapshot rt1)
      | (rt1, Some captured) \<Rightarrow>
          (let rt2 = finish_evaluation dc rt1 captured finished in (rt2, sh_latest_snapshot rt2)))"

section \<open>The state stays bounded and within one session\<close>

definition wf_observation_state :: "observation_state \<Rightarrow> bool" where
  [wf_simps]: "wf_observation_state st \<longleftrightarrow> distinct (map fst (os_latest st))
     \<and> (\<forall>(i, ob) \<in> set (os_latest st). i \<in> os_expected st \<and> lo_identity ob = i \<and> (lo_trading_date ob \<noteq> None \<longrightarrow> lo_trading_date ob = os_trading_date st))"

lemma wf_empty_observation_state [simp]: "wf_observation_state (empty_observation_state E)"
  by (simp add: wf_simps empty_observation_state_def)

lemma apply_trading_date_wf:
  assumes "wf_observation_state st" "apply_trading_date st ob = (st1, out)" "lo_identity ob \<in> os_expected st"
  shows "wf_observation_state st1 \<and> os_expected st1 = os_expected st
    \<and> (out = None \<longrightarrow> (lo_trading_date ob \<noteq> None \<longrightarrow> lo_trading_date ob = os_trading_date st1))"
proof (cases "lo_trading_date ob")
  case (Some d)
  show ?thesis
  proof (cases "os_trading_date st")
    case None
    then show ?thesis using assms Some by (fastforce simp: apply_trading_date_def wf_simps)
  next
    case (Some cur)
    then show ?thesis using assms \<open>lo_trading_date ob = Some d\<close>
      by (cases d cur rule: linorder_cases) (auto simp: apply_trading_date_def wf_simps)
  qed
qed (use assms in \<open>auto simp: apply_trading_date_def\<close>)

lemma wf_store:
  assumes "wf_observation_state st" "lo_identity ob \<in> os_expected st" "lo_trading_date ob \<noteq> None \<longrightarrow> lo_trading_date ob = os_trading_date st"
  shows "wf_observation_state (st\<lparr>os_latest := AList.update (lo_identity ob) ob (os_latest st)\<rparr>)"
proof -
  have "i \<in> os_expected st \<and> lo_identity x = i \<and> (lo_trading_date x \<noteq> None \<longrightarrow> lo_trading_date x = os_trading_date st)"
    if "(i, x) \<in> set (AList.update (lo_identity ob) ob (os_latest st))" for i x
  proof -
    have "distinct (map fst (AList.update (lo_identity ob) ob (os_latest st)))" using assms(1) by (simp add: wf_simps distinct_update)
    then have "map_of (AList.update (lo_identity ob) ob (os_latest st)) i = Some x" using that by simp
    then have "i = lo_identity ob \<and> x = ob \<or> (i, x) \<in> set (os_latest st)"
      by (auto simp: update_conv' split: if_splits dest: map_of_SomeD)
    then show ?thesis using assms by (fastforce simp: wf_simps)
  qed
  then show ?thesis using assms(1) by (auto simp: wf_simps distinct_update)
qed

lemma record_observation_wf:
  assumes "wf_observation_state st"
  shows "wf_observation_state (fst (record_observation st ob)) \<and> os_expected (fst (record_observation st ob)) = os_expected st"
proof (cases "lo_identity ob \<in> os_expected st")
  case True
  obtain st1 out where a: "apply_trading_date st ob = (st1, out)" by fastforce
  note w = apply_trading_date_wf [OF assms a True]
  show ?thesis
  proof (cases out)
    case None
    then have "wf_observation_state (st1\<lparr>os_latest := AList.update (lo_identity ob) ob (os_latest st1)\<rparr>)" using w True by (intro wf_store) auto
    then show ?thesis using w a True None by (auto simp: record_observation_def Let_def split: option.splits)
  next
    case (Some outcome)
    then show ?thesis using w a True by (simp add: record_observation_def)
  qed
qed (simp add: record_observation_def assms)

definition offered :: "observation_state \<Rightarrow> latest_observation list \<Rightarrow> observation_state" where
  "offered st obs = foldl (\<lambda>s ob. fst (record_observation s ob)) st obs"

lemma offered_snoc [simp]: "offered st (obs @ [ob]) = fst (record_observation (offered st obs) ob)"
  by (simp add: offered_def)

lemma offered_wf: "wf_observation_state st \<Longrightarrow> wf_observation_state (offered st obs) \<and> os_expected (offered st obs) = os_expected st"
proof (induction obs rule: rev_induct)
  case (snoc ob obs)
  then show ?case using record_observation_wf [of "offered st obs" ob] by simp
qed (simp add: offered_def)

lemma wf_observation_state_len:
  assumes "wf_observation_state st" "finite (os_expected st)"
  shows "os_len st \<le> os_expected_count st"
proof -
  have "os_len st = card (fst ` set (os_latest st))" using assms(1) by (metis distinct_card length_map list.set_map os_len_def wf_observation_state_def)
  also have "\<dots> \<le> card (os_expected st)" using assms by (intro card_mono) (auto simp: wf_simps)
  finally show ?thesis by (simp add: os_expected_count_def)
qed

section \<open>The state holds the newest observations\<close>

definition relevant :: "string \<Rightarrow> date \<Rightarrow> latest_observation \<Rightarrow> bool" where
  "relevant i d ob \<longleftrightarrow> lo_identity ob = i \<and> lo_trading_date ob = Some d"

text \<open>Of the observations of an instrument on a date, the last one offered among those with the greatest timestamp.\<close>

definition newest_of :: "latest_observation list \<Rightarrow> string \<Rightarrow> date \<Rightarrow> latest_observation option" where
  "newest_of obs i d =
     (let best = filter (\<lambda>ob. relevant i d ob \<and> (\<forall>x \<in> set obs. relevant i d x \<longrightarrow> lo_observation_timestamp x \<le> lo_observation_timestamp ob)) obs
      in if best = [] then None else Some (last best))"

lemma newest_of_Some:
  assumes "newest_of obs i d = Some ob"
  shows "ob \<in> set obs" "relevant i d ob" "\<And>x. x \<in> set obs \<Longrightarrow> relevant i d x \<Longrightarrow> lo_observation_timestamp x \<le> lo_observation_timestamp ob"
proof -
  define best where "best = filter (\<lambda>ob. relevant i d ob \<and> (\<forall>x \<in> set obs. relevant i d x \<longrightarrow> lo_observation_timestamp x \<le> lo_observation_timestamp ob)) obs"
  have "best \<noteq> []" "ob = last best" using assms by (auto simp: newest_of_def best_def [symmetric] split: if_splits)
  then have "ob \<in> set best" by simp
  then show "ob \<in> set obs" "relevant i d ob" "\<And>x. x \<in> set obs \<Longrightarrow> relevant i d x \<Longrightarrow> lo_observation_timestamp x \<le> lo_observation_timestamp ob"
    by (auto simp: best_def)
qed

lemma newest_of_None: "newest_of obs i d = None \<longleftrightarrow> (\<forall>ob \<in> set obs. \<not> relevant i d ob)"
proof
  assume none: "newest_of obs i d = None"
  show "\<forall>ob \<in> set obs. \<not> relevant i d ob"
  proof (rule ccontr)
    assume "\<not> (\<forall>ob \<in> set obs. \<not> relevant i d ob)"
    define S where "S = lo_observation_timestamp ` {ob \<in> set obs. relevant i d ob}"
    then have S: "finite S" "S \<noteq> {}" using \<open>\<not> (\<forall>ob \<in> set obs. \<not> relevant i d ob)\<close> by auto
    from Max_in [OF this] obtain ob where ob: "ob \<in> set obs" "relevant i d ob" "lo_observation_timestamp ob = Max S" unfolding S_def by auto
    have "lo_observation_timestamp x \<le> Max S" if "x \<in> set obs" "relevant i d x" for x using S(1) that by (intro Max_ge) (auto simp: S_def)
    with ob have "ob \<in> set obs \<and> relevant i d ob \<and> (\<forall>x \<in> set obs. relevant i d x \<longrightarrow> lo_observation_timestamp x \<le> lo_observation_timestamp ob)" by simp
    then show False using none by (auto simp: newest_of_def Let_def filter_empty_conv split: if_splits)
  qed
qed (auto simp: newest_of_def Let_def filter_empty_conv)

lemma newest_of_snoc:
  "newest_of (obs @ [x]) i d =
     (if \<not> relevant i d x then newest_of obs i d
      else case newest_of obs i d of
        Some ob \<Rightarrow> (if lo_observation_timestamp x < lo_observation_timestamp ob then Some ob else Some x)
      | None \<Rightarrow> Some x)"
proof (cases "relevant i d x")
  case rel: True
  let ?ts = lo_observation_timestamp
  show ?thesis
  proof (cases "\<exists>ob. newest_of obs i d = Some ob \<and> ?ts x < ?ts ob")
    case True
    then obtain ob where ob: "newest_of obs i d = Some ob" "?ts x < ?ts ob" by blast
    note n = newest_of_Some [OF ob(1)]
    have "filter (\<lambda>y. relevant i d y \<and> (\<forall>z \<in> set (obs @ [x]). relevant i d z \<longrightarrow> ?ts z \<le> ?ts y)) (obs @ [x]) =
        filter (\<lambda>y. relevant i d y \<and> (\<forall>z \<in> set obs. relevant i d z \<longrightarrow> ?ts z \<le> ?ts y)) obs"
      using n ob(2) rel by (auto intro!: filter_cong)
    then show ?thesis using ob rel by (simp add: newest_of_def Let_def)
  next
    case False
    then have "\<forall>z \<in> set (obs @ [x]). relevant i d z \<longrightarrow> ?ts z \<le> ?ts x"
      using newest_of_Some(3) [of obs i d] newest_of_None [of obs i d] by (cases "newest_of obs i d") force+
    then have "newest_of (obs @ [x]) i d = Some x" using rel by (simp add: newest_of_def Let_def)
    then show ?thesis using False rel by (auto split: option.splits)
  qed
qed (auto simp: newest_of_def Let_def)

definition dated :: "latest_observation list \<Rightarrow> bool" where
  "dated obs \<longleftrightarrow> (\<forall>ob \<in> set obs. lo_trading_date ob \<noteq> None)"

definition session_dates :: "string set \<Rightarrow> latest_observation list \<Rightarrow> date set" where
  "session_dates E obs = {d. \<exists>ob \<in> set obs. lo_identity ob \<in> E \<and> lo_trading_date ob = Some d}"

lemma finite_session_dates [simp]: "finite (session_dates E obs)"
proof -
  have "session_dates E obs \<subseteq> (\<lambda>ob. the (lo_trading_date ob)) ` set obs" by (force simp: session_dates_def)
  then show ?thesis by (rule finite_subset) simp
qed

lemma session_dates_snoc:
  "session_dates E (obs @ [ob]) =
     (if lo_identity ob \<in> E then case lo_trading_date ob of Some d \<Rightarrow> insert d (session_dates E obs) | None \<Rightarrow> session_dates E obs else session_dates E obs)"
  by (auto simp: session_dates_def split: option.splits)

text \<open>What the state means after a sequence of dated observations.\<close>

definition holds_newest :: "observation_state \<Rightarrow> string set \<Rightarrow> latest_observation list \<Rightarrow> bool" where
  "holds_newest st E obs \<longleftrightarrow> os_expected st = E
     \<and> os_trading_date st = (if session_dates E obs = {} then None else Some (Max (session_dates E obs)))
     \<and> (\<forall>i. map_of (os_latest st) i =
          (case os_trading_date st of None \<Rightarrow> None | Some d \<Rightarrow> if i \<in> E then newest_of obs i d else None))"

lemma holds_newest_D:
  assumes "holds_newest st E obs"
  shows "os_expected st = E" "os_trading_date st = None \<Longrightarrow> session_dates E obs = {} \<and> map_of (os_latest st) i = None"
    "os_trading_date st = Some d \<Longrightarrow> d \<in> session_dates E obs \<and> d = Max (session_dates E obs)
       \<and> map_of (os_latest st) i = (if i \<in> E then newest_of obs i d else None)"
  using assms Max_in [of "session_dates E obs"] by (auto simp: holds_newest_def split: if_splits)

lemma record_observation_newest:
  assumes h: "holds_newest st E obs" and d: "lo_trading_date ob = Some d"
  shows "holds_newest (fst (record_observation st ob)) E (obs @ [ob])"
proof (cases "lo_identity ob \<in> E")
  case False
  have "newest_of (obs @ [ob]) i c = newest_of obs i c" if "i \<in> E" for i c
    using that False by (auto simp: newest_of_snoc relevant_def)
  then show ?thesis using h False by (auto simp: holds_newest_def record_observation_def session_dates_snoc split: option.splits)
next
  case mem: True
  note hd = holds_newest_D [OF h]
  have dates: "session_dates E (obs @ [ob]) = insert d (session_dates E obs)" using mem d by (simp add: session_dates_snoc)
  show ?thesis
  proof (cases "os_trading_date st")
    case None
    then have empty: "session_dates E obs = {}" "map_of (os_latest st) i = None" for i using hd(2) by auto
    then have "\<not> relevant i d x" if "x \<in> set obs" "i \<in> E" for i x using that by (auto simp: session_dates_def relevant_def)
    then have "newest_of obs i d = None" if "i \<in> E" for i using that by (simp add: newest_of_None)
    then show ?thesis using None empty mem d hd(1) dates
      by (auto simp: holds_newest_def record_observation_def apply_trading_date_def newest_of_snoc relevant_def update_conv')
  next
    case (Some cur)
    then have cur: "cur \<in> session_dates E obs" "cur = Max (session_dates E obs)" "map_of (os_latest st) i = (if i \<in> E then newest_of obs i cur else None)" for i
      using hd(3) by blast+
    have max: "Max (insert d (session_dates E obs)) = max d cur" using cur(1,2) by (metis Max_insert empty_iff finite_session_dates)
    consider "d > cur" | "d < cur" | "d = cur" by linarith
    then show ?thesis
    proof cases
      case 1
      have "\<not> relevant i d x" if "x \<in> set obs" "i \<in> E" for i x
      proof
        assume "relevant i d x"
        then have "d \<in> session_dates E obs" using that by (auto simp: session_dates_def relevant_def)
        from Max_ge [OF finite_session_dates this] show False using cur(2) 1 by simp
      qed
      then have "newest_of obs i d = None" if "i \<in> E" for i using that by (simp add: newest_of_None)
      then show ?thesis using 1 Some mem d hd(1) dates max
        by (auto simp: holds_newest_def record_observation_def apply_trading_date_def newest_of_snoc relevant_def max_def)
    next
      case 2
      then show ?thesis using Some mem d hd(1) dates max cur(3)
        by (auto simp: holds_newest_def record_observation_def apply_trading_date_def newest_of_snoc relevant_def max_def)
    next
      case 3
      have snoc: "newest_of (obs @ [ob]) i cur = (if i \<noteq> lo_identity ob then newest_of obs i cur
          else case newest_of obs i cur of Some x \<Rightarrow> if lo_observation_timestamp ob < lo_observation_timestamp x then Some x else Some ob | None \<Rightarrow> Some ob)" for i
        using d 3 by (auto simp: newest_of_snoc relevant_def)
      have date: "os_trading_date (fst (record_observation st ob)) = Some cur" "os_expected (fst (record_observation st ob)) = E"
        using Some mem d hd(1) 3 by (auto simp: record_observation_def apply_trading_date_def Let_def split: option.splits)
      have "map_of (os_latest (fst (record_observation st ob))) i = (if i \<in> E then newest_of (obs @ [ob]) i cur else None)" for i
        unfolding snoc using Some mem d hd(1) 3 cur(3)
        by (auto simp: record_observation_def apply_trading_date_def Let_def update_conv' split: option.splits)
      then show ?thesis using date dates max 3 by (simp add: holds_newest_def)
    qed
  qed
qed

lemma offered_newest:
  assumes "dated obs"
  shows "holds_newest (offered (empty_observation_state E) obs) E obs"
  using assms
proof (induction obs rule: rev_induct)
  case Nil
  show ?case by (simp add: holds_newest_def offered_def empty_observation_state_def session_dates_def)
next
  case (snoc ob obs)
  then obtain d where "lo_trading_date ob = Some d" by (auto simp: dated_def)
  moreover have "holds_newest (offered (empty_observation_state E) obs) E obs" using snoc by (simp add: dated_def)
  ultimately show ?case using record_observation_newest by simp
qed

section \<open>The runtime is fed by contexts\<close>

definition fed :: "shadow_runtime \<Rightarrow> market_context list \<Rightarrow> shadow_runtime" where
  "fed rt cs = foldl runtime_observe rt cs"

lemma fed_snoc [simp]: "fed rt (cs @ [c]) = runtime_observe (fed rt cs) c"
  by (simp add: fed_def)

lemma runtime_observe_simps:
  "sh_state (runtime_observe rt c) = fst (record_observation (sh_state rt) (observation_of_context c))"
  "sh_resolver (runtime_observe rt c) = sh_resolver rt" "sh_config (runtime_observe rt c) = sh_config rt"
  "sh_evaluating (runtime_observe rt c) = sh_evaluating rt" "sh_latest_snapshot (runtime_observe rt c) = sh_latest_snapshot rt"
  "sh_expected_universe_count (runtime_observe rt c) = sh_expected_universe_count rt"
  by (auto simp: runtime_observe_def observe_context_def os_is_expected_def record_observation_def observation_of_context_def Let_def split: prod.splits)

lemma fed_simps:
  "sh_state (fed rt cs) = offered (sh_state rt) (map observation_of_context cs)"
  "sh_resolver (fed rt cs) = sh_resolver rt" "sh_config (fed rt cs) = sh_config rt" "sh_evaluating (fed rt cs) = sh_evaluating rt"
  by (induction cs rule: rev_induct) (simp_all add: runtime_observe_simps, simp_all add: fed_def offered_def)

definition counters_balance :: "shadow_diagnostics \<Rightarrow> nat \<Rightarrow> bool" where
  "counters_balance g n \<longleftrightarrow> sg_events_received g = int n
     \<and> sg_events_accepted g + sg_duplicate_events g + sg_events_rejected g = int n
     \<and> sg_events_rejected g = sg_unknown_instruments g + sg_out_of_order_events g + sg_late_trading_date_events g"

lemma runtime_observe_balance:
  "counters_balance (sh_diag rt) n \<Longrightarrow> counters_balance (sh_diag (runtime_observe rt c)) (Suc n)"
  by (auto simp: counters_balance_def runtime_observe_def observe_context_def apply_outcome_def Let_def split: prod.splits record_outcome.splits)

lemma fed_balance: "counters_balance (sh_diag (fed (mk_shadow_runtime r cfg) cs)) (length cs)"
  by (induction cs rule: rev_induct)
    (simp_all add: runtime_observe_balance, simp add: fed_def mk_shadow_runtime_def zero_diagnostics_def counters_balance_def)


section \<open>An evaluation never fails\<close>

definition canonical_context :: "market_context \<Rightarrow> bool" where
  "canonical_context c \<longleftrightarrow> (\<forall>tk. mc_latest_tick c = Some tk \<longrightarrow> 0 < last_price tk \<and> (\<forall>o1. tick_session_ohlc tk = Some o1 \<longrightarrow> 0 < agg_open o1))
     \<and> (\<forall>p. mc_previous_close c = Some p \<longrightarrow> 0 < p)"

definition priced :: "latest_observation \<Rightarrow> bool" where
  "priced ob \<longleftrightarrow> (\<forall>p \<in> {lo_last_price ob, lo_previous_close ob, lo_session_open ob}. \<forall>x. p = Some x \<longrightarrow> 0 < x)"

lemma priced_of_context: "canonical_context c \<Longrightarrow> priced (observation_of_context c)"
  by (auto simp: canonical_context_def priced_def observation_of_context_def Let_def split: option.splits)

lemma set_update_cases: "x \<in> set (AList.update k v al) \<Longrightarrow> x = (k, v) \<or> x \<in> set al"
  by (induction al) (auto split: if_splits)

lemma record_observation_stores:
  "x \<in> set (coherent_copy (fst (record_observation st ob))) \<Longrightarrow> x \<in> set (coherent_copy st) \<or> x = ob"
  by (auto simp: record_observation_def apply_trading_date_def coherent_copy_def Let_def image_iff
      split: option.splits if_splits dest!: set_update_cases)

lemma offered_stores: "x \<in> set (coherent_copy (offered st obs)) \<Longrightarrow> x \<in> set (coherent_copy st) \<or> x \<in> set obs"
proof (induction obs rule: rev_induct)
  case (snoc ob obs)
  then show ?case using record_observation_stores [of x "offered st obs" ob] by auto
qed (simp add: offered_def)

definition constituent_of :: "membership_resolver \<Rightarrow> date \<Rightarrow> latest_observation \<Rightarrow> constituent_observation option" where
  "constituent_of r d ob = map_option (\<lambda>sid.
     \<lparr>cob_identity = lo_identity ob, cob_sector_id = sid, cob_trading_date = d, cob_observation_timestamp = lo_observation_timestamp ob,
      cob_last_price = the (lo_last_price ob), cob_previous_close = the (lo_previous_close ob), cob_session_open = the (lo_session_open ob)\<rparr>)
     (resolve_primary r (lo_identity ob) (Some d))"

definition lo_fresh :: "latest_observation \<Rightarrow> instant \<Rightarrow> timedelta \<Rightarrow> bool" where
  "lo_fresh ob t limit \<longleftrightarrow> 0 \<le> t - lo_observation_timestamp ob \<and> t - lo_observation_timestamp ob \<le> limit"

lemma constituent_of_Some:
  assumes "constituent_of r d ob = Some c"
  shows "cob_identity c = lo_identity ob" "cob_trading_date c = d" "resolve_primary r (cob_identity c) (Some d) = Some (cob_sector_id c)"
    "is_fresh c t limit = lo_fresh ob t limit"
  using assms by (auto simp: constituent_of_def is_fresh_def lo_fresh_def Let_def)

definition rows_constructed :: "sector_membership_dataset \<Rightarrow> bool" where
  "rows_constructed ds \<longleftrightarrow> (\<forall>m \<in> set (ds_memberships ds). mk_sector_membership m = Inr m)"

lemma shadow_constituents_total:
  assumes "mk_membership_resolver ds = Inr r" "rows_constructed ds" "\<forall>ob \<in> set obs. lo_is_complete ob \<and> priced ob"
  shows "shadow_constituents r d obs = Inr (List.map_filter (constituent_of r d) obs)"
  using assms(3)
proof (induction obs)
  case (Cons ob obs)
  have IH: "shadow_constituents r d obs = Inr (List.map_filter (constituent_of r d) obs)" using Cons by simp
  show ?case
  proof (cases "resolve_primary r (lo_identity ob) (Some d)")
    case None
    then have "constituent_of r d ob = None" by (simp add: constituent_of_def)
    then show ?thesis using IH None by (simp add: map_filter_simps)
  next
    case (Some sid)
    then obtain m where "m \<in> set (ds_memberships ds)" "sm_identity m = lo_identity ob" "sm_sector_id m = sid"
      using resolve_primary_iff [OF assms(1)] by blast
    then have ne: "lo_identity ob \<noteq> []" "sid \<noteq> []"
      using assms(2) by (auto simp: rows_constructed_def mk_sector_membership_def split: if_splits)
    have "0 < the (lo_last_price ob)" "0 < the (lo_previous_close ob)" "0 < the (lo_session_open ob)"
      using Cons.prems by (auto simp: lo_is_complete_def priced_def)
    then have "mk_constituent_observation (lo_identity ob) sid d (utc (lo_observation_timestamp ob))
        (the (lo_last_price ob)) (the (lo_previous_close ob)) (the (lo_session_open ob)) = Inr (the (constituent_of r d ob))"
      using ne Some by (simp add: mk_constituent_observation_def constituent_of_def)
    moreover obtain c where "constituent_of r d ob = Some c" using Some by (simp add: constituent_of_def)
    ultimately show ?thesis using IH Some by (simp add: map_filter_simps)
  qed
qed (simp add: map_filter_simps)

lemma map_filter_constituents:
  "map cob_identity (List.map_filter (constituent_of r d) obs) = map lo_identity (filter (\<lambda>ob. resolve_primary r (lo_identity ob) (Some d) \<noteq> None) obs)"
  "length (filter (\<lambda>c. is_fresh c t limit) (List.map_filter (constituent_of r d) obs)) =
     length (filter (\<lambda>ob. resolve_primary r (lo_identity ob) (Some d) \<noteq> None \<and> lo_fresh ob t limit) obs)"
  by (induction obs) (auto simp: map_filter_simps constituent_of_def is_fresh_def lo_fresh_def Let_def split: option.splits)

lemma set_map_filter_constituents:
  "c \<in> set (List.map_filter (constituent_of r d) obs) \<longleftrightarrow> (\<exists>ob \<in> set obs. constituent_of r d ob = Some c)"
  by (induction obs) (auto simp: map_filter_simps split: option.splits)

lemma add_constituent_group: "add_constituent = group_step cob_sector_id (\<lambda>c. c)"
  by (simp add: fun_eq_iff add_constituent_def group_step_def)

lemma sector_observations:
  "(case map_of (foldl add_constituent [] cs) sid of None \<Rightarrow> [] | Some ys \<Rightarrow> ys) = filter (\<lambda>c. cob_sector_id c = sid) cs"
  unfolding add_constituent_group group_loop by (simp add: Let_def)

lemma evaluate_sector_total:
  assumes res: "mk_membership_resolver ds = Inr (sh_resolver rt)" and "distinct (map cob_identity cs)"
    and cs: "\<forall>c \<in> set cs. cob_trading_date c = d \<and> resolve_primary (sh_resolver rt) (cob_identity c) (Some d) = Some (cob_sector_id c)"
  shows "\<exists>y. evaluate_sector dc rt (foldl add_constituent [] cs) proxy d t sid = Inr y \<and> sx_sector_id (fst y) = sid \<and> sr_sector_id (snd y) = sid
    \<and> sx_valid_count (fst y) = int (length (filter (\<lambda>c. is_fresh c t (cp_freshness_limit (sf_policy (sh_config rt)))) (filter (\<lambda>c. cob_sector_id c = sid) cs)))
    \<and> sr_eligible_count (snd y) = sx_valid_count (fst y)
    \<and> set (map st_identity (sr_ranked_stocks (snd y))) = cob_identity ` {c \<in> set cs. cob_sector_id c = sid \<and> is_fresh c t (cp_freshness_limit (sf_policy (sh_config rt)))}"
proof -
  let ?p = "sf_policy (sh_config rt)" and ?obs = "filter (\<lambda>c. cob_sector_id c = sid) cs"
  let ?E = "set (members_of_primary_sector (sh_resolver rt) sid (Some d))"
  have dist: "distinct (map cob_identity ?obs)" using assms(2) by (rule distinct_map_filter)
  then have "in_scope sid ?E d ?obs" using cs members_of_primary_iff [OF res, of sid "Some d"] by (auto simp: in_scope_def)
  then have "is_ok (calculate_sector_metrics dc sid ?E ?obs ?p d t (Some proxy))" by (simp only: calculate_sector_metrics_ok_iff)
  then obtain m where m: "calculate_sector_metrics dc sid ?E ?obs ?p d t (Some proxy) = Inr m" unfolding is_ok_iff by (rule exE)
  note f = calculate_sector_metrics_Inr [OF m]
  have "is_ok (rank_sector_constituents dc m ?obs ?p)" unfolding rank_sector_ok_iff f(1,2) using dist cs by simp
  then obtain k where k: "rank_sector_constituents dc m ?obs ?p = Inr k" by (auto simp: is_ok_iff)
  have "sr_sector_id k = sx_sector_id m" using k by (auto simp: rank_sector_constituents_def Let_def)
  moreover have "evaluate_sector dc rt (foldl add_constituent [] cs) proxy d t sid = Inr (m, k)"
    by (simp add: evaluate_sector_def sector_observations m k)
  moreover have "cob_identity ` {c \<in> set ?obs. is_fresh c t (cp_freshness_limit ?p)} = cob_identity ` {c \<in> set cs. cob_sector_id c = sid \<and> is_fresh c t (cp_freshness_limit ?p)}"
    by auto
  moreover have "set (map st_identity (sr_ranked_stocks k)) = cob_identity ` {c \<in> set ?obs. is_fresh c t (cp_freshness_limit ?p)}"
    using ranked_identities(1) [OF k] unfolding f(3) .
  moreover have "sr_eligible_count k = sx_valid_count m" using rank_sector_Inr(1) [OF k] unfolding f(3,5) .
  ultimately show ?thesis using f(1,5) by (intro exI [of _ "(m, k)"] conjI) (simp_all only: fst_conv snd_conv)
qed

lemma sum_over_sectors:
  assumes "distinct S" "\<forall>c \<in> set cs. f c \<in> set S"
  shows "(\<Sum>s \<leftarrow> S. int (length (filter P (filter (\<lambda>c. f c = s) cs)))) = int (length (filter P cs))"
  using assms(2)
proof (induction cs)
  case (Cons c cs)
  have one: "(\<Sum>s \<leftarrow> S. if f c = s \<and> P c then 1 else (0 :: int)) = (if P c then 1 else 0)"
    using assms(1) Cons.prems by (simp add: sum_list_distinct_conv_sum_set)
  have "int (length (filter P (filter (\<lambda>c. f c = s) (c # cs)))) = (if f c = s \<and> P c then 1 else 0) + int (length (filter P (filter (\<lambda>c. f c = s) cs)))" for s
    by simp
  then have "(\<Sum>s \<leftarrow> S. int (length (filter P (filter (\<lambda>c. f c = s) (c # cs))))) =
      (\<Sum>s \<leftarrow> S. if f c = s \<and> P c then 1 else 0) + (\<Sum>s \<leftarrow> S. int (length (filter P (filter (\<lambda>c. f c = s) cs))))"
    by (simp only: sum_list_addf)
  then show ?case using Cons one by simp
qed simp

lemma wf_coherent_copy:
  assumes "wf_observation_state st"
  shows "distinct (map lo_identity (coherent_copy st))"
proof -
  have "map lo_identity (coherent_copy st) = map fst (os_latest st)" using assms by (auto simp: coherent_copy_def wf_simps)
  then show ?thesis using assms by (simp add: wf_simps)
qed

definition session_usable :: "date \<Rightarrow> latest_observation \<Rightarrow> bool" where
  "session_usable d ob \<longleftrightarrow> lo_is_complete ob \<and> lo_trading_date ob = Some d"

definition mapped_on :: "membership_resolver \<Rightarrow> date \<Rightarrow> latest_observation \<Rightarrow> bool" where
  "mapped_on r d ob \<longleftrightarrow> resolve_primary r (lo_identity ob) (Some d) \<noteq> None"

text \<open>
  What a snapshot of a state says: before any session it lists no sector; in a session it lists metrics and a ranking for every primary sector in order, the two agree on
  how many constituents are valid, the sectors together count each usable, mapped and fresh observation once and rank exactly their instruments.
\<close>

definition snapshot_accounts :: "membership_resolver \<Rightarrow> calculation_policy \<Rightarrow> observation_state \<Rightarrow> instant \<Rightarrow> sector_shadow_snapshot \<Rightarrow> bool" where
  "snapshot_accounts r p st t snap \<longleftrightarrow> sw_trading_date snap = os_trading_date st \<and> sw_observed_count snap = int (os_len st)
     \<and> (case os_trading_date st of
          None \<Rightarrow> sw_sector_metrics snap = [] \<and> sw_stock_rankings snap = []
        | Some d \<Rightarrow>
            map sx_sector_id (sw_sector_metrics snap) = all_primary_sectors r \<and> map sr_sector_id (sw_stock_rankings snap) = all_primary_sectors r
          \<and> map sr_eligible_count (sw_stock_rankings snap) = map sx_valid_count (sw_sector_metrics snap)
          \<and> sum_list (map sx_valid_count (sw_sector_metrics snap)) = sw_fresh_count snap
          \<and> sw_fresh_count snap = int (length (filter (\<lambda>ob. session_usable d ob \<and> mapped_on r d ob \<and> lo_fresh ob t (cp_freshness_limit p)) (coherent_copy st)))
          \<and> (\<Union>k \<in> set (sw_stock_rankings snap). set (map st_identity (sr_ranked_stocks k))) =
              lo_identity ` {ob \<in> set (coherent_copy st). session_usable d ob \<and> mapped_on r d ob \<and> lo_fresh ob t (cp_freshness_limit p)}
          \<and> sw_stale_count snap =
              int (length (filter (\<lambda>ob. session_usable d ob \<and> \<not> (mapped_on r d ob \<and> lo_fresh ob t (cp_freshness_limit p))) (coherent_copy st))))"

lemma length_filter_sort_key: "length (filter P (sort_key f xs)) = length (filter P xs)"
  by (rule length_filter_mset) simp

lemma length_filter_split: "int (length (filter P xs)) - int (length (filter (\<lambda>x. P x \<and> Q x) xs)) = int (length (filter (\<lambda>x. P x \<and> \<not> Q x) xs))"
  by (induction xs) auto

lemma evaluate_sectors:
  fixes t :: instant
  assumes res: "mk_membership_resolver ds = Inr (sh_resolver rt)" and "distinct (map cob_identity cs)"
    and cs: "\<forall>c \<in> set cs. cob_trading_date c = d \<and> resolve_primary (sh_resolver rt) (cob_identity c) (Some d) = Some (cob_sector_id c)"
  defines "fr \<equiv> \<lambda>c. is_fresh c t (cp_freshness_limit (sf_policy (sh_config rt)))" and "sectors \<equiv> all_primary_sectors (sh_resolver rt)"
  shows "\<exists>ys. map_res (evaluate_sector dc rt (foldl add_constituent [] cs) proxy d t) sectors = Inr ys
    \<and> map (sx_sector_id \<circ> fst) ys = sectors \<and> map (sr_sector_id \<circ> snd) ys = sectors
    \<and> map (sr_eligible_count \<circ> snd) ys = map (sx_valid_count \<circ> fst) ys
    \<and> sum_list (map (sx_valid_count \<circ> fst) ys) = int (length (filter fr cs))
    \<and> (\<Union>y \<in> set ys. set (map st_identity (sr_ranked_stocks (snd y)))) = cob_identity ` {c \<in> set cs. fr c}"
proof -
  have "\<forall>sid. \<exists>y. evaluate_sector dc rt (foldl add_constituent [] cs) proxy d t sid = Inr y \<and> sx_sector_id (fst y) = sid \<and> sr_sector_id (snd y) = sid
      \<and> sx_valid_count (fst y) = int (length (filter fr (filter (\<lambda>c. cob_sector_id c = sid) cs)))
      \<and> sr_eligible_count (snd y) = sx_valid_count (fst y)
      \<and> set (map st_identity (sr_ranked_stocks (snd y))) = cob_identity ` {c \<in> set cs. cob_sector_id c = sid \<and> fr c}"
    unfolding fr_def by (rule allI) (rule evaluate_sector_total [OF assms(1-3)])
  from choice [OF this] obtain g where all: "\<forall>sid. evaluate_sector dc rt (foldl add_constituent [] cs) proxy d t sid = Inr (g sid)
      \<and> sx_sector_id (fst (g sid)) = sid \<and> sr_sector_id (snd (g sid)) = sid
      \<and> sx_valid_count (fst (g sid)) = int (length (filter fr (filter (\<lambda>c. cob_sector_id c = sid) cs)))
      \<and> sr_eligible_count (snd (g sid)) = sx_valid_count (fst (g sid))
      \<and> set (map st_identity (sr_ranked_stocks (snd (g sid)))) = cob_identity ` {c \<in> set cs. cob_sector_id c = sid \<and> fr c}" by (rule exE)
  then have g: "\<And>sid. evaluate_sector dc rt (foldl add_constituent [] cs) proxy d t sid = Inr (g sid)"
    "\<And>sid. sx_sector_id (fst (g sid)) = sid" "\<And>sid. sr_sector_id (snd (g sid)) = sid"
    "\<And>sid. sx_valid_count (fst (g sid)) = int (length (filter fr (filter (\<lambda>c. cob_sector_id c = sid) cs)))"
    "\<And>sid. sr_eligible_count (snd (g sid)) = sx_valid_count (fst (g sid))"
    "\<And>sid. set (map st_identity (sr_ranked_stocks (snd (g sid)))) = cob_identity ` {c \<in> set cs. cob_sector_id c = sid \<and> fr c}"
    by blast+
  have listed: "\<forall>c \<in> set cs. cob_sector_id c \<in> set sectors"
    using cs resolve_primary_iff [OF res] primary_sectors_listed(2) [OF res] by (auto simp: sectors_def) (metis (no_types))
  have "sum_list (map (sx_valid_count \<circ> fst) (map g sectors)) = int (length (filter fr cs))"
    using sum_over_sectors [OF primary_sectors_listed(1) [OF res] listed [unfolded sectors_def], of fr] by (simp add: g(4) comp_def sectors_def)
  moreover have "(\<Union>y \<in> set (map g sectors). set (map st_identity (sr_ranked_stocks (snd y)))) = cob_identity ` {c \<in> set cs. fr c}"
    unfolding set_map UN_simps image_image using g(6) listed by fastforce
  moreover have "map_res (evaluate_sector dc rt (foldl add_constituent [] cs) proxy d t) sectors = Inr (map g sectors)"
    by (rule map_res_Inr) (rule g(1))
  ultimately show ?thesis by (intro exI [of _ "map g sectors"]) (simp add: g(2,3,5) comp_def)
qed

lemma build_shadow_snapshot_total:
  assumes res: "mk_membership_resolver ds = Inr (sh_resolver rt)" and "rows_constructed ds" "wf_observation_state (sh_state rt)"
    and pr: "\<forall>ob \<in> set (coherent_copy (sh_state rt)). priced ob"
  shows "\<exists>snap. build_shadow_snapshot dc rt (coherent_copy (sh_state rt)) t = Inr snap
    \<and> snapshot_accounts (sh_resolver rt) (sf_policy (sh_config rt)) (sh_state rt) t snap"
proof (cases "os_trading_date (sh_state rt)")
  case None
  then show ?thesis by (simp add: build_shadow_snapshot_def snapshot_accounts_def Let_def os_len_def coherent_copy_def)
next
  case (Some d)
  let ?r = "sh_resolver rt" and ?obs = "coherent_copy (sh_state rt)"
  define lim where "lim = cp_freshness_limit (sf_policy (sh_config rt))"
  define complete where "complete = sort_key lo_identity (filter (\<lambda>ob. lo_is_complete ob \<and> lo_trading_date ob = Some d) ?obs)"
  define cs where "cs = List.map_filter (constituent_of ?r d) complete"
  have set_complete: "set complete = {ob \<in> set ?obs. session_usable d ob}" by (auto simp: complete_def session_usable_def)
  have con: "shadow_constituents ?r d complete = Inr cs"
    unfolding cs_def using pr set_complete by (intro shadow_constituents_total [OF res assms(2)]) (auto simp: session_usable_def)
  have dist: "distinct (map cob_identity cs)"
  proof -
    have "mset (map lo_identity complete) = mset (map lo_identity (filter (\<lambda>ob. lo_is_complete ob \<and> lo_trading_date ob = Some d) ?obs))" by (simp add: complete_def)
    then have "distinct (map lo_identity complete)"
      using wf_coherent_copy [OF assms(3)] by (metis distinct_map_filter mset_eq_imp_distinct_iff)
    then show ?thesis unfolding cs_def map_filter_constituents by (rule distinct_map_filter)
  qed
  have csd: "\<forall>c \<in> set cs. cob_trading_date c = d \<and> resolve_primary ?r (cob_identity c) (Some d) = Some (cob_sector_id c)"
    using constituent_of_Some(2,3) by (auto simp: cs_def set_map_filter_constituents)
  obtain proxy where proxy: "calculate_universe_proxy dc cs (sf_policy (sh_config rt)) d t = Inr proxy"
    "up_valid_count proxy = int (length (filter (\<lambda>c. is_fresh c t lim) cs))"
    using universe_proxy_ok [OF dist, of d dc] csd unfolding lim_def by blast
  from evaluate_sectors [OF res dist csd, of dc proxy t, folded lim_def] obtain ys where
    ys: "map_res (evaluate_sector dc rt (foldl add_constituent [] cs) proxy d t) (all_primary_sectors ?r) = Inr ys"
    and acc: "map (sx_sector_id \<circ> fst) ys = all_primary_sectors ?r" "map (sr_sector_id \<circ> snd) ys = all_primary_sectors ?r"
      "map (sr_eligible_count \<circ> snd) ys = map (sx_valid_count \<circ> fst) ys"
      "sum_list (map (sx_valid_count \<circ> fst) ys) = int (length (filter (\<lambda>c. is_fresh c t lim) cs))"
      "(\<Union>y \<in> set ys. set (map st_identity (sr_ranked_stocks (snd y)))) = cob_identity ` {c \<in> set cs. is_fresh c t lim}" by (elim exE conjE)
  have n: "length (filter (\<lambda>c. is_fresh c t lim) cs) = length (filter (\<lambda>ob. session_usable d ob \<and> mapped_on ?r d ob \<and> lo_fresh ob t lim) ?obs)"
    unfolding cs_def map_filter_constituents complete_def length_filter_sort_key mapped_on_def session_usable_def filter_filter by simp
  have ids: "cob_identity ` {c \<in> set cs. is_fresh c t lim} = lo_identity ` {ob \<in> set ?obs. session_usable d ob \<and> mapped_on ?r d ob \<and> lo_fresh ob t lim}"
    (is "?A = ?B")
  proof
    show "?A \<subseteq> ?B" using set_complete constituent_of_Some by (fastforce simp: cs_def set_map_filter_constituents mapped_on_def)
    show "?B \<subseteq> ?A"
    proof
      fix i assume "i \<in> ?B"
      then obtain ob where ob: "ob \<in> set complete" "mapped_on ?r d ob" "lo_fresh ob t lim" "i = lo_identity ob" using set_complete by auto
      then obtain c where c: "constituent_of ?r d ob = Some c" by (auto simp: mapped_on_def constituent_of_def)
      then have "c \<in> {c \<in> set cs. is_fresh c t lim}" using ob constituent_of_Some(4) [OF c] by (auto simp: cs_def set_map_filter_constituents)
      then show "i \<in> ?A" using constituent_of_Some(1) [OF c] ob(4) by (metis imageI)
    qed
  qed
  have stale: "int (length complete) - int (length (filter (\<lambda>ob. session_usable d ob \<and> mapped_on ?r d ob \<and> lo_fresh ob t lim) ?obs)) =
      int (length (filter (\<lambda>ob. session_usable d ob \<and> \<not> (mapped_on ?r d ob \<and> lo_fresh ob t lim)) ?obs))"
    using length_filter_split [of "session_usable d" ?obs "\<lambda>ob. mapped_on ?r d ob \<and> lo_fresh ob t lim"] by (simp add: complete_def session_usable_def [abs_def])
  obtain snap where snap: "build_shadow_snapshot dc rt ?obs t = Inr snap" "sw_trading_date snap = Some d" "sw_observed_count snap = int (length ?obs)"
    "sw_sector_metrics snap = map fst ys" "sw_stock_rankings snap = map snd ys" "sw_fresh_count snap = up_valid_count proxy"
    "sw_stale_count snap = int (length complete) - up_valid_count proxy"
    by (simp add: build_shadow_snapshot_def Some con [unfolded complete_def] proxy(1) ys Let_def complete_def)
  then have "snapshot_accounts ?r (sf_policy (sh_config rt)) (sh_state rt) t snap"
    unfolding snapshot_accounts_def Some lim_def [symmetric] using acc n ids stale proxy(2)
    by (simp add: comp_def os_len_def coherent_copy_def)
  with snap(1) show ?thesis by blast
qed

lemma evaluate_once_build:
  assumes "\<not> sh_evaluating rt"
    "build_shadow_snapshot dc (fst (begin_evaluation rt t0 t1)) (coherent_copy (sh_state rt)) t1 = Inr snap"
  shows "snd (evaluate_once dc rt t0 t1 t2) = Some snap" "\<not> sh_evaluating (fst (evaluate_once dc rt t0 t1 t2))"
    "sg_snapshot_failures (sh_diag (fst (evaluate_once dc rt t0 t1 t2))) = sg_snapshot_failures (sh_diag rt)"
    "sg_snapshot_successes (sh_diag (fst (evaluate_once dc rt t0 t1 t2))) = sg_snapshot_successes (sh_diag rt) + 1"
  using assms by (simp_all add: evaluate_once_def begin_evaluation_def finish_evaluation_def Let_def)


section \<open>An evaluation\<close>

definition shadow_context :: "date \<Rightarrow> instant \<Rightarrow> decimal \<Rightarrow> market_context" where
  "shadow_context d t price =
     \<lparr>mc_instrument = cash_equity ''NSE'' ''ITC'', mc_version = 1, mc_sequence = 1, mc_event_timestamp = t, mc_observed_at = t,
      mc_latest_tick = Some \<lparr>tick_instrument = cash_equity ''NSE'' ''ITC'', tick_event_timestamp = t, last_price = price, tick_traded_quantity = None,
        session_cumulative_volume = None, tick_session_ohlc = Some \<lparr>agg_open = 100, agg_high = 120, agg_low = 90, agg_close = 110\<rparr>\<rparr>,
      mc_latest_quote = None, mc_latest_candle = None, mc_candle_sets = [],
      mc_session = Some \<lparr>sc_trading_date = d, sc_market_state = LIVE_SESSION, sc_exchange_timezone = ''Asia/Kolkata''\<rparr>,
      mc_facts = [], mc_metadata = [], mc_historical = None, mc_session_statistics = None, mc_previous_close = Some 100, mc_is_valid = True\<rparr>"

lemma demo_observation:
  "observation_of_context (shadow_context d t price) =
     \<lparr>lo_identity = ''NSE:ITC'', lo_trading_date = Some d, lo_observation_timestamp = t, lo_last_price = Some price, lo_previous_close = Some 100,
      lo_session_open = Some 100, lo_version = 1\<rparr>"
  by (simp add: observation_of_context_def shadow_context_def instrument_identity_def cash_equity_def Let_def)

lemma demo_resolver:
  "\<exists>r. mk_membership_resolver demo_dataset = Inr r \<and> resolve_primary r ''NSE:ITC'' (Some 20099) = Some ''FMCG'' \<and> ''NSE:ITC'' \<in> expected_universe r"
proof -
  obtain r where r: "mk_membership_resolver demo_dataset = Inr r" "all_primary_sectors r = [''FMCG'', ''HOTELS'']" "dm_effective_from (mr_metadata r) = 20000"
    by (simp add: mk_membership_resolver_def demo_dataset_def demo_sector_def demo_membership_def validate_definitions_def validate_memberships_def
        validate_primary_intervals_def primary_rows_def primary_kinds_def all_primary_sectors_def)
  have p: "resolve_primary r ''NSE:ITC'' (Some 20099) = Some ''FMCG''" "resolve_primary r ''NSE:ITC'' None = Some ''FMCG''"
    unfolding resolve_primary_iff [OF r(1)] by (simp_all add: demo_dataset_def demo_membership_def active_on_def resolve_on_def r(3))
  moreover have "''NSE:ITC'' \<in> expected_universe r"
    using members_of_primary_iff [OF r(1), of "''FMCG''" None] p(2) by (auto simp: expected_universe_def r(2))
  ultimately show ?thesis using r(1) by blast
qed

lemma demo_state:
  assumes "''NSE:ITC'' \<in> expected_universe r"
  shows "os_latest (sh_state (fed (mk_shadow_runtime r cfg) [shadow_context d t price])) = [(''NSE:ITC'', observation_of_context (shadow_context d t price))]"
    "os_trading_date (sh_state (fed (mk_shadow_runtime r cfg) [shadow_context d t price])) = Some d"
  using assms by (simp_all add: fed_simps mk_shadow_runtime_def offered_def record_observation_def apply_trading_date_def empty_observation_state_def demo_observation)



text \<open>
  A rejected observation can still set the trading date: an out-of-order one that is the first to carry a date.
\<close>

lemma rejected_observation_adopts_date:
  "\<exists>st ob. wf_observation_state st \<and> snd (record_observation st ob) = REJECTED_OUT_OF_ORDER \<and> os_trading_date st = None
     \<and> os_trading_date (fst (record_observation st ob)) = Some 20099"
proof -
  define early where "early = observation_of_context (shadow_context 20099 5 110)"
  define st where "st = \<lparr>os_expected = {''NSE:ITC''}, os_latest = [(''NSE:ITC'', early\<lparr>lo_trading_date := None, lo_observation_timestamp := 10\<rparr>)],
    os_trading_date = None\<rparr>"
  have "wf_observation_state st" by (simp add: wf_simps st_def early_def demo_observation)
  moreover have "snd (record_observation st early) = REJECTED_OUT_OF_ORDER" "os_trading_date (fst (record_observation st early)) = Some 20099"
    by (simp_all add: record_observation_def apply_trading_date_def st_def early_def demo_observation)
  ultimately show ?thesis by (intro exI [of _ st] exI [of _ early]) (simp add: st_def)
qed

end
