(* ===== verification/Historical_Source.thy ===== *)
theory Historical_Source
  imports Resampling Strategy_Contracts
begin

text \<open>
  The way to authoritative history: fetch plans and the verification of a source's answer (\<^verbatim>\<open>market_engine/historical/source.py\<close>), the
  exact-coverage cache (\<^verbatim>\<open>historical/cache.py\<close>) and the coordinator that coalesces identical requests and bounds the loads that run at
  once (\<^verbatim>\<open>historical/coordinator.py\<close>). A coordinator call that suspends is split at its suspension points: joining or creating the task of a request, the
  start of its load once the semaphore admits it, and its end with the source's answer. Shown: at most one load per request and never more loads than the bound,
  the cache holds only verified answers, a stable source and the cache are indistinguishable, and where daily bars make them differ.
\<close>

section \<open>Plans and answers\<close>

definition interval_for_timeframe :: "timeframe \<Rightarrow> timedelta" where
  "interval_for_timeframe tf = (case tf_duration tf of None \<Rightarrow> DAY | Some dur \<Rightarrow> dur)"

record request_key =
  rk_instrument :: instrument
  rk_timeframe :: timeframe
  rk_start :: instant
  rk_end :: instant

record fetch_plan =
  fp_instrument :: instrument
  fp_requirement :: historical_requirement
  fp_start :: instant
  fp_end :: instant
  fp_interval :: timedelta

definition plan_key :: "fetch_plan \<Rightarrow> request_key" where
  "plan_key p = \<lparr>rk_instrument = fp_instrument p, rk_timeframe = hr_timeframe (fp_requirement p), rk_start = fp_start p, rk_end = fp_end p\<rparr>"

definition plan_request :: "fetch_plan \<Rightarrow> historical_request res" where
  "plan_request p = mk_historical_request (fp_instrument p) (utc (fp_start p)) (utc (fp_end p)) (fp_interval p)"

definition source_error :: py_error where
  "source_error = RuntimeError ''HistoricalSourceError''"

definition quality_error :: py_error where
  "quality_error = ValueError ''HistoricalDataQualityError''"

definition verify_source_candles :: "fetch_plan \<Rightarrow> historical_result \<Rightarrow> candle list res" where
  "verify_source_candles p result =
     (let candles = result_candles result; tf = hr_timeframe (fp_requirement p)
      in if list_ex (\<lambda>c. candle_instrument c \<noteq> fp_instrument p) candles then Inl quality_error
         else if candles = [] then Inr []
         else case mk_historical_series tf candles of
           Inl _ \<Rightarrow> Inl quality_error
         | Inr s \<Rightarrow>
             (if \<not> is_session tf \<and> list_ex (\<lambda>c. candle_end c - candle_start c \<noteq> fp_interval p) (hs_candles s) then Inl quality_error
              else Inr (hs_candles s)))"

section \<open>The cache\<close>

record cache_entry =
  he_candles :: "candle list"
  he_coverage_start :: instant
  he_coverage_end :: instant

definition entry_covers :: "cache_entry \<Rightarrow> instant \<Rightarrow> instant \<Rightarrow> bool" where
  "entry_covers e s t \<longleftrightarrow> he_coverage_start e \<le> s \<and> t \<le> he_coverage_end e"

type_synonym historical_cache = "((instrument \<times> timeframe) \<times> cache_entry) list"

definition in_window :: "request_key \<Rightarrow> candle \<Rightarrow> bool" where
  "in_window k c \<longleftrightarrow> rk_start k \<le> candle_start c \<and> candle_start c < rk_end k"

definition cache_get :: "historical_cache \<Rightarrow> request_key \<Rightarrow> candle list option" where
  "cache_get ca k =
     (case map_of ca (rk_instrument k, rk_timeframe k) of
        None \<Rightarrow> None
      | Some e \<Rightarrow> (if \<not> entry_covers e (rk_start k) (rk_end k) then None else Some (filter (in_window k) (he_candles e))))"

definition cache_put :: "historical_cache \<Rightarrow> request_key \<Rightarrow> candle list \<Rightarrow> historical_cache" where
  "cache_put ca k cs =
     AList.update (rk_instrument k, rk_timeframe k) \<lparr>he_candles = cs, he_coverage_start = rk_start k, he_coverage_end = rk_end k\<rparr> ca"

definition cache_retain :: "historical_cache \<Rightarrow> timeframe set \<Rightarrow> historical_cache" where
  "cache_retain ca active = filter (\<lambda>((i, tf), e). tf \<in> active) ca"

definition cache_entry_count :: "historical_cache \<Rightarrow> nat" where
  "cache_entry_count ca = length ca"

section \<open>The coordinator\<close>

record fetch_coordinator =
  hk_direct :: "timeframe list"
  hk_max_concurrency :: int
  hk_cache :: historical_cache
  hk_inflight :: "(request_key \<times> fetch_plan) list"
  hk_running :: "request_key list"

definition mk_fetch_coordinator :: "timeframe list \<Rightarrow> int \<Rightarrow> fetch_coordinator res" where
  "mk_fetch_coordinator direct bound =
     (if bound \<le> 0 then Inl (ValueError ''max_concurrency must be a positive integer'')
      else Inr \<lparr>hk_direct = direct, hk_max_concurrency = bound, hk_cache = [], hk_inflight = [], hk_running = []\<rparr>)"

definition inflight_count :: "fetch_coordinator \<Rightarrow> nat" where
  "inflight_count co = length (hk_inflight co)"

definition retain_timeframes :: "fetch_coordinator \<Rightarrow> timeframe set \<Rightarrow> fetch_coordinator" where
  "retain_timeframes co active = co\<lparr>hk_cache := cache_retain (hk_cache co) active\<rparr>"

datatype fetch_answer = Hit "candle list" | Awaiting request_key

definition coordinator_fetch :: "fetch_coordinator \<Rightarrow> fetch_plan \<Rightarrow> fetch_answer \<times> fetch_coordinator" where
  "coordinator_fetch co p =
     (case cache_get (hk_cache co) (plan_key p) of
        Some cs \<Rightarrow> (Hit cs, co)
      | None \<Rightarrow>
          (Awaiting (plan_key p),
           case map_of (hk_inflight co) (plan_key p) of
             Some _ \<Rightarrow> co
           | None \<Rightarrow> co\<lparr>hk_inflight := hk_inflight co @ [(plan_key p, p)]\<rparr>))"

text \<open>A task enters its load when the semaphore has a free slot.\<close>

definition load_begin :: "fetch_coordinator \<Rightarrow> request_key \<Rightarrow> fetch_coordinator option" where
  "load_begin co k =
     (if map_of (hk_inflight co) k = None \<or> k \<in> set (hk_running co) \<or> \<not> int (length (hk_running co)) < hk_max_concurrency co then None
      else Some (co\<lparr>hk_running := hk_running co @ [k]\<rparr>))"

text \<open>The rest of \<^verbatim>\<open>_run\<close> with the source's answer, and the callback that removes the task.\<close>

definition finish_load :: "fetch_plan \<Rightarrow> historical_result res \<Rightarrow> candle list res" where
  "finish_load p answer = res_bind (plan_request p) (\<lambda>_. res_bind answer (verify_source_candles p))"

definition load_end :: "fetch_coordinator \<Rightarrow> request_key \<Rightarrow> historical_result res \<Rightarrow> candle list res \<times> fetch_coordinator" where
  "load_end co k answer =
     (case map_of (hk_inflight co) k of
        None \<Rightarrow> (Inl (LookupError ''no such task''), co)
      | Some p \<Rightarrow>
          (let result = finish_load p answer;
               ca = (case result of Inr (c # cs) \<Rightarrow> cache_put (hk_cache co) k (c # cs) | _ \<Rightarrow> hk_cache co)
           in (result, co\<lparr>hk_cache := ca, hk_inflight := filter (\<lambda>(k', _). k' \<noteq> k) (hk_inflight co),
                          hk_running := filter (\<lambda>k'. k' \<noteq> k) (hk_running co)\<rparr>)))"

text \<open>
  The states of a coordinator over any interleaving of calls, task starts, answers and evictions; \<open>answers p a\<close> says which answers
  the source may give to the request of a plan.
\<close>

inductive coordinator_reachable ::
  "timeframe list \<Rightarrow> int \<Rightarrow> (fetch_plan \<Rightarrow> historical_result res \<Rightarrow> bool) \<Rightarrow> fetch_coordinator \<Rightarrow> bool"
  for direct :: "timeframe list" and bound :: int and answers :: "fetch_plan \<Rightarrow> historical_result res \<Rightarrow> bool" where
  start: "mk_fetch_coordinator direct bound = Inr co \<Longrightarrow> coordinator_reachable direct bound answers co"
| fetch: "coordinator_reachable direct bound answers co \<Longrightarrow> coordinator_reachable direct bound answers (snd (coordinator_fetch co p))"
| begin_load: "coordinator_reachable direct bound answers co \<Longrightarrow> load_begin co k = Some co' \<Longrightarrow> coordinator_reachable direct bound answers co'"
| end_load: "coordinator_reachable direct bound answers co \<Longrightarrow> k \<in> set (hk_running co) \<Longrightarrow> map_of (hk_inflight co) k = Some p \<Longrightarrow> answers p a \<Longrightarrow>
    coordinator_reachable direct bound answers (snd (load_end co k a))"
| retain: "coordinator_reachable direct bound answers co \<Longrightarrow> coordinator_reachable direct bound answers (retain_timeframes co active)"

section \<open>What a verified answer is\<close>

lemma mk_historical_series_Inr:
  assumes "mk_historical_series tf cs = Inr s"
  shows "hs_timeframe s = tf" "hs_candles s = order_candles cs" "cs \<noteq> []" "check_adjacent (order_candles cs) = Inr ()"
proof -
  have "validate_series_identity \<lparr>hs_timeframe = tf, hs_candles = order_candles cs\<rparr> = Inr s" using assms by (simp add: mk_historical_series_def)
  then have v: "order_candles cs \<noteq> []" "check_adjacent (order_candles cs) = Inr ()" "s = \<lparr>hs_timeframe = tf, hs_candles = order_candles cs\<rparr>"
    by (auto simp: validate_series_identity_def Let_def split: if_splits)
  then show "hs_timeframe s = tf" "hs_candles s = order_candles cs" "check_adjacent (order_candles cs) = Inr ()" by simp_all
  show "cs \<noteq> []" using v(1) by (auto simp: order_candles_def)
qed

lemma mset_order_candles [simp]: "mset (order_candles cs) = mset cs"
  by (simp add: order_candles_def)

lemma set_order_candles [simp]: "set (order_candles cs) = set cs"
  by (simp add: order_candles_def)

lemma verify_source_candles_cases:
  assumes "verify_source_candles p result = Inr cs"
  obtains (empty) "result_candles result = []" "cs = []"
  | (ordered) "check_adjacent cs = Inr ()" "cs = order_candles (result_candles result)"
      "\<forall>c \<in> set cs. candle_instrument c = fp_instrument p" "cs \<noteq> []"
      "is_session (hr_timeframe (fp_requirement p)) \<or> (\<forall>c \<in> set cs. candle_end c - candle_start c = fp_interval p)"
proof (cases "result_candles result = []")
  case True
  then show thesis using assms empty by (auto simp: verify_source_candles_def Let_def split: if_splits)
next
  case False
  let ?tf = "hr_timeframe (fp_requirement p)" and ?cs = "result_candles result"
  have inst: "\<forall>c \<in> set ?cs. candle_instrument c = fp_instrument p"
    using assms by (auto simp: verify_source_candles_def Let_def list_ex_iff split: if_splits)
  obtain s where s: "mk_historical_series ?tf ?cs = Inr s" "cs = hs_candles s"
    "is_session ?tf \<or> (\<forall>c \<in> set (hs_candles s). candle_end c - candle_start c = fp_interval p)"
    using assms False by (auto simp: verify_source_candles_def Let_def list_ex_iff split: if_splits sum.splits)
  note f = mk_historical_series_Inr [OF s(1)]
  show thesis
  proof (rule ordered)
    show "check_adjacent cs = Inr ()" "cs = order_candles ?cs" using s f by simp_all
    show "\<forall>c \<in> set cs. candle_instrument c = fp_instrument p" using s f inst by simp
    show "cs \<noteq> []" using s(2) f(2) False set_order_candles [of ?cs] by force
    show "is_session ?tf \<or> (\<forall>c \<in> set cs. candle_end c - candle_start c = fp_interval p)" using s by simp
  qed
qed

section \<open>Loads are bounded and coalesced, and the cache holds verified answers\<close>

definition verified_entry :: "(fetch_plan \<Rightarrow> historical_result res \<Rightarrow> bool) \<Rightarrow> (instrument \<times> timeframe) \<times> cache_entry \<Rightarrow> bool" where
  "verified_entry answers x \<longleftrightarrow>
     (\<exists>p a. answers p a \<and> finish_load p a = Inr (he_candles (snd x)) \<and> he_candles (snd x) \<noteq> []
        \<and> fst x = (fp_instrument p, hr_timeframe (fp_requirement p)) \<and> he_coverage_start (snd x) = fp_start p \<and> he_coverage_end (snd x) = fp_end p)"

definition loads_bounded :: "int \<Rightarrow> fetch_coordinator \<Rightarrow> bool" where
  "loads_bounded bound co \<longleftrightarrow>
     hk_max_concurrency co = bound \<and> 0 < bound \<and> distinct (map fst (hk_inflight co)) \<and> (\<forall>(k, p) \<in> set (hk_inflight co). plan_key p = k)
     \<and> distinct (hk_running co) \<and> set (hk_running co) \<subseteq> fst ` set (hk_inflight co) \<and> int (length (hk_running co)) \<le> bound"

definition verified_cache :: "(fetch_plan \<Rightarrow> historical_result res \<Rightarrow> bool) \<Rightarrow> historical_cache \<Rightarrow> bool" where
  "verified_cache answers ca \<longleftrightarrow> distinct (map fst ca) \<and> (\<forall>x \<in> set ca. verified_entry answers x)"

lemma loads_bounded_fetch:
  assumes "loads_bounded bound co"
  shows "loads_bounded bound (snd (coordinator_fetch co p))"
proof -
  have "plan_key p \<notin> fst ` set (hk_inflight co)" if "map_of (hk_inflight co) (plan_key p) = None"
    using that by (simp add: map_of_eq_None_iff)
  then show ?thesis using assms by (auto simp: loads_bounded_def coordinator_fetch_def split: option.splits)
qed

lemma loads_bounded_begin:
  assumes "loads_bounded bound co" "load_begin co k = Some co'"
  shows "loads_bounded bound co'" "hk_cache co' = hk_cache co"
proof -
  have c: "map_of (hk_inflight co) k \<noteq> None" "k \<notin> set (hk_running co)" "int (length (hk_running co)) < hk_max_concurrency co"
    "co' = co\<lparr>hk_running := hk_running co @ [k]\<rparr>" using assms(2) by (simp_all add: load_begin_def split: if_splits)
  have "k \<in> fst ` set (hk_inflight co)" using c(1) by (simp add: map_of_eq_None_iff)
  then show "loads_bounded bound co'" using assms(1) c(2-4) by (simp add: loads_bounded_def)
  show "hk_cache co' = hk_cache co" using c(4) by simp
qed

lemma loads_bounded_end:
  assumes "loads_bounded bound co" "map_of (hk_inflight co) k = Some p"
  shows "loads_bounded bound (snd (load_end co k a))"
proof -
  have "int (length (filter (\<lambda>k'. k' \<noteq> k) (hk_running co))) \<le> bound"
    using assms(1) length_filter_le [of "\<lambda>k'. k' \<noteq> k" "hk_running co"] unfolding loads_bounded_def by linarith
  moreover
  have "distinct (map fst (filter (\<lambda>(k', _). k' \<noteq> k) (hk_inflight co)))"
    using assms(1) by (simp add: loads_bounded_def distinct_map_filter)
  moreover have "set (filter (\<lambda>k'. k' \<noteq> k) (hk_running co)) \<subseteq> fst ` set (filter (\<lambda>(k', _). k' \<noteq> k) (hk_inflight co))"
    using assms(1) by (force simp: loads_bounded_def)
  ultimately show ?thesis using assms by (simp add: loads_bounded_def load_end_def Let_def)
qed

lemma in_set_updateD:
  "x \<in> set (AList.update k v al) \<Longrightarrow> x = (k, v) \<or> x \<in> set al"
  by (induction al) (auto split: if_splits)

lemma verified_cache_put:
  assumes "verified_cache answers ca" "answers p a" "finish_load p a = Inr cs" "cs \<noteq> []"
  shows "verified_cache answers (cache_put ca (plan_key p) cs)"
proof -
  have "verified_entry answers ((fp_instrument p, hr_timeframe (fp_requirement p)), \<lparr>he_candles = cs, he_coverage_start = fp_start p, he_coverage_end = fp_end p\<rparr>)"
    unfolding verified_entry_def using assms by auto
  then show ?thesis using assms(1)
    by (auto simp: verified_cache_def cache_put_def plan_key_def distinct_update dest!: in_set_updateD)
qed

lemma verified_cache_end:
  assumes "verified_cache answers (hk_cache co)" "map_of (hk_inflight co) (plan_key p) = Some p" "answers p a"
  shows "verified_cache answers (hk_cache (snd (load_end co (plan_key p) a)))"
proof (cases "finish_load p a")
  case (Inr cs)
  then show ?thesis using assms verified_cache_put [OF assms(1,3) Inr] by (cases cs) (simp_all add: load_end_def Let_def)
qed (use assms in \<open>simp add: load_end_def Let_def\<close>)

lemma verified_cache_retain:
  "verified_cache answers ca \<Longrightarrow> verified_cache answers (cache_retain ca active)"
  by (auto simp: verified_cache_def cache_retain_def distinct_map_filter)

lemma coordinator_invariants:
  assumes "coordinator_reachable direct bound answers co"
  shows "loads_bounded bound co \<and> verified_cache answers (hk_cache co) \<and> hk_direct co = direct"
  using assms
proof induction
  case (start co)
  then show ?case by (auto simp: mk_fetch_coordinator_def loads_bounded_def verified_cache_def split: if_splits)
next
  case (fetch co p)
  have "hk_cache (snd (coordinator_fetch co p)) = hk_cache co" "hk_direct (snd (coordinator_fetch co p)) = hk_direct co"
    by (simp_all add: coordinator_fetch_def split: option.splits)
  then show ?case using fetch loads_bounded_fetch by simp
next
  case (begin_load co k co')
  have "hk_direct co' = hk_direct co" using begin_load(2) by (auto simp: load_begin_def split: if_splits)
  then show ?case using begin_load loads_bounded_begin [of bound co k co'] by simp
next
  case (end_load co k p a)
  have "plan_key p = k" using end_load map_of_SomeD [OF end_load(3)] by (auto simp: loads_bounded_def)
  moreover have "hk_direct (snd (load_end co k a)) = hk_direct co" using end_load(3) by (simp add: load_end_def Let_def)
  ultimately show ?case using end_load loads_bounded_end verified_cache_end by blast
next
  case (retain co active)
  then show ?case by (simp add: retain_timeframes_def verified_cache_retain loads_bounded_def)
qed

section \<open>A stable source and its cache\<close>

text \<open>The bars a provider holds for each stream, and the source that answers every request with exactly the bars whose start lies in the window, in any order.\<close>

type_synonym provider_book = "instrument \<Rightarrow> timeframe \<Rightarrow> candle list"

definition wf_book :: "provider_book \<Rightarrow> bool" where
  "wf_book book \<longleftrightarrow>
     (\<forall>i tf. sorted_wrt (\<lambda>a b. candle_end a \<le> candle_start b) (book i tf) \<and> list_all wf_candle (book i tf)
        \<and> list_all (\<lambda>c. candle_instrument c = i \<and> (is_session tf \<or> candle_end c - candle_start c = interval_for_timeframe tf)) (book i tf))"

definition book_window :: "provider_book \<Rightarrow> fetch_plan \<Rightarrow> candle list" where
  "book_window book p = filter (in_window (plan_key p)) (book (fp_instrument p) (hr_timeframe (fp_requirement p)))"

definition stable_source :: "provider_book \<Rightarrow> (fetch_plan \<Rightarrow> historical_result res \<Rightarrow> bool) \<Rightarrow> bool" where
  "stable_source book answers \<longleftrightarrow> (\<forall>p a. answers p a \<longrightarrow> (\<exists>r. a = Inr r \<and> mset (result_candles r) = mset (book_window book p)))"

lemma wf_book_window:
  assumes "wf_book book"
  shows "sorted_wrt (\<lambda>a b. candle_end a \<le> candle_start b) (book_window book p)" "list_all wf_candle (book_window book p)"
    "\<forall>c \<in> set (book_window book p). candle_instrument c = fp_instrument p"
    "is_session (hr_timeframe (fp_requirement p)) \<or>
       (\<forall>c \<in> set (book_window book p). candle_end c - candle_start c = interval_for_timeframe (hr_timeframe (fp_requirement p)))"
  using assms unfolding wf_book_def book_window_def by (auto simp: sorted_wrt_filter list_all_iff)

lemma strict_starts:
  assumes "sorted_wrt (\<lambda>a b. candle_end a \<le> candle_start b) cs" "list_all wf_candle cs"
  shows "sorted_wrt (<) (map candle_start cs)"
  using assms by (induction cs) (auto simp: wf_simps list_all_iff intro: less_le_trans)

lemma order_candles_unique:
  assumes "mset xs = mset cs" "sorted_wrt (\<lambda>a b. candle_end a \<le> candle_start b) cs" "list_all wf_candle cs"
  shows "order_candles xs = cs"
proof -
  note st = strict_starts [OF assms(2,3)]
  have d: "distinct (map candle_start cs)" "sorted (map candle_start cs)" using st by (simp_all add: strict_sorted_iff)
  have "inj_on candle_start (set (sort_key candle_end xs))" using d(1) mset_eq_setD [OF assms(1)] by (simp add: distinct_map)
  then show ?thesis unfolding order_candles_def using d(2) assms(1) by (intro sort_key_inj_key_eq) simp_all
qed

lemma one_instrument_card:
  assumes "\<forall>c \<in> set cs. candle_instrument c = i" "cs \<noteq> []"
  shows "card (set (map candle_instrument cs)) = 1"
proof -
  have "set (map candle_instrument cs) = {i}" using assms by (cases cs) auto
  then show ?thesis by simp
qed

lemma verify_book_answer:
  assumes "wf_book book" "mset (result_candles r) = mset (book_window book p)"
    "fp_interval p = interval_for_timeframe (hr_timeframe (fp_requirement p))"
  shows "verify_source_candles p r = Inr (book_window book p)"
proof -
  note w = wf_book_window [OF assms(1), of p]
  have o: "order_candles (result_candles r) = book_window book p" by (rule order_candles_unique [OF assms(2) w(1,2)])
  have sets: "set (result_candles r) = set (book_window book p)" using assms(2) by (rule mset_eq_setD)
  have adj: "check_adjacent (book_window book p) = Inr ()" by (rule check_adjacent_ordered [OF w(1,2)])
  show ?thesis
  proof (cases "book_window book p = []")
    case True
    then show ?thesis using assms(2) by (simp add: verify_source_candles_def)
  next
    case False
    have ne: "result_candles r \<noteq> []" using False sets by auto
    have "mk_historical_series (hr_timeframe (fp_requirement p)) (result_candles r)
        = Inr \<lparr>hs_timeframe = hr_timeframe (fp_requirement p), hs_candles = book_window book p\<rparr>"
      using False adj one_instrument_card [OF w(3) False] by (simp add: mk_historical_series_def validate_series_identity_def o Let_def)
    then show ?thesis using ne w(3,4) sets assms(3) by (auto simp: verify_source_candles_def Let_def list_ex_iff)
  qed
qed

lemma finish_load_book:
  assumes "wf_book book" "stable_source book answers" "answers p a" "finish_load p a = Inr cs"
  shows "cs = book_window book p"
proof -
  obtain r where r: "a = Inr r" "mset (result_candles r) = mset (book_window book p)"
    using assms(2,3) unfolding stable_source_def by blast
  have "verify_source_candles p r = Inr cs" using assms(4) r(1) by (auto simp: finish_load_def)
  then show ?thesis
  proof (cases rule: verify_source_candles_cases)
    case empty
    then show ?thesis using r(2) by simp
  next
    case ordered
    then show ?thesis using order_candles_unique [OF r(2) wf_book_window(1,2) [OF assms(1)]] by simp
  qed
qed

lemma cache_get_book:
  assumes "wf_book book" "stable_source book answers" "verified_cache answers ca" "cache_get ca (plan_key p) = Some cs"
  shows "cs = book_window book p"
proof -
  obtain e where e: "map_of ca (fp_instrument p, hr_timeframe (fp_requirement p)) = Some e" "entry_covers e (fp_start p) (fp_end p)"
    "cs = filter (in_window (plan_key p)) (he_candles e)"
    using assms(4) by (auto simp: cache_get_def plan_key_def split: option.splits if_splits)
  have "verified_entry answers ((fp_instrument p, hr_timeframe (fp_requirement p)), e)"
    using assms(3) map_of_SomeD [OF e(1)] by (simp add: verified_cache_def)
  then obtain p0 a where p0: "answers p0 a" "finish_load p0 a = Inr (he_candles e)" "fp_instrument p0 = fp_instrument p"
    "hr_timeframe (fp_requirement p0) = hr_timeframe (fp_requirement p)" "he_coverage_start e = fp_start p0" "he_coverage_end e = fp_end p0"
    unfolding verified_entry_def by auto
  have "he_candles e = book_window book p0" by (rule finish_load_book [OF assms(1,2) p0(1,2)])
  moreover have "in_window (plan_key p0) c" if "in_window (plan_key p) c" for c
    using that e(2) p0(5,6) by (simp add: in_window_def plan_key_def entry_covers_def)
  ultimately show ?thesis using e(3) p0(3,4) by (auto simp: book_window_def filter_filter intro!: filter_cong)
qed

section \<open>Claims\<close>

text \<open>
  C11. At most one load per request, never more than the bound at once, and only verified data in the cache. Over any interleaving of fetches, task starts, source answers
  (failures, foreign bars and overlaps included) and evictions: no request has two tasks, the loads that run are distinct, each belongs to a pending task, and there are at
  most \<open>max_concurrency\<close> of them, and a pending task can start its load or another load is running; each stream has one cache entry, which is non-empty, of that instrument only, free of duplicates and overlaps, and the answer the
  source gave to exactly the covered window.
\<close>

theorem coordinator_loads_bounded:
  assumes "coordinator_reachable direct bound answers co"
  shows "distinct (map fst (hk_inflight co)) \<and> distinct (hk_running co) \<and> set (hk_running co) \<subseteq> fst ` set (hk_inflight co)
    \<and> int (length (hk_running co)) \<le> bound
    \<and> (\<forall>(k, p) \<in> set (hk_inflight co). k \<in> set (hk_running co) \<or> load_begin co k \<noteq> None \<or> hk_running co \<noteq> [])
    \<and> distinct (map fst (hk_cache co))
    \<and> (\<forall>((i, tf), e) \<in> set (hk_cache co). he_candles e \<noteq> [] \<and> (\<forall>c \<in> set (he_candles e). candle_instrument c = i) \<and> check_adjacent (he_candles e) = Inr ()
         \<and> (\<exists>p r. answers p (Inr r) \<and> plan_key p = \<lparr>rk_instrument = i, rk_timeframe = tf, rk_start = he_coverage_start e, rk_end = he_coverage_end e\<rparr>
                \<and> he_candles e = order_candles (result_candles r)))"
proof -
  note inv = coordinator_invariants [OF assms]
  have entry: "he_candles e \<noteq> [] \<and> (\<forall>c \<in> set (he_candles e). candle_instrument c = i) \<and> check_adjacent (he_candles e) = Inr ()
       \<and> (\<exists>p r. answers p (Inr r) \<and> plan_key p = \<lparr>rk_instrument = i, rk_timeframe = tf, rk_start = he_coverage_start e, rk_end = he_coverage_end e\<rparr>
                \<and> he_candles e = order_candles (result_candles r))"
    if x: "((i, tf), e) \<in> set (hk_cache co)" for i tf e
  proof -
    have "verified_entry answers ((i, tf), e)" using inv x by (auto simp: verified_cache_def)
    then obtain p a where p: "answers p a" "finish_load p a = Inr (he_candles e)" "he_candles e \<noteq> []" "i = fp_instrument p"
      "tf = hr_timeframe (fp_requirement p)" "he_coverage_start e = fp_start p" "he_coverage_end e = fp_end p"
      unfolding verified_entry_def by auto
    obtain r where r: "a = Inr r" "verify_source_candles p r = Inr (he_candles e)" using p(2) by (auto simp: finish_load_def)
    have key: "plan_key p = \<lparr>rk_instrument = i, rk_timeframe = tf, rk_start = he_coverage_start e, rk_end = he_coverage_end e\<rparr>"
      using p by (simp add: plan_key_def)
    show ?thesis using r(2)
    proof (cases rule: verify_source_candles_cases)
      case ordered
      then show ?thesis using p(1,4) r(1) key by blast
    qed (use p(3) in simp)
  qed
  have progress: "k \<in> set (hk_running co) \<or> load_begin co k \<noteq> None \<or> hk_running co \<noteq> []"
    if "(k, p) \<in> set (hk_inflight co)" for k p
  proof -
    have "map_of (hk_inflight co) k \<noteq> None" using weak_map_of_SomeI [OF that] by auto
    then show ?thesis using inv by (cases "hk_running co") (simp_all add: load_begin_def loads_bounded_def)
  qed
  show ?thesis using inv entry progress by (auto simp: loads_bounded_def verified_cache_def)
qed

text \<open>
  C10. The cache is transparent for a stable source. When the source answers each request with the provider's bars that start in the window, in any order, then in every reachable
  state a cache hit returns exactly the provider's bars for the requested window, oldest first, although the entry may come from a different, larger request; and a
  load that ends returns them too.
\<close>

theorem cache_transparent_for_stable_source:
  assumes "wf_book book" "stable_source book answers" "coordinator_reachable direct bound answers co"
  shows "(\<forall>p cs. fst (coordinator_fetch co p) = Hit cs \<longrightarrow> cs = book_window book p)
    \<and> (\<forall>k p a. map_of (hk_inflight co) k = Some p \<longrightarrow> answers p a \<longrightarrow> fp_start p < fp_end p \<longrightarrow>
         fp_interval p = interval_for_timeframe (hr_timeframe (fp_requirement p)) \<longrightarrow> 0 < fp_interval p \<longrightarrow>
         fst (load_end co k a) = Inr (book_window book p))"
proof (intro conjI allI impI)
  fix p cs
  assume "fst (coordinator_fetch co p) = Hit cs"
  then have "cache_get (hk_cache co) (plan_key p) = Some cs" by (simp add: coordinator_fetch_def split: option.splits)
  then show "cs = book_window book p"
    using cache_get_book [OF assms(1,2)] coordinator_invariants [OF assms(3)] by blast
next
  fix k p a
  assume k: "map_of (hk_inflight co) k = Some p" and a: "answers p a" and w: "fp_start p < fp_end p"
    and iv: "fp_interval p = interval_for_timeframe (hr_timeframe (fp_requirement p))" "0 < fp_interval p"
  obtain r where r: "a = Inr r" "mset (result_candles r) = mset (book_window book p)"
    using assms(2) a unfolding stable_source_def by blast
  have "finish_load p a = Inr (book_window book p)"
    using verify_book_answer [OF assms(1) r(2) iv(1)] r(1) w iv(2)
    by (simp add: finish_load_def plan_request_def mk_historical_request_def require_aware_timestamp_def)
  then show "fst (load_end co k a) = Inr (book_window book p)" using k by (simp add: load_end_def Let_def)
qed

text \<open>
  C35. A cached refetch of the very same plan loses the bars the source stamped outside the window. A load returns every bar of the verified answer, but the
  following hit keeps only those whose start lies in the half-open window. Daily bars are stamped anywhere in their day (05:30 exchange time in the recorded provider
  answer, before the 09:15 window start), so the second warmup sees one session less than the first.
\<close>

theorem cached_refetch_loses_early_bars:
  assumes "map_of (hk_inflight co) (plan_key p) = Some p" "finish_load p a = Inr cs" "c \<in> set cs" "\<not> in_window (plan_key p) c"
  shows "fst (load_end co (plan_key p) a) = Inr cs
    \<and> fst (coordinator_fetch (snd (load_end co (plan_key p) a)) p) = Hit (filter (in_window (plan_key p)) cs)
    \<and> length (filter (in_window (plan_key p)) cs) < length cs"
proof (intro conjI)
  obtain x xs where cs: "cs = x # xs" using assms(3) by (cases cs) auto
  show "fst (load_end co (plan_key p) a) = Inr cs" using assms(1,2) by (simp add: load_end_def Let_def)
  have "hk_cache (snd (load_end co (plan_key p) a)) = cache_put (hk_cache co) (plan_key p) cs"
    using assms(1,2) cs by (simp add: load_end_def Let_def)
  then show "fst (coordinator_fetch (snd (load_end co (plan_key p) a)) p) = Hit (filter (in_window (plan_key p)) cs)"
    by (simp add: coordinator_fetch_def cache_get_def cache_put_def update_conv' entry_covers_def)
  show "length (filter (in_window (plan_key p)) cs) < length cs" using assms(3,4) by (rule length_filter_less)
qed

section \<open>Witnesses\<close>

text \<open>The two daily bars of the recorded answer, stamped at midnight UTC, and the two-session plan over them.\<close>

definition tcs_bar :: "int \<Rightarrow> int \<Rightarrow> candle" where
  "tcs_bar second width =
     \<lparr>candle_instrument = cash_equity ''NSE'' ''TCS'', candle_start = second * 1000000, candle_end = (second + width) * 1000000,
      candle_open = 100, candle_high = 102, candle_low = 99, candle_close = 101, candle_quantity = 1250\<rparr>"

definition tcs_plan :: "timeframe \<Rightarrow> int \<Rightarrow> int \<Rightarrow> fetch_plan" where
  "tcs_plan tf first_second last_second =
     \<lparr>fp_instrument = cash_equity ''NSE'' ''TCS'', fp_requirement = \<lparr>hr_timeframe = tf, hr_lookback = 2\<rparr>, fp_start = first_second * 1000000,
      fp_end = last_second * 1000000, fp_interval = interval_for_timeframe tf\<rparr>"

definition tcs_result :: "candle list \<Rightarrow> historical_result" where
  "tcs_result cs = \<lparr>result_request = \<lparr>req_instrument = cash_equity ''NSE'' ''TCS'', req_start = 0, req_end = 1, req_interval = 1\<rparr>, result_candles = cs\<rparr>"

definition daily_plan :: fetch_plan where
  "daily_plan = tcs_plan (Timeframe SESSION None) 1735703100 1735812000"

definition daily_answer :: "historical_result res" where
  "daily_answer = Inr (tcs_result [tcs_bar 1735689600 86400, tcs_bar 1735776000 86400])"

definition idle_coordinator :: fetch_coordinator where
  "idle_coordinator = \<lparr>hk_direct = [], hk_max_concurrency = 2, hk_cache = [], hk_inflight = [], hk_running = []\<rparr>"

definition loading_coordinator :: "fetch_plan \<Rightarrow> fetch_coordinator" where
  "loading_coordinator p = idle_coordinator\<lparr>hk_inflight := [(plan_key p, p)], hk_running := [plan_key p]\<rparr>"

lemmas demo_bars = tcs_bar_def tcs_plan_def tcs_result_def daily_plan_def daily_answer_def

lemma loading_coordinator_reachable: "coordinator_reachable [] 2 answers (loading_coordinator p)"
proof -
  have "coordinator_reachable [] 2 answers idle_coordinator"
    by (rule coordinator_reachable.start) (simp add: mk_fetch_coordinator_def idle_coordinator_def)
  from coordinator_reachable.fetch [OF this, of p]
  have "coordinator_reachable [] 2 answers (idle_coordinator\<lparr>hk_inflight := [(plan_key p, p)]\<rparr>)"
    by (simp add: coordinator_fetch_def cache_get_def idle_coordinator_def)
  then show ?thesis
    by (rule coordinator_reachable.begin_load [where k = "plan_key p"]) (simp add: load_begin_def loading_coordinator_def idle_coordinator_def)
qed

lemma daily_answer_verified:
  "finish_load daily_plan daily_answer = Inr [tcs_bar 1735689600 86400, tcs_bar 1735776000 86400]"
  by (simp add: finish_load_def plan_request_def mk_historical_request_def demo_bars verify_source_candles_def mk_historical_series_def
      validate_series_identity_def order_candles_def interval_for_timeframe_def is_session_def Let_def)

theorem coordinator_loads_bounded_witness:
  "int (length (hk_running (loading_coordinator daily_plan))) \<le> 2
   \<and> fst ` set (hk_inflight (snd (load_end (loading_coordinator daily_plan) (plan_key daily_plan) daily_answer))) = {}
   \<and> hk_cache (snd (load_end (loading_coordinator daily_plan) (plan_key daily_plan) daily_answer)) \<noteq> []
   \<and> distinct (map fst (hk_cache (snd (load_end (loading_coordinator daily_plan) (plan_key daily_plan) daily_answer))))"
proof -
  let ?ans = "\<lambda>p a. p = daily_plan \<and> a = daily_answer" and ?co = "loading_coordinator daily_plan"
  have r: "coordinator_reachable [] 2 ?ans ?co" by (rule loading_coordinator_reachable)
  have e: "coordinator_reachable [] 2 ?ans (snd (load_end ?co (plan_key daily_plan) daily_answer))"
    by (rule coordinator_reachable.end_load [OF r, where p = daily_plan]) (simp_all add: loading_coordinator_def)
  have c: "fst ` set (hk_inflight (snd (load_end ?co (plan_key daily_plan) daily_answer))) = {}"
    "hk_cache (snd (load_end ?co (plan_key daily_plan) daily_answer)) \<noteq> []"
    using daily_answer_verified by (simp_all add: load_end_def loading_coordinator_def Let_def cache_put_def)
  show ?thesis using coordinator_loads_bounded [OF r] coordinator_loads_bounded [OF e] c by blast
qed

theorem cached_refetch_loses_early_bars_witness:
  "fst (coordinator_fetch (snd (load_end (loading_coordinator daily_plan) (plan_key daily_plan) daily_answer)) daily_plan) = Hit [tcs_bar 1735776000 86400]"
proof -
  have out: "\<not> in_window (plan_key daily_plan) (tcs_bar 1735689600 86400)"
    and ins: "in_window (plan_key daily_plan) (tcs_bar 1735776000 86400)"
    by (simp_all add: in_window_def plan_key_def demo_bars)
  have "map_of (hk_inflight (loading_coordinator daily_plan)) (plan_key daily_plan) = Some daily_plan" by (simp add: loading_coordinator_def)
  from cached_refetch_loses_early_bars [OF this daily_answer_verified _ out] show ?thesis using out ins by simp
qed

text \<open>A provider with two one-minute bars of TCS: the larger request is cached and answers the smaller one.\<close>

definition minute_book :: provider_book where
  "minute_book i tf = (if i = cash_equity ''NSE'' ''TCS'' \<and> tf = one_minute then [tcs_bar 1735703100 60, tcs_bar 1735703160 60] else [])"

definition minute_answers :: "fetch_plan \<Rightarrow> historical_result res \<Rightarrow> bool" where
  "minute_answers p a \<longleftrightarrow> a = Inr (tcs_result (rev (book_window minute_book p)))"

lemma minute_book_wf: "wf_book minute_book"
  by (simp add: wf_book_def minute_book_def tcs_bar_def wf_candle_def interval_for_timeframe_def one_minute_def)

lemma minute_source_stable: "stable_source minute_book minute_answers"
  by (simp add: stable_source_def minute_answers_def tcs_result_def)

theorem cache_transparent_for_stable_source_witness:
  "\<exists>cs. fst (coordinator_fetch (snd (load_end (loading_coordinator (tcs_plan one_minute 1735703100 1735703220))
         (plan_key (tcs_plan one_minute 1735703100 1735703220)) (Inr (tcs_result [tcs_bar 1735703160 60, tcs_bar 1735703100 60]))))
       (tcs_plan one_minute 1735703160 1735703220)) = Hit cs
     \<and> cs = book_window minute_book (tcs_plan one_minute 1735703160 1735703220) \<and> cs = [tcs_bar 1735703160 60]"
proof -
  let ?p = "tcs_plan one_minute 1735703100 1735703220" and ?q = "tcs_plan one_minute 1735703160 1735703220"
    and ?a = "Inr (tcs_result [tcs_bar 1735703160 60, tcs_bar 1735703100 60]) :: historical_result res"
  let ?co = "loading_coordinator ?p"
  have wp: "book_window minute_book ?p = [tcs_bar 1735703100 60, tcs_bar 1735703160 60]"
    and wq: "book_window minute_book ?q = [tcs_bar 1735703160 60]"
    by (simp_all add: book_window_def minute_book_def in_window_def plan_key_def tcs_plan_def tcs_bar_def)
  have a: "minute_answers ?p ?a" by (simp add: minute_answers_def wp)
  have r: "coordinator_reachable [] 2 minute_answers ?co" by (rule loading_coordinator_reachable)
  have k: "map_of (hk_inflight ?co) (plan_key ?p) = Some ?p" by (simp add: loading_coordinator_def)
  have e: "coordinator_reachable [] 2 minute_answers (snd (load_end ?co (plan_key ?p) ?a))"
    by (rule coordinator_reachable.end_load [OF r _ k a]) (simp add: loading_coordinator_def)
  note thm_load = cache_transparent_for_stable_source [OF minute_book_wf minute_source_stable r, THEN conjunct2, rule_format, OF k a]
  have "fst (load_end ?co (plan_key ?p) ?a) = Inr (book_window minute_book ?p)"
    by (rule thm_load) (simp_all add: tcs_plan_def interval_for_timeframe_def one_minute_def)
  then have fin: "finish_load ?p ?a = Inr [tcs_bar 1735703100 60, tcs_bar 1735703160 60]" using wp k by (simp add: load_end_def Let_def)
  have ca: "hk_cache (snd (load_end ?co (plan_key ?p) ?a)) = cache_put [] (plan_key ?p) [tcs_bar 1735703100 60, tcs_bar 1735703160 60]"
    using k fin by (simp add: load_end_def Let_def loading_coordinator_def idle_coordinator_def)
  have "\<exists>cs. cache_get (cache_put [] (plan_key ?p) [tcs_bar 1735703100 60, tcs_bar 1735703160 60]) (plan_key ?q) = Some cs"
    by (simp add: cache_get_def cache_put_def plan_key_def tcs_plan_def entry_covers_def)
  then have "\<exists>cs. fst (coordinator_fetch (snd (load_end ?co (plan_key ?p) ?a)) ?q) = Hit cs" by (auto simp: coordinator_fetch_def ca)
  then obtain cs where hit: "fst (coordinator_fetch (snd (load_end ?co (plan_key ?p) ?a)) ?q) = Hit cs" by (elim exE)
  have "cs = book_window minute_book ?q"
    using cache_transparent_for_stable_source [OF minute_book_wf minute_source_stable e, THEN conjunct1] hit by blast
  then show ?thesis using hit wq by blast
qed

end
