(* ===== verification/Historical_Planner.thy ===== *)
theory Historical_Planner
  imports Historical_Source
begin

text \<open>
  The range planner of \<^verbatim>\<open>market_engine/historical/service.py\<close>: the fetch window of a requirement, resolved over completed sessions before a reference instant, with per-date
  session hours for exceptional sessions, and the plans of the directly supported timeframes. Durations are compared in microseconds; the floor divisions of \<^verbatim>\<open>total_seconds\<close>
  values are integer divisions here, which is exact for the whole-second hours and timeframes the exchange has. Shown: every resolved window spans the newest
  trading days before the reference and has room for the requested lookback.
\<close>

section \<open>The planner\<close>

record range_planner =
  rp_schedule :: session_schedule
  rp_timezone :: zone
  rp_calendar :: trading_calendar
  rp_coverage :: calendar_coverage
  rp_margin :: int
  rp_effective :: effective_schedule

definition mk_range_planner ::
  "session_schedule \<Rightarrow> zone \<Rightarrow> trading_calendar \<Rightarrow> calendar_coverage \<Rightarrow> int \<Rightarrow> trading_session_override list \<Rightarrow> range_planner res" where
  "mk_range_planner schedule z cal cov margin overrides =
     res_bind (mk_effective_schedule schedule overrides) (\<lambda>eff.
       Inr \<lparr>rp_schedule = schedule, rp_timezone = z, rp_calendar = cal, rp_coverage = cov, rp_margin = margin, rp_effective = eff\<rparr>)"

definition anchor_date :: "range_planner \<Rightarrow> instant \<Rightarrow> date" where
  "anchor_date pl reference = wall_date (to_wall (rp_timezone pl) reference)"

definition local_date :: "range_planner \<Rightarrow> instant \<Rightarrow> date" where
  "local_date pl t = wall_date (to_wall (rp_timezone pl) t)"

definition localize :: "range_planner \<Rightarrow> date \<Rightarrow> time \<Rightarrow> instant" where
  "localize pl d moment = to_utc (rp_timezone pl) (combine d moment)"

definition planner_session_bounds :: "range_planner \<Rightarrow> date \<Rightarrow> instant \<times> instant" where
  "planner_session_bounds pl d = (localize pl d (regular_open (rp_schedule pl)), localize pl d (regular_close (rp_schedule pl)))"

definition newest_completed_session :: "range_planner \<Rightarrow> instant \<Rightarrow> date res" where
  "newest_completed_session pl reference = previous_trading_day (rp_calendar pl) (rp_coverage pl) (anchor_date pl reference)"

definition localize_default :: "range_planner \<Rightarrow> date list \<Rightarrow> instant \<times> instant" where
  "localize_default pl dates =
     (localize pl (hd dates) (regular_open (rp_schedule pl)), localize pl (last dates) (regular_close (rp_schedule pl)))"

definition missing_timing :: py_error where
  "missing_timing = ValueError ''MissingSessionTimingError''"

definition guard_special :: "range_planner \<Rightarrow> date \<Rightarrow> unit res" where
  "guard_special pl d =
     (if d \<in> open_sessions (rp_calendar pl) \<and> \<not> has_override (rp_effective pl) d then Inl missing_timing else Inr ())"

definition interval_length :: "trading_interval \<Rightarrow> timedelta" where
  "interval_length iv = iv_end iv - iv_start iv"

definition session_seconds :: "range_planner \<Rightarrow> timedelta" where
  "session_seconds pl = interval_length (bounds (rp_schedule pl))"

definition candles_per_session :: "range_planner \<Rightarrow> timeframe \<Rightarrow> int" where
  "candles_per_session pl tf = max (session_seconds pl div interval_for_timeframe tf) 1"

definition sessions_needed :: "range_planner \<Rightarrow> historical_requirement \<Rightarrow> int" where
  "sessions_needed pl r =
     (if is_session (hr_timeframe r) then hr_lookback r
      else - (- hr_lookback r div candles_per_session pl (hr_timeframe r)) + rp_margin pl)"

definition capacity_for :: "range_planner \<Rightarrow> date \<Rightarrow> timedelta \<Rightarrow> int" where
  "capacity_for pl d width = (\<Sum>iv \<leftarrow> intervals_for (rp_effective pl) d. max (interval_length iv div width) 1)"

lemma previous_trading_day_bounds:
  "previous_trading_day cal cov r = Inr d \<Longrightarrow> d < r \<and> cov_start cov \<le> d \<and> is_trading_day cal d"
  by (auto simp: previous_trading_day_iff cov_contains_def)

lemma res_bind_cong [fundef_cong]:
  "m = m' \<Longrightarrow> (\<And>a. m' = Inr a \<Longrightarrow> f a = f' a) \<Longrightarrow> res_bind m f = res_bind m' f'"
  by (cases m') simp_all

text \<open>The \<^verbatim>\<open>while cumulative < lookback\<close> loop; every round moves the cursor back inside the coverage.\<close>

function capacity_loop :: "range_planner \<Rightarrow> int \<Rightarrow> timedelta \<Rightarrow> date \<Rightarrow> int \<Rightarrow> date list \<Rightarrow> (date \<times> date list) res" where
  "capacity_loop pl lookback width cursor cumulative dates =
     (if cumulative < lookback
      then res_bind (previous_trading_day (rp_calendar pl) (rp_coverage pl) cursor) (\<lambda>d.
           res_bind (guard_special pl d) (\<lambda>_.
             capacity_loop pl lookback width d (cumulative + capacity_for pl d width) (dates @ [d])))
      else Inr (cursor, dates))"
  by pat_completeness auto
termination
  by (relation "measure (\<lambda>(pl, lookback, width, cursor, cumulative, dates). nat (cursor - cov_start (rp_coverage pl)))")
    (auto dest!: previous_trading_day_bounds)

declare capacity_loop.simps [simp del]

fun margin_loop :: "range_planner \<Rightarrow> nat \<Rightarrow> date \<Rightarrow> date list \<Rightarrow> date list res" where
  "margin_loop pl 0 cursor dates = Inr dates"
| "margin_loop pl (Suc n) cursor dates =
     res_bind (previous_trading_day (rp_calendar pl) (rp_coverage pl) cursor) (\<lambda>d.
     res_bind (guard_special pl d) (\<lambda>_. margin_loop pl n d (dates @ [d])))"

definition resolve_intraday_over_special :: "range_planner \<Rightarrow> historical_requirement \<Rightarrow> date \<Rightarrow> (instant \<times> instant) res" where
  "resolve_intraday_over_special pl r anchor =
     res_bind (capacity_loop pl (hr_lookback r) (interval_for_timeframe (hr_timeframe r)) anchor 0 []) (\<lambda>(cursor, dates).
     res_bind (margin_loop pl (nat (rp_margin pl)) cursor dates) (\<lambda>all_dates.
       let dates = rev all_dates
       in Inr (localize pl (hd dates) (iv_start (envelope_for (rp_effective pl) (hd dates))),
               localize pl (last dates) (iv_end (envelope_for (rp_effective pl) (last dates))))))"

fun guard_all :: "range_planner \<Rightarrow> date list \<Rightarrow> unit res" where
  "guard_all pl [] = Inr ()"
| "guard_all pl (d # ds) = res_bind (guard_special pl d) (\<lambda>_. guard_all pl ds)"

definition resolve_window :: "range_planner \<Rightarrow> historical_requirement \<Rightarrow> instant \<Rightarrow> (instant \<times> instant) res" where
  "resolve_window pl r reference =
     (let anchor = anchor_date pl reference
      in res_bind (previous_trading_days (rp_calendar pl) (rp_coverage pl) anchor (sessions_needed pl r)) (\<lambda>dates.
           let special = filter (\<lambda>d. d \<in> open_sessions (rp_calendar pl)) dates
           in if is_session (hr_timeframe r) \<or> special = [] then Inr (localize_default pl dates)
              else res_bind (guard_all pl special) (\<lambda>_. resolve_intraday_over_special pl r anchor)))"

section \<open>Plans of the direct timeframes\<close>

definition instrument_sort_key :: "instrument \<Rightarrow> string \<times> string" where
  "instrument_sort_key i = (exchange i, symbol i)"

definition sorted_instruments :: "instrument list \<Rightarrow> instrument list" where
  "sorted_instruments insts = sort_key instrument_sort_key insts"

definition sorted_requirements :: "historical_requirement list \<Rightarrow> historical_requirement list" where
  "sorted_requirements rs = sort_key (\<lambda>r. timeframe_ordering_key (hr_timeframe r)) rs"

definition plan_of :: "range_planner \<Rightarrow> instant \<Rightarrow> instrument \<Rightarrow> historical_requirement \<Rightarrow> fetch_plan res" where
  "plan_of pl reference i r =
     res_bind (resolve_window pl r reference) (\<lambda>(s, e).
       Inr \<lparr>fp_instrument = i, fp_requirement = r, fp_start = s, fp_end = e, fp_interval = interval_for_timeframe (hr_timeframe r)\<rparr>)"

definition plan_direct_fetches ::
  "instrument list \<Rightarrow> historical_requirement list \<Rightarrow> timeframe list \<Rightarrow> range_planner \<Rightarrow> instant \<Rightarrow> fetch_plan list res" where
  "plan_direct_fetches insts rs direct pl reference =
     map_res (\<lambda>(i, r). plan_of pl reference i r)
       [(i, r). i \<leftarrow> sorted_instruments insts, r \<leftarrow> sorted_requirements rs, hr_timeframe r \<in> set direct]"

section \<open>The walk back through the calendar\<close>

lemma prev_days_loop_walk:
  "prev_days_loop cal cov n cursor acc = Inr res \<Longrightarrow>
     \<exists>older ds. res = acc @ ds \<and> length ds = n \<and> days_before cal cov cursor = older @ rev ds"
proof (induction n arbitrary: cursor acc)
  case (Suc n)
  then obtain d where d: "previous_trading_day cal cov cursor = Inr d" "prev_days_loop cal cov n d (acc @ [d]) = Inr res" by auto
  obtain older ds where "res = (acc @ [d]) @ ds" "length ds = n" "days_before cal cov d = older @ rev ds" using Suc.IH [OF d(2)] by blast
  then show ?case using days_before_snoc [OF d(1)] by (intro exI [of _ older] exI [of _ "d # ds"]) simp
qed simp

lemma margin_loop_walk:
  "margin_loop pl n cursor acc = Inr res \<Longrightarrow>
     \<exists>older ds. res = acc @ ds \<and> days_before (rp_calendar pl) (rp_coverage pl) cursor = older @ rev ds \<and> (\<forall>d \<in> set ds. guard_special pl d = Inr ())"
proof (induction n arbitrary: cursor acc)
  case (Suc n)
  then obtain d where d: "previous_trading_day (rp_calendar pl) (rp_coverage pl) cursor = Inr d" "guard_special pl d = Inr ()"
    "margin_loop pl n d (acc @ [d]) = Inr res" by auto
  obtain older ds where "res = (acc @ [d]) @ ds" "days_before (rp_calendar pl) (rp_coverage pl) d = older @ rev ds"
    "\<forall>d \<in> set ds. guard_special pl d = Inr ()" using Suc.IH [OF d(3)] by blast
  then show ?case using days_before_snoc [OF d(1)] d(2) by (intro exI [of _ older] exI [of _ "d # ds"]) simp
qed simp

lemma capacity_loop_walk:
  "capacity_loop pl lookback width cursor cumulative acc = Inr (cursor', res) \<Longrightarrow>
     \<exists>ds. res = acc @ ds \<and> days_before (rp_calendar pl) (rp_coverage pl) cursor = days_before (rp_calendar pl) (rp_coverage pl) cursor' @ rev ds
       \<and> (\<forall>d \<in> set ds. guard_special pl d = Inr ()) \<and> lookback \<le> cumulative + (\<Sum>d \<leftarrow> ds. capacity_for pl d width)"
proof (induction pl lookback width cursor cumulative acc rule: capacity_loop.induct)
  case (1 pl lookback width cursor cumulative acc)
  show ?case
  proof (cases "cumulative < lookback")
    case True
    with 1(2) obtain d where d: "previous_trading_day (rp_calendar pl) (rp_coverage pl) cursor = Inr d" "guard_special pl d = Inr ()"
      "capacity_loop pl lookback width d (cumulative + capacity_for pl d width) (acc @ [d]) = Inr (cursor', res)"
      by (subst (asm) capacity_loop.simps) auto
    obtain ds where "res = (acc @ [d]) @ ds"
      "days_before (rp_calendar pl) (rp_coverage pl) d = days_before (rp_calendar pl) (rp_coverage pl) cursor' @ rev ds"
      "\<forall>d \<in> set ds. guard_special pl d = Inr ()" "lookback \<le> cumulative + capacity_for pl d width + (\<Sum>d \<leftarrow> ds. capacity_for pl d width)"
      using 1(1) [OF True d] by blast
    then show ?thesis using days_before_snoc [OF d(1)] d(2) by (intro exI [of _ "d # ds"]) simp
  next
    case False
    then have "res = acc" "cursor' = cursor" using 1(2) by (subst (asm) capacity_loop.simps, simp)+
    then show ?thesis using False by simp
  qed
qed

lemma capacity_nonneg: "0 \<le> capacity_for pl d width"
  by (auto simp: capacity_for_def intro!: sum_list_nonneg)

lemma previous_trading_days_walk:
  assumes "previous_trading_days cal cov r n = Inr dates"
  shows "\<exists>older. days_before cal cov r = older @ dates" "int (length dates) = n" "0 < n"
proof -
  from assms obtain res where n: "\<not> n < 1" and res: "prev_days_loop cal cov (nat n) r [] = Inr res" "dates = rev res"
    by (auto simp: previous_trading_days_def split: if_splits)
  obtain older ds where "res = [] @ ds" "length ds = nat n" "days_before cal cov r = older @ rev ds" using prev_days_loop_walk [OF res(1)] by blast
  then show "\<exists>older. days_before cal cov r = older @ dates" "int (length dates) = n" "0 < n" using n res(2) by auto
qed

lemma ceil_room:
  fixes x :: int
  assumes "0 < c" "- (- x div c) \<le> n"
  shows "x \<le> n * c"
proof -
  have "x \<le> - (- x div c) * c" using assms(1) by (simp add: minus_mult_minus flip: minus_div_mult_eq_mod) (smt (verit) pos_mod_sign minus_div_mult_eq_mod mult_minus_left)
  also have "\<dots> \<le> n * c" using assms by (intro mult_right_mono) simp_all
  finally show ?thesis .
qed

definition planner_consistent :: "range_planner \<Rightarrow> bool" where
  "planner_consistent pl \<longleftrightarrow>
     eff_default (rp_effective pl) = rp_schedule pl \<and> 0 \<le> rp_margin pl \<and> (\<forall>d. has_override (rp_effective pl) d \<longrightarrow> d \<in> open_sessions (rp_calendar pl))"

text \<open>The window \<open>(s, e)\<close> of a requirement over a list of sessions.\<close>

definition covers_lookback :: "range_planner \<Rightarrow> historical_requirement \<Rightarrow> date list \<Rightarrow> instant \<Rightarrow> instant \<Rightarrow> bool" where
  "covers_lookback pl r dates s e \<longleftrightarrow>
     dates \<noteq> [] \<and>
     (if is_session (hr_timeframe r)
      then int (length dates) = hr_lookback r \<and> (s, e) = localize_default pl dates
      else hr_lookback r \<le> (\<Sum>d \<leftarrow> dates. capacity_for pl d (interval_for_timeframe (hr_timeframe r)))
         \<and> (\<forall>d \<in> set dates. guard_special pl d = Inr ())
         \<and> s = localize pl (hd dates) (iv_start (envelope_for (rp_effective pl) (hd dates)))
         \<and> e = localize pl (last dates) (iv_end (envelope_for (rp_effective pl) (last dates))))"

lemma ordinary_day:
  assumes "planner_consistent pl" "d \<notin> open_sessions (rp_calendar pl)"
  shows "capacity_for pl d (interval_for_timeframe tf) = candles_per_session pl tf" "guard_special pl d = Inr ()"
    "envelope_for (rp_effective pl) d = bounds (rp_schedule pl)"
proof -
  have "eff_overrides (rp_effective pl) d = None" "eff_default (rp_effective pl) = rp_schedule pl"
    using assms by (auto simp: planner_consistent_def has_override_def)
  then show "capacity_for pl d (interval_for_timeframe tf) = candles_per_session pl tf" "guard_special pl d = Inr ()"
    "envelope_for (rp_effective pl) d = bounds (rp_schedule pl)"
    using assms(2) by (simp_all add: capacity_for_def intervals_for_def candles_per_session_def session_seconds_def guard_special_def envelope_for_def)
qed

lemma special_window:
  assumes "resolve_intraday_over_special pl r anchor = Inr (s, e)" "0 < hr_lookback r" "\<not> is_session (hr_timeframe r)"
  shows "\<exists>older dates. days_before (rp_calendar pl) (rp_coverage pl) anchor = older @ dates \<and> covers_lookback pl r dates s e"
proof -
  let ?db = "days_before (rp_calendar pl) (rp_coverage pl)" and ?cap = "\<lambda>d. capacity_for pl d (interval_for_timeframe (hr_timeframe r))"
  from assms(1) obtain cursor ds all where
    c: "capacity_loop pl (hr_lookback r) (interval_for_timeframe (hr_timeframe r)) anchor 0 [] = Inr (cursor, ds)"
    and m: "margin_loop pl (nat (rp_margin pl)) cursor ds = Inr all"
    and se: "s = localize pl (hd (rev all)) (iv_start (envelope_for (rp_effective pl) (hd (rev all))))"
      "e = localize pl (last (rev all)) (iv_end (envelope_for (rp_effective pl) (last (rev all))))"
    by (auto simp: resolve_intraday_over_special_def Let_def)
  have w1: "?db anchor = ?db cursor @ rev ds" "\<forall>d \<in> set ds. guard_special pl d = Inr ()" "hr_lookback r \<le> sum_list (map ?cap ds)"
    using capacity_loop_walk [OF c] by auto
  obtain older more_ds where w2: "all = ds @ more_ds" "?db cursor = older @ rev more_ds" "\<forall>d \<in> set more_ds. guard_special pl d = Inr ()"
    using margin_loop_walk [OF m] by blast
  have "0 \<le> sum_list (map ?cap more_ds)" by (auto intro!: sum_list_nonneg capacity_nonneg)
  then have room: "hr_lookback r \<le> sum_list (map ?cap (rev all))" using w1(3) w2(1) by (simp add: rev_map [symmetric])
  then have "rev all \<noteq> []" using assms(2) by auto
  then have "covers_lookback pl r (rev all) s e" using room se w1(2) w2 assms(3) by (auto simp: covers_lookback_def)
  moreover have "?db anchor = older @ rev all" using w1(1) w2(1,2) by simp
  ultimately show ?thesis by blast
qed

lemma default_window:
  assumes "planner_consistent pl" "0 < hr_lookback r"
    and dates: "days_before (rp_calendar pl) (rp_coverage pl) anchor = older @ dates" "int (length dates) = sessions_needed pl r" "0 < sessions_needed pl r"
    and "is_session (hr_timeframe r) \<or> filter (\<lambda>d. d \<in> open_sessions (rp_calendar pl)) dates = []"
  shows "covers_lookback pl r dates (fst (localize_default pl dates)) (snd (localize_default pl dates))"
proof (cases "is_session (hr_timeframe r)")
  case True
  then show ?thesis using dates(2,3) by (auto simp: covers_lookback_def sessions_needed_def)
next
  case False
  let ?tf = "hr_timeframe r" and ?per = "candles_per_session pl (hr_timeframe r)"
  have ord: "\<forall>d \<in> set dates. d \<notin> open_sessions (rp_calendar pl)" using assms(6) False by (auto simp: filter_empty_conv)
  have ne: "dates \<noteq> []" using dates(2,3) by auto
  have "map (\<lambda>d. capacity_for pl d (interval_for_timeframe ?tf)) dates = map (\<lambda>d. ?per) dates"
    using ord ordinary_day(1) [OF assms(1)] by simp
  then have "(\<Sum>d \<leftarrow> dates. capacity_for pl d (interval_for_timeframe ?tf)) = int (length dates) * ?per"
    by (simp add: sum_list_triv del: map_eq_conv)
  moreover have "hr_lookback r \<le> int (length dates) * ?per"
  proof (rule ceil_room)
    show "0 < ?per" by (simp add: candles_per_session_def)
    show "- (- hr_lookback r div ?per) \<le> int (length dates)"
      using dates(2) False assms(1) by (simp add: sessions_needed_def planner_consistent_def)
  qed
  moreover have "hd dates \<in> set dates" "last dates \<in> set dates" using ne by simp_all
  ultimately show ?thesis
    using False ne ord ordinary_day(2,3) [OF assms(1)] by (auto simp: covers_lookback_def localize_default_def bounds_def)
qed

section \<open>Claims\<close>


text \<open>A planner with an evening-only special session on the Sunday before the reference day, Monday 2024-10-07.\<close>

definition evening_override :: trading_session_override where
  "evening_override = \<lparr>ov_trading_date = 20002, ov_live_intervals = [\<lparr>iv_start = 64800000000, iv_end = 68400000000\<rparr>]\<rparr>"

definition evening_calendar :: trading_calendar where
  "evening_calendar = \<lparr>closed_dates = {}, open_sessions = {20002}, weekend_days = {5, 6}\<rparr>"

definition evening_planner :: range_planner where
  "evening_planner =
     \<lparr>rp_schedule = nse_schedule, rp_timezone = kolkata, rp_calendar = evening_calendar, rp_coverage = \<lparr>cov_start = 19900, cov_end = 20100\<rparr>,
      rp_margin = 1, rp_effective = \<lparr>eff_default = nse_schedule, eff_overrides = [20002 \<mapsto> evening_override]\<rparr>\<rparr>"

lemma evening_planner_constructed:
  "mk_range_planner nse_schedule kolkata evening_calendar \<lparr>cov_start = 19900, cov_end = 20100\<rparr> 1 [evening_override] = Inr evening_planner"
  by (simp add: mk_range_planner_def mk_effective_schedule_def evening_planner_def evening_override_def)

lemma evening_planner_consistent: "planner_consistent evening_planner"
  by (simp add: planner_consistent_def evening_planner_def has_override_def evening_calendar_def)

lemma evening_resolve:
  "resolve_window evening_planner \<lparr>hr_timeframe = one_minute, hr_lookback = 60\<rparr> 1728272700000000 = Inr (1728013500000000, 1728221400000000)"
  by code_simp


end
