(* ===== verification/Historical_Warmup.thy ===== *)
theory Historical_Warmup
  imports Historical_Planner Tick_Engine
begin

text \<open>
  The warmup service of \<^verbatim>\<open>market_engine/historical/service.py\<close>: classification of the requirements, the concurrent fetch of all plans, assembly and
  installation of one historical context per instrument with its status, and the repair of incomplete candles. \<^verbatim>\<open>warmup\<close> is split at its one suspension:
  \<open>warmup_begin\<close> plans, \<open>fetch_all\<close> is the gathered fetch, whose last argument lists the source's answers in the order the loads complete, and \<open>warmup_finish\<close>
  assembles. Where Python raises, the effects made so far stay. Shown: what was fetched does not depend on the order of completion, the statuses account for
  every requirement and the installed context is exactly the satisfied part, and which intervals a repair can and cannot reach.
\<close>

section \<open>States\<close>

datatype warmup_state = NOT_STARTED | WARMING | SATISFIED | PARTIAL | WARMUP_FAILED

record warmup_status =
  wu_instrument :: instrument
  wu_state :: warmup_state
  wu_satisfied :: "timeframe list"
  wu_unresolved :: "timeframe list"
  wu_pending :: "timeframe list"

definition warming_status :: "instrument \<Rightarrow> warmup_status" where
  "warming_status i = \<lparr>wu_instrument = i, wu_state = WARMING, wu_satisfied = [], wu_unresolved = [], wu_pending = []\<rparr>"

definition terminal_status :: "instrument \<Rightarrow> timeframe list \<Rightarrow> timeframe list \<Rightarrow> timeframe list \<Rightarrow> warmup_status" where
  "terminal_status i satisfied unresolved pending =
     \<lparr>wu_instrument = i,
      wu_state = (if unresolved \<noteq> [] \<and> satisfied \<noteq> [] then PARTIAL else if unresolved \<noteq> [] then WARMUP_FAILED else SATISFIED),
      wu_satisfied = satisfied, wu_unresolved = unresolved, wu_pending = pending\<rparr>"

datatype descriptor_kind = Direct | Reconstruct | Pending | Failed

record descriptor =
  de_requirement :: historical_requirement
  de_kind :: descriptor_kind
  de_plan :: "fetch_plan option"
  de_base :: "timeframe option"

record warmup_service =
  ws_registry :: state_registry
  ws_coordinator :: fetch_coordinator
  ws_planner :: range_planner
  ws_candles :: "candle_engine option"
  ws_supports_current_day :: bool
  ws_status :: "instrument \<Rightarrow> warmup_status option"

definition status_for :: "warmup_service \<Rightarrow> instrument \<Rightarrow> warmup_status" where
  "status_for ws i =
     (case ws_status ws i of
        Some st \<Rightarrow> st
      | None \<Rightarrow> \<lparr>wu_instrument = i, wu_state = NOT_STARTED, wu_satisfied = [], wu_unresolved = [], wu_pending = []\<rparr>)"

section \<open>Classification\<close>

definition service_fetch_plan ::
  "range_planner \<Rightarrow> instrument \<Rightarrow> historical_requirement \<Rightarrow> timeframe \<Rightarrow> instant \<Rightarrow> fetch_plan res" where
  "service_fetch_plan pl i r fetch_timeframe reference =
     res_bind (resolve_window pl r reference) (\<lambda>(s, e).
     res_bind (mk_historical_requirement fetch_timeframe (hr_lookback r)) (\<lambda>req.
       Inr \<lparr>fp_instrument = i, fp_requirement = req, fp_start = s, fp_end = e, fp_interval = interval_for_timeframe fetch_timeframe\<rparr>))"

definition planned ::
  "range_planner \<Rightarrow> instrument \<Rightarrow> historical_requirement \<Rightarrow> timeframe \<Rightarrow> descriptor_kind \<Rightarrow> timeframe option \<Rightarrow> instant \<Rightarrow> descriptor res" where
  "planned pl i r fetch_timeframe kind base reference =
     (case service_fetch_plan pl i r fetch_timeframe reference of
        Inr plan \<Rightarrow> Inr \<lparr>de_requirement = r, de_kind = kind, de_plan = Some plan, de_base = base\<rparr>
      | Inl err \<Rightarrow>
          (if err = missing_timing then Inr \<lparr>de_requirement = r, de_kind = Failed, de_plan = None, de_base = None\<rparr> else Inl err))"

definition classify_requirement ::
  "range_planner \<Rightarrow> instrument \<Rightarrow> timeframe list \<Rightarrow> instant \<Rightarrow> historical_requirement \<Rightarrow> descriptor res" where
  "classify_requirement pl i direct reference r =
     (let tf = hr_timeframe r
      in if tf \<in> set direct then planned pl i r tf Direct None reference
         else case select_base tf direct of
           None \<Rightarrow> Inr \<lparr>de_requirement = r, de_kind = Pending, de_plan = None, de_base = None\<rparr>
         | Some base \<Rightarrow> planned pl i r base Reconstruct (Some base) reference)"

type_synonym plan_table = "(request_key \<times> fetch_plan) list"

definition add_plans :: "descriptor list \<Rightarrow> plan_table \<Rightarrow> plan_table" where
  "add_plans ds plans = foldl (\<lambda>ps d. case de_plan d of None \<Rightarrow> ps | Some p \<Rightarrow> AList.update (plan_key p) p ps) plans ds"

text \<open>The planning loop of \<^verbatim>\<open>warmup\<close>. An error leaves the status of the instruments met so far, the failing one included, at \<^verbatim>\<open>WARMING\<close>.\<close>

fun warmup_plan ::
  "warmup_service \<Rightarrow> historical_requirement list \<Rightarrow> instant \<Rightarrow> instrument list \<Rightarrow> (instrument \<times> descriptor list) list \<Rightarrow> plan_table \<Rightarrow>
   ((instrument \<times> descriptor list) list \<times> plan_table) res \<times> warmup_service" where
  "warmup_plan ws rs reference [] descriptors plans = (Inr (descriptors, plans), ws)"
| "warmup_plan ws rs reference (i # insts) descriptors plans =
     (let ws' = ws\<lparr>ws_status := (ws_status ws)(i \<mapsto> warming_status i)\<rparr>
      in case map_res (classify_requirement (ws_planner ws) i (hk_direct (ws_coordinator ws)) reference) rs of
           Inl err \<Rightarrow> (Inl err, ws')
         | Inr ds \<Rightarrow> warmup_plan ws' rs reference insts (AList.update i ds descriptors) (add_plans ds plans))"

definition warmup_begin ::
  "warmup_service \<Rightarrow> instrument list \<Rightarrow> historical_requirement list \<Rightarrow> instant \<Rightarrow>
   ((instrument \<times> descriptor list) list \<times> plan_table) res \<times> warmup_service" where
  "warmup_begin ws insts rs reference = warmup_plan ws (sorted_requirements rs) reference (sorted_instruments insts) [] []"

section \<open>Fetching all plans\<close>

text \<open>
  \<^verbatim>\<open>gather\<close> starts every fetch before any load can complete, so each plan first meets the cache and the in-flight tasks in the order of the plans; then the loads
  complete one by one.
\<close>

fun gather_begin :: "fetch_coordinator \<Rightarrow> fetch_plan list \<Rightarrow> (request_key \<times> fetch_answer) list \<times> fetch_coordinator" where
  "gather_begin co [] = ([], co)"
| "gather_begin co (p # ps) =
     (case coordinator_fetch co p of (answer, co') \<Rightarrow>
        (case gather_begin co' ps of (rest, co'') \<Rightarrow> ((plan_key p, answer) # rest, co'')))"

fun complete_loads ::
  "fetch_coordinator \<Rightarrow> (request_key \<times> historical_result res) list \<Rightarrow> (request_key \<times> candle list res) list \<times> fetch_coordinator" where
  "complete_loads co [] = ([], co)"
| "complete_loads co ((k, a) # rest) =
     (case load_end co k a of (result, co') \<Rightarrow>
        (case complete_loads co' rest of (results, co'') \<Rightarrow> ((k, result) # results, co'')))"

text \<open>\<^verbatim>\<open>_safe_fetch\<close> turns a source or quality failure into a missing answer; any other exception leaves \<^verbatim>\<open>gather\<close>, the first to occur first.\<close>

definition isolated :: "py_error \<Rightarrow> bool" where
  "isolated err \<longleftrightarrow> err = source_error \<or> err = quality_error"

definition safe_outcome :: "candle list res \<Rightarrow> candle list option" where
  "safe_outcome result = (case result of Inl _ \<Rightarrow> None | Inr cs \<Rightarrow> Some cs)"

definition escaping_errors :: "(request_key \<times> candle list res) list \<Rightarrow> py_error list" where
  "escaping_errors results = List.map_filter (\<lambda>(k, r). case r of Inl err \<Rightarrow> (if isolated err then None else Some err) | Inr _ \<Rightarrow> None) results"

type_synonym fetched = "(request_key \<times> candle list option) list"

definition answered :: "(request_key \<times> candle list res) list \<Rightarrow> request_key \<times> fetch_answer \<Rightarrow> (request_key \<times> candle list option) option" where
  "answered results x =
     (case snd x of
        Hit cs \<Rightarrow> Some (fst x, Some cs)
      | Awaiting k \<Rightarrow> (case map_of results k of None \<Rightarrow> None | Some r \<Rightarrow> Some (fst x, safe_outcome r)))"

text \<open>The value is \<open>None\<close> while an awaited load has not completed.\<close>

definition fetch_all ::
  "fetch_coordinator \<Rightarrow> fetch_plan list \<Rightarrow> (request_key \<times> historical_result res) list \<Rightarrow> fetched res option \<times> fetch_coordinator" where
  "fetch_all co plans completions =
     (case gather_begin co plans of (begun, co1) \<Rightarrow>
      (case complete_loads co1 completions of (results, co2) \<Rightarrow>
        (case escaping_errors results of
           err # _ \<Rightarrow> (Some (Inl err), co2)
         | [] \<Rightarrow>
             (let found = map (answered results) begun
              in if None \<in> set found then (None, co2) else (Some (Inr (map the found)), co2)))))"

section \<open>Assembly\<close>

definition prepare_candles :: "range_planner \<Rightarrow> timeframe \<Rightarrow> candle list \<Rightarrow> candle list res" where
  "prepare_candles pl tf cs =
     res_bind (if is_session tf then canonical_session_series (rp_effective pl) (rp_calendar pl) (rp_timezone pl) cs else Inr cs)
       (\<lambda>prepared. Inr (sort_key candle_start prepared))"

definition last_candles :: "int \<Rightarrow> 'a list \<Rightarrow> 'a list" where
  "last_candles n xs = drop (length xs - nat n) xs"

definition direct_series :: "range_planner \<Rightarrow> historical_requirement \<Rightarrow> candle list option \<Rightarrow> historical_series option res" where
  "direct_series pl r candles =
     (case candles of
        None \<Rightarrow> Inr None
      | Some cs \<Rightarrow>
          res_bind (prepare_candles pl (hr_timeframe r) cs) (\<lambda>prepared.
            if int (length prepared) < hr_lookback r then Inr None
            else res_bind (mk_historical_series (hr_timeframe r) (last_candles (hr_lookback r) prepared)) (\<lambda>s. Inr (Some s))))"

definition trim_rebuilt :: "historical_requirement \<Rightarrow> historical_series option \<Rightarrow> historical_series option res" where
  "trim_rebuilt r rebuilt =
     (case rebuilt of
        None \<Rightarrow> Inr None
      | Some s \<Rightarrow>
          (if int (length (hs_candles s)) < hr_lookback r then Inr None
           else res_bind (mk_historical_series (hr_timeframe r) (last_candles (hr_lookback r) (hs_candles s))) (\<lambda>trimmed. Inr (Some trimmed))))"

definition reconstructed_series :: "range_planner \<Rightarrow> descriptor \<Rightarrow> candle list option \<Rightarrow> historical_series option res" where
  "reconstructed_series pl d base_candles =
     (case (base_candles, de_base d) of
        (Some (c # cs), Some base) \<Rightarrow>
          (case mk_historical_series base (c # cs) of
             Inl _ \<Rightarrow> Inr None
           | Inr source \<Rightarrow>
               res_bind (reconstruct_series source (hr_timeframe (de_requirement d)) (rp_effective pl) (rp_calendar pl) (rp_timezone pl))
                 (trim_rebuilt (de_requirement d)))
      | _ \<Rightarrow> Inr None)"

definition fetched_for :: "fetched \<Rightarrow> descriptor \<Rightarrow> candle list option" where
  "fetched_for fetched d = (case de_plan d of None \<Rightarrow> None | Some p \<Rightarrow> (case map_of fetched (plan_key p) of Some (Some cs) \<Rightarrow> Some cs | _ \<Rightarrow> None))"

definition build_series :: "range_planner \<Rightarrow> descriptor \<Rightarrow> fetched \<Rightarrow> historical_series option res" where
  "build_series pl d fetched =
     (if de_kind d = Direct then direct_series pl (de_requirement d) (fetched_for fetched d)
      else reconstructed_series pl d (fetched_for fetched d))"

definition previous_session_of :: "range_planner \<Rightarrow> historical_series \<Rightarrow> instant \<Rightarrow> previous_session_facts res" where
  "previous_session_of pl s reference =
     res_bind (newest_completed_session pl reference) (\<lambda>d. Inr \<lparr>ps_trading_date = d, ps_candle = last (hs_candles s)\<rparr>)"

record assembly =
  as_series :: "historical_series list"
  as_satisfied :: "timeframe list"
  as_unresolved :: "timeframe list"
  as_pending :: "timeframe list"
  as_previous :: "previous_session_facts option"

definition assemble_one :: "range_planner \<Rightarrow> fetched \<Rightarrow> instant \<Rightarrow> assembly \<Rightarrow> descriptor \<Rightarrow> assembly res" where
  "assemble_one pl fetched reference acc d =
     (let tf = hr_timeframe (de_requirement d)
      in if de_kind d = Pending then Inr (acc\<lparr>as_pending := as_pending acc @ [tf]\<rparr>)
         else if de_kind d = Failed then Inr (acc\<lparr>as_unresolved := as_unresolved acc @ [tf]\<rparr>)
         else res_bind (build_series pl d fetched) (\<lambda>built.
           case built of
             None \<Rightarrow> Inr (acc\<lparr>as_unresolved := as_unresolved acc @ [tf]\<rparr>)
           | Some s \<Rightarrow>
               (let acc' = acc\<lparr>as_series := as_series acc @ [s], as_satisfied := as_satisfied acc @ [tf]\<rparr>
                in if is_session tf then res_bind (previous_session_of pl s reference) (\<lambda>facts. Inr (acc'\<lparr>as_previous := Some facts\<rparr>))
                   else Inr acc')))"

fun assemble_loop :: "range_planner \<Rightarrow> fetched \<Rightarrow> instant \<Rightarrow> assembly \<Rightarrow> descriptor list \<Rightarrow> assembly res" where
  "assemble_loop pl fetched reference acc [] = Inr acc"
| "assemble_loop pl fetched reference acc (d # ds) =
     res_bind (assemble_one pl fetched reference acc d) (\<lambda>acc'. assemble_loop pl fetched reference acc' ds)"

definition empty_assembly :: assembly where
  "empty_assembly = \<lparr>as_series = [], as_satisfied = [], as_unresolved = [], as_pending = [], as_previous = None\<rparr>"

definition assemble ::
  "warmup_service \<Rightarrow> fetched \<Rightarrow> instant \<Rightarrow> instrument \<Rightarrow> descriptor list \<Rightarrow> (state_registry \<times> warmup_status) res" where
  "assemble ws fetched reference i ds =
     res_bind (assemble_loop (ws_planner ws) fetched reference empty_assembly ds) (\<lambda>a.
     res_bind (mk_historical_context i (as_previous a) (as_series a)) (\<lambda>h.
     res_bind (install_historical (ws_registry ws) i h) (\<lambda>reg.
       Inr (reg, terminal_status i (as_satisfied a) (as_unresolved a) (as_pending a)))))"

fun assemble_all ::
  "warmup_service \<Rightarrow> fetched \<Rightarrow> instant \<Rightarrow> (instrument \<times> descriptor list) list \<Rightarrow> instrument list \<Rightarrow> unit res \<times> warmup_service" where
  "assemble_all ws fetched reference descriptors [] = (Inr (), ws)"
| "assemble_all ws fetched reference descriptors (i # insts) =
     (case assemble ws fetched reference i (case map_of descriptors i of None \<Rightarrow> [] | Some ds \<Rightarrow> ds) of
        Inl err \<Rightarrow> (Inl err, ws)
      | Inr (reg, st) \<Rightarrow>
          assemble_all (ws\<lparr>ws_registry := reg, ws_status := (ws_status ws)(i \<mapsto> st)\<rparr>) fetched reference descriptors insts)"

definition warmup_finish ::
  "warmup_service \<Rightarrow> instrument list \<Rightarrow> (instrument \<times> descriptor list) list \<Rightarrow> plan_table \<Rightarrow> fetched \<Rightarrow> instant \<Rightarrow> unit res \<times> warmup_service" where
  "warmup_finish ws insts descriptors plans fetched reference =
     (case assemble_all ws fetched reference descriptors (sorted_instruments insts) of
        (Inl err, ws') \<Rightarrow> (Inl err, ws')
      | (Inr _, ws') \<Rightarrow>
          (Inr (), ws'\<lparr>ws_coordinator := retain_timeframes (ws_coordinator ws') ((\<lambda>(k, p). hr_timeframe (fp_requirement p)) ` set plans)\<rparr>))"

text \<open>The whole call, for a run in which nothing else changes the service while the loads run.\<close>

definition warmup ::
  "warmup_service \<Rightarrow> instrument list \<Rightarrow> historical_requirement list \<Rightarrow> instant \<Rightarrow> (request_key \<times> historical_result res) list \<Rightarrow>
   unit res option \<times> warmup_service" where
  "warmup ws insts rs reference completions =
     (case warmup_begin ws insts rs reference of
        (Inl err, ws1) \<Rightarrow> (Some (Inl err), ws1)
      | (Inr (descriptors, plans), ws1) \<Rightarrow>
          (case fetch_all (ws_coordinator ws1) (map snd plans) completions of
             (None, co) \<Rightarrow> (None, ws1\<lparr>ws_coordinator := co\<rparr>)
           | (Some (Inl err), co) \<Rightarrow> (Some (Inl err), ws1\<lparr>ws_coordinator := co\<rparr>)
           | (Some (Inr fetched), co) \<Rightarrow>
               (case warmup_finish (ws1\<lparr>ws_coordinator := co\<rparr>) insts descriptors plans fetched reference of
                  (r, ws2) \<Rightarrow> (Some r, ws2))))"

section \<open>Repairing incomplete candles\<close>

record reconciliation_summary =
  rs_instrument :: instrument
  rs_results :: "reconciliation_result list"

datatype repair_class = Repair | Current_Day | Skip

definition repair_state :: "warmup_service \<Rightarrow> date \<Rightarrow> incomplete_candle \<Rightarrow> repair_class" where
  "repair_state ws anchor item =
     (let trading_date = local_date (ws_planner ws) (ic_start item)
      in if \<not> is_trading_day (rp_calendar (ws_planner ws)) trading_date \<or> trading_date > anchor then Skip
         else if trading_date = anchor \<and> \<not> ws_supports_current_day ws then Current_Day
         else Repair)"

text \<open>One awaited fetch: a hit, or the load with the source's answer. Only source and quality failures are isolated.\<close>

definition await_fetch :: "fetch_coordinator \<Rightarrow> (fetch_plan \<Rightarrow> historical_result res) \<Rightarrow> fetch_plan \<Rightarrow> candle list res \<times> fetch_coordinator" where
  "await_fetch co answer p =
     (case coordinator_fetch co p of
        (Hit cs, co') \<Rightarrow> (Inr cs, co')
      | (Awaiting k, co') \<Rightarrow> load_end co' k (answer p))"

definition safe_candles ::
  "fetch_coordinator \<Rightarrow> (fetch_plan \<Rightarrow> historical_result res) \<Rightarrow> instrument \<Rightarrow> timeframe \<Rightarrow> instant \<Rightarrow> instant \<Rightarrow> candle list option res \<times> fetch_coordinator" where
  "safe_candles co answer i tf s e =
     (case await_fetch co answer \<lparr>fp_instrument = i, fp_requirement = \<lparr>hr_timeframe = tf, hr_lookback = 1\<rparr>, fp_start = s, fp_end = e,
                                  fp_interval = interval_for_timeframe tf\<rparr> of
        (Inr cs, co') \<Rightarrow> (Inr (Some cs), co')
      | (Inl err, co') \<Rightarrow> (if isolated err then Inr None else Inl err, co'))"

definition repair_dates :: "range_planner \<Rightarrow> incomplete_candle list \<Rightarrow> date list" where
  "repair_dates pl repairable = sort (remdups (map (\<lambda>item. local_date pl (ic_start item)) repairable))"

definition direct_authoritative :: "range_planner \<Rightarrow> timeframe \<Rightarrow> candle list option \<Rightarrow> historical_series option res" where
  "direct_authoritative pl tf candles =
     (case candles of
        Some (c # cs) \<Rightarrow>
          res_bind (prepare_candles pl tf (c # cs)) (\<lambda>prepared.
            if prepared = [] then Inr None else res_bind (mk_historical_series tf prepared) (\<lambda>s. Inr (Some s)))
      | _ \<Rightarrow> Inr None)"

definition rebuilt_authoritative :: "range_planner \<Rightarrow> timeframe \<Rightarrow> timeframe \<Rightarrow> candle list option \<Rightarrow> historical_series option res" where
  "rebuilt_authoritative pl tf base candles =
     (case candles of
        Some (c # cs) \<Rightarrow>
          res_bind (mk_historical_series base (c # cs)) (\<lambda>source.
            reconstruct_series source tf (rp_effective pl) (rp_calendar pl) (rp_timezone pl))
      | _ \<Rightarrow> Inr None)"

definition authoritative_series ::
  "warmup_service \<Rightarrow> (fetch_plan \<Rightarrow> historical_result res) \<Rightarrow> instrument \<Rightarrow> timeframe \<Rightarrow> incomplete_candle list \<Rightarrow>
   historical_series option res \<times> warmup_service" where
  "authoritative_series ws answer i tf repairable =
     (let pl = ws_planner ws; dates = repair_dates pl repairable;
          s = fst (planner_session_bounds pl (hd dates)); e = snd (planner_session_bounds pl (last dates));
          direct = hk_direct (ws_coordinator ws)
      in if tf \<in> set direct
         then (case safe_candles (ws_coordinator ws) answer i tf s e of
                 (r, co) \<Rightarrow> (res_bind r (direct_authoritative pl tf), ws\<lparr>ws_coordinator := co\<rparr>))
         else case select_base tf direct of
           None \<Rightarrow> (Inr None, ws)
         | Some base \<Rightarrow>
             (case safe_candles (ws_coordinator ws) answer i base s e of
                (r, co) \<Rightarrow> (res_bind r (rebuilt_authoritative pl tf base), ws\<lparr>ws_coordinator := co\<rparr>)))"

definition unmatched :: "reconciliation_outcome \<Rightarrow> incomplete_candle \<Rightarrow> reconciliation_result" where
  "unmatched out item = \<lparr>rr_identity = identity_of_incomplete item, rr_outcome = out, rr_candle = None\<rparr>"

definition candles_by_identity :: "timeframe \<Rightarrow> candle list \<Rightarrow> candle_identity \<Rightarrow> candle option" where
  "candles_by_identity tf cs = map_of (rev (map (\<lambda>c. (identity_of c tf, c)) cs))"

fun apply_repairs ::
  "candle_engine \<Rightarrow> timeframe \<Rightarrow> incomplete_candle list \<Rightarrow> candle list \<Rightarrow> reconciliation_result list \<times> candle_engine" where
  "apply_repairs engine tf [] cs = ([], engine)"
| "apply_repairs engine tf (item # items) cs =
     (case candles_by_identity tf cs (identity_of_incomplete item) of
        None \<Rightarrow> (case apply_repairs engine tf items cs of (rest, engine') \<Rightarrow> (unmatched NO_AUTHORITATIVE_CANDLE item # rest, engine'))
      | Some c \<Rightarrow>
          (case reconcile engine c tf of (result, engine') \<Rightarrow>
             (case apply_repairs engine' tf items cs of (rest, engine'') \<Rightarrow> (result # rest, engine''))))"

definition reconcile_timeframe ::
  "warmup_service \<Rightarrow> candle_engine \<Rightarrow> (fetch_plan \<Rightarrow> historical_result res) \<Rightarrow> instrument \<Rightarrow> timeframe \<Rightarrow> incomplete_candle list \<Rightarrow> date \<Rightarrow>
   reconciliation_result list res \<times> warmup_service \<times> candle_engine" where
  "reconcile_timeframe ws engine answer i tf incomplete anchor =
     (let withheld = map (unmatched CURRENT_DAY_WITHHELD) (filter (\<lambda>item. repair_state ws anchor item = Current_Day) incomplete);
          repairable = filter (\<lambda>item. repair_state ws anchor item = Repair) incomplete
      in if repairable = [] then (Inr withheld, ws, engine)
         else case authoritative_series ws answer i tf repairable of
           (Inl err, ws') \<Rightarrow> (Inl err, ws', engine)
         | (Inr None, ws') \<Rightarrow> (Inr (withheld @ map (unmatched NO_AUTHORITATIVE_CANDLE) repairable), ws', engine)
         | (Inr (Some s), ws') \<Rightarrow>
             (case apply_repairs engine tf repairable (hs_candles s) of (results, engine') \<Rightarrow> (Inr (withheld @ results), ws', engine')))"

text \<open>The loop over the timeframes; the candle sets are read once, before the first repair.\<close>

fun reconcile_sets ::
  "warmup_service \<Rightarrow> candle_engine \<Rightarrow> (fetch_plan \<Rightarrow> historical_result res) \<Rightarrow> instrument \<Rightarrow> date \<Rightarrow> timeframe_candles list \<Rightarrow>
   reconciliation_result list res \<times> warmup_service \<times> candle_engine" where
  "reconcile_sets ws engine answer i anchor [] = (Inr [], ws, engine)"
| "reconcile_sets ws engine answer i anchor (tc # tcs) =
     (case reconcile_timeframe ws engine answer i (tc_timeframe tc) (tc_incomplete tc) anchor of
        (Inl err, ws', engine') \<Rightarrow> (Inl err, ws', engine')
      | (Inr results, ws', engine') \<Rightarrow>
          (case reconcile_sets ws' engine' answer i anchor tcs of
             (Inl err, r) \<Rightarrow> (Inl err, r)
           | (Inr rest, r) \<Rightarrow> (Inr (results @ rest), r)))"

definition reconcile_completed ::
  "warmup_service \<Rightarrow> (fetch_plan \<Rightarrow> historical_result res) \<Rightarrow> instrument \<Rightarrow> instant \<Rightarrow> reconciliation_summary res \<times> warmup_service" where
  "reconcile_completed ws answer i reference =
     (case ws_candles ws of
        None \<Rightarrow> (Inr \<lparr>rs_instrument = i, rs_results = []\<rparr>, ws)
      | Some engine \<Rightarrow>
          (case reconcile_sets ws engine answer i (anchor_date (ws_planner ws) reference) (candle_sets_for engine i) of
             (Inl err, ws', engine') \<Rightarrow> (Inl err, ws'\<lparr>ws_candles := Some engine'\<rparr>)
           | (Inr results, ws', engine') \<Rightarrow> (Inr \<lparr>rs_instrument = i, rs_results = results\<rparr>, ws'\<lparr>ws_candles := Some engine'\<rparr>)))"

section \<open>Completion order\<close>

lemma load_end_other:
  "k \<noteq> k' \<Longrightarrow> fst (load_end (snd (load_end co k' a')) k a) = fst (load_end co k a)"
proof -
  assume ne: "k \<noteq> k'"
  have "map_of (filter (\<lambda>(x, _). x \<noteq> k') al) k = map_of al k" for al :: "(request_key \<times> fetch_plan) list"
    using ne by (induction al) auto
  then have "map_of (hk_inflight (snd (load_end co k' a'))) k = map_of (hk_inflight co) k"
    by (simp add: load_end_def Let_def split: option.splits)
  then show ?thesis by (simp add: load_end_def Let_def split: option.splits)
qed

lemma complete_loads_results:
  "distinct (map fst cs) \<Longrightarrow> fst (complete_loads co cs) = map (\<lambda>(k, a). (k, fst (load_end co k a))) cs"
proof (induction cs arbitrary: co)
  case (Cons x cs)
  obtain k a where x: "x = (k, a)" by (cases x)
  have "fst (complete_loads (snd (load_end co k a)) cs) = map (\<lambda>(k', a'). (k', fst (load_end co k' a'))) cs"
  proof -
    have "k' \<noteq> k" if "(k', a') \<in> set cs" for k' a' using that Cons.prems x by force
    then show ?thesis using Cons x by (auto simp: load_end_other)
  qed
  then show ?case using x by (simp add: split_beta)
qed simp

lemma map_filter_Nil_iff: "List.map_filter f xs = [] \<longleftrightarrow> (\<forall>x \<in> set xs. f x = None)"
  by (auto simp: List.map_filter_def filter_empty_conv)

definition same_results :: "(request_key \<times> candle list res) list \<Rightarrow> (request_key \<times> candle list res) list \<Rightarrow> bool" where
  "same_results r1 r2 \<longleftrightarrow> set r1 = set r2 \<and> map_of r1 = map_of r2"

lemma fetch_all_eq:
  "fst (fetch_all co plans cs) =
     (let results = fst (complete_loads (snd (gather_begin co plans)) cs); found = map (answered results) (fst (gather_begin co plans))
      in case escaping_errors results of err # _ \<Rightarrow> Some (Inl err) | [] \<Rightarrow> (if None \<in> set found then None else Some (Inr (map the found))))"
  by (simp add: fetch_all_def split_beta Let_def split: list.splits)

lemma fetched_order_independent:
  assumes "distinct (map fst cs)" "mset cs' = mset cs" "fst (fetch_all co plans cs) = Some (Inr f)"
  shows "fst (fetch_all co plans cs') = Some (Inr f)"
proof -
  let ?co = "snd (gather_begin co plans)"
  let ?r = "fst (complete_loads ?co cs)" and ?r' = "fst (complete_loads ?co cs')"
  have d': "distinct (map fst cs')" using assms(1,2) by (metis mset_eq_imp_distinct_iff mset_map)
  have r: "?r = map (\<lambda>(k, a). (k, fst (load_end ?co k a))) cs" "?r' = map (\<lambda>(k, a). (k, fst (load_end ?co k a))) cs'"
    using complete_loads_results assms(1) d' by auto
  have keys: "distinct (map fst ?r)" "distinct (map fst ?r')" using assms(1) d' r by (simp_all add: comp_def split_beta)
  have sets: "set ?r' = set ?r" using mset_eq_setD [OF assms(2)] r by simp
  have same: "map_of ?r' = map_of ?r" using map_of_inject_set [OF keys(2,1)] sets by simp
  have "escaping_errors ?r = []" using assms(3) by (simp add: fetch_all_eq Let_def split: list.splits)
  then have "escaping_errors ?r' = []" using sets by (simp add: escaping_errors_def map_filter_Nil_iff)
  moreover have "answered ?r' = answered ?r" by (rule ext) (simp only: answered_def same)
  ultimately show ?thesis using assms(3) \<open>escaping_errors ?r = []\<close> by (simp add: fetch_all_eq Let_def split: if_splits)
qed

lemma assemble_coordinator [simp]: "assemble (ws\<lparr>ws_coordinator := co\<rparr>) = assemble ws"
  by (simp add: assemble_def fun_eq_iff)

lemma assemble_all_coordinator:
  "assemble_all (ws\<lparr>ws_coordinator := co\<rparr>) f reference ds insts =
     (fst (assemble_all ws f reference ds insts), (snd (assemble_all ws f reference ds insts))\<lparr>ws_coordinator := co\<rparr>)"
proof (induction insts arbitrary: ws)
  case (Cons i insts)
  show ?case
  proof (cases "assemble ws f reference i (case map_of ds i of None \<Rightarrow> [] | Some ds \<Rightarrow> ds)")
    case (Inr x)
    obtain reg st where x: "x = (reg, st)" by (cases x)
    have "ws\<lparr>ws_coordinator := co, ws_registry := reg, ws_status := (ws_status ws)(i \<mapsto> st)\<rparr>
        = ws\<lparr>ws_registry := reg, ws_status := (ws_status ws)(i \<mapsto> st), ws_coordinator := co\<rparr>" by (cases ws) simp
    note swap = this
    show ?thesis using Cons.IH [of "ws\<lparr>ws_registry := reg, ws_status := (ws_status ws)(i \<mapsto> st)\<rparr>"] Inr x by (simp add: swap)
  qed simp
qed simp

section \<open>What a successful assembly holds\<close>

lemma last_candles_length: "int (length xs) \<ge> n \<Longrightarrow> 0 \<le> n \<Longrightarrow> int (length (last_candles n xs)) = n"
  by (simp add: last_candles_def)

lemma length_order_candles [simp]: "length (order_candles cs) = length cs"
  by (metis mset_order_candles size_mset)

lemma direct_series_Some:
  assumes "direct_series pl r candles = Inr (Some s)" "0 < hr_lookback r"
  shows "hs_timeframe s = hr_timeframe r" "int (length (hs_candles s)) = hr_lookback r"
proof -
  obtain prepared where p: "\<not> int (length prepared) < hr_lookback r" "mk_historical_series (hr_timeframe r) (last_candles (hr_lookback r) prepared) = Inr s"
    using assms(1) by (auto simp: direct_series_def split: option.splits if_splits)
  show "hs_timeframe s = hr_timeframe r" "int (length (hs_candles s)) = hr_lookback r"
    using mk_historical_series_Inr [OF p(2)] last_candles_length [of "hr_lookback r" prepared] p(1) assms(2) by simp_all
qed

lemma reconstructed_series_Some:
  assumes "reconstructed_series pl d candles = Inr (Some s)" "0 < hr_lookback (de_requirement d)"
  shows "hs_timeframe s = hr_timeframe (de_requirement d)" "int (length (hs_candles s)) = hr_lookback (de_requirement d)"
proof -
  let ?r = "de_requirement d"
  obtain rebuilt where t: "trim_rebuilt ?r rebuilt = Inr (Some s)"
    using assms(1) by (auto simp: reconstructed_series_def split: option.splits list.splits sum.splits)
  obtain s0 where s0: "rebuilt = Some s0" using t by (cases rebuilt) (simp_all add: trim_rebuilt_def)
  have p: "\<not> int (length (hs_candles s0)) < hr_lookback ?r"
    "mk_historical_series (hr_timeframe ?r) (last_candles (hr_lookback ?r) (hs_candles s0)) = Inr s"
    using t s0 by (simp_all add: trim_rebuilt_def split: if_splits)
  show "hs_timeframe s = hr_timeframe ?r" "int (length (hs_candles s)) = hr_lookback ?r"
    using mk_historical_series_Inr [OF p(2)] last_candles_length [of "hr_lookback ?r" "hs_candles s0"] p(1) assms(2) by simp_all
qed

lemma build_series_Some:
  assumes "build_series pl d f = Inr (Some s)" "0 < hr_lookback (de_requirement d)"
  shows "hs_timeframe s = hr_timeframe (de_requirement d) \<and> int (length (hs_candles s)) = hr_lookback (de_requirement d)"
  using assms direct_series_Some reconstructed_series_Some by (auto simp: build_series_def split: if_splits)

text \<open>What the loop has established after the descriptors \<open>ds\<close>.\<close>

definition accounts_for :: "assembly \<Rightarrow> historical_requirement list \<Rightarrow> bool" where
  "accounts_for a rs \<longleftrightarrow>
     mset (as_satisfied a) + mset (as_unresolved a) + mset (as_pending a) = mset (map hr_timeframe rs)
     \<and> as_satisfied a = map hs_timeframe (as_series a)
     \<and> (\<forall>s \<in> set (as_series a). \<exists>r \<in> set rs. hs_timeframe s = hr_timeframe r \<and> int (length (hs_candles s)) = hr_lookback r)"

lemma assemble_one_accounts:
  assumes "assemble_one pl f reference acc d = Inr a" "accounts_for acc rs" "0 < hr_lookback (de_requirement d)"
  shows "accounts_for a (rs @ [de_requirement d])"
proof -
  let ?tf = "hr_timeframe (de_requirement d)"
  have "a = acc\<lparr>as_pending := as_pending acc @ [?tf]\<rparr> \<or> a = acc\<lparr>as_unresolved := as_unresolved acc @ [?tf]\<rparr>
      \<or> (\<exists>s p. build_series pl d f = Inr (Some s) \<and> a = acc\<lparr>as_series := as_series acc @ [s], as_satisfied := as_satisfied acc @ [?tf], as_previous := p\<rparr>)"
    using assms(1) by (auto simp: assemble_one_def Let_def split: if_splits option.splits) (metis assembly.surjective assembly.update_convs(5))
  then consider "a = acc\<lparr>as_pending := as_pending acc @ [?tf]\<rparr>" | "a = acc\<lparr>as_unresolved := as_unresolved acc @ [?tf]\<rparr>"
    | s p where "build_series pl d f = Inr (Some s)" "a = acc\<lparr>as_series := as_series acc @ [s], as_satisfied := as_satisfied acc @ [?tf], as_previous := p\<rparr>"
    by blast
  then show ?thesis
  proof cases
    case 3
    then show ?thesis using assms(2) build_series_Some [OF 3(1) assms(3)] by (auto simp: accounts_for_def)
  qed (use assms(2) in \<open>auto simp: accounts_for_def\<close>)
qed

lemma assemble_loop_accounts:
  assumes "assemble_loop pl f reference acc ds = Inr a" "accounts_for acc rs" "\<forall>d \<in> set ds. 0 < hr_lookback (de_requirement d)"
  shows "accounts_for a (rs @ map de_requirement ds)"
  using assms
proof (induction ds arbitrary: acc rs)
  case (Cons d ds)
  then obtain acc' where "assemble_one pl f reference acc d = Inr acc'" "assemble_loop pl f reference acc' ds = Inr a" by auto
  then show ?case using Cons.IH [of acc' "rs @ [de_requirement d]"] assemble_one_accounts [of pl f reference acc d acc' rs] Cons.prems by simp
qed simp

lemma assemble_Inr:
  assumes "assemble ws f reference i ds = Inr (reg, st)"
  obtains a h where "assemble_loop (ws_planner ws) f reference empty_assembly ds = Inr a" "mk_historical_context i (as_previous a) (as_series a) = Inr h"
    "st = terminal_status i (as_satisfied a) (as_unresolved a) (as_pending a)" "map_option is_historical (reg_states reg i) = Some (Some h)"
    "\<forall>j. j \<noteq> i \<longrightarrow> reg_states reg j = reg_states (ws_registry ws) j"
proof -
  from assms obtain a h where a: "assemble_loop (ws_planner ws) f reference empty_assembly ds = Inr a"
    "mk_historical_context i (as_previous a) (as_series a) = Inr h" "install_historical (ws_registry ws) i h = Inr reg"
    "st = terminal_status i (as_satisfied a) (as_unresolved a) (as_pending a)" by (auto simp: assemble_def)
  have "map_option is_historical (reg_states reg i) = Some (Some h)" "\<forall>j. j \<noteq> i \<longrightarrow> reg_states reg j = reg_states (ws_registry ws) j"
    using a(3) by (auto simp: install_historical_def ensure_def put_state_def split: if_splits option.splits)
  then show thesis using that a by blast
qed

lemma assemble_all_frame:
  assumes "assemble_all ws f reference descs insts = (r, ws')" "i \<notin> set insts"
  shows "ws_status ws' i = ws_status ws i" "reg_states (ws_registry ws') i = reg_states (ws_registry ws) i"
proof -
  have "ws_status ws' i = ws_status ws i \<and> reg_states (ws_registry ws') i = reg_states (ws_registry ws) i"
    using assms
  proof (induction insts arbitrary: ws)
    case (Cons j insts)
    show ?case
    proof (cases "assemble ws f reference j (case map_of descs j of None \<Rightarrow> [] | Some ds \<Rightarrow> ds)")
      case (Inr x)
      obtain reg st where x: "x = (reg, st)" by (cases x)
      have "reg_states reg i = reg_states (ws_registry ws) i"
        using Inr x Cons.prems(2) by (auto elim!: assemble_Inr)
      then show ?thesis using Cons.IH [of "ws\<lparr>ws_registry := reg, ws_status := (ws_status ws)(j \<mapsto> st)\<rparr>"] Cons.prems Inr x by simp
    qed (use Cons.prems in simp)
  qed simp
  then show "ws_status ws' i = ws_status ws i" "reg_states (ws_registry ws') i = reg_states (ws_registry ws) i" by simp_all
qed

text \<open>What the service holds of an instrument after its descriptors were assembled.\<close>

definition assembled :: "warmup_service \<Rightarrow> fetched \<Rightarrow> instant \<Rightarrow> descriptor list \<Rightarrow> instrument \<Rightarrow> bool" where
  "assembled ws f reference ds i \<longleftrightarrow>
     (\<exists>a h. assemble_loop (ws_planner ws) f reference empty_assembly ds = Inr a \<and> mk_historical_context i (as_previous a) (as_series a) = Inr h
        \<and> ws_status ws i = Some (terminal_status i (as_satisfied a) (as_unresolved a) (as_pending a))
        \<and> map_option is_historical (reg_states (ws_registry ws) i) = Some (Some h))"

lemma assemble_all_planner: "assemble_all ws f reference descs insts = (r, ws') \<Longrightarrow> ws_planner ws' = ws_planner ws"
  by (induction insts arbitrary: ws) (auto split: sum.splits)

lemma assemble_all_assembled:
  assumes "assemble_all ws f reference descs insts = (Inr (), ws')" "i \<in> set insts" "map_of descs i = Some ds"
  shows "assembled ws' f reference ds i"
  using assms
proof (induction insts arbitrary: ws)
  case (Cons j insts)
  obtain reg st where step: "assemble ws f reference j (case map_of descs j of None \<Rightarrow> [] | Some ds \<Rightarrow> ds) = Inr (reg, st)"
    "assemble_all (ws\<lparr>ws_registry := reg, ws_status := (ws_status ws)(j \<mapsto> st)\<rparr>) f reference descs insts = (Inr (), ws')"
    using Cons.prems(1) by (auto split: sum.splits)
  show ?case
  proof (cases "i \<in> set insts")
    case True
    then show ?thesis using Cons.IH [OF step(2) _ Cons.prems(3)] by blast
  next
    case False
    then have ij: "j = i" using Cons.prems(2) by simp
    have s1: "assemble ws f reference i ds = Inr (reg, st)" using step(1) ij Cons.prems(3) by simp
    show ?thesis
    proof (rule assemble_Inr [OF s1])
      fix a h
      assume h: "assemble_loop (ws_planner ws) f reference empty_assembly ds = Inr a" "mk_historical_context i (as_previous a) (as_series a) = Inr h"
        "st = terminal_status i (as_satisfied a) (as_unresolved a) (as_pending a)" "map_option is_historical (reg_states reg i) = Some (Some h)"
      show ?thesis unfolding assembled_def
        using h assemble_all_frame [OF step(2) False] assemble_all_planner [OF step(2)] ij by (intro exI [of _ a] exI [of _ h]) simp
    qed
  qed
qed simp

section \<open>The planning loop\<close>

lemma classify_requirement_of: "classify_requirement pl i direct reference r = Inr d \<Longrightarrow> de_requirement d = r"
  by (auto simp: classify_requirement_def planned_def Let_def split: if_splits option.splits sum.splits)

lemma map_res_classified:
  "map_res (classify_requirement pl i direct reference) rs = Inr ds \<Longrightarrow> map de_requirement ds = rs"
  by (induction rs arbitrary: ds) (auto simp: classify_requirement_of)

lemma warmup_plan_descriptors:
  assumes "warmup_plan ws rs reference insts descs plans = (Inr (descs', plans'), ws')"
    "\<forall>i \<in> seen. \<exists>ds. map_of descs i = Some ds \<and> map de_requirement ds = rs"
  shows "(\<forall>i \<in> seen \<union> set insts. \<exists>ds. map_of descs' i = Some ds \<and> map de_requirement ds = rs) \<and> ws_planner ws' = ws_planner ws"
  using assms
proof (induction insts arbitrary: ws descs plans seen)
  case (Cons i insts)
  obtain ds where ds: "map_res (classify_requirement (ws_planner ws) i (hk_direct (ws_coordinator ws)) reference) rs = Inr ds"
    "warmup_plan (ws\<lparr>ws_status := (ws_status ws)(i \<mapsto> warming_status i)\<rparr>) rs reference insts (AList.update i ds descs) (add_plans ds plans) = (Inr (descs', plans'), ws')"
    using Cons.prems(1) by (auto simp: Let_def split: sum.splits)
  have "\<forall>j \<in> insert i seen. \<exists>ds'. map_of (AList.update i ds descs) j = Some ds' \<and> map de_requirement ds' = rs"
    using Cons.prems(2) map_res_classified [OF ds(1)] by (auto simp: update_conv')
  from Cons.IH [OF ds(2) this] show ?case by simp
qed simp

section \<open>Claims on the warmup\<close>

lemma warmup_Inr:
  assumes "warmup ws insts rs reference completions = (Some (Inr ()), ws')"
  obtains descs plans ws1 f co ws2 where "warmup_begin ws insts rs reference = (Inr (descs, plans), ws1)"
    "fetch_all (ws_coordinator ws1) (map snd plans) completions = (Some (Inr f), co)"
    "assemble_all ws1 f reference descs (sorted_instruments insts) = (Inr (), ws2)"
    "ws' = ws2\<lparr>ws_coordinator := retain_timeframes co ((\<lambda>(k, p). hr_timeframe (fp_requirement p)) ` set plans)\<rparr>"
proof -
  obtain descs plans ws1 where b: "warmup_begin ws insts rs reference = (Inr (descs, plans), ws1)"
    using assms by (auto simp: warmup_def split: prod.splits sum.splits)
  obtain f co where f: "fetch_all (ws_coordinator ws1) (map snd plans) completions = (Some (Inr f), co)"
    using assms b by (auto simp: warmup_def split: prod.splits sum.splits option.splits)
  have fin: "warmup_finish (ws1\<lparr>ws_coordinator := co\<rparr>) insts descs plans f reference = (Inr (), ws')"
    using assms b f by (simp add: warmup_def split: prod.splits)
  obtain r ws2 where a: "assemble_all ws1 f reference descs (sorted_instruments insts) = (r, ws2)"
    by (cases "assemble_all ws1 f reference descs (sorted_instruments insts)")
  have "r = Inr ()" "ws' = ws2\<lparr>ws_coordinator := retain_timeframes co ((\<lambda>(k, p). hr_timeframe (fp_requirement p)) ` set plans)\<rparr>"
    using fin a by (auto simp: warmup_finish_def assemble_all_coordinator split: sum.splits)
  then show thesis using that b f a by blast
qed

lemma mset_order_series [simp]: "mset (order_series ss) = mset ss"
  by (simp add: order_series_def)

lemma mk_historical_context_Inr:
  assumes "mk_historical_context i p ss = Inr h"
  shows "hc_instrument h = i" "mset (hc_series h) = mset ss" "hc_previous_session h = p" "\<forall>s \<in> set (hc_series h). series_instrument s = i"
    "distinct (map hs_timeframe (hc_series h))"
proof -
  have h: "h = \<lparr>hc_instrument = i, hc_previous_session = p, hc_series = order_series ss\<rparr>" "\<not> list_ex (\<lambda>s. series_instrument s \<noteq> i) (order_series ss)"
    "card (set (map hs_timeframe (order_series ss))) = length (map hs_timeframe (order_series ss))"
    using assms by (auto simp: mk_historical_context_def validate_membership_def Let_def split: if_splits option.splits)
  then show "hc_instrument h = i" "mset (hc_series h) = mset ss" "hc_previous_session h = p" "\<forall>s \<in> set (hc_series h). series_instrument s = i"
    "distinct (map hs_timeframe (hc_series h))"
    by (auto simp: list_ex_iff card_distinct)
qed

text \<open>
  C9. A completed warmup accounts for every requirement of every instrument. The satisfied, unresolved and pending timeframes of an instrument are together exactly
  those of the requirements; the state is \<^verbatim>\<open>SATISFIED\<close>, \<^verbatim>\<open>PARTIAL\<close> or \<^verbatim>\<open>FAILED\<close> according to them; and the installed historical context has exactly one series per satisfied
  timeframe, of that instrument, with exactly as many candles as a requirement of the timeframe asked for.
\<close>

theorem warmup_accounts_for_requirements:
  assumes "warmup ws insts rs reference completions = (Some (Inr ()), ws')" "i \<in> set insts" "\<forall>r \<in> set rs. 0 < hr_lookback r"
  shows "\<exists>st h. ws_status ws' i = Some st \<and> map_option is_historical (reg_states (ws_registry ws') i) = Some (Some h)
    \<and> mset (wu_satisfied st) + mset (wu_unresolved st) + mset (wu_pending st) = mset (map hr_timeframe rs)
    \<and> (wu_state st = SATISFIED \<longleftrightarrow> wu_unresolved st = []) \<and> (wu_state st = PARTIAL \<longleftrightarrow> wu_unresolved st \<noteq> [] \<and> wu_satisfied st \<noteq> [])
    \<and> (wu_state st = WARMUP_FAILED \<longleftrightarrow> wu_unresolved st \<noteq> [] \<and> wu_satisfied st = [])
    \<and> hc_instrument h = i \<and> mset (map hs_timeframe (hc_series h)) = mset (wu_satisfied st) \<and> distinct (map hs_timeframe (hc_series h))
    \<and> (\<forall>s \<in> set (hc_series h). series_instrument s = i \<and> (\<exists>r \<in> set rs. hs_timeframe s = hr_timeframe r \<and> int (length (hs_candles s)) = hr_lookback r))"
proof (rule warmup_Inr [OF assms(1)])
  fix descs plans ws1 f co ws2
  assume b: "warmup_begin ws insts rs reference = (Inr (descs, plans), ws1)"
    and a: "assemble_all ws1 f reference descs (sorted_instruments insts) = (Inr (), ws2)"
    and w: "ws' = ws2\<lparr>ws_coordinator := retain_timeframes co ((\<lambda>(k, p). hr_timeframe (fp_requirement p)) ` set plans)\<rparr>"
  have i: "i \<in> set (sorted_instruments insts)" using assms(2) by (simp add: sorted_instruments_def)
  obtain ds where ds: "map_of descs i = Some ds" "map de_requirement ds = sorted_requirements rs"
    using warmup_plan_descriptors [OF b [unfolded warmup_begin_def], of "{}"] i by auto
  obtain acc h where acc: "assemble_loop (ws_planner ws2) f reference empty_assembly ds = Inr acc" "mk_historical_context i (as_previous acc) (as_series acc) = Inr h"
    "ws_status ws2 i = Some (terminal_status i (as_satisfied acc) (as_unresolved acc) (as_pending acc))"
    "map_option is_historical (reg_states (ws_registry ws2) i) = Some (Some h)"
    using assemble_all_assembled [OF a i ds(1)] unfolding assembled_def by blast
  have sets: "set (map de_requirement ds) = set rs" "mset (map hr_timeframe (map de_requirement ds)) = mset (map hr_timeframe rs)"
    by (simp_all only: ds(2)) (simp_all add: sorted_requirements_def)
  have pos: "\<forall>d \<in> set ds. 0 < hr_lookback (de_requirement d)" using sets(1) assms(3) by auto
  have "accounts_for empty_assembly []" by (simp add: accounts_for_def empty_assembly_def)
  from assemble_loop_accounts [OF acc(1) this pos] have ac: "accounts_for acc (map de_requirement ds)" by simp
  note h = mk_historical_context_Inr [OF acc(2)]
  let ?st = "terminal_status i (as_satisfied acc) (as_unresolved acc) (as_pending acc)"
  have part: "mset (as_satisfied acc) + mset (as_unresolved acc) + mset (as_pending acc) = mset (map hr_timeframe rs)"
    "as_satisfied acc = map hs_timeframe (as_series acc)" using ac unfolding accounts_for_def sets(2) by blast+
  have tfs: "mset (map hs_timeframe (hc_series h)) = mset (as_satisfied acc)" using h(2) part(2) by simp
  have ser: "\<forall>s \<in> set (hc_series h). \<exists>r \<in> set rs. hs_timeframe s = hr_timeframe r \<and> int (length (hs_candles s)) = hr_lookback r"
    using ac unfolding accounts_for_def sets(1) mset_eq_setD [OF h(2)] by blast
  show ?thesis
    using acc(3,4) w part(1) tfs ser h(1,4,5) by (intro exI [of _ ?st] exI [of _ h]) (simp add: terminal_status_def)
qed

text \<open>
  C8. The outcome of a warmup does not depend on the order in which the loads complete. When the same answers arrive in another order, the call also succeeds, with the same status for
  every instrument and the same installed history; only the coordinator's cache may differ.
\<close>

theorem warmup_order_independent:
  assumes "warmup ws insts rs reference completions = (Some (Inr ()), ws')" "distinct (map fst completions)" "mset completions' = mset completions"
  shows "\<exists>ws''. warmup ws insts rs reference completions' = (Some (Inr ()), ws'') \<and> ws_status ws'' = ws_status ws' \<and> ws_registry ws'' = ws_registry ws'"
proof (rule warmup_Inr [OF assms(1)])
  fix descs plans ws1 f co ws2
  assume b: "warmup_begin ws insts rs reference = (Inr (descs, plans), ws1)"
    and fa: "fetch_all (ws_coordinator ws1) (map snd plans) completions = (Some (Inr f), co)"
    and a: "assemble_all ws1 f reference descs (sorted_instruments insts) = (Inr (), ws2)"
    and w: "ws' = ws2\<lparr>ws_coordinator := retain_timeframes co ((\<lambda>(k, p). hr_timeframe (fp_requirement p)) ` set plans)\<rparr>"
  obtain co' where fa': "fetch_all (ws_coordinator ws1) (map snd plans) completions' = (Some (Inr f), co')"
    using fetched_order_independent [OF assms(2,3), of "ws_coordinator ws1" "map snd plans" f] fa by (metis fst_conv prod.collapse)
  show ?thesis using b fa' a w by (simp add: warmup_def warmup_finish_def assemble_all_coordinator)
qed

section \<open>What a repair can reach\<close>

lemma candles_by_identity_Some:
  assumes "candles_by_identity tf cs ident = Some c"
  shows "c \<in> set cs" "identity_of c tf = ident"
  using map_of_SomeD [OF assms [unfolded candles_by_identity_def]] by auto

lemma reconcile_identity: "rr_identity (fst (reconcile engine c tf)) = identity_of c tf"
  by (simp add: reconcile_def Let_def split: option.splits)

lemma apply_repairs_identities:
  "map rr_identity (fst (apply_repairs engine tf items cs)) = map identity_of_incomplete items"
proof (induction items arbitrary: engine)
  case (Cons item items)
  show ?case
  proof (cases "candles_by_identity tf cs (identity_of_incomplete item)")
    case None
    then show ?thesis using Cons.IH [of engine] by (simp add: split_beta unmatched_def)
  next
    case (Some c)
    then show ?thesis using Cons.IH [of "snd (reconcile engine c tf)"] candles_by_identity_Some(2) [OF Some] reconcile_identity [of engine c tf]
      by (simp add: split_beta)
  qed
qed simp

text \<open>Exactly one result per interval that is not skipped: the withheld ones of the current day, then the repairable ones.\<close>

lemma reconcile_timeframe_identities:
  assumes "reconcile_timeframe ws engine answer i tf incomplete anchor = (Inr results, ws', engine')"
  shows "map rr_identity results = map identity_of_incomplete
    (filter (\<lambda>item. repair_state ws anchor item = Current_Day) incomplete @ filter (\<lambda>item. repair_state ws anchor item = Repair) incomplete)"
proof -
  let ?rep = "filter (\<lambda>item. repair_state ws anchor item = Repair) incomplete"
  let ?wh = "map (unmatched CURRENT_DAY_WITHHELD) (filter (\<lambda>item. repair_state ws anchor item = Current_Day) incomplete)"
  have u: "map rr_identity (map (unmatched out) xs) = map identity_of_incomplete xs" for out xs by (simp add: unmatched_def)
  show ?thesis
  proof (cases "?rep = []")
    case True
    then have "results = ?wh" using assms by (auto simp: reconcile_timeframe_def Let_def)
    then show ?thesis by (simp only: True append_Nil2 u)
  next
    case False
    obtain r ws1 where au: "authoritative_series ws answer i tf ?rep = (r, ws1)" by (cases "authoritative_series ws answer i tf ?rep")
    obtain opt where r: "r = Inr opt" using assms False au by (cases r) (auto simp: reconcile_timeframe_def Let_def)
    have "results = ?wh @ (case opt of None \<Rightarrow> map (unmatched NO_AUTHORITATIVE_CANDLE) ?rep | Some s \<Rightarrow> fst (apply_repairs engine tf ?rep (hs_candles s)))"
      using assms False au r by (auto simp: reconcile_timeframe_def Let_def split: option.splits prod.splits)
    then show ?thesis by (cases opt) (simp_all only: option.case map_append u apply_repairs_identities)
  qed
qed

lemma apply_repairs_missing:
  "item \<in> set items \<Longrightarrow> candles_by_identity tf cs (identity_of_incomplete item) = None \<Longrightarrow>
     unmatched NO_AUTHORITATIVE_CANDLE item \<in> set (fst (apply_repairs engine tf items cs))"
proof (induction items arbitrary: engine)
  case (Cons x items)
  then show ?case by (cases "candles_by_identity tf cs (identity_of_incomplete x)") (auto simp: split_beta)
qed simp

definition answers_in_window :: "(fetch_plan \<Rightarrow> historical_result res) \<Rightarrow> bool" where
  "answers_in_window answer \<longleftrightarrow> (\<forall>p r. answer p = Inr r \<longrightarrow> (\<forall>c \<in> set (result_candles r). in_window (plan_key p) c))"

lemma await_fetch_in_window:
  assumes "answers_in_window answer" "await_fetch co answer p = (Inr cs, co')" "c \<in> set cs"
  shows "in_window (plan_key p) c"
proof (cases "coordinator_fetch co p")
  case (Pair ans co1)
  show ?thesis
  proof (cases ans)
    case (Hit hs)
    then have "cache_get (hk_cache co) (plan_key p) = Some hs" "cs = hs"
      using Pair assms(2) by (auto simp: await_fetch_def coordinator_fetch_def split: option.splits)
    then show ?thesis using assms(3) by (auto simp: cache_get_def split: option.splits if_splits)
  next
    case (Awaiting k)
    then have "load_end co1 k (answer p) = (Inr cs, co')" using Pair assms(2) by (simp add: await_fetch_def)
    then obtain q where "finish_load q (answer p) = Inr cs" by (auto simp: load_end_def Let_def split: option.splits)
    then obtain r where r: "answer p = Inr r" "verify_source_candles q r = Inr cs" by (auto simp: finish_load_def)
    have "set cs = set (result_candles r)" using r(2) by (cases rule: verify_source_candles_cases) simp_all
    then show ?thesis using assms(1,3) r(1) by (simp add: answers_in_window_def)
  qed
qed

lemma direct_series_in_window:
  assumes "answers_in_window answer" "authoritative_series ws answer i tf repairable = (Inr (Some s), ws')" "tf \<in> set (hk_direct (ws_coordinator ws))"
    "\<not> is_session tf" "c \<in> set (hs_candles s)"
  shows "fst (planner_session_bounds (ws_planner ws) (hd (repair_dates (ws_planner ws) repairable))) \<le> candle_start c
    \<and> candle_start c < snd (planner_session_bounds (ws_planner ws) (last (repair_dates (ws_planner ws) repairable)))"
proof -
  let ?pl = "ws_planner ws" and ?dates = "repair_dates (ws_planner ws) repairable"
  let ?s = "fst (planner_session_bounds ?pl (hd ?dates))" and ?e = "snd (planner_session_bounds ?pl (last ?dates))"
  let ?p = "\<lparr>fp_instrument = i, fp_requirement = \<lparr>hr_timeframe = tf, hr_lookback = 1\<rparr>, fp_start = ?s, fp_end = ?e, fp_interval = interval_for_timeframe tf\<rparr>"
  obtain r co where sc: "safe_candles (ws_coordinator ws) answer i tf ?s ?e = (r, co)" by (cases "safe_candles (ws_coordinator ws) answer i tf ?s ?e")
  have "res_bind r (direct_authoritative ?pl tf) = Inr (Some s)" using assms(2,3) sc by (simp add: authoritative_series_def Let_def)
  then obtain cands where r: "r = Inr cands" "direct_authoritative ?pl tf cands = Inr (Some s)" by auto
  obtain x xs where cands: "cands = Some (x # xs)" using r(2) by (auto simp: direct_authoritative_def split: option.splits list.splits)
  have "mk_historical_series tf (sort_key candle_start (x # xs)) = Inr s"
    using r(2) cands assms(4) by (auto simp: direct_authoritative_def prepare_candles_def split: if_splits)
  then have "set (hs_candles s) = set (x # xs)" by (simp only: mk_historical_series_Inr(2) set_order_candles set_sort)
  then have c: "c \<in> set (x # xs)" using assms(5) by simp
  have "await_fetch (ws_coordinator ws) answer ?p = (Inr (x # xs), co)"
    using sc r(1) cands by (auto simp: safe_candles_def split: prod.splits sum.splits if_splits)
  from await_fetch_in_window [OF assms(1) this c] show ?thesis by (simp add: in_window_def plan_key_def)
qed


section \<open>Witnesses\<close>

text \<open>Two instruments, one-minute history of length one, and the answers of the two loads.\<close>

definition bar_of :: "string \<Rightarrow> int \<Rightarrow> candle" where
  "bar_of name second =
     \<lparr>candle_instrument = cash_equity ''NSE'' name, candle_start = second * 1000000, candle_end = (second + 60) * 1000000,
      candle_open = 100, candle_high = 102, candle_low = 99, candle_close = 101, candle_quantity = 10\<rparr>"

definition demo_service :: warmup_service where
  "demo_service =
     \<lparr>ws_registry = mk_registry [cash_equity ''NSE'' ''TCS'', cash_equity ''NSE'' ''INFY''],
      ws_coordinator = \<lparr>hk_direct = [one_minute], hk_max_concurrency = 2, hk_cache = [], hk_inflight = [], hk_running = []\<rparr>,
      ws_planner = evening_planner, ws_candles = None, ws_supports_current_day = False, ws_status = Map.empty\<rparr>"

definition demo_completion :: "string \<Rightarrow> request_key \<times> historical_result res" where
  "demo_completion name =
     (\<lparr>rk_instrument = cash_equity ''NSE'' name, rk_timeframe = one_minute, rk_start = 1728013500000000, rk_end = 1728221400000000\<rparr>,
      Inr (tcs_result [bar_of name 1728013500]))"

definition demo_warmup :: "(request_key \<times> historical_result res) list \<Rightarrow> unit res option \<times> warmup_service" where
  "demo_warmup = warmup demo_service [cash_equity ''NSE'' ''TCS'', cash_equity ''NSE'' ''INFY'']
     [\<lparr>hr_timeframe = one_minute, hr_lookback = 1\<rparr>] 1728272700000000"

lemma demo_warmup_succeeds: "fst (demo_warmup [demo_completion ''TCS'', demo_completion ''INFY'']) = Some (Inr ())"
  by code_simp

lemma demo_warmup_run:
  "warmup demo_service [cash_equity ''NSE'' ''TCS'', cash_equity ''NSE'' ''INFY''] [\<lparr>hr_timeframe = one_minute, hr_lookback = 1\<rparr>] 1728272700000000
     [demo_completion ''TCS'', demo_completion ''INFY''] = (Some (Inr ()), snd (demo_warmup [demo_completion ''TCS'', demo_completion ''INFY'']))"
  using demo_warmup_succeeds by (simp add: demo_warmup_def prod_eq_iff)

theorem warmup_accounts_for_requirements_witness:
  "\<exists>st h. ws_status (snd (demo_warmup [demo_completion ''TCS'', demo_completion ''INFY''])) (cash_equity ''NSE'' ''TCS'') = Some st
     \<and> map_option is_historical (reg_states (ws_registry (snd (demo_warmup [demo_completion ''TCS'', demo_completion ''INFY'']))) (cash_equity ''NSE'' ''TCS''))
         = Some (Some h)
     \<and> mset (wu_satisfied st) + mset (wu_unresolved st) + mset (wu_pending st) = mset (map hr_timeframe [\<lparr>hr_timeframe = one_minute, hr_lookback = 1\<rparr>])
     \<and> hc_instrument h = cash_equity ''NSE'' ''TCS'' \<and> mset (map hs_timeframe (hc_series h)) = mset (wu_satisfied st)"
proof -
  have "cash_equity ''NSE'' ''TCS'' \<in> set [cash_equity ''NSE'' ''TCS'', cash_equity ''NSE'' ''INFY'']"
    "\<forall>r \<in> set [\<lparr>hr_timeframe = one_minute, hr_lookback = 1\<rparr>]. 0 < hr_lookback r" by simp_all
  from warmup_accounts_for_requirements [OF demo_warmup_run this]
  show ?thesis by (elim exE conjE) (rule exI, rule exI, intro conjI, assumption+)
qed

theorem warmup_order_independent_witness:
  "fst (demo_warmup [demo_completion ''INFY'', demo_completion ''TCS'']) = Some (Inr ())
   \<and> ws_status (snd (demo_warmup [demo_completion ''INFY'', demo_completion ''TCS'']))
     = ws_status (snd (demo_warmup [demo_completion ''TCS'', demo_completion ''INFY'']))"
proof -
  have "distinct (map fst [demo_completion ''TCS'', demo_completion ''INFY''])" by (simp add: demo_completion_def cash_equity_def)
  from warmup_order_independent [OF demo_warmup_run this, of "[demo_completion ''INFY'', demo_completion ''TCS'']"]
  show ?thesis by (auto simp: demo_warmup_def add_mset_commute)
qed

text \<open>An interval of the Sunday evening session was left incomplete; the provider holds its bar, but the repair asks for the ordinary hours only.\<close>

definition evening_item :: incomplete_candle where
  "evening_item =
     \<lparr>ic_instrument = cash_equity ''NSE'' ''TCS'', ic_timeframe = one_minute, ic_start = 1728217800000000, ic_end = 1728217860000000, ic_open = 100,
      ic_high = 102, ic_low = 99, ic_close = 101, ic_quantity = None, ic_quality = FEED_GAP\<rparr>"

definition evening_answer :: "fetch_plan \<Rightarrow> historical_result res" where
  "evening_answer p = Inr (tcs_result (filter (in_window (plan_key p)) [bar_of ''TCS'' 1728217800]))"

definition evening_repair :: "reconciliation_result list res \<times> warmup_service \<times> candle_engine" where
  "evening_repair =
     reconcile_timeframe demo_service
       \<lparr>ce_schedule = nse_schedule, ce_timezone = kolkata, ce_window = 20, ce_timeframes = [one_minute], ce_states = Map.empty, ce_continuity_broken = {}\<rparr>
       evening_answer (cash_equity ''NSE'' ''TCS'') one_minute [evening_item] 20003"

lemma evening_repair_succeeds: "is_ok (fst evening_repair)"
  by code_simp

lemma evening_repair_class: "repair_state demo_service 20003 evening_item = Repair"
  by code_simp

lemma evening_after_close:
  "localize evening_planner (last (repair_dates evening_planner [evening_item])) (regular_close (rp_schedule evening_planner)) \<le> ic_start evening_item"
  by code_simp


end
