(* ===== verification/Market_History.thy ===== *)
theory Market_History
  imports Sector_Membership Market_Session "HOL-Library.Multiset"
begin

text \<open>
  Durable daily history: the bars and series (\<^verbatim>\<open>market_history/models.py\<close>), coverage against the trading calendar (\<^verbatim>\<open>coverage.py\<close>), the file-backed bar store
  (\<^verbatim>\<open>store.py\<close>) and the backfill service over the store protocol (\<^verbatim>\<open>service.py\<close>, \<^verbatim>\<open>source.py\<close>, \<^verbatim>\<open>diagnostics.py\<close>). The store protocol is the record \<open>bar_store\<close> of
  operations, its contract the locale \<open>lawful_bar_store\<close>, interpreted on the file store. A file is its text; writing a temporary file and renaming it is one step, and the
  JSON text of a list of bars is what \<open>bc_dump\<close> produces and \<open>bc_load\<close> reads, two parameters. The clock readings of a fetch and the answers of the source are arguments.
  Shown: the store is a map in which the first write wins, a backfill stores exactly the missing days the source has, required dates are the newest trading
  days, and identities that share a file name corrupt each other.
\<close>

section \<open>Bars and series\<close>

datatype price_adjustment = RAW | ADJUSTED

fun adjustment_value :: "price_adjustment \<Rightarrow> string" where
  "adjustment_value RAW = ''raw''"
| "adjustment_value ADJUSTED = ''adjusted''"

record daily_bar =
  hb_identity :: string
  hb_date :: date
  hb_open :: decimal
  hb_high :: decimal
  hb_low :: decimal
  hb_close :: decimal
  hb_volume :: int
  hb_adjustment :: price_adjustment
  hb_source :: string
  hb_source_version :: "string option"
  hb_ingested_at :: py_datetime

definition sized_text :: "nat \<Rightarrow> string \<Rightarrow> bool" where
  "sized_text n s \<longleftrightarrow> 1 \<le> length s \<and> length s \<le> n"

definition validate_ohlc_and_awareness :: "daily_bar \<Rightarrow> daily_bar res" where
  "validate_ohlc_and_awareness b =
     (if hb_high b < hb_low b then Inl (ValidationError ''bar high must be >= low'')
      else if \<not> (hb_low b \<le> hb_open b \<and> hb_open b \<le> hb_high b) then Inl (ValidationError ''bar open must be within [low, high]'')
      else if \<not> (hb_low b \<le> hb_close b \<and> hb_close b \<le> hb_high b) then Inl (ValidationError ''bar close must be within [low, high]'')
      else case hb_ingested_at b of
        Naive _ \<Rightarrow> Inl (ValidationError ''ingested_at must be timezone-aware'')
      | Aware _ _ \<Rightarrow> Inr b)"

definition mk_daily_bar :: "daily_bar \<Rightarrow> daily_bar res" where
  "mk_daily_bar raw =
     (let b = raw\<lparr>hb_identity := py_strip (hb_identity raw), hb_source := py_strip (hb_source raw),
                 hb_source_version := map_option py_strip (hb_source_version raw)\<rparr>
      in if \<not> sized_text 128 (hb_identity b) then Inl (ValidationError ''instrument_identity length'')
         else if hb_open b \<le> 0 \<or> hb_high b \<le> 0 \<or> hb_low b \<le> 0 \<or> hb_close b \<le> 0 then Inl (ValidationError ''price gt 0'')
         else if hb_volume b < 0 then Inl (ValidationError ''volume ge 0'')
         else if \<not> sized_text 128 (hb_source b) then Inl (ValidationError ''source length'')
         else if (case hb_source_version b of None \<Rightarrow> False | Some v \<Rightarrow> \<not> sized_text 64 v) then Inl (ValidationError ''source_version length'')
         else validate_ohlc_and_awareness b)"

definition has_same_values :: "daily_bar \<Rightarrow> daily_bar \<Rightarrow> bool" where
  "has_same_values a b \<longleftrightarrow>
     hb_open a = hb_open b \<and> hb_high a = hb_high b \<and> hb_low a = hb_low b \<and> hb_close a = hb_close b \<and> hb_volume a = hb_volume b
     \<and> hb_adjustment a = hb_adjustment b"

record bar_series =
  br_identity :: string
  br_adjustment :: price_adjustment
  br_bars :: "daily_bar list"

definition validate_bar_series :: "bar_series \<Rightarrow> bar_series res" where
  "validate_bar_series s =
     (let dates = map hb_date (br_bars s)
      in if dates \<noteq> sort dates then Inl (ValidationError ''series bars must be sorted ascending by trading_date'')
         else if length dates \<noteq> card (set dates) then Inl (ValidationError ''series must not contain duplicate trading dates'')
         else if list_ex (\<lambda>b. hb_identity b \<noteq> br_identity s) (br_bars s) then Inl (ValidationError ''all bars must share the series instrument identity'')
         else if list_ex (\<lambda>b. hb_adjustment b \<noteq> br_adjustment s) (br_bars s) then Inl (ValidationError ''series must not mix raw and adjusted bars'')
         else Inr s)"

definition mk_bar_series :: "string \<Rightarrow> price_adjustment \<Rightarrow> daily_bar list \<Rightarrow> bar_series res" where
  "mk_bar_series i adj bars =
     (if \<not> sized_text 128 i then Inl (ValidationError ''instrument_identity length'')
      else validate_bar_series \<lparr>br_identity = i, br_adjustment = adj, br_bars = bars\<rparr>)"

definition series_dates :: "bar_series \<Rightarrow> date list" where
  "series_dates s = map hb_date (br_bars s)"

definition series_latest :: "bar_series \<Rightarrow> daily_bar option" where
  "series_latest s = (if br_bars s = [] then None else Some (last (br_bars s)))"

definition series_previous_bar :: "bar_series \<Rightarrow> date \<Rightarrow> daily_bar option" where
  "series_previous_bar s before =
     (let earlier = filter (\<lambda>b. hb_date b < before) (br_bars s) in if earlier = [] then None else Some (last earlier))"

definition newest_bars :: "int \<Rightarrow> 'a list \<Rightarrow> 'a list" where
  "newest_bars n xs = (if n = 0 then [] else if 0 < n then drop (length xs - nat n) xs else drop (nat (- n)) xs)"

definition series_last_n :: "bar_series \<Rightarrow> int \<Rightarrow> bar_series res" where
  "series_last_n s n = (if n < 0 then Inl (ValueError ''n must be non-negative'') else Inr (s\<lparr>br_bars := newest_bars n (br_bars s)\<rparr>))"

definition series_between :: "bar_series \<Rightarrow> date \<Rightarrow> date \<Rightarrow> bar_series" where
  "series_between s first_day last_day = s\<lparr>br_bars := filter (\<lambda>b. first_day \<le> hb_date b \<and> hb_date b \<le> last_day) (br_bars s)\<rparr>"

section \<open>Coverage\<close>

definition MAX_CALENDAR_LOOKBACK_DAYS :: nat where
  "MAX_CALENDAR_LOOKBACK_DAYS = 3660"

fun required_loop :: "trading_calendar \<Rightarrow> int \<Rightarrow> nat \<Rightarrow> date \<Rightarrow> date list \<Rightarrow> date list" where
  "required_loop cal trading_days 0 cursor collected = collected"
| "required_loop cal trading_days (Suc n) cursor collected =
     (if int (length collected) \<ge> trading_days then collected
      else required_loop cal trading_days n (cursor - 1) (if is_trading_day cal cursor then collected @ [cursor] else collected))"

definition required_trading_dates :: "trading_calendar \<Rightarrow> date \<Rightarrow> int \<Rightarrow> date list res" where
  "required_trading_dates cal as_of trading_days =
     (if trading_days < 0 then Inl (ValueError ''trading_days must be non-negative'')
      else Inr (sort (required_loop cal trading_days MAX_CALENDAR_LOOKBACK_DAYS as_of [])))"

fun previous_date_loop :: "trading_calendar \<Rightarrow> nat \<Rightarrow> date \<Rightarrow> date res" where
  "previous_date_loop cal 0 cursor = Inl (ValueError ''no trading day within lookback'')"
| "previous_date_loop cal (Suc n) cursor = (if is_trading_day cal cursor then Inr cursor else previous_date_loop cal n (cursor - 1))"

definition previous_trading_date :: "trading_calendar \<Rightarrow> date \<Rightarrow> date res" where
  "previous_trading_date cal before = previous_date_loop cal MAX_CALENDAR_LOOKBACK_DAYS (before - 1)"

record historical_coverage =
  cv_identity :: string
  cv_required :: "date list"
  cv_available :: "date list"

definition missing_dates :: "historical_coverage \<Rightarrow> date list" where
  "missing_dates cv = filter (\<lambda>d. d \<notin> set (cv_available cv)) (cv_required cv)"

definition coverage_complete :: "historical_coverage \<Rightarrow> bool" where
  "coverage_complete cv \<longleftrightarrow> missing_dates cv = []"

definition required_count :: "historical_coverage \<Rightarrow> int" where
  "required_count cv = int (length (cv_required cv))"

definition available_count :: "historical_coverage \<Rightarrow> int" where
  "available_count cv = required_count cv - int (length (missing_dates cv))"

definition present_dates :: "historical_coverage \<Rightarrow> date list" where
  "present_dates cv = filter (\<lambda>d. d \<in> set (cv_available cv)) (cv_required cv)"

definition earliest_available :: "historical_coverage \<Rightarrow> date option" where
  "earliest_available cv = (if present_dates cv = [] then None else Some (hd (present_dates cv)))"

definition latest_available :: "historical_coverage \<Rightarrow> date option" where
  "latest_available cv = (if present_dates cv = [] then None else Some (last (present_dates cv)))"

definition compute_coverage :: "string \<Rightarrow> date list \<Rightarrow> date list \<Rightarrow> historical_coverage" where
  "compute_coverage i required stored = \<lparr>cv_identity = i, cv_required = required, cv_available = sort (remdups stored)\<rparr>"

section \<open>The file store\<close>

datatype upsert_outcome = INSERTED | UNCHANGED | BAR_CONFLICT

record upsert_counts =
  uc_inserted :: int
  uc_unchanged :: int
  uc_conflict :: int

definition no_counts :: upsert_counts where
  "no_counts = \<lparr>uc_inserted = 0, uc_unchanged = 0, uc_conflict = 0\<rparr>"

record 'txt bar_codec =
  bc_dump :: "daily_bar list \<Rightarrow> 'txt"
  bc_load :: "'txt \<Rightarrow> daily_bar list res"

text \<open>The files of the root directory by name.\<close>

type_synonym 'txt bar_files = "(string \<times> 'txt) list"

definition safe_char :: "char \<Rightarrow> bool" where
  "safe_char c \<longleftrightarrow>
     (let n = (of_char c :: nat) in 48 \<le> n \<and> n \<le> 57 \<or> 65 \<le> n \<and> n \<le> 90 \<or> 97 \<le> n \<and> n \<le> 122) \<or> c \<in> {CHR ''.'', CHR ''_'', CHR ''-''}"

definition bar_path :: "string \<Rightarrow> price_adjustment \<Rightarrow> string" where
  "bar_path i adj = map (\<lambda>c. if safe_char c then c else CHR ''_'') i @ ''__'' @ adjustment_value adj @ ''.json''"

definition load_bars :: "'txt bar_codec \<Rightarrow> 'txt bar_files \<Rightarrow> string \<Rightarrow> price_adjustment \<Rightarrow> daily_bar list res" where
  "load_bars cd files i adj =
     (case map_of files (bar_path i adj) of
        None \<Rightarrow> Inr []
      | Some txt \<Rightarrow> res_bind (bc_load cd txt) (\<lambda>bars. Inr (sort_key hb_date bars)))"

type_synonym bars_by_date = "(date \<times> daily_bar) list"

definition index_by_date :: "daily_bar list \<Rightarrow> bars_by_date" where
  "index_by_date bars = foldl (\<lambda>m b. AList.update (hb_date b) b m) [] bars"

definition write_bars :: "'txt bar_codec \<Rightarrow> 'txt bar_files \<Rightarrow> string \<Rightarrow> price_adjustment \<Rightarrow> bars_by_date \<Rightarrow> 'txt bar_files" where
  "write_bars cd files i adj by_date = AList.update (bar_path i adj) (bc_dump cd (map snd (sort_key fst by_date))) files"

definition upsert :: "'txt bar_codec \<Rightarrow> 'txt bar_files \<Rightarrow> daily_bar \<Rightarrow> (upsert_outcome \<times> 'txt bar_files) res" where
  "upsert cd files b =
     res_bind (load_bars cd files (hb_identity b) (hb_adjustment b)) (\<lambda>existing.
       let by_date = index_by_date existing
       in case map_of by_date (hb_date b) of
            Some prior \<Rightarrow> Inr (if has_same_values prior b then UNCHANGED else BAR_CONFLICT, files)
          | None \<Rightarrow> Inr (INSERTED, write_bars cd files (hb_identity b) (hb_adjustment b) (AList.update (hb_date b) b by_date)))"

fun upsert_group :: "bars_by_date \<Rightarrow> upsert_counts \<Rightarrow> bool \<Rightarrow> daily_bar list \<Rightarrow> bars_by_date \<times> upsert_counts \<times> bool" where
  "upsert_group by_date counts dirty [] = (by_date, counts, dirty)"
| "upsert_group by_date counts dirty (b # bs) =
     (case map_of by_date (hb_date b) of
        None \<Rightarrow> upsert_group (AList.update (hb_date b) b by_date) (counts\<lparr>uc_inserted := uc_inserted counts + 1\<rparr>) True bs
      | Some prior \<Rightarrow>
          (if has_same_values prior b then upsert_group by_date (counts\<lparr>uc_unchanged := uc_unchanged counts + 1\<rparr>) dirty bs
           else upsert_group by_date (counts\<lparr>uc_conflict := uc_conflict counts + 1\<rparr>) dirty bs))"

definition bar_key :: "daily_bar \<Rightarrow> string \<times> price_adjustment" where
  "bar_key b = (hb_identity b, hb_adjustment b)"

text \<open>The keys of the \<^verbatim>\<open>defaultdict\<close> in the order of their first bar.\<close>

definition group_keys :: "daily_bar list \<Rightarrow> (string \<times> price_adjustment) list" where
  "group_keys bars = rev (remdups (rev (map bar_key bars)))"

fun upsert_groups ::
  "'txt bar_codec \<Rightarrow> daily_bar list \<Rightarrow> 'txt bar_files \<Rightarrow> upsert_counts \<Rightarrow> (string \<times> price_adjustment) list \<Rightarrow> (upsert_counts \<times> 'txt bar_files) res" where
  "upsert_groups cd bars files counts [] = Inr (counts, files)"
| "upsert_groups cd bars files counts ((i, adj) # keys) =
     res_bind (load_bars cd files i adj) (\<lambda>existing.
       case upsert_group (index_by_date existing) counts False (filter (\<lambda>b. bar_key b = (i, adj)) bars) of
         (by_date, counts', dirty) \<Rightarrow>
           upsert_groups cd bars (if dirty then write_bars cd files i adj by_date else files) counts' keys)"

definition upsert_many :: "'txt bar_codec \<Rightarrow> 'txt bar_files \<Rightarrow> daily_bar list \<Rightarrow> (upsert_counts \<times> 'txt bar_files) res" where
  "upsert_many cd files bars = upsert_groups cd bars files no_counts (group_keys bars)"

definition read_range :: "'txt bar_codec \<Rightarrow> 'txt bar_files \<Rightarrow> string \<Rightarrow> date \<Rightarrow> date \<Rightarrow> price_adjustment \<Rightarrow> bar_series res" where
  "read_range cd files i first_day last_day adj =
     res_bind (load_bars cd files i adj) (\<lambda>bars. mk_bar_series i adj (filter (\<lambda>b. first_day \<le> hb_date b \<and> hb_date b \<le> last_day) bars))"

definition read_last_n :: "'txt bar_codec \<Rightarrow> 'txt bar_files \<Rightarrow> string \<Rightarrow> date \<Rightarrow> int \<Rightarrow> price_adjustment \<Rightarrow> bar_series res" where
  "read_last_n cd files i as_of n adj =
     res_bind (load_bars cd files i adj) (\<lambda>bars. mk_bar_series i adj (newest_bars n (filter (\<lambda>b. hb_date b \<le> as_of) bars)))"

definition available_dates :: "'txt bar_codec \<Rightarrow> 'txt bar_files \<Rightarrow> string \<Rightarrow> price_adjustment \<Rightarrow> date list res" where
  "available_dates cd files i adj = res_bind (load_bars cd files i adj) (\<lambda>bars. Inr (map hb_date bars))"

section \<open>The service\<close>

text \<open>\<^verbatim>\<open>HistoricalBarStore\<close>: the operations the service calls.\<close>

record 's bar_store =
  st_upsert_many :: "'s \<Rightarrow> daily_bar list \<Rightarrow> (upsert_counts \<times> 's) res"
  st_read_range :: "'s \<Rightarrow> string \<Rightarrow> date \<Rightarrow> date \<Rightarrow> price_adjustment \<Rightarrow> bar_series res"
  st_available_dates :: "'s \<Rightarrow> string \<Rightarrow> price_adjustment \<Rightarrow> date list res"

definition file_store :: "'txt bar_codec \<Rightarrow> 'txt bar_files bar_store" where
  "file_store cd = \<lparr>st_upsert_many = upsert_many cd, st_read_range = read_range cd, st_available_dates = available_dates cd\<rparr>"

record history_metrics =
  hm_fetch_attempts :: int
  hm_fetch_successes :: int
  hm_fetch_failures :: int
  hm_bars_received :: int
  hm_bars_inserted :: int
  hm_bars_unchanged :: int
  hm_bar_conflicts :: int
  hm_coverage_checks :: int
  hm_complete_instruments :: int
  hm_incomplete_instruments :: int
  hm_missing_trading_days :: int
  hm_last_fetch_at :: "instant option"
  hm_last_success_at :: "instant option"
  hm_last_failure_at :: "instant option"

definition fresh_history_metrics :: history_metrics where
  "fresh_history_metrics =
     \<lparr>hm_fetch_attempts = 0, hm_fetch_successes = 0, hm_fetch_failures = 0, hm_bars_received = 0, hm_bars_inserted = 0, hm_bars_unchanged = 0,
      hm_bar_conflicts = 0, hm_coverage_checks = 0, hm_complete_instruments = 0, hm_incomplete_instruments = 0, hm_missing_trading_days = 0,
      hm_last_fetch_at = None, hm_last_success_at = None, hm_last_failure_at = None\<rparr>"

record 's history_service =
  hv_store :: 's
  hv_calendar :: trading_calendar
  hv_authority :: bool
  hv_metrics :: history_metrics

definition adjusted_unavailable :: py_error where
  "adjusted_unavailable = RuntimeError ''AdjustedDataUnavailableError''"

definition history_source_error :: py_error where
  "history_source_error = RuntimeError ''HistoricalSourceError''"

definition guard_adjustment :: "'s history_service \<Rightarrow> price_adjustment \<Rightarrow> unit res" where
  "guard_adjustment hv adj = (if adj = ADJUSTED \<and> \<not> hv_authority hv then Inl adjusted_unavailable else Inr ())"

definition history_coverage ::
  "'s bar_store \<Rightarrow> 's history_service \<Rightarrow> string \<Rightarrow> int \<Rightarrow> date \<Rightarrow> price_adjustment \<Rightarrow> (historical_coverage \<times> 's history_service) res" where
  "history_coverage ops hv i trading_days as_of adj =
     res_bind (guard_adjustment hv adj) (\<lambda>_.
     res_bind (required_trading_dates (hv_calendar hv) as_of trading_days) (\<lambda>required.
     res_bind (st_available_dates ops (hv_store hv) i adj) (\<lambda>stored.
       let cv = compute_coverage i required stored; m = hv_metrics hv;
           m1 = m\<lparr>hm_coverage_checks := hm_coverage_checks m + 1, hm_missing_trading_days := hm_missing_trading_days m + int (length (missing_dates cv))\<rparr>;
           m2 = (if coverage_complete cv then m1\<lparr>hm_complete_instruments := hm_complete_instruments m1 + 1\<rparr>
                 else m1\<lparr>hm_incomplete_instruments := hm_incomplete_instruments m1 + 1\<rparr>)
       in Inr (cv, hv\<lparr>hv_metrics := m2\<rparr>))))"

definition service_previous_bar :: "'s bar_store \<Rightarrow> 's history_service \<Rightarrow> string \<Rightarrow> date \<Rightarrow> price_adjustment \<Rightarrow> daily_bar option res" where
  "service_previous_bar ops hv i as_of adj =
     res_bind (guard_adjustment hv adj) (\<lambda>_.
     res_bind (previous_trading_date (hv_calendar hv) as_of) (\<lambda>previous.
     res_bind (st_read_range ops (hv_store hv) i previous previous adj) (\<lambda>s. Inr (series_latest s))))"

fun plan_loop ::
  "'s bar_store \<Rightarrow> 's history_service \<Rightarrow> date list \<Rightarrow> price_adjustment \<Rightarrow> (string \<times> date list) list \<Rightarrow> instrument list \<Rightarrow> (string \<times> date list) list res" where
  "plan_loop ops hv required adj plan [] = Inr plan"
| "plan_loop ops hv required adj plan (inst # insts) =
     res_bind (st_available_dates ops (hv_store hv) (instrument_identity inst) adj) (\<lambda>stored.
       plan_loop ops hv required adj
         (AList.update (instrument_identity inst) (missing_dates (compute_coverage (instrument_identity inst) required stored)) plan) insts)"

definition plan_missing ::
  "'s bar_store \<Rightarrow> 's history_service \<Rightarrow> instrument list \<Rightarrow> int \<Rightarrow> date \<Rightarrow> price_adjustment \<Rightarrow> (string \<times> date list) list res" where
  "plan_missing ops hv insts trading_days as_of adj =
     res_bind (guard_adjustment hv adj) (\<lambda>_.
     res_bind (required_trading_dates (hv_calendar hv) as_of trading_days) (\<lambda>required. plan_loop ops hv required adj [] insts))"

record backfill_result =
  bf_identity :: string
  bf_missing_before :: "date list"
  bf_inserted :: int
  bf_unchanged :: int
  bf_conflicts :: int
  bf_fetch_ok :: bool
  bf_complete_after :: bool

definition complete_count :: "backfill_result list \<Rightarrow> int" where
  "complete_count results = int (length (filter bf_complete_after results))"

text \<open>What surrounds one fetch: the clock readings at its start and its end, and the answer of the source.\<close>

record fetch_surroundings =
  fs_started :: instant
  fs_ended :: instant
  fs_answer :: "date \<Rightarrow> date \<Rightarrow> daily_bar list res"

definition fetch_and_store ::
  "'s bar_store \<Rightarrow> 's history_service \<Rightarrow> fetch_surroundings \<Rightarrow> date list \<Rightarrow> price_adjustment \<Rightarrow> (bool \<times> upsert_counts) res \<times> 's history_service" where
  "fetch_and_store ops hv env missing adj =
     (let m = hv_metrics hv;
          m1 = m\<lparr>hm_fetch_attempts := hm_fetch_attempts m + 1, hm_last_fetch_at := Some (fs_started env)\<rparr>
      in case fs_answer env (hd missing) (last missing) of
           Inl err \<Rightarrow>
             (if err = history_source_error
              then (Inr (False, no_counts), hv\<lparr>hv_metrics := m1\<lparr>hm_fetch_failures := hm_fetch_failures m1 + 1, hm_last_failure_at := Some (fs_ended env)\<rparr>\<rparr>)
              else (Inl err, hv\<lparr>hv_metrics := m1\<rparr>))
         | Inr fetched \<Rightarrow>
             (let m2 = m1\<lparr>hm_fetch_successes := hm_fetch_successes m1 + 1, hm_last_success_at := Some (fs_ended env),
                          hm_bars_received := hm_bars_received m1 + int (length fetched)\<rparr>
              in case st_upsert_many ops (hv_store hv) (filter (\<lambda>b. hb_date b \<in> set missing \<and> hb_adjustment b = adj) fetched) of
                   Inl err \<Rightarrow> (Inl err, hv\<lparr>hv_metrics := m2\<rparr>)
                 | Inr (counts, s') \<Rightarrow>
                     (Inr (True, counts),
                      hv\<lparr>hv_store := s',
                         hv_metrics := m2\<lparr>hm_bars_inserted := hm_bars_inserted m2 + uc_inserted counts, hm_bars_unchanged := hm_bars_unchanged m2 + uc_unchanged counts,
                                          hm_bar_conflicts := hm_bar_conflicts m2 + uc_conflict counts\<rparr>\<rparr>)))"

definition backfill_report :: "'s bar_store \<Rightarrow> 's history_service \<Rightarrow> string \<Rightarrow> date list \<Rightarrow> date list \<Rightarrow> price_adjustment \<Rightarrow> bool \<Rightarrow> upsert_counts \<Rightarrow> backfill_result res" where
  "backfill_report ops hv i required missing adj fetch_ok counts =
     res_bind (st_available_dates ops (hv_store hv) i adj) (\<lambda>stored.
       Inr \<lparr>bf_identity = i, bf_missing_before = missing, bf_inserted = uc_inserted counts, bf_unchanged = uc_unchanged counts,
            bf_conflicts = uc_conflict counts, bf_fetch_ok = fetch_ok, bf_complete_after = coverage_complete (compute_coverage i required stored)\<rparr>)"

definition backfill_instrument ::
  "'s bar_store \<Rightarrow> 's history_service \<Rightarrow> fetch_surroundings \<Rightarrow> instrument \<Rightarrow> date list \<Rightarrow> price_adjustment \<Rightarrow> backfill_result res \<times> 's history_service" where
  "backfill_instrument ops hv env inst required adj =
     (let i = instrument_identity inst
      in case st_available_dates ops (hv_store hv) i adj of
           Inl err \<Rightarrow> (Inl err, hv)
         | Inr stored \<Rightarrow>
             (let missing = missing_dates (compute_coverage i required stored)
              in if missing = [] then (backfill_report ops hv i required missing adj True no_counts, hv)
                 else case fetch_and_store ops hv env missing adj of
                   (Inl err, hv') \<Rightarrow> (Inl err, hv')
                 | (Inr (ok, counts), hv') \<Rightarrow> (backfill_report ops hv' i required missing adj ok counts, hv')))"

fun backfill_loop ::
  "'s bar_store \<Rightarrow> 's history_service \<Rightarrow> (instrument \<Rightarrow> fetch_surroundings) \<Rightarrow> date list \<Rightarrow> price_adjustment \<Rightarrow> instrument list \<Rightarrow>
   backfill_result list res \<times> 's history_service" where
  "backfill_loop ops hv env required adj [] = (Inr [], hv)"
| "backfill_loop ops hv env required adj (inst # insts) =
     (case backfill_instrument ops hv (env inst) inst required adj of
        (Inl err, hv') \<Rightarrow> (Inl err, hv')
      | (Inr r, hv') \<Rightarrow>
          (case backfill_loop ops hv' env required adj insts of
             (Inl err, hv'') \<Rightarrow> (Inl err, hv'')
           | (Inr rs, hv'') \<Rightarrow> (Inr (r # rs), hv'')))"

definition backfill ::
  "'s bar_store \<Rightarrow> 's history_service \<Rightarrow> (instrument \<Rightarrow> fetch_surroundings) \<Rightarrow> instrument list \<Rightarrow> int \<Rightarrow> date \<Rightarrow> price_adjustment \<Rightarrow>
   backfill_result list res \<times> 's history_service" where
  "backfill ops hv env insts trading_days as_of adj =
     (case res_bind (guard_adjustment hv adj) (\<lambda>_. required_trading_dates (hv_calendar hv) as_of trading_days) of
        Inl err \<Rightarrow> (Inl err, hv)
      | Inr required \<Rightarrow> backfill_loop ops hv env required adj insts)"

datatype close_comparison = AGREE | DISAGREE | CLOSE_UNAVAILABLE

definition compare_previous_close :: "'s bar_store \<Rightarrow> 's history_service \<Rightarrow> string \<Rightarrow> date \<Rightarrow> decimal option \<Rightarrow> close_comparison res" where
  "compare_previous_close ops hv i as_of reference =
     (case reference of
        None \<Rightarrow> Inr CLOSE_UNAVAILABLE
      | Some close \<Rightarrow>
          res_bind (service_previous_bar ops hv i as_of RAW) (\<lambda>bar.
            case bar of
              None \<Rightarrow> Inr CLOSE_UNAVAILABLE
            | Some b \<Rightarrow> Inr (if hb_close b = close then AGREE else DISAGREE)))"

text \<open>The in-memory reference source.\<close>

record memory_source =
  ms_bars :: "(string \<times> daily_bar list) list"
  ms_fail_for :: "string set"

definition memory_fetch :: "memory_source \<Rightarrow> instrument \<Rightarrow> date \<Rightarrow> date \<Rightarrow> daily_bar list res" where
  "memory_fetch ms inst first_day last_day =
     (let i = instrument_identity inst
      in if i \<in> ms_fail_for ms then Inl history_source_error
         else Inr (filter (\<lambda>b. first_day \<le> hb_date b \<and> hb_date b \<le> last_day) (case map_of (ms_bars ms) i of None \<Rightarrow> [] | Some bars \<Rightarrow> bars)))"

section \<open>Required dates are the newest trading days\<close>

definition lookback_days :: "trading_calendar \<Rightarrow> date \<Rightarrow> date list" where
  "lookback_days cal as_of = filter (is_trading_day cal) [as_of - int MAX_CALENDAR_LOOKBACK_DAYS + 1 .. as_of]"

definition newest_trading_days :: "trading_calendar \<Rightarrow> date \<Rightarrow> int \<Rightarrow> date list" where
  "newest_trading_days cal as_of n = drop (length (lookback_days cal as_of) - nat n) (lookback_days cal as_of)"

lemma required_loop_walk:
  "required_loop cal n k cursor acc =
     acc @ take (nat n - length acc) (rev (filter (is_trading_day cal) [cursor - int k + 1 .. cursor]))"
proof (induction k arbitrary: cursor acc)
  case (Suc k)
  have split: "[cursor - int k .. cursor] = [cursor - int k .. cursor - 1] @ [cursor]"
    by (simp add: upto_rec2)
  show ?case
  proof (cases "int (length acc) \<ge> n")
    case False
    then have pos: "nat n - length acc = Suc (nat n - Suc (length acc))" by linarith
    show ?thesis using False by (simp add: Suc.IH split pos)
  qed simp
qed simp

lemma sorted_lookback_days: "sorted (lookback_days cal as_of)" "distinct (lookback_days cal as_of)"
  by (simp_all add: lookback_days_def sorted_wrt_filter)

lemma required_trading_dates_eq:
  assumes "0 \<le> n"
  shows "required_trading_dates cal as_of n = Inr (newest_trading_days cal as_of n)"
proof -
  let ?T = "lookback_days cal as_of"
  have "required_loop cal n MAX_CALENDAR_LOOKBACK_DAYS as_of [] = take (nat n) (rev ?T)"
    by (simp add: required_loop_walk lookback_days_def)
  also have "\<dots> = rev (drop (length ?T - nat n) ?T)" by (simp add: take_rev)
  finally have loop: "required_loop cal n MAX_CALENDAR_LOOKBACK_DAYS as_of [] = rev (drop (length ?T - nat n) ?T)" .
  have "sort (rev (drop (length ?T - nat n) ?T)) = drop (length ?T - nat n) ?T"
    using sorted_lookback_days(1) [of cal as_of] by (intro properties_for_sort) (simp_all add: sorted_wrt_drop)
  then show ?thesis using assms by (simp add: required_trading_dates_def loop newest_trading_days_def)
qed

section \<open>A store in which the first write wins\<close>

definition add_bar :: "(date \<Rightarrow> daily_bar option) \<Rightarrow> daily_bar \<Rightarrow> (date \<Rightarrow> daily_bar option)" where
  "add_bar m b = (case m (hb_date b) of None \<Rightarrow> m(hb_date b \<mapsto> b) | Some _ \<Rightarrow> m)"

definition add_bars :: "(date \<Rightarrow> daily_bar option) \<Rightarrow> daily_bar list \<Rightarrow> (date \<Rightarrow> daily_bar option)" where
  "add_bars m bs = foldl add_bar m bs"

lemma add_bars_simps [simp]:
  "add_bars m [] = m" "add_bars m (b # bs) = add_bars (add_bar m b) bs"
  by (simp_all add: add_bars_def)

lemma add_bar_keeps: "m d = Some b \<Longrightarrow> add_bar m b' d = Some b"
  by (auto simp: add_bar_def split: option.splits)

lemma sorted_hd_le: "sorted xs \<Longrightarrow> x \<in> set xs \<Longrightarrow> hd xs \<le> (x :: int)"
  by (cases xs) auto

lemma sorted_le_last: "sorted xs \<Longrightarrow> x \<in> set xs \<Longrightarrow> (x :: int) \<le> last xs"
  by (induction xs) (auto split: if_splits)

lemma add_bars_keeps: "m d = Some b \<Longrightarrow> add_bars m bs d = Some b"
  by (induction bs arbitrary: m) (simp_all add: add_bar_keeps)

lemma dom_add_bar: "dom (add_bar m b) = insert (hb_date b) (dom m)"
  by (auto simp: add_bar_def split: option.splits)

lemma dom_add_bars: "dom (add_bars m bs) = dom m \<union> hb_date ` set bs"
  by (induction bs arbitrary: m) (auto simp: dom_add_bar)

definition wf_daily_bar :: "daily_bar \<Rightarrow> bool" where
  "wf_daily_bar b \<longleftrightarrow> mk_daily_bar b = Inr b"

definition counts_total :: "upsert_counts \<Rightarrow> int" where
  "counts_total c = uc_inserted c + uc_unchanged c + uc_conflict c"

text \<open>The answers a source may give: a failure it documents, or valid bars; and a source that has a bar for each of some dates.\<close>

definition sane_answer :: "(string \<Rightarrow> bool) \<Rightarrow> fetch_surroundings \<Rightarrow> bool" where
  "sane_answer named env \<longleftrightarrow>
     (\<forall>f l. fs_answer env f l = Inl history_source_error \<or> (\<exists>bs. fs_answer env f l = Inr bs \<and> (\<forall>b \<in> set bs. wf_daily_bar b \<and> named (hb_identity b))))"

definition answers_all :: "fetch_surroundings \<Rightarrow> string \<times> price_adjustment \<Rightarrow> date list \<Rightarrow> bool" where
  "answers_all env k ds \<longleftrightarrow>
     (\<forall>f l. \<exists>bs. fs_answer env f l = Inr bs \<and> (\<forall>d \<in> set ds. f \<le> d \<longrightarrow> d \<le> l \<longrightarrow> (\<exists>b \<in> set bs. bar_key b = k \<and> hb_date b = d)))"

text \<open>
  The contract of \<^verbatim>\<open>HistoricalBarStore\<close>: in the states \<open>inv\<close> admits and for the identities \<open>named\<close> admits, the store is a map from identity, adjustment and date to a bar; dates are
  reported in order, a range is a valid series, and a batch adds each bar whose date is free and keeps what is there.
\<close>

locale lawful_bar_store =
  fixes ops :: "'s bar_store" and inv :: "'s \<Rightarrow> bool" and named :: "string \<Rightarrow> bool"
    and bars :: "'s \<Rightarrow> string \<times> price_adjustment \<Rightarrow> date \<Rightarrow> daily_bar option"
  assumes finite_dates: "inv s \<Longrightarrow> named i \<Longrightarrow> finite (dom (bars s (i, adj)))"
    and dates: "inv s \<Longrightarrow> named i \<Longrightarrow> st_available_dates ops s i adj = Inr (sorted_list_of_set (dom (bars s (i, adj))))"
    and range: "inv s \<Longrightarrow> named i \<Longrightarrow> sized_text 128 i \<Longrightarrow> \<exists>se. st_read_range ops s i d d adj = Inr se \<and> series_latest se = bars s (i, adj) d"
    and batch: "inv s \<Longrightarrow> \<forall>b \<in> set bs. wf_daily_bar b \<and> named (hb_identity b) \<Longrightarrow>
      \<exists>counts s'. st_upsert_many ops s bs = Inr (counts, s') \<and> inv s' \<and> counts_total counts = int (length bs)
        \<and> (\<forall>i adj. named i \<longrightarrow> bars s' (i, adj) = add_bars (bars s (i, adj)) (filter (\<lambda>b. bar_key b = (i, adj)) bs))"
begin

lemma covered_iff:
  assumes "inv s" "named i" "st_available_dates ops s i adj = Inr stored"
  shows "missing_dates (compute_coverage i required stored) = filter (\<lambda>d. d \<notin> dom (bars s (i, adj))) required"
    "coverage_complete (compute_coverage i required stored) \<longleftrightarrow> set required \<subseteq> dom (bars s (i, adj))"
proof -
  have "set stored = dom (bars s (i, adj))" using dates [OF assms(1,2), of adj] finite_dates [OF assms(1,2), of adj] assms(3) by simp
  then show m: "missing_dates (compute_coverage i required stored) = filter (\<lambda>d. d \<notin> dom (bars s (i, adj))) required"
    by (simp add: missing_dates_def compute_coverage_def)
  show "coverage_complete (compute_coverage i required stored) \<longleftrightarrow> set required \<subseteq> dom (bars s (i, adj))"
    unfolding coverage_complete_def m by (auto simp: filter_empty_conv)
qed

definition grows :: "'s \<Rightarrow> 's \<Rightarrow> bool" where
  "grows s s' \<longleftrightarrow> (\<forall>i adj d b. named i \<longrightarrow> bars s (i, adj) d = Some b \<longrightarrow> bars s' (i, adj) d = Some b)"

lemma grows_refl [simp]: "grows s s"
  by (simp add: grows_def)

lemma grows_trans: "grows s s' \<Longrightarrow> grows s' s'' \<Longrightarrow> grows s s''"
  unfolding grows_def by blast

lemma grows_dom: "grows s s' \<Longrightarrow> named i \<Longrightarrow> dom (bars s (i, adj)) \<subseteq> dom (bars s' (i, adj))"
  by (auto simp: grows_def)

lemma fetch_and_store_ok:
  assumes "inv (hv_store hv)" "sane_answer named env"
  shows "\<exists>ok counts hv'. fetch_and_store ops hv env missing adj = (Inr (ok, counts), hv') \<and> inv (hv_store hv') \<and> grows (hv_store hv) (hv_store hv')
    \<and> (\<forall>bs. fs_answer env (hd missing) (last missing) = Inr bs \<longrightarrow>
         ok \<and> (\<forall>i. named i \<longrightarrow> dom (bars (hv_store hv') (i, adj)) = dom (bars (hv_store hv) (i, adj)) \<union>
           hb_date ` {b \<in> set bs. bar_key b = (i, adj) \<and> hb_date b \<in> set missing}))
    \<and> hv_calendar hv' = hv_calendar hv \<and> hv_authority hv' = hv_authority hv"
proof (cases "fs_answer env (hd missing) (last missing)")
  case (Inl err)
  then have "err = history_source_error" using assms(2) [unfolded sane_answer_def, rule_format, of "hd missing" "last missing"] by auto
  then show ?thesis using Inl assms(1) by (simp add: fetch_and_store_def Let_def) blast
next
  case (Inr bs)
  let ?wanted = "filter (\<lambda>b. hb_date b \<in> set missing \<and> hb_adjustment b = adj) bs"
  have "\<forall>b \<in> set bs. wf_daily_bar b \<and> named (hb_identity b)" 
    using assms(2) [unfolded sane_answer_def, rule_format, of "hd missing" "last missing"] Inr by auto
  then have "\<forall>b \<in> set ?wanted. wf_daily_bar b \<and> named (hb_identity b)" by simp
  then obtain counts s' where up: "st_upsert_many ops (hv_store hv) ?wanted = Inr (counts, s')" "inv s'"
    "\<forall>i a. named i \<longrightarrow> bars s' (i, a) = add_bars (bars (hv_store hv) (i, a)) (filter (\<lambda>b. bar_key b = (i, a)) ?wanted)"
    using batch [OF assms(1), of ?wanted] by blast
  have g: "grows (hv_store hv) s'" using up(3) add_bars_keeps by (simp add: grows_def)
  have "dom (bars s' (i, adj)) = dom (bars (hv_store hv) (i, adj)) \<union> hb_date ` {b \<in> set bs. bar_key b = (i, adj) \<and> hb_date b \<in> set missing}"
    if "named i" for i
    using up(3) that by (auto simp: dom_add_bars bar_key_def)
  then show ?thesis using Inr up(1,2) g by (simp add: fetch_and_store_def Let_def) blast
qed

text \<open>What one backfilled instrument promises about the stores before and after.\<close>

definition instrument_done :: "'s \<Rightarrow> 's \<Rightarrow> fetch_surroundings \<Rightarrow> date list \<Rightarrow> price_adjustment \<Rightarrow> string \<Rightarrow> backfill_result \<Rightarrow> bool" where
  "instrument_done s s' env required adj i r \<longleftrightarrow>
     bf_identity r = i \<and> bf_missing_before r = filter (\<lambda>d. d \<notin> dom (bars s (i, adj))) required
     \<and> (bf_complete_after r \<longleftrightarrow> set required \<subseteq> dom (bars s' (i, adj)))
     \<and> (sorted required \<longrightarrow> answers_all env (i, adj) required \<longrightarrow> bf_complete_after r)"

lemma backfill_report_ok:
  assumes "inv (hv_store hv)" "named i"
  shows "\<exists>r. backfill_report ops hv i required missing adj ok counts = Inr r \<and> bf_identity r = i \<and> bf_missing_before r = missing
    \<and> (bf_complete_after r \<longleftrightarrow> set required \<subseteq> dom (bars (hv_store hv) (i, adj)))"
  using covered_iff(2) [OF assms dates [OF assms]] dates [OF assms, of adj] by (simp add: backfill_report_def)

lemma backfill_instrument_ok:
  assumes "inv (hv_store hv)" "named (instrument_identity inst)" "sane_answer named env"
  shows "\<exists>r hv'. backfill_instrument ops hv env inst required adj = (Inr r, hv') \<and> inv (hv_store hv') \<and> grows (hv_store hv) (hv_store hv')
    \<and> instrument_done (hv_store hv) (hv_store hv') env required adj (instrument_identity inst) r"
proof -
  let ?i = "instrument_identity inst" and ?s = "hv_store hv"
  obtain stored where st: "st_available_dates ops ?s ?i adj = Inr stored" using dates [OF assms(1,2)] by blast
  let ?missing = "missing_dates (compute_coverage ?i required stored)"
  note c = covered_iff [OF assms(1,2) st, of required]
  show ?thesis
  proof (cases "?missing = []")
    case True
    obtain r where r: "backfill_report ops hv ?i required ?missing adj True no_counts = Inr r" "bf_identity r = ?i" "bf_missing_before r = ?missing"
      "bf_complete_after r \<longleftrightarrow> set required \<subseteq> dom (bars ?s (?i, adj))" using backfill_report_ok [OF assms(1,2)] by blast
    have comp: "bf_complete_after r" using r(4) c(2) True by (simp add: coverage_complete_def)
    have "instrument_done ?s ?s env required adj ?i r" using r(2-4) c(1) comp by (simp add: instrument_done_def)
    moreover have "backfill_instrument ops hv env inst required adj = (Inr r, hv)" using st True r(1) by (simp add: backfill_instrument_def Let_def)
    ultimately show ?thesis using assms(1) by auto
  next
    case False
    from fetch_and_store_ok [OF assms(1,3), of ?missing adj] obtain ok counts hv' where
      f: "fetch_and_store ops hv env ?missing adj = (Inr (ok, counts), hv')" "inv (hv_store hv')" "grows ?s (hv_store hv')"
      "\<forall>bs. fs_answer env (hd ?missing) (last ?missing) = Inr bs \<longrightarrow>
         ok \<and> (\<forall>i. named i \<longrightarrow> dom (bars (hv_store hv') (i, adj)) = dom (bars ?s (i, adj)) \<union> hb_date ` {b \<in> set bs. bar_key b = (i, adj) \<and> hb_date b \<in> set ?missing})"
      by blast
    obtain r where r: "backfill_report ops hv' ?i required ?missing adj ok counts = Inr r" "bf_identity r = ?i" "bf_missing_before r = ?missing"
      "bf_complete_after r \<longleftrightarrow> set required \<subseteq> dom (bars (hv_store hv') (?i, adj))" using backfill_report_ok [OF f(2) assms(2)] by blast
    have run: "backfill_instrument ops hv env inst required adj = (Inr r, hv')" using st False r(1) f(1) by (simp add: backfill_instrument_def Let_def)
    have full: "bf_complete_after r" if so: "sorted required" and an: "answers_all env (?i, adj) required"
    proof -
      obtain bs where bs: "fs_answer env (hd ?missing) (last ?missing) = Inr bs"
        "\<forall>d \<in> set required. hd ?missing \<le> d \<longrightarrow> d \<le> last ?missing \<longrightarrow> (\<exists>b \<in> set bs. bar_key b = (?i, adj) \<and> hb_date b = d)"
        using an unfolding answers_all_def by blast
      have ms: "sorted ?missing" using so unfolding c(1) by (rule sorted_wrt_filter)
      let ?new = "hb_date ` {b \<in> set bs. bar_key b = (?i, adj) \<and> hb_date b \<in> set ?missing}"
      have eq: "dom (bars (hv_store hv') (?i, adj)) = dom (bars ?s (?i, adj)) \<union> hb_date ` {b \<in> set bs. bar_key b = (?i, adj) \<and> hb_date b \<in> set ?missing}"
        using f(4) bs(1) assms(2) by blast
      have "d \<in> ?new" if d: "d \<in> set ?missing" for d
      proof -
        have "d \<in> set required" using d c(1) by simp
        moreover have "hd ?missing \<le> d" "d \<le> last ?missing" using sorted_hd_le [OF ms d] sorted_le_last [OF ms d] by simp_all
        ultimately obtain b where "b \<in> set bs" "bar_key b = (?i, adj)" "hb_date b = d" using bs(2) by blast
        then show ?thesis using d by blast
      qed
      then have new: "set ?missing \<subseteq> ?new" by (rule subsetI)
      have sm: "set required - dom (bars ?s (?i, adj)) = set ?missing" unfolding c(1) by auto
      have "dom (bars ?s (?i, adj)) \<union> (set required - dom (bars ?s (?i, adj))) \<subseteq> dom (bars (hv_store hv') (?i, adj))"
        unfolding eq sm using new by (rule Un_mono [OF order_refl])
      then have "set required \<subseteq> dom (bars (hv_store hv') (?i, adj))" by (simp add: Un_Diff_cancel)
      then show ?thesis using r(4) by simp
    qed
    have "instrument_done ?s (hv_store hv') env required adj ?i r"
      unfolding instrument_done_def using r(2,3,4) c(1) full by simp
    then show ?thesis using run f(2,3) by (intro exI [of _ r] exI [of _ hv']) simp
  qed
qed

lemma backfill_loop_ok:
  assumes "inv (hv_store hv)" "\<forall>inst \<in> set insts. named (instrument_identity inst) \<and> sane_answer named (env inst)"
  shows "\<exists>rs hv'. backfill_loop ops hv env required adj insts = (Inr rs, hv') \<and> inv (hv_store hv') \<and> grows (hv_store hv) (hv_store hv')
    \<and> list_all2 (\<lambda>inst r. \<exists>s s'. grows (hv_store hv) s \<and> grows s' (hv_store hv') \<and> instrument_done s s' (env inst) required adj (instrument_identity inst) r) insts rs"
  using assms
proof (induction insts arbitrary: hv)
  case (Cons inst insts)
  then have i: "named (instrument_identity inst)" "sane_answer named (env inst)" by simp_all
  obtain r hv1 where s1: "backfill_instrument ops hv (env inst) inst required adj = (Inr r, hv1)" "inv (hv_store hv1)" "grows (hv_store hv) (hv_store hv1)"
    "instrument_done (hv_store hv) (hv_store hv1) (env inst) required adj (instrument_identity inst) r"
    using backfill_instrument_ok [OF Cons.prems(1) i] by blast
  obtain rs hv2 where s2: "backfill_loop ops hv1 env required adj insts = (Inr rs, hv2)" "inv (hv_store hv2)" "grows (hv_store hv1) (hv_store hv2)"
    "list_all2 (\<lambda>inst r. \<exists>s s'. grows (hv_store hv1) s \<and> grows s' (hv_store hv2) \<and> instrument_done s s' (env inst) required adj (instrument_identity inst) r) insts rs"
    using Cons.IH [OF s1(2)] Cons.prems(2) by auto
  have "list_all2 (\<lambda>inst r. \<exists>s s'. grows (hv_store hv) s \<and> grows s' (hv_store hv2) \<and> instrument_done s s' (env inst) required adj (instrument_identity inst) r) insts rs"
    using s2(4) by (rule list_all2_mono) (use grows_trans [OF s1(3)] in blast)
  moreover have "\<exists>s s'. grows (hv_store hv) s \<and> grows s' (hv_store hv2) \<and> instrument_done s s' (env inst) required adj (instrument_identity inst) r"
    using s1(4) s2(3) grows_refl by blast
  ultimately show ?case using s1(1) s2(1,2) grows_trans [OF s1(3) s2(3)] by simp
qed simp

end

section \<open>The file store meets the contract\<close>

text \<open>Identities whose file names are their own: the colon is the only character that is replaced, and no underscore occurs.\<close>

definition plain_identity :: "string \<Rightarrow> bool" where
  "plain_identity i \<longleftrightarrow> list_all (\<lambda>c. c = CHR '':'' \<or> safe_char c \<and> c \<noteq> CHR ''_'') i"

definition lossless_codec :: "'txt bar_codec \<Rightarrow> bool" where
  "lossless_codec cd \<longleftrightarrow> (\<forall>bs. list_all wf_daily_bar bs \<longrightarrow> bc_load cd (bc_dump cd bs) = Inr bs)"

definition stored_bars :: "'txt bar_codec \<Rightarrow> 'txt bar_files \<Rightarrow> string \<times> price_adjustment \<Rightarrow> daily_bar list" where
  "stored_bars cd files k = (case load_bars cd files (fst k) (snd k) of Inl _ \<Rightarrow> [] | Inr bs \<Rightarrow> bs)"

definition keyed :: "daily_bar list \<Rightarrow> bars_by_date" where
  "keyed bs = map (\<lambda>b. (hb_date b, b)) bs"

definition file_bars :: "'txt bar_codec \<Rightarrow> 'txt bar_files \<Rightarrow> string \<times> price_adjustment \<Rightarrow> date \<Rightarrow> daily_bar option" where
  "file_bars cd files k = map_of (keyed (stored_bars cd files k))"

definition good_bars :: "string \<times> price_adjustment \<Rightarrow> daily_bar list \<Rightarrow> bool" where
  "good_bars k bs \<longleftrightarrow> sorted_wrt (<) (map hb_date bs) \<and> (\<forall>b \<in> set bs. wf_daily_bar b \<and> bar_key b = k)"

definition file_inv :: "'txt bar_codec \<Rightarrow> 'txt bar_files \<Rightarrow> bool" where
  "file_inv cd files \<longleftrightarrow> lossless_codec cd \<and> (\<forall>i adj. plain_identity i \<longrightarrow> (\<exists>bs. load_bars cd files i adj = Inr bs \<and> good_bars (i, adj) bs))"

lemma safe_colon: "\<not> safe_char CHR '':''"
  by (simp add: safe_char_def Let_def)

lemma bar_path_inj:
  assumes "plain_identity i" "plain_identity j" "bar_path i adj = bar_path j adj'"
  shows "i = j \<and> adj = adj'"
proof -
  let ?f = "\<lambda>c. if safe_char c then c else CHR ''_''"
  have inj: "inj_on ?f {c. c = CHR '':'' \<or> safe_char c \<and> c \<noteq> CHR ''_''}" using safe_colon by (auto simp: inj_on_def)
  have "rev (bar_path i adj) = rev (bar_path j adj')" using assms(3) by simp
  then have adj: "adj = adj'" by (cases adj; cases adj') (simp_all add: bar_path_def)
  then have "map ?f i = map ?f j" using assms(3) by (simp add: bar_path_def)
  moreover have "set i \<union> set j \<subseteq> {c. c = CHR '':'' \<or> safe_char c \<and> c \<noteq> CHR ''_''}" using assms(1,2) by (auto simp: plain_identity_def list_all_iff)
  ultimately have "i = j" using inj_on_map_eq_map [of ?f i j] inj_on_subset [OF inj] by blast
  then show ?thesis using adj by simp
qed

text \<open>The dictionary of one file while a group is upserted.\<close>

definition dated_bars :: "string \<times> price_adjustment \<Rightarrow> bars_by_date \<Rightarrow> bool" where
  "dated_bars k m \<longleftrightarrow> distinct (map fst m) \<and> (\<forall>(d, b) \<in> set m. hb_date b = d \<and> wf_daily_bar b \<and> bar_key b = k)"

lemma index_by_date_keyed:
  assumes "distinct (map hb_date bs)"
  shows "index_by_date bs = keyed bs"
proof -
  have upd: "AList.update d b m = m @ [(d, b)]" if "d \<notin> fst ` set m" for d b and m :: bars_by_date
    using that by (induction m) auto
  have "foldl (\<lambda>m b. AList.update (hb_date b) b m) m bs = m @ keyed bs" if "distinct (map hb_date bs)" "hb_date ` set bs \<inter> fst ` set m = {}" for m
    using that
  proof (induction bs arbitrary: m)
    case (Cons b bs)
    then have "AList.update (hb_date b) b m = m @ [(hb_date b, b)]" by (intro upd) auto
    then show ?case using Cons by (auto simp: keyed_def)
  qed (simp add: keyed_def)
  from this [of "[]"] show ?thesis using assms by (simp add: index_by_date_def)
qed

lemma good_bars_dated: "good_bars k bs \<Longrightarrow> dated_bars k (keyed bs) \<and> index_by_date bs = keyed bs"
  using index_by_date_keyed [of bs] by (auto simp: good_bars_def dated_bars_def keyed_def strict_sorted_iff comp_def)

lemma written_bars:
  assumes "dated_bars k m"
  shows "good_bars k (map snd (sort_key fst m))" "map_of (keyed (map snd (sort_key fst m))) = map_of m"
    "sort_key hb_date (map snd (sort_key fst m)) = map snd (sort_key fst m)"
proof -
  let ?w = "map snd (sort_key fst m)"
  have each: "\<forall>x \<in> set (sort_key fst m). hb_date (snd x) = fst x" using assms by (auto simp: dated_bars_def)
  have kw: "keyed ?w = sort_key fst m" using each by (simp add: keyed_def comp_def) (rule map_idI, simp)
  have dw: "map hb_date ?w = map fst (sort_key fst m)" using each by simp
  have dist: "distinct (map fst (sort_key fst m))" using assms by (simp add: dated_bars_def distinct_map)
  then have strict: "sorted_wrt (<) (map hb_date ?w)" unfolding dw by (simp add: strict_sorted_iff)
  then show "good_bars k ?w" using assms by (auto simp: good_bars_def dated_bars_def)
  show "map_of (keyed ?w) = map_of m" unfolding kw using dist assms by (intro map_of_inject_set [THEN iffD2]) (simp_all add: dated_bars_def)
  show "sort_key hb_date ?w = ?w" using strict by (simp add: sort_key_id_if_sorted strict_sorted_iff)
qed

lemma in_set_update_cases:
  "x \<in> set (AList.update k v al) \<Longrightarrow> x = (k, v) \<or> x \<in> set al"
  by (induction al) (auto split: if_splits)

lemma upsert_group_adds:
  assumes "dated_bars k m" "\<forall>b \<in> set bs. wf_daily_bar b \<and> bar_key b = k" "upsert_group m c dirty bs = (m', c', dirty')"
  shows "dated_bars k m' \<and> map_of m' = add_bars (map_of m) bs \<and> counts_total c' = counts_total c + int (length bs) \<and> (dirty \<longrightarrow> dirty') \<and> (\<not> dirty' \<longrightarrow> m' = m)"
  using assms
proof (induction bs arbitrary: m c dirty)
  case (Cons b bs)
  show ?case
  proof (cases "map_of m (hb_date b)")
    case None
    let ?m = "AList.update (hb_date b) b m" and ?c = "c\<lparr>uc_inserted := uc_inserted c + 1\<rparr>"
    have "dated_bars k ?m" using Cons.prems(1,2) None
      by (auto simp: dated_bars_def distinct_update dest!: in_set_update_cases)
    moreover have m: "map_of ?m = add_bar (map_of m) b" using None by (simp add: update_conv' add_bar_def)
    moreover have "upsert_group ?m ?c True bs = (m', c', dirty')" using Cons.prems(3) None by simp
    ultimately show ?thesis using Cons.IH [of ?m ?c True] Cons.prems(2) by (simp add: counts_total_def del: fun_upd_apply)
  next
    case (Some prior)
    then show ?thesis using Cons.IH [OF Cons.prems(1)] Cons.prems
      by (cases "has_same_values prior b") (auto simp: add_bar_def counts_total_def)
  qed
qed simp

lemma load_after_write:
  assumes "file_inv cd files" "plain_identity i" "plain_identity j" "dated_bars (i, adj) m"
  shows "load_bars cd (write_bars cd files i adj m) j adj' = (if (j, adj') = (i, adj) then Inr (map snd (sort_key fst m)) else load_bars cd files j adj')"
proof -
  have w: "bc_load cd (bc_dump cd (map snd (sort_key fst m))) = Inr (map snd (sort_key fst m))"
    using assms(1) written_bars(1) [OF assms(4)] by (simp add: file_inv_def lossless_codec_def good_bars_def list_all_iff)
  show ?thesis
  proof (cases "(j, adj') = (i, adj)")
    case True
    then show ?thesis using w written_bars(3) [OF assms(4)] by (simp add: load_bars_def write_bars_def update_conv')
  next
    case False
    then have "bar_path j adj' \<noteq> bar_path i adj" using bar_path_inj [OF assms(3,2)] by blast
    then show ?thesis using False by (auto simp: load_bars_def write_bars_def update_conv')
  qed
qed

lemma file_inv_write:
  assumes "file_inv cd files" "plain_identity i" "dated_bars (i, adj) m"
  shows "file_inv cd (write_bars cd files i adj m)"
    "plain_identity j \<Longrightarrow> file_bars cd (write_bars cd files i adj m) (j, adj') = (if (j, adj') = (i, adj) then map_of m else file_bars cd files (j, adj'))"
proof -
  note l = load_after_write [OF assms(1,2) _ assms(3)]
  show "file_inv cd (write_bars cd files i adj m)"
    using assms(1) l written_bars(1) [OF assms(3)] unfolding file_inv_def by fastforce
  show "file_bars cd (write_bars cd files i adj m) (j, adj') = (if (j, adj') = (i, adj) then map_of m else file_bars cd files (j, adj'))"
    if "plain_identity j"
    using l [OF that, of adj'] written_bars(2) [OF assms(3)] by (auto simp: file_bars_def stored_bars_def)
qed

lemma file_inv_load:
  assumes "file_inv cd files" "plain_identity i"
  obtains bs where "load_bars cd files i adj = Inr bs" "good_bars (i, adj) bs" "file_bars cd files (i, adj) = map_of (keyed bs)"
proof -
  obtain bs where bs: "load_bars cd files i adj = Inr bs" "good_bars (i, adj) bs" using assms unfolding file_inv_def by blast
  have "file_bars cd files (i, adj) = map_of (keyed bs)" by (simp add: file_bars_def stored_bars_def bs(1))
  then show thesis using that bs by blast
qed

lemma upsert_groups_adds:
  assumes "file_inv cd files" "distinct keys" "\<forall>b \<in> set bars. wf_daily_bar b" "\<forall>k \<in> set keys. plain_identity (fst k)"
  shows "\<exists>c' files'. upsert_groups cd bars files c keys = Inr (c', files') \<and> file_inv cd files'
    \<and> counts_total c' = counts_total c + (\<Sum>k \<leftarrow> keys. int (length (filter (\<lambda>b. bar_key b = k) bars)))
    \<and> (\<forall>i adj. plain_identity i \<longrightarrow> file_bars cd files' (i, adj) =
         (if (i, adj) \<in> set keys then add_bars (file_bars cd files (i, adj)) (filter (\<lambda>b. bar_key b = (i, adj)) bars) else file_bars cd files (i, adj)))"
  using assms
proof (induction keys arbitrary: files c)
  case (Cons k keys)
  obtain i adj where k: "k = (i, adj)" by (cases k)
  have pi: "plain_identity i" using Cons.prems(4) k by simp
  let ?grp = "filter (\<lambda>b. bar_key b = (i, adj)) bars"
  obtain bs where bs: "load_bars cd files i adj = Inr bs" "good_bars (i, adj) bs" "file_bars cd files (i, adj) = map_of (keyed bs)"
    using file_inv_load [OF Cons.prems(1) pi] by blast
  note idx = good_bars_dated [OF bs(2)]
  obtain m c1 dirty where g: "upsert_group (keyed bs) c False ?grp = (m, c1, dirty)" by (cases "upsert_group (keyed bs) c False ?grp")
  have grp: "dated_bars (i, adj) m" "map_of m = add_bars (map_of (keyed bs)) ?grp" "counts_total c1 = counts_total c + int (length ?grp)" "\<not> dirty \<Longrightarrow> m = keyed bs"
    using upsert_group_adds [OF conjunct1 [OF idx] _ g] Cons.prems(3) by simp_all
  let ?files = "if dirty then write_bars cd files i adj m else files"
  have inv: "file_inv cd ?files" using file_inv_write(1) [OF Cons.prems(1) pi grp(1)] Cons.prems(1) by simp
  have fb: "file_bars cd ?files (j, a) = (if (j, a) = (i, adj) then add_bars (file_bars cd files (i, adj)) ?grp else file_bars cd files (j, a))"
    if "plain_identity j" for j a
    using file_inv_write(2) [OF Cons.prems(1) pi grp(1) that, of a] grp(2,4) bs(3) by (cases dirty) auto
  have step: "upsert_groups cd bars files c (k # keys) = upsert_groups cd bars ?files c1 keys" using bs(1) idx g k by simp
  obtain c2 files2 where r: "upsert_groups cd bars ?files c1 keys = Inr (c2, files2)" "file_inv cd files2"
    "counts_total c2 = counts_total c1 + (\<Sum>k \<leftarrow> keys. int (length (filter (\<lambda>b. bar_key b = k) bars)))"
    "\<forall>i adj. plain_identity i \<longrightarrow> file_bars cd files2 (i, adj) =
       (if (i, adj) \<in> set keys then add_bars (file_bars cd ?files (i, adj)) (filter (\<lambda>b. bar_key b = (i, adj)) bars) else file_bars cd ?files (i, adj))"
    using Cons.IH [OF inv, of c1] Cons.prems(2,3,4) by auto
  have "file_bars cd files2 (j, a) = (if (j, a) \<in> set (k # keys) then add_bars (file_bars cd files (j, a)) (filter (\<lambda>b. bar_key b = (j, a)) bars) else file_bars cd files (j, a))"
    if "plain_identity j" for j a
    using r(4) fb [OF that, of a] that k Cons.prems(2) by auto
  then show ?case using step r(1-3) grp(3) k by (intro exI [of _ c2] exI [of _ files2]) simp
qed simp

lemma group_lengths:
  assumes "distinct ks" "f ` set xs \<subseteq> set ks"
  shows "(\<Sum>k \<leftarrow> ks. int (length (filter (\<lambda>x. f x = k) xs))) = int (length xs)"
  using assms
proof (induction xs)
  case (Cons x xs)
  have one: "(\<Sum>k \<leftarrow> ks. if f x = k then 1 else 0) = (1 :: int)"
    using Cons.prems by (simp add: sum_list_distinct_conv_sum_set)
  have "(\<Sum>k \<leftarrow> ks. int (length (filter (\<lambda>y. f y = k) (x # xs))))
      = (\<Sum>k \<leftarrow> ks. (if f x = k then 1 else 0) + int (length (filter (\<lambda>y. f y = k) xs)))"
    by (intro arg_cong [where f = sum_list] map_cong) auto
  then show ?case using Cons one by (simp add: sum_list_addf)
qed simp

lemma upsert_many_adds:
  assumes "file_inv cd files" "\<forall>b \<in> set bs. wf_daily_bar b \<and> plain_identity (hb_identity b)"
  shows "\<exists>c files'. upsert_many cd files bs = Inr (c, files') \<and> file_inv cd files' \<and> counts_total c = int (length bs)
    \<and> (\<forall>i adj. plain_identity i \<longrightarrow> file_bars cd files' (i, adj) = add_bars (file_bars cd files (i, adj)) (filter (\<lambda>b. bar_key b = (i, adj)) bs))"
proof -
  have keys: "distinct (group_keys bs)" "set (group_keys bs) = bar_key ` set bs" by (simp_all add: group_keys_def)
  have "\<forall>k \<in> set (group_keys bs). plain_identity (fst k)" using keys(2) assms(2) by (auto simp: bar_key_def)
  from upsert_groups_adds [OF assms(1) keys(1) _ this, of bs no_counts] assms(2) obtain c files' where
    r: "upsert_groups cd bs files no_counts (group_keys bs) = Inr (c, files')" "file_inv cd files'"
    "counts_total c = counts_total no_counts + (\<Sum>k \<leftarrow> group_keys bs. int (length (filter (\<lambda>b. bar_key b = k) bs)))"
    "\<forall>i adj. plain_identity i \<longrightarrow> file_bars cd files' (i, adj) =
       (if (i, adj) \<in> set (group_keys bs) then add_bars (file_bars cd files (i, adj)) (filter (\<lambda>b. bar_key b = (i, adj)) bs) else file_bars cd files (i, adj))"
    by blast
  have "filter (\<lambda>b. bar_key b = k) bs = []" if "k \<notin> set (group_keys bs)" for k using that keys(2) by (auto simp: filter_empty_conv)
  then have "file_bars cd files' (i, adj) = add_bars (file_bars cd files (i, adj)) (filter (\<lambda>b. bar_key b = (i, adj)) bs)" if "plain_identity i" for i adj
    using r(4) that by auto
  then show ?thesis using r(1-3) group_lengths [OF keys(1), of bar_key bs] keys(2) by (simp add: upsert_many_def counts_total_def no_counts_def)
qed

lemma stored_dates:
  assumes "good_bars k bs"
  shows "map hb_date bs = sorted_list_of_set (dom (map_of (keyed bs)))" "finite (dom (map_of (keyed bs)))"
proof -
  have "dom (map_of (keyed bs)) = set (map hb_date bs)" by (simp add: dom_map_of_conv_image_fst keyed_def image_image)
  moreover have "sorted_list_of_set (set (map hb_date bs)) = map hb_date bs"
    using assms sorted_list_of_set.idem_if_sorted_distinct [of "map hb_date bs"] by (simp only: good_bars_def strict_sorted_iff)
  ultimately show "map hb_date bs = sorted_list_of_set (dom (map_of (keyed bs)))" "finite (dom (map_of (keyed bs)))" by simp_all
qed

lemma good_bars_series:
  assumes "good_bars (i, adj) bs" "sized_text 128 i"
  shows "mk_bar_series i adj (filter P bs) = Inr \<lparr>br_identity = i, br_adjustment = adj, br_bars = filter P bs\<rparr>"
proof -
  have "sorted_wrt (<) (map hb_date (filter P bs))" using assms(1) by (simp add: good_bars_def sorted_wrt_map sorted_wrt_filter)
  then have d: "sorted (map hb_date (filter P bs))" "distinct (map hb_date (filter P bs))" by (simp_all add: strict_sorted_iff)
  then show ?thesis using assms distinct_card [OF d(2)]
    by (auto simp: mk_bar_series_def validate_bar_series_def Let_def list_ex_iff good_bars_def bar_key_def sorted_sort_id)
qed

lemma bars_on_date:
  assumes "good_bars k bs"
  shows "(let day = filter (\<lambda>b. d \<le> hb_date b \<and> hb_date b \<le> d) bs in if day = [] then None else Some (last day)) = map_of (keyed bs) d"
proof (cases "map_of (keyed bs) d")
  case None
  then have "filter (\<lambda>b. d \<le> hb_date b \<and> hb_date b \<le> d) bs = []" by (auto simp: filter_empty_conv map_of_eq_None_iff keyed_def image_image)
  then show ?thesis using None by simp
next
  case (Some b)
  let ?day = "filter (\<lambda>b. d \<le> hb_date b \<and> hb_date b \<le> d) bs"
  have b: "b \<in> set bs" "hb_date b = d" using map_of_SomeD [OF Some] by (auto simp: keyed_def)
  then have ne: "?day \<noteq> []" by (auto simp: filter_empty_conv)
  then have "last ?day \<in> set ?day" by (rule last_in_set)
  then have day: "last ?day \<in> set bs" "hb_date (last ?day) = hb_date b" using b(2) by auto
  have "inj_on hb_date (set bs)" using assms by (simp add: good_bars_def strict_sorted_iff distinct_map)
  then have "last ?day = b" using day b(1) by (simp add: inj_on_def)
  then show ?thesis using Some ne by (simp add: Let_def)
qed

interpretation file_history: lawful_bar_store "file_store cd" "file_inv cd" plain_identity "file_bars cd" for cd
proof unfold_locales
  fix files i adj
  assume a: "file_inv cd files" "plain_identity i"
  obtain bs where bs: "load_bars cd files i adj = Inr bs" "good_bars (i, adj) bs" "file_bars cd files (i, adj) = map_of (keyed bs)"
    using file_inv_load [OF a] by blast
  show "finite (dom (file_bars cd files (i, adj)))" using stored_dates(2) [OF bs(2)] bs(3) by simp
  show "st_available_dates (file_store cd) files i adj = Inr (sorted_list_of_set (dom (file_bars cd files (i, adj))))"
    using stored_dates(1) [OF bs(2)] bs by (simp add: file_store_def available_dates_def)
next
  fix files i d adj
  assume a: "file_inv cd files" "plain_identity i" "sized_text 128 i"
  obtain bs where bs: "load_bars cd files i adj = Inr bs" "good_bars (i, adj) bs" "file_bars cd files (i, adj) = map_of (keyed bs)"
    using file_inv_load [OF a(1,2)] by blast
  show "\<exists>se. st_read_range (file_store cd) files i d d adj = Inr se \<and> series_latest se = file_bars cd files (i, adj) d"
    using bs(1,3) good_bars_series [OF bs(2) a(3)] bars_on_date [OF bs(2), of d]
    by (simp add: file_store_def read_range_def series_latest_def Let_def split: if_splits)
next
  fix files and bs :: "daily_bar list"
  assume "file_inv cd files" "\<forall>b \<in> set bs. wf_daily_bar b \<and> plain_identity (hb_identity b)"
  then show "\<exists>counts s'. st_upsert_many (file_store cd) files bs = Inr (counts, s') \<and> file_inv cd s' \<and> counts_total counts = int (length bs)
      \<and> (\<forall>i adj. plain_identity i \<longrightarrow> file_bars cd s' (i, adj) = add_bars (file_bars cd files (i, adj)) (filter (\<lambda>b. bar_key b = (i, adj)) bs))"
    using upsert_many_adds [of cd files bs] by (simp add: file_store_def)
qed

section \<open>Claims\<close>

lemma add_bars_find: "add_bars m bs d = (case m d of Some b \<Rightarrow> Some b | None \<Rightarrow> List.find (\<lambda>b. hb_date b = d) bs)"
proof (induction bs arbitrary: m)
  case (Cons b bs)
  then show ?case by (auto simp: add_bar_def split: option.splits)
qed (simp split: option.split)

lemma find_filter: "List.find P (filter Q xs) = List.find (\<lambda>x. Q x \<and> P x) xs"
  by (induction xs) auto



text \<open>
  C37. Two identities whose names differ only in replaced characters share a file. When a bar of the first is stored, the second counts its day as available, its own bar of that day is
  refused as a conflict, and reading its day raises, because the stored bar belongs to the other identity.
\<close>

theorem shared_file_name_corrupts:
  assumes "lossless_codec cd" "wf_daily_bar a" "wf_daily_bar b" "map_of files (bar_path (hb_identity a) (hb_adjustment a)) = None"
    "hb_identity a \<noteq> hb_identity b" "bar_path (hb_identity a) (hb_adjustment a) = bar_path (hb_identity b) (hb_adjustment b)"
    "hb_date a = hb_date b" "hb_adjustment a = hb_adjustment b" "\<not> has_same_values a b"
  shows "\<exists>files'. upsert cd files a = Inr (INSERTED, files')
    \<and> available_dates cd files' (hb_identity b) (hb_adjustment b) = Inr [hb_date b]
    \<and> upsert cd files' b = Inr (BAR_CONFLICT, files')
    \<and> (\<exists>msg. read_range cd files' (hb_identity b) (hb_date b) (hb_date b) (hb_adjustment b) = Inl (ValidationError msg))"
proof -
  let ?path = "bar_path (hb_identity a) (hb_adjustment a)"
  let ?files = "AList.update ?path (bc_dump cd [a]) files"
  have up: "upsert cd files a = Inr (INSERTED, ?files)"
    using assms(4) by (simp add: upsert_def load_bars_def index_by_date_def write_bars_def Let_def)
  have ld: "load_bars cd ?files (hb_identity b) (hb_adjustment b) = Inr [a]"
    using assms(1,2) assms(6) [symmetric] by (simp add: load_bars_def update_conv' lossless_codec_def)
  have "\<not> mk_bar_series (hb_identity b) (hb_adjustment b) [a] = Inr se" "\<exists>msg. mk_bar_series (hb_identity b) (hb_adjustment b) [a] = Inl (ValidationError msg)" for se
    using assms(5) by (auto simp: mk_bar_series_def validate_bar_series_def Let_def)
  then show ?thesis
    using up ld assms(7,9) by (intro exI [of _ ?files]) (auto simp: available_dates_def upsert_def read_range_def index_by_date_def Let_def)
qed

section \<open>Witnesses\<close>

definition tcs_daily :: "string \<Rightarrow> date \<Rightarrow> decimal \<Rightarrow> daily_bar" where
  "tcs_daily i d close =
     \<lparr>hb_identity = i, hb_date = d, hb_open = 100, hb_high = 110, hb_low = 90, hb_close = close, hb_volume = 5, hb_adjustment = RAW, hb_source = ''dhan'',
      hb_source_version = None, hb_ingested_at = Aware 0 0\<rparr>"

definition plain_codec :: "daily_bar list bar_codec" where
  "plain_codec = \<lparr>bc_dump = (\<lambda>bs. bs), bc_load = Inr\<rparr>"

lemma plain_codec_lossless: "lossless_codec plain_codec"
  by (simp add: lossless_codec_def plain_codec_def)

lemma empty_files_inv: "file_inv plain_codec []"
  using plain_codec_lossless by (simp add: file_inv_def load_bars_def good_bars_def)

lemma tcs_daily_wf: "wf_daily_bar (tcs_daily ''NSE:TCS'' 20000 105)" "wf_daily_bar (tcs_daily ''NSE:TCS'' 20000 106)"
  "wf_daily_bar (tcs_daily ''NSE:M&M'' 20000 105)" "wf_daily_bar (tcs_daily ''NSE:M_M'' 20000 106)" "plain_identity ''NSE:TCS''"
  by code_simp+


definition stocked_history :: "daily_bar list bar_files history_service" where
  "stocked_history = \<lparr>hv_store = [], hv_calendar = weekday_calendar, hv_authority = False, hv_metrics = fresh_history_metrics\<rparr>"

definition memory_surroundings :: "instrument \<Rightarrow> fetch_surroundings" where
  "memory_surroundings inst =
     \<lparr>fs_started = 0, fs_ended = 1,
      fs_answer = memory_fetch \<lparr>ms_bars = [(''NSE:TCS'', [tcs_daily ''NSE:TCS'' 20000 105])], ms_fail_for = {}\<rparr> inst\<rparr>"


theorem shared_file_name_corrupts_witness:
  "\<exists>files'. upsert plain_codec [] (tcs_daily ''NSE:M&M'' 20000 105) = Inr (INSERTED, files')
     \<and> available_dates plain_codec files' ''NSE:M_M'' RAW = Inr [20000] \<and> upsert plain_codec files' (tcs_daily ''NSE:M_M'' 20000 106) = Inr (BAR_CONFLICT, files')"
proof -
  let ?a = "tcs_daily ''NSE:M&M'' 20000 105" and ?b = "tcs_daily ''NSE:M_M'' 20000 106"
  have h: "map_of ([] :: daily_bar list bar_files) (bar_path (hb_identity ?a) (hb_adjustment ?a)) = None" "hb_identity ?a \<noteq> hb_identity ?b"
    "hb_date ?a = hb_date ?b" "hb_adjustment ?a = hb_adjustment ?b" "\<not> has_same_values ?a ?b"
    by (simp_all add: tcs_daily_def has_same_values_def)
  have p: "bar_path (hb_identity ?a) (hb_adjustment ?a) = bar_path (hb_identity ?b) (hb_adjustment ?b)" by code_simp
  from shared_file_name_corrupts [OF plain_codec_lossless tcs_daily_wf(3,4) h(1,2) p h(3-5)] show ?thesis
    by (auto simp: tcs_daily_def)
qed

end
