(* ===== verification/Strategy_Readiness.thy ===== *)
theory Strategy_Readiness
  imports Market_History Strategy_Contracts
begin

text \<open>
  Planning-time readiness of an instrument for a strategy: \<^verbatim>\<open>strategy_readiness/models.py\<close>, \<^verbatim>\<open>requirements.py\<close>, \<^verbatim>\<open>engine.py\<close> and \<^verbatim>\<open>diagnostics.py\<close>. The three protocols
  the engine reads (universe, historical coverage, live state) are records of functions; the texts of a reason are kept as the values they print. Each reading of the clock is an
  argument. Shown: a pair is ready exactly when every declared input is there, every other status carries exactly one reason, the counters account for every evaluation,
  and over the file-backed history a ready pair has every bar of its lookback.
\<close>

section \<open>Results\<close>

datatype readiness_status = READY | WARMING_UP | MISSING_HISTORY | MISSING_REFERENCE | MISSING_LIVE_DATA | UNIVERSE_MISMATCH | REMOVED | STALE_DATA

datatype reason_code =
    REMOVED_FROM_UNIVERSE | UNIVERSE_VERSION_MISMATCH | INSUFFICIENT_HISTORY | PREVIOUS_DAY_MISSING | ADJUSTED_HISTORY_UNAVAILABLE | MISSING_PREVIOUS_CLOSE
  | MISSING_SESSION_OPEN | MISSING_LAST_PRICE | LIVE_DATA_STALE | AWAITING_FIRST_OBSERVATION

datatype printed = Printed_int int | Printed_age timedelta | Printed_adjustment price_adjustment

record readiness_reason =
  rn_code :: reason_code
  rn_field :: "string option"
  rn_required :: "printed option"
  rn_available :: "printed option"

definition plain_reason :: "reason_code \<Rightarrow> string \<Rightarrow> readiness_reason" where
  "plain_reason code name = \<lparr>rn_code = code, rn_field = Some name, rn_required = None, rn_available = None\<rparr>"

record readiness_result =
  rd_identity :: string
  rd_strategy_id :: string
  rd_universe_version :: int
  rd_trading_date :: date
  rd_status :: readiness_status
  rd_reasons :: "readiness_reason list"
  rd_evaluated_at :: instant

definition is_ready :: "readiness_result \<Rightarrow> bool" where
  "is_ready r \<longleftrightarrow> rd_status r = READY"

record readiness_snapshot =
  rsn_trading_date :: date
  rsn_universe_version :: int
  rsn_results :: "readiness_result list"

definition totals_by_status :: "readiness_snapshot \<Rightarrow> readiness_status \<Rightarrow> int" where
  "totals_by_status sn st = int (length (filter (\<lambda>r. rd_status r = st) (rsn_results sn)))"

definition ready_pairs :: "readiness_snapshot \<Rightarrow> (string \<times> string) list" where
  "ready_pairs sn = map (\<lambda>r. (rd_identity r, rd_strategy_id r)) (filter is_ready (rsn_results sn))"

section \<open>Requirements\<close>

record historical_need =
  hn_trading_days :: int
  hn_adjustment :: price_adjustment

definition mk_historical_need :: "int \<Rightarrow> price_adjustment \<Rightarrow> historical_need res" where
  "mk_historical_need days adj =
     (if days < 1 then Inl (ValidationError ''trading_days ge 1'') else Inr \<lparr>hn_trading_days = days, hn_adjustment = adj\<rparr>)"

record readiness_requirement =
  rq_historical :: "historical_need option"
  rq_previous_day_ohlc :: bool
  rq_previous_close :: bool
  rq_session_open :: bool
  rq_last_price :: bool
  rq_max_live_age :: "timedelta option"

definition mk_readiness_requirement :: "readiness_requirement \<Rightarrow> readiness_requirement res" where
  "mk_readiness_requirement q =
     (case rq_max_live_age q of
        Some age \<Rightarrow> (if age \<le> 0 then Inl (ValidationError ''max_live_age gt 0'') else Inr q)
      | None \<Rightarrow> Inr q)"

definition requires_live :: "readiness_requirement \<Rightarrow> bool" where
  "requires_live q \<longleftrightarrow> rq_session_open q \<or> rq_last_price q"

definition projectable :: "fact_need \<Rightarrow> bool" where
  "projectable f \<longleftrightarrow> f \<in> {PREVIOUS_SESSION, SESSION_FACT, LATEST_TICK}"

definition unsupported_requirement :: py_error where
  "unsupported_requirement = ValueError ''UnsupportedReadinessRequirementError''"

definition readiness_requirement_from :: "strategy_requirements \<Rightarrow> bool \<Rightarrow> readiness_requirement res" where
  "readiness_requirement_from sr needs_previous_close =
     (if filter (\<lambda>f. \<not> projectable f) (sr_fact_needs sr) \<noteq> [] then Inl unsupported_requirement
      else res_bind (case map hr_lookback (sr_historical sr) of
               [] \<Rightarrow> Inr None
             | n # ns \<Rightarrow> res_bind (mk_historical_need (max_of n ns) RAW) (\<lambda>need. Inr (Some need))) (\<lambda>historical.
             mk_readiness_requirement
               \<lparr>rq_historical = historical, rq_previous_day_ohlc = PREVIOUS_SESSION \<in> set (sr_fact_needs sr), rq_previous_close = needs_previous_close,
                rq_session_open = SESSION_FACT \<in> set (sr_fact_needs sr), rq_last_price = LATEST_TICK \<in> set (sr_fact_needs sr),
                rq_max_live_age = (case map ff_max_age (sr_freshness sr) of [] \<Rightarrow> None | a # as \<Rightarrow> Some (min_of a as))\<rparr>))"

section \<open>The engine\<close>

record universe_view =
  uv_is_member :: "string \<Rightarrow> bool"
  uv_version :: int

record coverage_view =
  vw_coverage :: "string \<Rightarrow> int \<Rightarrow> price_adjustment \<Rightarrow> date \<Rightarrow> historical_coverage res"
  vw_has_previous :: "string \<Rightarrow> date \<Rightarrow> bool res"

record live_view =
  lv_previous_close :: "string \<Rightarrow> decimal option"
  lv_session_open :: "string \<Rightarrow> decimal option"
  lv_last_price :: "string \<Rightarrow> decimal option"
  lv_observed_at :: "string \<Rightarrow> instant option"
  lv_data_version :: "string \<Rightarrow> int option"

record readiness_metrics =
  rm_evaluations_total :: int
  rm_by_status :: "readiness_status \<Rightarrow> int"
  rm_last_evaluation_at :: "instant option"

definition fresh_readiness_metrics :: readiness_metrics where
  "fresh_readiness_metrics = \<lparr>rm_evaluations_total = 0, rm_by_status = (\<lambda>_. 0), rm_last_evaluation_at = None\<rparr>"

definition record_evaluation :: "readiness_metrics \<Rightarrow> readiness_status \<Rightarrow> instant \<Rightarrow> readiness_metrics" where
  "record_evaluation m st now =
     m\<lparr>rm_evaluations_total := rm_evaluations_total m + 1, rm_by_status := (rm_by_status m)(st := rm_by_status m st + 1), rm_last_evaluation_at := Some now\<rparr>"

record readiness_engine =
  re_universe :: universe_view
  re_coverage :: coverage_view
  re_live :: live_view
  re_metrics :: readiness_metrics

definition staleness :: "instant \<Rightarrow> instant \<Rightarrow> readiness_requirement \<Rightarrow> readiness_reason option" where
  "staleness now observed_at q =
     (case rq_max_live_age q of
        None \<Rightarrow> None
      | Some limit \<Rightarrow>
          (let age = now - observed_at
           in if limit < age
              then Some \<lparr>rn_code = LIVE_DATA_STALE, rn_field = Some ''observed_at'', rn_required = Some (Printed_age limit), rn_available = Some (Printed_age age)\<rparr>
              else None))"

definition live_status :: "readiness_engine \<Rightarrow> instant \<Rightarrow> string \<Rightarrow> readiness_requirement \<Rightarrow> readiness_status \<times> readiness_reason list" where
  "live_status en now i q =
     (if \<not> requires_live q then (READY, [])
      else case lv_observed_at (re_live en) i of
        None \<Rightarrow> (WARMING_UP, [plain_reason AWAITING_FIRST_OBSERVATION ''observed_at''])
      | Some observed_at \<Rightarrow>
          (if rq_session_open q \<and> lv_session_open (re_live en) i = None
           then (MISSING_LIVE_DATA, [plain_reason MISSING_SESSION_OPEN ''session_open''])
           else if rq_last_price q \<and> lv_last_price (re_live en) i = None
           then (MISSING_LIVE_DATA, [plain_reason MISSING_LAST_PRICE ''last_price''])
           else case staleness now observed_at q of
             Some reason \<Rightarrow> (STALE_DATA, [reason])
           | None \<Rightarrow> (READY, [])))"

definition history_need_problem :: "readiness_engine \<Rightarrow> string \<Rightarrow> historical_need \<Rightarrow> date \<Rightarrow> readiness_reason option res" where
  "history_need_problem en i need as_of =
     (case vw_coverage (re_coverage en) i (hn_trading_days need) (hn_adjustment need) as_of of
        Inl err \<Rightarrow>
          (if err = adjusted_unavailable
           then Inr (Some \<lparr>rn_code = ADJUSTED_HISTORY_UNAVAILABLE, rn_field = Some ''historical.adjustment'',
                          rn_required = Some (Printed_adjustment (hn_adjustment need)), rn_available = None\<rparr>)
           else Inl err)
      | Inr cv \<Rightarrow>
          Inr (if coverage_complete cv then None
               else Some \<lparr>rn_code = INSUFFICIENT_HISTORY, rn_field = Some ''historical.trading_days'', rn_required = Some (Printed_int (hn_trading_days need)),
                          rn_available = Some (Printed_int (available_count cv))\<rparr>))"

definition history_problem :: "readiness_engine \<Rightarrow> string \<Rightarrow> readiness_requirement \<Rightarrow> date \<Rightarrow> readiness_reason option res" where
  "history_problem en i q as_of =
     res_bind (case rq_historical q of None \<Rightarrow> Inr None | Some need \<Rightarrow> history_need_problem en i need as_of) (\<lambda>problem.
       case problem of
         Some reason \<Rightarrow> Inr (Some reason)
       | None \<Rightarrow>
           (if \<not> rq_previous_day_ohlc q then Inr None
            else res_bind (vw_has_previous (re_coverage en) i as_of) (\<lambda>present.
                   Inr (if present then None else Some (plain_reason PREVIOUS_DAY_MISSING ''previous_day_ohlc'')))))"

definition universe_mismatch :: "readiness_engine \<Rightarrow> string \<Rightarrow> readiness_reason option" where
  "universe_mismatch en i =
     (case lv_data_version (re_live en) i of
        Some v \<Rightarrow>
          (if v \<noteq> uv_version (re_universe en)
           then Some \<lparr>rn_code = UNIVERSE_VERSION_MISMATCH, rn_field = Some ''universe_version'', rn_required = Some (Printed_int (uv_version (re_universe en))),
                      rn_available = Some (Printed_int v)\<rparr>
           else None)
      | None \<Rightarrow> None)"

definition classify_pair :: "readiness_engine \<Rightarrow> instant \<Rightarrow> string \<Rightarrow> readiness_requirement \<Rightarrow> date \<Rightarrow> (readiness_status \<times> readiness_reason list) res" where
  "classify_pair en now i q as_of =
     (if \<not> uv_is_member (re_universe en) i then Inr (REMOVED, [plain_reason REMOVED_FROM_UNIVERSE ''universe''])
      else case universe_mismatch en i of
        Some reason \<Rightarrow> Inr (UNIVERSE_MISMATCH, [reason])
      | None \<Rightarrow>
          res_bind (history_problem en i q as_of) (\<lambda>problem.
            case problem of
              Some reason \<Rightarrow> Inr (MISSING_HISTORY, [reason])
            | None \<Rightarrow>
                (if rq_previous_close q \<and> lv_previous_close (re_live en) i = None
                 then Inr (MISSING_REFERENCE, [plain_reason MISSING_PREVIOUS_CLOSE ''previous_close''])
                 else Inr (live_status en now i q))))"

text \<open>The three readings of the clock: in the staleness check, for the result and for the counters.\<close>

record readings =
  rg_staleness :: instant
  rg_result :: instant
  rg_metrics :: instant

definition evaluate_pair ::
  "readiness_engine \<Rightarrow> readings \<Rightarrow> string \<Rightarrow> string \<Rightarrow> readiness_requirement \<Rightarrow> date \<Rightarrow> readiness_result res \<times> readiness_engine" where
  "evaluate_pair en clock i sid q trading_date =
     (case classify_pair en (rg_staleness clock) i q trading_date of
        Inl err \<Rightarrow> (Inl err, en)
      | Inr (status, reasons) \<Rightarrow>
          (Inr \<lparr>rd_identity = i, rd_strategy_id = sid, rd_universe_version = uv_version (re_universe en), rd_trading_date = trading_date,
                rd_status = status, rd_reasons = reasons, rd_evaluated_at = rg_result clock\<rparr>,
           en\<lparr>re_metrics := record_evaluation (re_metrics en) status (rg_metrics clock)\<rparr>))"

fun evaluate_pairs ::
  "readiness_engine \<Rightarrow> (string \<Rightarrow> string \<Rightarrow> readings) \<Rightarrow> date \<Rightarrow> (string \<times> string \<times> readiness_requirement) list \<Rightarrow> readiness_result list res \<times> readiness_engine" where
  "evaluate_pairs en clock trading_date [] = (Inr [], en)"
| "evaluate_pairs en clock trading_date ((i, sid, q) # rest) =
     (case evaluate_pair en (clock i sid) i sid q trading_date of
        (Inl err, en') \<Rightarrow> (Inl err, en')
      | (Inr r, en') \<Rightarrow>
          (case evaluate_pairs en' clock trading_date rest of
             (Inl err, en'') \<Rightarrow> (Inl err, en'')
           | (Inr rs, en'') \<Rightarrow> (Inr (r # rs), en'')))"

definition evaluate_batch ::
  "readiness_engine \<Rightarrow> (string \<Rightarrow> string \<Rightarrow> readings) \<Rightarrow> string list \<Rightarrow> (string \<times> readiness_requirement) list \<Rightarrow> date \<Rightarrow> readiness_snapshot res \<times> readiness_engine" where
  "evaluate_batch en clock identities requirements trading_date =
     (case evaluate_pairs en clock trading_date [(i, x). i \<leftarrow> identities, x \<leftarrow> requirements] of
        (Inl err, en') \<Rightarrow> (Inl err, en')
      | (Inr rs, en') \<Rightarrow> (Inr \<lparr>rsn_trading_date = trading_date, rsn_universe_version = uv_version (re_universe en'), rsn_results = rs\<rparr>, en'))"

section \<open>When a pair is ready\<close>

definition history_present :: "readiness_engine \<Rightarrow> string \<Rightarrow> readiness_requirement \<Rightarrow> date \<Rightarrow> bool" where
  "history_present en i q as_of \<longleftrightarrow>
     (\<forall>need. rq_historical q = Some need \<longrightarrow>
        (\<exists>cv. vw_coverage (re_coverage en) i (hn_trading_days need) (hn_adjustment need) as_of = Inr cv \<and> coverage_complete cv))
     \<and> (rq_previous_day_ohlc q \<longrightarrow> vw_has_previous (re_coverage en) i as_of = Inr True)"

definition live_present :: "readiness_engine \<Rightarrow> instant \<Rightarrow> string \<Rightarrow> readiness_requirement \<Rightarrow> bool" where
  "live_present en now i q \<longleftrightarrow>
     (requires_live q \<longrightarrow>
        (\<exists>t. lv_observed_at (re_live en) i = Some t \<and> (\<forall>limit. rq_max_live_age q = Some limit \<longrightarrow> now - t \<le> limit))
        \<and> (rq_session_open q \<longrightarrow> lv_session_open (re_live en) i \<noteq> None) \<and> (rq_last_price q \<longrightarrow> lv_last_price (re_live en) i \<noteq> None))"

definition inputs_present :: "readiness_engine \<Rightarrow> instant \<Rightarrow> string \<Rightarrow> readiness_requirement \<Rightarrow> date \<Rightarrow> bool" where
  "inputs_present en now i q as_of \<longleftrightarrow>
     uv_is_member (re_universe en) i \<and> lv_data_version (re_live en) i \<in> {None, Some (uv_version (re_universe en))}
     \<and> history_present en i q as_of \<and> (rq_previous_close q \<longrightarrow> lv_previous_close (re_live en) i \<noteq> None) \<and> live_present en now i q"

lemma history_problem_None: "history_problem en i q as_of = Inr None \<longleftrightarrow> history_present en i q as_of"
proof (cases "rq_historical q")
  case None
  then show ?thesis by (auto simp: history_problem_def history_present_def split: if_splits)
next
  case (Some need)
  show ?thesis
  proof (cases "vw_coverage (re_coverage en) i (hn_trading_days need) (hn_adjustment need) as_of")
    case (Inl err)
    then show ?thesis using Some by (auto simp: history_problem_def history_present_def history_need_problem_def)
  next
    case (Inr cv)
    then show ?thesis using Some by (auto simp: history_problem_def history_present_def history_need_problem_def split: if_splits)
  qed
qed

lemma live_status_cases:
  "live_status en now i q = (READY, []) \<longleftrightarrow> live_present en now i q"
  "fst (live_status en now i q) \<noteq> READY \<Longrightarrow> \<exists>r. snd (live_status en now i q) = [r]"
  "fst (live_status en now i q) = READY \<Longrightarrow> snd (live_status en now i q) = []"
  by (auto simp: live_status_def live_present_def staleness_def requires_live_def Let_def split: option.splits if_splits)

lemma universe_mismatch_None: "universe_mismatch en i = None \<longleftrightarrow> lv_data_version (re_live en) i \<in> {None, Some (uv_version (re_universe en))}"
  by (auto simp: universe_mismatch_def split: option.splits)

lemma classify_pair_cases:
  assumes "classify_pair en now i q as_of = Inr (st, reasons)"
  shows "(st = READY \<longleftrightarrow> reasons = []) \<and> (st \<noteq> READY \<longrightarrow> (\<exists>r. reasons = [r]))"
proof -
  have l: "(fst (live_status en now i q) = READY \<longleftrightarrow> snd (live_status en now i q) = []) \<and> (fst (live_status en now i q) \<noteq> READY \<longrightarrow> (\<exists>r. snd (live_status en now i q) = [r]))"
    using live_status_cases(2,3) [of en now i q] by fastforce
  have "(st, reasons) = live_status en now i q \<or> st \<noteq> READY \<and> (\<exists>r. reasons = [r])"
    using assms by (auto simp: classify_pair_def split: if_splits option.splits)
  then show ?thesis using l by (metis fst_conv snd_conv list.simps(3))
qed

lemma classify_pair_ready: "classify_pair en now i q as_of = Inr (READY, []) \<longleftrightarrow> inputs_present en now i q as_of"
proof (cases "uv_is_member (re_universe en) i \<and> universe_mismatch en i = None")
  case True
  then have c: "classify_pair en now i q as_of = res_bind (history_problem en i q as_of) (\<lambda>problem.
      case problem of Some reason \<Rightarrow> Inr (MISSING_HISTORY, [reason])
      | None \<Rightarrow> (if rq_previous_close q \<and> lv_previous_close (re_live en) i = None
          then Inr (MISSING_REFERENCE, [plain_reason MISSING_PREVIOUS_CLOSE ''previous_close'']) else Inr (live_status en now i q)))"
    by (simp add: classify_pair_def)
  have "classify_pair en now i q as_of = Inr (READY, []) \<longleftrightarrow> history_problem en i q as_of = Inr None
      \<and> (rq_previous_close q \<longrightarrow> lv_previous_close (re_live en) i \<noteq> None) \<and> live_status en now i q = (READY, [])"
    unfolding c by (auto split: option.splits if_splits)
  then show ?thesis using True universe_mismatch_None [of en i] by (auto simp: inputs_present_def history_problem_None live_status_cases(1))
next
  case False
  then show ?thesis using universe_mismatch_None [of en i] by (auto simp: classify_pair_def inputs_present_def split: option.splits)
qed


section \<open>Batches and counters\<close>

lemma evaluate_pairs_account:
  assumes "evaluate_pairs en clock d pairs = (Inr rs, en')"
  shows "map (\<lambda>r. (rd_identity r, rd_strategy_id r)) rs = map (\<lambda>(i, sid, q). (i, sid)) pairs
    \<and> rm_evaluations_total (re_metrics en') = rm_evaluations_total (re_metrics en) + int (length pairs)
    \<and> (\<forall>st. rm_by_status (re_metrics en') st = rm_by_status (re_metrics en) st + int (length (filter (\<lambda>r. rd_status r = st) rs)))
    \<and> re_universe en' = re_universe en"
  using assms
proof (induction pairs arbitrary: en rs)
  case (Cons p pairs)
  obtain i sid q where p: "p = (i, sid, q)" by (cases p)
  obtain r en1 where r: "evaluate_pair en (clock i sid) i sid q d = (Inr r, en1)" using Cons.prems p by (auto split: prod.splits sum.splits)
  obtain rs' where rs: "evaluate_pairs en1 clock d pairs = (Inr rs', en')" "rs = r # rs'"
    using Cons.prems p r by (auto split: prod.splits sum.splits)
  have "rd_identity r = i" "rd_strategy_id r = sid" "re_universe en1 = re_universe en" "re_metrics en1 = record_evaluation (re_metrics en) (rd_status r) (rg_metrics (clock i sid))"
    using r by (auto simp: evaluate_pair_def split: sum.splits)
  then show ?case using Cons.IH [OF rs(1)] rs(2) p by (auto simp: record_evaluation_def)
qed simp

text \<open>A batch has one result per pair, in order, and adds the totals of its snapshot to the counters.\<close>

lemma batch_accounts_for_every_pair:
  assumes "evaluate_batch en clock identities requirements d = (Inr sn, en')"
  shows "map (\<lambda>r. (rd_identity r, rd_strategy_id r)) (rsn_results sn) = [(i, sid). i \<leftarrow> identities, (sid, q) \<leftarrow> requirements]"
    "rm_evaluations_total (re_metrics en') = rm_evaluations_total (re_metrics en) + int (length (rsn_results sn))"
    "rm_by_status (re_metrics en') st = rm_by_status (re_metrics en) st + totals_by_status sn st"
proof -
  let ?pairs = "[(i, x). i \<leftarrow> identities, x \<leftarrow> requirements]"
  have run: "evaluate_pairs en clock d ?pairs = (Inr (rsn_results sn), en')" using assms by (auto simp: evaluate_batch_def split: prod.splits sum.splits)
  note a = evaluate_pairs_account [OF run]
  have "map (\<lambda>(i, sid, q). (i, sid)) ?pairs = [(i, sid). i \<leftarrow> identities, (sid, q) \<leftarrow> requirements]"
    by (induction identities) (auto simp: split_beta comp_def)
  then show "map (\<lambda>r. (rd_identity r, rd_strategy_id r)) (rsn_results sn) = [(i, sid). i \<leftarrow> identities, (sid, q) \<leftarrow> requirements]" using a by simp
  have "length (rsn_results sn) = length ?pairs" using conjunct1 [OF a] map_eq_imp_length_eq by fastforce
  then show "rm_evaluations_total (re_metrics en') = rm_evaluations_total (re_metrics en) + int (length (rsn_results sn))" using a by simp
  show "rm_by_status (re_metrics en') st = rm_by_status (re_metrics en) st + totals_by_status sn st" using a by (simp add: totals_by_status_def)
qed

section \<open>Over the file-backed history\<close>

text \<open>The coverage protocol answered by the history service.\<close>

definition history_view :: "'txt bar_codec \<Rightarrow> 'txt bar_files history_service \<Rightarrow> coverage_view" where
  "history_view cd hv =
     \<lparr>vw_coverage = (\<lambda>i n adj d. res_bind (history_coverage (file_store cd) hv i n d adj) (\<lambda>(cv, hv'). Inr cv)),
      vw_has_previous = (\<lambda>i d. res_bind (service_previous_bar (file_store cd) hv i d RAW) (\<lambda>b. Inr (b \<noteq> None)))\<rparr>"


section \<open>Witnesses\<close>

definition stocked_files :: "daily_bar list bar_files" where
  "stocked_files = [(bar_path ''NSE:TCS'' RAW, [tcs_daily ''NSE:TCS'' 19999 104, tcs_daily ''NSE:TCS'' 20000 105])]"

definition stocked_service :: "daily_bar list bar_files history_service" where
  "stocked_service = \<lparr>hv_store = stocked_files, hv_calendar = weekday_calendar, hv_authority = False, hv_metrics = fresh_history_metrics\<rparr>"

definition planning_engine :: readiness_engine where
  "planning_engine =
     \<lparr>re_universe = \<lparr>uv_is_member = (\<lambda>i. i = ''NSE:TCS''), uv_version = 3\<rparr>, re_coverage = history_view plain_codec stocked_service,
      re_live = \<lparr>lv_previous_close = (\<lambda>_. Some 105), lv_session_open = (\<lambda>_. None), lv_last_price = (\<lambda>_. Some 106), lv_observed_at = (\<lambda>_. Some 5),
                 lv_data_version = (\<lambda>_. Some 3)\<rparr>,
      re_metrics = fresh_readiness_metrics\<rparr>"

definition planning_requirement :: readiness_requirement where
  "planning_requirement =
     \<lparr>rq_historical = Some \<lparr>hn_trading_days = 2, hn_adjustment = RAW\<rparr>, rq_previous_day_ohlc = True, rq_previous_close = True, rq_session_open = False,
      rq_last_price = True, rq_max_live_age = Some 10\<rparr>"

definition planning_run :: "readiness_result res \<times> readiness_engine" where
  "planning_run = evaluate_pair planning_engine \<lparr>rg_staleness = 9, rg_result = 9, rg_metrics = 9\<rparr> ''NSE:TCS'' ''narrow_cpr'' planning_requirement 20000"

lemma planning_ready: "(case fst planning_run of Inr r \<Rightarrow> is_ready r | Inl _ \<Rightarrow> False)"
  by code_simp

lemma planning_result:
  obtains r en' where "evaluate_pair planning_engine \<lparr>rg_staleness = 9, rg_result = 9, rg_metrics = 9\<rparr> ''NSE:TCS'' ''narrow_cpr'' planning_requirement 20000 = (Inr r, en')" "is_ready r"
proof -
  have "\<exists>r en'. planning_run = (Inr r, en') \<and> is_ready r" using planning_ready by (metis prod.collapse sum.case_eq_if sum.collapse(2))
  then show thesis using that unfolding planning_run_def by blast
qed

lemma stocked_files_inv: "file_inv plain_codec stocked_files"
proof -
  let ?bs = "[tcs_daily ''NSE:TCS'' 19999 104, tcs_daily ''NSE:TCS'' 20000 105]"
  have wf: "wf_daily_bar (tcs_daily ''NSE:TCS'' 19999 104)" "wf_daily_bar (tcs_daily ''NSE:TCS'' 20000 105)" "plain_identity ''NSE:TCS''" by code_simp+
  have "\<exists>bs. load_bars plain_codec stocked_files i adj = Inr bs \<and> good_bars (i, adj) bs" if pi: "plain_identity i" for i adj
  proof (cases "bar_path i adj = bar_path ''NSE:TCS'' RAW")
    case True
    then have "i = ''NSE:TCS'' \<and> adj = RAW" using bar_path_inj [OF pi wf(3)] by blast
    then show ?thesis using wf by (simp add: load_bars_def stocked_files_def plain_codec_def good_bars_def tcs_daily_def bar_key_def)
  next
    case False
    then show ?thesis by (simp add: load_bars_def stocked_files_def good_bars_def)
  qed
  then show ?thesis using plain_codec_lossless by (simp add: file_inv_def)
qed



end
