(* ===== verification/Spec2Isabelle.thy ===== *)
theory Spec2Isabelle
  imports Resampling Tick_Properties Ipc_Pipeline Strategy_Routing Universe_Promotion Strategy_Catalog Sector_Shadow Historical_Warmup Strategy_Readiness
begin

text \<open>
  A verification of the ApexScan backend (\<^verbatim>\<open>src/backend/app\<close>): the market engine that turns canonical broker
  data into versioned per-instrument market contexts, the authoritative historical side beside it, the strategies that evaluate
  those contexts and the scanner that ranks their results, the governed universe of instruments, and the inter-process
  channel over which canonical events travel from the ingesting process to the backend.

  \<^bold>\<open>The program.\<close> A broker adapter produces ticks, quotes, references and feed-continuity facts
  (\<^verbatim>\<open>schemas/market_data.py\<close>). The tick engine (\<^verbatim>\<open>market_engine/tick_engine.py\<close>) validates each against the state
  registry, classifies the trading session, aggregates ticks into live candles, resolves the provider's session statistics,
  builds the next context of the instrument, publishes it on the event bus and stores it. Historical candles of larger
  timeframes are reconstructed from smaller authoritative ones over the very same buckets. The strategy manager
  (\<^verbatim>\<open>strategy_manager/manager.py\<close>) registers the requirements of the strategies it starts, routes every new context to the running
  strategies it triggers, isolates their failures and publishes their results; the cross-instrument scanner
  (\<^verbatim>\<open>services/cross_instrument_scanner.py\<close>) keeps one ranked snapshot per strategy. The universe of instruments is resolved from a
  membership, a provider mapping and the sector memberships, and promoted to numbered immutable files (\<^verbatim>\<open>market_universe/\<close>). The sector shadow
  runtime (\<^verbatim>\<open>services/sector_intelligence/\<close>) listens to the same contexts, keeps the newest observation of each instrument and periodically computes the
  metrics and the ranking of every sector. The shadow publisher (\<^verbatim>\<open>market_ipc/publisher.py\<close>) wraps canonical events into envelopes with a restart-unique identity and
  appends them to a Redis stream; the consumer (\<^verbatim>\<open>market_ipc/consumer.py\<close>) reads, checks, deduplicates and applies them.

  \<^bold>\<open>The theories and the code.\<close>
  \<^item> \<open>Apex_Prelude\<close>: errors as values (\<open>'a res\<close>), instants and dates as integers (microseconds and days), time zones as
    functions from instants to offsets with the locale \<open>steady_day\<close> for a date of constant offset, bounded
    queues, insertion-ordered grouping.
  \<^item> \<open>Market_Data\<close>: \<^verbatim>\<open>schemas/market_data.py\<close>; a record per model and its validating constructor.
  \<^item> \<open>Market_Session\<close>: \<^verbatim>\<open>market_engine/timeframe.py\<close>, \<^verbatim>\<open>session.py\<close>, \<^verbatim>\<open>historical/calendar_window.py\<close>; schedules, the
    trading calendar, the classification of an instant, the two backward searches.
  \<^item> \<open>Buckets\<close>: \<^verbatim>\<open>market_engine/buckets.py\<close>; the bucket of an instant and the enumeration of a session.
  \<^item> \<open>Market_Context\<close>: \<^verbatim>\<open>market_engine/context.py\<close>, \<^verbatim>\<open>historical/context.py\<close>; value types and the builders of contexts.
  \<^item> \<open>Session_Statistics\<close>: \<^verbatim>\<open>market_engine/session_statistics.py\<close>.
  \<^item> \<open>Candle_Engine\<close>, \<open>Candle_Properties\<close>: \<^verbatim>\<open>market_engine/candle_engine.py\<close>, \<^verbatim>\<open>historical/reconciliation.py\<close>; the
    engine as a record, every method as a function on it, and its reachable states as an inductive predicate.
  \<^item> \<open>Resampling\<close>: \<^verbatim>\<open>historical/resampling.py\<close>, \<^verbatim>\<open>historical/session_candles.py\<close>.
  \<^item> \<open>Historical_Source\<close>: \<^verbatim>\<open>historical/source.py\<close>, \<^verbatim>\<open>cache.py\<close>, \<^verbatim>\<open>coordinator.py\<close>; the coordinator's tasks start and end as separate steps, and its
    reachable states are an inductive predicate over the answers a source may give. \<open>Historical_Planner\<close>, \<open>Historical_Warmup\<close>: \<^verbatim>\<open>historical/service.py\<close>, the
    planner, and warmup and repair with the suspension at the gathered fetch.
  \<^item> \<open>Market_History\<close>: \<^verbatim>\<open>market_history/\<close>; daily bars, coverage, the store of one file per instrument, the backfill service. The locale
    \<open>lawful_bar_store\<close> is the contract the service relies on, interpreted on the file store. \<open>Strategy_Readiness\<close>: \<^verbatim>\<open>strategy_readiness/\<close>; which strategy
    could evaluate which instrument now.
  \<^item> \<open>Event_Bus\<close>: \<^verbatim>\<open>events/bus.py\<close>; handlers are tokens, and which of them raise on which event is a parameter.
  \<^item> \<open>Tick_Engine\<close>, \<open>Tick_Properties\<close>: \<^verbatim>\<open>market_engine/tick_engine.py\<close>, \<^verbatim>\<open>state.py\<close>, \<^verbatim>\<open>validation.py\<close>, \<^verbatim>\<open>sequence.py\<close>,
    \<^verbatim>\<open>clock.py\<close>, \<^verbatim>\<open>events.py\<close>, \<^verbatim>\<open>tick_diagnostics.py\<close>; the published events are a log in the engine's state.
  \<^item> \<open>Strategy_Contracts\<close>: \<^verbatim>\<open>strategies/*.py\<close>. \<open>Strategy_Lifecycle\<close>, \<open>Strategy_Emission\<close>, \<open>Strategy_Provisioning\<close>,
    \<open>Strategy_Manager\<close>, \<open>Strategy_Routing\<close>: \<^verbatim>\<open>strategy_manager/*.py\<close>; \<^verbatim>\<open>start\<close> is split at the awaited warmup so that calls interleave.
  \<^item> \<open>Decimal_Arithmetic\<close>: the operations of Python's \<^verbatim>\<open>decimal\<close> with precision and all eight rounding modes. \<open>Strategy_Calculators\<close>,
    \<open>Strategy_Implementations\<close>: \<^verbatim>\<open>strategies/implementations/\<close>; the locale \<open>lawful_strategy\<close> is the contract between strategies, manager and
    scanner, interpreted on each of the six.
  \<^item> \<open>Result_Scanner\<close>: \<^verbatim>\<open>services/cross_instrument_scanner.py\<close>. \<open>Strategy_Catalog\<close>: \<^verbatim>\<open>services/strategy_catalog.py\<close> and the strategies inside
    the manager.
  \<^item> \<open>Sector_Membership\<close>: \<^verbatim>\<open>market_intelligence/sector/models.py\<close>, \<^verbatim>\<open>membership.py\<close>. \<open>Universe_Snapshot\<close>: \<^verbatim>\<open>market_universe/snapshot.py\<close>,
    \<^verbatim>\<open>resolver.py\<close>, \<^verbatim>\<open>views.py\<close>, \<^verbatim>\<open>diagnostics.py\<close>. \<open>Universe_Store\<close>, \<open>Universe_Promotion\<close>: \<^verbatim>\<open>market_universe/store.py\<close> over a model of a
    directory with inodes, as single calls and as interleaved file-system calls.
  \<^item> \<open>Sector_Metrics\<close>, \<open>Sector_Participation\<close>: \<^verbatim>\<open>market_intelligence/sector/metrics/\<close> and \<^verbatim>\<open>participation/\<close>, every calculation under a decimal context.
    \<open>Sector_Shadow\<close>: \<^verbatim>\<open>services/sector_intelligence/\<close>; the runtime as a record, an evaluation as its two steps around the suspension point.
  \<^item> \<open>Ipc_Envelope\<close>: \<^verbatim>\<open>market_ipc/events.py\<close>, \<^verbatim>\<open>envelope.py\<close>, \<^verbatim>\<open>config.py\<close>, \<^verbatim>\<open>dedup.py\<close>; the locale \<open>dedup_window\<close> is the contract of
    a deduplicator, interpreted on the bounded one.
  \<^item> \<open>Ipc_Consumer\<close>: \<^verbatim>\<open>market_ipc/consumer.py\<close>. \<open>Ipc_Publisher\<close>: \<^verbatim>\<open>market_ipc/publisher.py\<close>, \<^verbatim>\<open>epoch.py\<close>, the publication path of
    \<^verbatim>\<open>transport.py\<close>; the locale \<open>epoch_allocator\<close> is the protocol of that name, met by the Redis allocator.
    \<open>Ipc_Pipeline\<close>: both ends together.

  \<^bold>\<open>What is shown.\<close> Buckets partition the session, the enumeration returns for every valid timeframe, and the live and the
  historical side agree on the bucket of every instant. The classifier and the backward searches are exact. A live bucket is the OHLC of its
  ticks; every reachable candle snapshot is well formed; flushing, reconciliation and the continuity taint do
  exactly what they promise. Reconstruction emits exactly the buckets their sources tile. Loads of history are coalesced and bounded, the cache cannot be told from a stable
  source, every fetch window has room for its lookback, and a warmup accounts for every requirement whatever the order of the answers. The bar store is a
  map in which the first bar written for a day stays, a backfill stores exactly the missing days it was given, and a pair is reported ready exactly when all its inputs are present. Session statistics change only by a
  verified source and progress monotonically within a session. Accepted events advance one version each, rejected ones change
  nothing, and over any run versions and sequence numbers are gapless. The lifecycle implements its transition table, running
  strategies are provisioned under every interleaving, one context is routed exactly and failures are isolated, and emission follows the declared
  policy. The calculators are within proved bounds of the exact values in every rounding mode, the production strategies never raise or
  fault on well-formed contexts, and the scanner ranks exactly the newest reports. Sector memberships resolve uniquely, sector metrics account for every expected
  member, rankings are competition rankings by directional strength, the shadow runtime holds exactly the newest observations and none of its evaluations fails, universe resolution accounts for
  every instrument, promotion is a round trip with gapless versions, and concurrent promotions never share a version and always
  end. On the channel identities are unique over all restarts, the consumer applies each event at most once and loses none on which the
  sink failed, and end to end delivery is exactly once within the dedup window. The theorems of kind error state where the code departs
  from its comments or loses data: a raising subscriber makes a version repeat, an unhashable schema version escapes the poll cycle, a cached refetch loses early
  daily bars, repairs miss special sessions, instruments that share a bar file name corrupt each other. Lemmas of the component theories add others: a timeframe added during
  a session clears the continuity taint, a bar after the close withholds the last bucket, a longer history silences the relative-range
  strategy, concurrent promotions of the same content collide.

  \<^bold>\<open>Parameters and bounds.\<close> Decimals are rationals. Where the code only compares, adds within a candle or copies them this is exact; where it divides or
  multiplies, in the calculators and the sector metrics, every operation rounds as the decimal context says. Negating a score in \<^verbatim>\<open>strategy_manager/ranking.py\<close> is taken as exact,
  which it is up to 28 digits. Integers are unbounded as in Python, text is a list of single-byte characters. Time zones, JSON
  (de)serialisation, SHA-256, whitespace stripping where Unicode matters, the trading-day table, Redis \<^verbatim>\<open>INCR\<close> and the answers of Redis, the sink
  and the clocks are arguments; hypotheses about them are named where they are used and instantiated in the witnesses. Loops that
  depend on the data are total functions; the bucket enumeration and the backward searches carry termination proofs
  or return an option whose presence is proved; the only bounds are the code's own (64 allocation retries, 14 days of lookahead).

  \<^bold>\<open>Not modelled.\<close> Parsing of settings, HTTP, logging, the broker protocol, asynchronous scheduling of the runtime services, the Redis
  reads, the compacted reference store and the calendar file.
\<close>

section \<open>Properties that span components\<close>



end
